(* ===== verification/Mp2bs_Prelude.thy ===== *)
theory Mp2bs_Prelude
  imports Main "HOL-Library.Word"
begin

text \<open>
  The vocabulary every other theory of the development shares: the machine integers of Go,
  the values that stand for its error returns and its run-time panics, the error bind that
  models \<^verbatim>\<open>if err != nil { return nil, err }\<close>, Go's slice expressions, and the readers and
  writers of package \<^verbatim>\<open>bytes\<close> that the packet codecs use.
\<close>

section \<open>Machine integers\<close>

type_synonym u8 = "8 word"
type_synonym u16 = "16 word"
type_synonym u32 = "32 word"
type_synonym u64 = "64 word"
type_synonym bytes = "u8 list"

named_theorems codec \<open>evaluation rules of readers and writers\<close>
named_theorems go_split \<open>case rules for the error bind and for slices\<close>

section \<open>Errors and panics\<close>

text \<open>
  \<open>EOF\<close> and \<open>UnexpectedEOF\<close> are the error values of package \<^verbatim>\<open>io\<close>, \<open>Err\<close> an error value made from a message
  with \<^verbatim>\<open>errors.New\<close> or \<^verbatim>\<open>fmt.Errorf\<close>; \<open>Blocked\<close> is the outcome of a call that does not return
  because it waits for input that is not there; the other constructors are run-time panics of the
  language or the calls of \<^verbatim>\<open>panic\<close> in the source.
\<close>

datatype fault =
    EOF
  | UnexpectedEOF
  | Err string
  | Blocked
  | IndexOutOfRange
  | SliceOutOfRange
  | DivideByZero
  | NilDereference
  | Panic string

type_synonym 'a result = "fault + 'a"

definition bindE :: "'a result \<Rightarrow> ('a \<Rightarrow> 'b result) \<Rightarrow> 'b result" where
  "bindE m f = (case m of Inl e \<Rightarrow> Inl e | Inr x \<Rightarrow> f x)"

lemma bindE_Inr [simp, codec]: "bindE (Inr x) f = f x"
  by (simp add: bindE_def)

lemma bindE_Inl [simp, codec]: "bindE (Inl e) f = Inl e"
  by (simp add: bindE_def)

lemma bindE_eq_Inr_iff: "bindE m f = Inr y \<longleftrightarrow> (\<exists>x. m = Inr x \<and> f x = Inr y)"
  by (cases m) simp_all

lemma bindE_split [go_split]:
  "P (bindE m f) \<longleftrightarrow> (\<forall>e. m = Inl e \<longrightarrow> P (Inl e)) \<and> (\<forall>x. m = Inr x \<longrightarrow> P (f x))"
  by (cases m) simp_all

lemma bindE_cong [fundef_cong]:
  "m = m' \<Longrightarrow> (\<And>x. m' = Inr x \<Longrightarrow> f x = f' x) \<Longrightarrow> bindE m f = bindE m' f'"
  by (cases m') simp_all

text \<open>A \<^verbatim>\<open>for\<close> loop over the elements of a list whose body may fail.\<close>

fun foldE :: "('a \<Rightarrow> 's \<Rightarrow> 's result) \<Rightarrow> 'a list \<Rightarrow> 's \<Rightarrow> 's result" where
  "foldE f [] s = Inr s"
| "foldE f (x # xs) s = bindE (f x s) (foldE f xs)"

lemma foldE_append: "foldE f (xs @ ys) s = bindE (foldE f xs s) (foldE f ys)"
proof (induction xs arbitrary: s)
  case (Cons x xs)
  then show ?case by (cases "f x s") simp_all
qed simp

lemma foldE_invariant:
  assumes "\<And>x s s'. x \<in> set xs \<Longrightarrow> I s \<Longrightarrow> f x s = Inr s' \<Longrightarrow> I s'"
    and "I s" and "foldE f xs s = Inr s'"
  shows "I s'"
  using assms
proof (induction xs arbitrary: s)
  case (Cons x xs)
  then show ?case by (auto simp: bindE_eq_Inr_iff)
qed simp

section \<open>Slices\<close>

text \<open>\<^verbatim>\<open>xs[i]\<close> and \<^verbatim>\<open>xs[i:j]\<close> panic when the index is out of range.\<close>

definition go_index :: "'a list \<Rightarrow> nat \<Rightarrow> 'a result" where
  "go_index xs i = (if i < length xs then Inr (xs ! i) else Inl IndexOutOfRange)"

definition go_update :: "'a list \<Rightarrow> nat \<Rightarrow> 'a \<Rightarrow> 'a list result" where
  "go_update xs i v = (if i < length xs then Inr (xs[i := v]) else Inl IndexOutOfRange)"

text \<open>The same with an index of type \<^verbatim>\<open>int\<close>, which may be negative.\<close>

definition go_index_int :: "'a list \<Rightarrow> int \<Rightarrow> 'a result" where
  "go_index_int xs i = (if i < 0 then Inl IndexOutOfRange else go_index xs (nat i))"

definition go_update_int :: "'a list \<Rightarrow> int \<Rightarrow> 'a \<Rightarrow> 'a list result" where
  "go_update_int xs i v = (if i < 0 then Inl IndexOutOfRange else go_update xs (nat i) v)"

definition go_slice :: "'a list \<Rightarrow> nat \<Rightarrow> nat \<Rightarrow> 'a list result" where
  "go_slice xs i j =
     (if i \<le> j \<and> j \<le> length xs then Inr (take (j - i) (drop i xs)) else Inl SliceOutOfRange)"

text \<open>\<^verbatim>\<open>copy(dst, src)\<close> overwrites the first \<open>min (len dst) (len src)\<close> elements of \<open>dst\<close>.\<close>

definition go_copy :: "'a list \<Rightarrow> 'a list \<Rightarrow> 'a list" where
  "go_copy dst src = take (length dst) src @ drop (length src) dst"

text \<open>\<^verbatim>\<open>copy(dst[i:j], src)\<close>: the slice shares its array with \<open>dst\<close>.\<close>

definition go_copy_slice :: "'a list \<Rightarrow> nat \<Rightarrow> nat \<Rightarrow> 'a list \<Rightarrow> 'a list result" where
  "go_copy_slice dst i j src =
     bindE (go_slice dst i j) (\<lambda>s. Inr (take i dst @ go_copy s src @ drop j dst))"

lemma go_index_Inr [simp]: "i < length xs \<Longrightarrow> go_index xs i = Inr (xs ! i)"
  by (simp add: go_index_def)

lemma go_index_Inl [simp]: "length xs \<le> i \<Longrightarrow> go_index xs i = Inl IndexOutOfRange"
  by (simp add: go_index_def)

lemma go_update_Inr [simp]: "i < length xs \<Longrightarrow> go_update xs i v = Inr (xs[i := v])"
  by (simp add: go_update_def)

lemma go_index_int_Inr [simp]: "0 \<le> i \<Longrightarrow> nat i < length xs \<Longrightarrow> go_index_int xs i = Inr (xs ! nat i)"
  by (simp add: go_index_int_def)

lemma go_update_int_Inr [simp]:
  "0 \<le> i \<Longrightarrow> nat i < length xs \<Longrightarrow> go_update_int xs i v = Inr (xs[nat i := v])"
  by (simp add: go_update_int_def)

lemma go_slice_Inr [simp]:
  "i \<le> j \<Longrightarrow> j \<le> length xs \<Longrightarrow> go_slice xs i j = Inr (take (j - i) (drop i xs))"
  by (simp add: go_slice_def)

lemma go_index_eq_Inr_iff: "go_index xs i = Inr v \<longleftrightarrow> i < length xs \<and> xs ! i = v"
  by (auto simp: go_index_def)

lemma go_update_eq_Inr_iff: "go_update xs i v = Inr ys \<longleftrightarrow> i < length xs \<and> ys = xs[i := v]"
  by (auto simp: go_update_def)

lemma length_go_copy [simp]: "length (go_copy dst src) = length dst"
  by (auto simp: go_copy_def)

lemma go_copy_same_length [simp]: "length src = length dst \<Longrightarrow> go_copy dst src = src"
  by (simp add: go_copy_def)

lemma go_copy_slice_Inr [simp]:
  "i \<le> j \<Longrightarrow> j \<le> length dst \<Longrightarrow> length src = j - i \<Longrightarrow>
   go_copy_slice dst i j src = Inr (take i dst @ src @ drop j dst)"
  by (simp add: go_copy_slice_def)

section \<open>Readers and writers of package bytes\<close>

text \<open>A \<^verbatim>\<open>bytes.Reader\<close> is the list of bytes it has not delivered yet.\<close>

type_synonym 'a reader = "bytes \<Rightarrow> ('a \<times> bytes) result"

definition ReadByte :: "u8 reader" where
  "ReadByte r = (case r of [] \<Rightarrow> Inl EOF | b # r' \<Rightarrow> Inr (b, r'))"

text \<open>
  \<^verbatim>\<open>p := make([]byte, n); r.Read(p)\<close> with the result of \<^verbatim>\<open>Read\<close> ignored: \<open>p\<close> starts with the
  bytes that are left and keeps its zeros where the reader ran out.
\<close>

definition ReadInto :: "nat \<Rightarrow> bytes \<Rightarrow> bytes \<times> bytes" where
  "ReadInto n r = (take n r @ replicate (n - length r) 0, drop n r)"

text \<open>\<^verbatim>\<open>io.ReadFull\<close> into a slice of length \<open>n\<close>.\<close>

definition ReadFull :: "nat \<Rightarrow> bytes reader" where
  "ReadFull n r =
     (if n \<le> length r then Inr (take n r, drop n r) else if r = [] then Inl EOF else Inl UnexpectedEOF)"

text \<open>A \<^verbatim>\<open>bytes.Buffer\<close> that is written to grows at its end.\<close>

definition WriteByte :: "bytes \<Rightarrow> u8 \<Rightarrow> bytes" where
  "WriteByte b x = b @ [x]"

definition WriteBytes :: "bytes \<Rightarrow> bytes \<Rightarrow> bytes" where
  "WriteBytes b xs = b @ xs"

lemma ReadByte_Cons [simp, codec]: "ReadByte (x # r) = Inr (x, r)"
  by (simp add: ReadByte_def)

lemma ReadByte_Nil [simp, codec]: "ReadByte [] = Inl EOF"
  by (simp add: ReadByte_def)

lemma ReadByte_eq_Inr_iff: "ReadByte r = Inr (x, r') \<longleftrightarrow> r = x # r'"
  by (cases r) auto

lemma ReadInto_append [simp, codec]: "length xs = n \<Longrightarrow> ReadInto n (xs @ r) = (xs, r)"
  by (simp add: ReadInto_def)

lemma ReadFull_append [simp, codec]: "length xs = n \<Longrightarrow> ReadFull n (xs @ r) = Inr (xs, r)"
  by (auto simp: ReadFull_def)

lemma length_ReadInto [simp]: "length (fst (ReadInto n r)) = n"
  by (simp add: ReadInto_def)

declare WriteByte_def [codec] WriteBytes_def [codec]

section \<open>Generic lemmas on words and lists\<close>

lemma unat_of_nat_less: "n < 2 ^ LENGTH('a) \<Longrightarrow> unat (of_nat n :: 'a::len word) = n"
  by (simp add: unat_of_nat take_bit_nat_eq_self)

lemma unat_plus_less:
  "unat a + unat b < 2 ^ LENGTH('a) \<Longrightarrow> unat (a + b :: 'a::len word) = unat a + unat b"
  by (simp add: unat_word_ariths)

lemma unat_Suc_less: "Suc (unat w) < 2 ^ LENGTH('a) \<Longrightarrow> unat (w + 1 :: 'a::len word) = Suc (unat w)"
  by (simp add: unat_word_ariths mod_simps)

lemma unat_minus_le: "b \<le> a \<Longrightarrow> unat (a - b :: 'a::len word) = unat a - unat b"
  by (rule unat_sub)

lemma unat_bound: "unat (w :: 'a::len word) < 2 ^ LENGTH('a)"
  by (rule unsigned_less)

lemma payload_length:
  fixes a b :: "'a::len word"
  assumes "unat a = h + n" and "unat b = h"
  shows "unat (a - b) = n"
proof -
  have "b \<le> a" using assms by (simp add: word_le_nat_alt)
  with assms show ?thesis by (simp add: unat_minus_le)
qed

lemma take_drop_append [simp]: "take k xs @ drop k xs @ ys = xs @ ys"
  by (simp flip: append_assoc)

lemma concat_map_upt_Suc: "concat (map f [0..<Suc n]) = concat (map f [0..<n]) @ f n"
  by simp

end
