(* ===== verification/Util_Codec.thy ===== *)
theory Util_Codec
  imports Mp2bs_Prelude
begin

unbundle bit_operations_syntax

text \<open>
  Package \<^verbatim>\<open>util\<close> (\<^verbatim>\<open>mp2bs-main/util/util.go\<close>): the big-endian readers and writers of 16 and
  32 bit integers that every packet of the two protocol layers is built from.  The lemmas
  show that a write followed by a read is the identity, that a successful read consumed
  exactly the bytes a write of its result produces, and that a short reader gives \<open>EOF\<close>.
\<close>

section \<open>Model\<close>

definition ReadUint16 :: "u16 reader" where
  "ReadUint16 r =
     bindE (ReadByte r) (\<lambda>(b1, r).
     bindE (ReadByte r) (\<lambda>(b2, r).
     Inr (ucast b2 + push_bit 8 (ucast b1), r)))"

definition ReadUint32 :: "u32 reader" where
  "ReadUint32 r =
     bindE (ReadByte r) (\<lambda>(b1, r).
     bindE (ReadByte r) (\<lambda>(b2, r).
     bindE (ReadByte r) (\<lambda>(b3, r).
     bindE (ReadByte r) (\<lambda>(b4, r).
     Inr (ucast b4 + push_bit 8 (ucast b3) + push_bit 16 (ucast b2) + push_bit 24 (ucast b1), r)))))"

definition WriteUint32 :: "bytes \<Rightarrow> u32 \<Rightarrow> bytes" where
  "WriteUint32 w i =
     WriteBytes w [ucast (drop_bit 24 i), ucast (drop_bit 16 i), ucast (drop_bit 8 i), ucast i]"

definition WriteUint16 :: "bytes \<Rightarrow> u16 \<Rightarrow> bytes" where
  "WriteUint16 w i = WriteBytes w [ucast (drop_bit 8 i), ucast i]"

section \<open>Bytes and words\<close>

lemma uint16_or:
  fixes b1 b2 :: u8
  shows "ucast b2 + push_bit 8 (ucast b1) = (ucast b2 OR push_bit 8 (ucast b1) :: u16)"
  by (rule disjunctive_add) (auto simp: bit_simps dest: bit_imp_le_length)

lemma uint16_of_bytes:
  fixes i :: u16
  shows "ucast (ucast i :: u8) + push_bit 8 (ucast (ucast (drop_bit 8 i) :: u8)) = i"
  unfolding uint16_or by (rule bit_eqI) (auto simp: bit_simps)

lemma bytes_of_uint16:
  fixes b1 b2 :: u8
  defines "i \<equiv> (ucast b2 + push_bit 8 (ucast b1) :: u16)"
  shows "ucast (drop_bit 8 i) = b1" and "ucast i = b2"
  unfolding i_def uint16_or
  by (rule bit_eqI; auto simp: bit_simps dest: bit_imp_le_length)+

lemma uint32_or:
  fixes b1 b2 b3 b4 :: u8
  shows "ucast b4 + push_bit 8 (ucast b3) + push_bit 16 (ucast b2) + push_bit 24 (ucast b1) =
    (((ucast b4 OR push_bit 8 (ucast b3)) OR push_bit 16 (ucast b2)) OR push_bit 24 (ucast b1) :: u32)"
  (is "?a + ?b + ?c + ?d = _")
proof -
  have "?a + ?b = ?a OR ?b"
    by (rule disjunctive_add) (auto simp: bit_simps dest: bit_imp_le_length)
  moreover have "(?a OR ?b) + ?c = (?a OR ?b) OR ?c"
    by (rule disjunctive_add) (auto simp: bit_simps dest: bit_imp_le_length)
  moreover have "((?a OR ?b) OR ?c) + ?d = ((?a OR ?b) OR ?c) OR ?d"
    by (rule disjunctive_add) (auto simp: bit_simps dest: bit_imp_le_length)
  ultimately show ?thesis by simp
qed

lemma uint32_of_bytes:
  fixes i :: u32
  shows "ucast (ucast i :: u8) + push_bit 8 (ucast (ucast (drop_bit 8 i) :: u8)) +
     push_bit 16 (ucast (ucast (drop_bit 16 i) :: u8)) +
     push_bit 24 (ucast (ucast (drop_bit 24 i) :: u8)) = i"
  unfolding uint32_or
proof (rule bit_eqI)
  fix n assume "possible_bit TYPE(u32) n"
  then show "bit (((ucast (ucast i :: u8) OR push_bit 8 (ucast (ucast (drop_bit 8 i) :: u8))) OR
      push_bit 16 (ucast (ucast (drop_bit 16 i) :: u8))) OR
      push_bit 24 (ucast (ucast (drop_bit 24 i) :: u8)) :: u32) n = bit i n"
    by (cases "n < 24"; cases "n < 16"; cases "n < 8") (auto simp: bit_simps)
qed

lemma bytes_of_uint32:
  fixes b1 b2 b3 b4 :: u8
  defines "i \<equiv> (ucast b4 + push_bit 8 (ucast b3) + push_bit 16 (ucast b2) + push_bit 24 (ucast b1) :: u32)"
  shows "ucast (drop_bit 24 i) = b1" and "ucast (drop_bit 16 i) = b2"
    and "ucast (drop_bit 8 i) = b3" and "ucast i = b4"
  unfolding i_def uint32_or
  by (rule bit_eqI; auto simp: bit_simps dest: bit_imp_le_length)+

section \<open>Round trips\<close>

lemma WriteUint16_append: "WriteUint16 w i = w @ WriteUint16 [] i"
  by (simp add: WriteUint16_def WriteBytes_def)

lemma WriteUint32_append: "WriteUint32 w i = w @ WriteUint32 [] i"
  by (simp add: WriteUint32_def WriteBytes_def)

lemma WriteUint_buffer [simp, codec]:
  "WriteUint16 (x # xs) i = x # WriteUint16 xs i"
  "WriteUint32 (x # xs) j = x # WriteUint32 xs j"
  "WriteUint16 (xs @ ys) i = xs @ WriteUint16 ys i"
  "WriteUint32 (xs @ ys) j = xs @ WriteUint32 ys j"
  "WriteUint16 (WriteUint16 [] k) i = WriteUint16 [] k @ WriteUint16 [] i"
  "WriteUint16 (WriteUint32 [] m) i = WriteUint32 [] m @ WriteUint16 [] i"
  "WriteUint32 (WriteUint16 [] k) j = WriteUint16 [] k @ WriteUint32 [] j"
  "WriteUint32 (WriteUint32 [] m) j = WriteUint32 [] m @ WriteUint32 [] j"
  by (simp_all add: WriteUint16_def WriteUint32_def WriteBytes_def)

lemma length_WriteUint16 [simp]: "length (WriteUint16 w i) = length w + 2"
  by (simp add: WriteUint16_def WriteBytes_def)

lemma length_WriteUint32 [simp]: "length (WriteUint32 w i) = length w + 4"
  by (simp add: WriteUint32_def WriteBytes_def)

lemma ReadUint16_WriteUint16 [simp, codec]: "ReadUint16 (WriteUint16 [] i @ r) = Inr (i, r)"
  by (simp add: ReadUint16_def WriteUint16_def WriteBytes_def uint16_of_bytes)

lemma ReadUint32_WriteUint32 [simp, codec]: "ReadUint32 (WriteUint32 [] i @ r) = Inr (i, r)"
  by (simp add: ReadUint32_def WriteUint32_def WriteBytes_def uint32_of_bytes)

lemma ReadUint16_eq_Inr_iff: "ReadUint16 r = Inr (i, r') \<longleftrightarrow> r = WriteUint16 [] i @ r'"
proof
  assume "ReadUint16 r = Inr (i, r')"
  then obtain b1 b2 where "r = b1 # b2 # r'" and "i = ucast b2 + push_bit 8 (ucast b1)"
    by (auto simp: ReadUint16_def bindE_eq_Inr_iff ReadByte_eq_Inr_iff)
  then show "r = WriteUint16 [] i @ r'"
    by (simp add: WriteUint16_def WriteBytes_def bytes_of_uint16)
qed simp

lemma ReadUint32_eq_Inr_iff: "ReadUint32 r = Inr (i, r') \<longleftrightarrow> r = WriteUint32 [] i @ r'"
proof
  assume "ReadUint32 r = Inr (i, r')"
  then obtain b1 b2 b3 b4 where "r = b1 # b2 # b3 # b4 # r'"
    and "i = ucast b4 + push_bit 8 (ucast b3) + push_bit 16 (ucast b2) + push_bit 24 (ucast b1)"
    by (auto simp: ReadUint32_def bindE_eq_Inr_iff ReadByte_eq_Inr_iff)
  then show "r = WriteUint32 [] i @ r'"
    by (simp add: WriteUint32_def WriteBytes_def bytes_of_uint32)
qed simp

lemma ReadUint16_short: "length r < 2 \<Longrightarrow> ReadUint16 r = Inl EOF"
  by (cases r; cases "tl r") (auto simp: ReadUint16_def)

lemma ReadUint32_short: "length r < 4 \<Longrightarrow> ReadUint32 r = Inl EOF"
  by (cases r; cases "tl r"; cases "tl (tl r)"; cases "tl (tl (tl r))") (auto simp: ReadUint32_def)

lemmas reader_inversion = bindE_eq_Inr_iff ReadByte_eq_Inr_iff
  ReadUint16_eq_Inr_iff ReadUint32_eq_Inr_iff

end
