(* ===== verification/Packet_Codec.thy ===== *)
theory Packet_Codec
  imports Util_Codec
begin

text \<open>
  What the layers above rely on in every packet type of \<^verbatim>\<open>session\<close> and \<^verbatim>\<open>mp2session\<close>: a \<^verbatim>\<open>Write\<close>
  method that appends an encoding to a buffer and a \<^verbatim>\<open>Parse\<close> function that reads it back.
  The locale \<open>packet_codec\<close> states the contract, \<open>framed_codec\<close> adds that the packet starts
  with its type byte and its own length (the receivers cut packets out of a byte stream by
  those three bytes), \<open>exact_codec\<close> that nothing else is accepted.
\<close>

locale packet_codec =
  fixes Parse :: "'p reader"
    and Write :: "'p \<Rightarrow> bytes \<Rightarrow> bytes result"
    and enc :: "'p \<Rightarrow> bytes"
    and valid :: "'p \<Rightarrow> bool"
  assumes Write_enc: "valid p \<Longrightarrow> Write p b = Inr (b @ enc p)"
    and Parse_enc: "valid p \<Longrightarrow> Parse (enc p @ r) = Inr (p, r)"
begin

lemma write_then_parse:
  "valid p \<Longrightarrow> bindE (Write p []) (\<lambda>b. Parse (b @ r)) = Inr (p, r)"
  by (simp add: Write_enc Parse_enc)

lemma prefix_free:
  assumes "valid p" and "valid q" and "enc p @ r = enc q @ s"
  shows "p = q \<and> r = s"
proof -
  have "Parse (enc p @ r) = Inr (q, s)"
    unfolding assms(3) by (rule Parse_enc [OF assms(2)])
  with Parse_enc [OF assms(1), of r] show ?thesis by simp
qed

lemma enc_inject: "valid p \<Longrightarrow> valid q \<Longrightarrow> enc p = enc q \<Longrightarrow> p = q"
  using prefix_free [of p q "[]" "[]"] by simp

text \<open>Packets written one after the other are cut apart again in order.\<close>

lemma parse_sequence:
  "list_all valid ps \<Longrightarrow>
   foldE (\<lambda>_ (acc, r). bindE (Parse r) (\<lambda>(p, r). Inr (acc @ [p], r))) ps
     (acc, concat (map enc ps) @ r) = Inr (acc @ ps, r)"
proof (induction ps arbitrary: acc)
  case (Cons p ps)
  then show ?case using Parse_enc [of p "concat (map enc ps) @ r"] by simp
qed simp

end

locale framed_codec = packet_codec +
  fixes ptype :: "'p \<Rightarrow> u8" and plen :: "'p \<Rightarrow> u16"
  assumes enc_header: "valid p \<Longrightarrow> \<exists>body. enc p = ptype p # WriteUint16 [] (plen p) @ body"
begin

text \<open>The first three bytes of an encoding give its type and its length field.\<close>

lemma header_of_enc:
  "valid p \<Longrightarrow> bindE (ReadByte (enc p @ r)) (\<lambda>(t, r). bindE (ReadUint16 r) (\<lambda>(l, _). Inr (t, l)))
     = Inr (ptype p, plen p)"
  using enc_header [of p] by (auto simp: append_assoc)

lemma take_3_enc: "valid p \<Longrightarrow> take 3 (enc p @ r) = ptype p # WriteUint16 [] (plen p)"
  using enc_header [of p] by (auto simp: numeral_3_eq_3 WriteUint16_def WriteBytes_def)

end

locale exact_codec = framed_codec +
  assumes Parse_exact: "Parse bs = Inr (p, r) \<Longrightarrow> valid p \<and> bs = enc p @ r"
begin

lemma Parse_iff: "Parse bs = Inr (p, r) \<longleftrightarrow> valid p \<and> bs = enc p @ r"
  using Parse_exact Parse_enc by blast

lemma Parse_consumes: "Parse bs = Inr (p, r) \<Longrightarrow> length r + length (enc p) = length bs"
  by (auto dest: Parse_exact)

end

end
