(* ===== verification/Mp2bs_Config.thy ===== *)
theory Mp2bs_Config
  imports Mp2bs_Prelude
begin

text \<open>
  Package \<^verbatim>\<open>config\<close> (\<^verbatim>\<open>mp2bs-main/config/config.go\<close>): the run-time configuration that is read from
  a TOML file into the variable \<^verbatim>\<open>Conf\<close>, as a record that the modelled operations take as an
  argument, and the constants of the block protocol.  The logging flag and the floating-point
  fields are not in the record: the former only guards log output, the latter are used only
  by the throughput monitor, whose verdicts are inputs of the scheduler's model.
\<close>

record Config =
  CONFIG_USER_WRR_WEIGHT :: "u32 list"
  PACKET_SIZE :: u16
  HELLO_PACKET :: u8
  HELLO_ACK_PACKET :: u8
  DATA_PACKET :: u8
  GOODBYE_PACKET :: u8
  NIC_NAMES :: "string list"
  NIC_ADDRS :: "string list"
  PEER_ADDRS :: "string list"
  PEER_PORTS :: "u16 list"
  NUM_OF_CHILDS :: "u8 list"
  OFFSET_OF_CHILDS :: "u8 list"
  CLOSE_TIMEOUT_PERIOD :: u16

text \<open>The configuration shipped in \<^verbatim>\<open>config/mp2bs.toml\<close>.\<close>

definition default_Conf :: Config where
  "default_Conf =
     \<lparr>CONFIG_USER_WRR_WEIGHT = [5, 2], PACKET_SIZE = 1500,
      HELLO_PACKET = 1, HELLO_ACK_PACKET = 2, DATA_PACKET = 3, GOODBYE_PACKET = 4,
      NIC_NAMES = [''ethernet'', ''ethernet''],
      NIC_ADDRS = [''127.0.0.1:5001'', ''127.0.0.1:5002''],
      PEER_ADDRS = [''127.0.0.1:5003''], PEER_PORTS = [], NUM_OF_CHILDS = [],
      OFFSET_OF_CHILDS = [], CLOSE_TIMEOUT_PERIOD = 200\<rparr>"

definition BLOCK_FIND_PACKET :: u8 where "BLOCK_FIND_PACKET = 11"
definition BLOCK_INFO_PACKET :: u8 where "BLOCK_INFO_PACKET = 12"
definition BLOCK_REQUEST_PACKET :: u8 where "BLOCK_REQUEST_PACKET = 13"
definition BLOCK_DATA_PACKET :: u8 where "BLOCK_DATA_PACKET = 14"
definition BLOCK_DATA_ACK_PACKET :: u8 where "BLOCK_DATA_ACK_PACKET = 15"
definition BLOCK_FIN_PACKET :: u8 where "BLOCK_FIN_PACKET = 16"
definition CONTROL_PACKET :: u8 where "CONTROL_PACKET = 17"
definition NODE_INFO_PACKET :: u8 where "NODE_INFO_PACKET = 18"
definition NODE_INFO_ACK_PACKET :: u8 where "NODE_INFO_ACK_PACKET = 19"

lemmas packet_type_defs = BLOCK_FIND_PACKET_def BLOCK_INFO_PACKET_def BLOCK_REQUEST_PACKET_def
  BLOCK_DATA_PACKET_def BLOCK_DATA_ACK_PACKET_def BLOCK_FIN_PACKET_def CONTROL_PACKET_def
  NODE_INFO_PACKET_def NODE_INFO_ACK_PACKET_def

definition PEER_NOT_KNOWN :: u32 where "PEER_NOT_KNOWN = 0"
definition PEER_HAS_BLOCK :: u32 where "PEER_HAS_BLOCK = 1"
definition PEER_HAS_NO_BLOCK :: u32 where "PEER_HAS_NO_BLOCK = 2"
definition PEER_DOWNLOADING :: u32 where "PEER_DOWNLOADING = 3"

lemmas peer_status_defs = PEER_NOT_KNOWN_def PEER_HAS_BLOCK_def PEER_HAS_NO_BLOCK_def
  PEER_DOWNLOADING_def

definition SEGMENT_SIZE :: nat where "SEGMENT_SIZE = 2 * 1024 * 1024"
definition PAYLOAD_SIZE :: nat where "PAYLOAD_SIZE = 1024"

definition FEC_SOURCE_DATA :: u8 where "FEC_SOURCE_DATA = 0"
definition FEC_REDUNDANT_DATA :: u8 where "FEC_REDUNDANT_DATA = 1"

end
