(* ===== verification/Session_Packets.thy ===== *)
theory Session_Packets
  imports Packet_Codec Mp2bs_Config
begin

text \<open>
  The packets of the multipath session layer (\<^verbatim>\<open>mp2bs-main/session/hello_packet.go\<close>,
  \<^verbatim>\<open>hello_ack_packet.go\<close>, \<^verbatim>\<open>data_packet.go\<close>, \<^verbatim>\<open>goodbye_packet.go\<close>): each has its record, its
  \<^verbatim>\<open>Create\<close> function, its parser and its \<^verbatim>\<open>Write\<close> method, and an interpretation of the codec
  contract.
\<close>

section \<open>Hello packets\<close>

definition HELLO_PACKET_HEADER_LEN :: u16 where "HELLO_PACKET_HEADER_LEN = 8"

record HelloPacket =
  hello_Type :: u8
  hello_Length :: u16
  hello_SessionID :: u32
  hello_NumPath :: u8

definition CreateHelloPacket :: "Config \<Rightarrow> u32 \<Rightarrow> u8 \<Rightarrow> HelloPacket" where
  "CreateHelloPacket conf sessionID numPath =
     \<lparr>hello_Type = HELLO_PACKET conf, hello_Length = HELLO_PACKET_HEADER_LEN,
      hello_SessionID = sessionID, hello_NumPath = numPath\<rparr>"

definition ParseHelloPacket :: "HelloPacket reader" where
  "ParseHelloPacket r =
     bindE (ReadByte r) (\<lambda>(packetType, r).
     bindE (ReadUint16 r) (\<lambda>(packetLength, r).
     bindE (ReadUint32 r) (\<lambda>(sessionID, r).
     bindE (ReadByte r) (\<lambda>(numPath, r).
     Inr (\<lparr>hello_Type = packetType, hello_Length = packetLength,
           hello_SessionID = sessionID, hello_NumPath = numPath\<rparr>, r)))))"

definition HelloPacket_Write :: "HelloPacket \<Rightarrow> bytes \<Rightarrow> bytes result" where
  "HelloPacket_Write p b =
     (let b = WriteByte b (hello_Type p);
          b = WriteUint16 b (hello_Length p);
          b = WriteUint32 b (hello_SessionID p);
          b = WriteByte b (hello_NumPath p)
      in Inr b)"

definition HelloPacket_enc :: "HelloPacket \<Rightarrow> bytes" where
  "HelloPacket_enc p =
     hello_Type p # WriteUint16 [] (hello_Length p) @ WriteUint32 [] (hello_SessionID p) @ [hello_NumPath p]"

lemmas hello_defs = ParseHelloPacket_def HelloPacket_Write_def HelloPacket_enc_def

interpretation hello: exact_codec ParseHelloPacket HelloPacket_Write HelloPacket_enc
  "\<lambda>_. True" hello_Type hello_Length
  by unfold_locales (auto simp: hello_defs Let_def codec reader_inversion)

section \<open>Goodbye packets\<close>

definition GOODBYE_PACKET_HEADER_LEN :: u16 where "GOODBYE_PACKET_HEADER_LEN = 7"

record GoodbyePacket =
  goodbye_Type :: u8
  goodbye_Length :: u16
  goodbye_SessionID :: u32

definition CreateGoodbyePacket :: "Config \<Rightarrow> u32 \<Rightarrow> GoodbyePacket" where
  "CreateGoodbyePacket conf sessionID =
     \<lparr>goodbye_Type = GOODBYE_PACKET conf, goodbye_Length = GOODBYE_PACKET_HEADER_LEN,
      goodbye_SessionID = sessionID\<rparr>"

definition ParseGoodbyePacket :: "GoodbyePacket reader" where
  "ParseGoodbyePacket r =
     bindE (ReadByte r) (\<lambda>(packetType, r).
     bindE (ReadUint16 r) (\<lambda>(packetLength, r).
     bindE (ReadUint32 r) (\<lambda>(sessionID, r).
     Inr (\<lparr>goodbye_Type = packetType, goodbye_Length = packetLength,
           goodbye_SessionID = sessionID\<rparr>, r))))"

definition GoodbyePacket_Write :: "GoodbyePacket \<Rightarrow> bytes \<Rightarrow> bytes result" where
  "GoodbyePacket_Write p b =
     (let b = WriteByte b (goodbye_Type p);
          b = WriteUint16 b (goodbye_Length p);
          b = WriteUint32 b (goodbye_SessionID p)
      in Inr b)"

definition GoodbyePacket_enc :: "GoodbyePacket \<Rightarrow> bytes" where
  "GoodbyePacket_enc p =
     goodbye_Type p # WriteUint16 [] (goodbye_Length p) @ WriteUint32 [] (goodbye_SessionID p)"

lemmas goodbye_defs = ParseGoodbyePacket_def GoodbyePacket_Write_def GoodbyePacket_enc_def

interpretation goodbye: exact_codec ParseGoodbyePacket GoodbyePacket_Write GoodbyePacket_enc
  "\<lambda>_. True" goodbye_Type goodbye_Length
  by unfold_locales (auto simp: goodbye_defs Let_def codec reader_inversion)

section \<open>Data packets\<close>

definition DATA_PACKET_HEADER_LEN :: u16 where "DATA_PACKET_HEADER_LEN = 12"
definition DATA_PACKET_PAYLOAD_SIZE :: nat where "DATA_PACKET_PAYLOAD_SIZE = 1024"

record DataPacket =
  data_Type :: u8
  data_Length :: u16
  data_SessionID :: u32
  data_PathID :: u8
  data_SeqNumber :: u32
  data_Payload :: bytes

text \<open>\<^verbatim>\<open>uint16(...)\<close> and \<^verbatim>\<open>byte(pathID)\<close> truncate.\<close>

definition CreateDataPacket :: "Config \<Rightarrow> u32 \<Rightarrow> nat \<Rightarrow> u32 \<Rightarrow> bytes \<Rightarrow> DataPacket" where
  "CreateDataPacket conf sessionID pathID seq payload =
     \<lparr>data_Type = DATA_PACKET conf,
      data_Length = of_nat (unat DATA_PACKET_HEADER_LEN + length payload),
      data_SessionID = sessionID, data_PathID = of_nat pathID, data_SeqNumber = seq,
      data_Payload = go_copy (replicate (length payload) 0) payload\<rparr>"

text \<open>
  The payload's size is computed in \<^verbatim>\<open>uint16\<close>, so a length field below 12 wraps around, and a
  short reader leaves zeros at the end of the payload.
\<close>

definition ParseDataPacket :: "DataPacket reader" where
  "ParseDataPacket r =
     bindE (ReadByte r) (\<lambda>(packetType, r).
     bindE (ReadUint16 r) (\<lambda>(packetLength, r).
     bindE (ReadUint32 r) (\<lambda>(sessionID, r).
     bindE (ReadByte r) (\<lambda>(pathID, r).
     bindE (ReadUint32 r) (\<lambda>(seqNumber, r).
     let (payload, r) = ReadInto (unat (packetLength - DATA_PACKET_HEADER_LEN)) r
     in Inr (\<lparr>data_Type = packetType, data_Length = packetLength, data_SessionID = sessionID,
              data_PathID = pathID, data_SeqNumber = seqNumber, data_Payload = payload\<rparr>, r))))))"

definition DataPacket_Write :: "DataPacket \<Rightarrow> bytes \<Rightarrow> bytes result" where
  "DataPacket_Write p b =
     (let b = WriteByte b (data_Type p);
          b = WriteUint16 b (data_Length p);
          b = WriteUint32 b (data_SessionID p);
          b = WriteByte b (data_PathID p);
          b = WriteUint32 b (data_SeqNumber p);
          b = WriteBytes b (data_Payload p)
      in Inr b)"

definition DataPacket_enc :: "DataPacket \<Rightarrow> bytes" where
  "DataPacket_enc p =
     data_Type p # WriteUint16 [] (data_Length p) @ WriteUint32 [] (data_SessionID p) @
     data_PathID p # WriteUint32 [] (data_SeqNumber p) @ data_Payload p"

text \<open>The length field counts header and payload.\<close>

definition DataPacket_valid :: "DataPacket \<Rightarrow> bool" where
  "DataPacket_valid p \<longleftrightarrow> unat (data_Length p) = 12 + length (data_Payload p)"

lemmas data_defs = ParseDataPacket_def DataPacket_Write_def DataPacket_enc_def

lemma DataPacket_valid_payload:
  assumes "DataPacket_valid p"
  shows "unat (data_Length p - DATA_PACKET_HEADER_LEN) = length (data_Payload p)"
  using assms by (intro payload_length) (simp_all add: DataPacket_valid_def DATA_PACKET_HEADER_LEN_def)

interpretation data: framed_codec ParseDataPacket DataPacket_Write DataPacket_enc
  DataPacket_valid data_Type data_Length
  by unfold_locales (auto simp: data_defs Let_def codec DataPacket_valid_payload)

lemma CreateDataPacket_valid:
  "length payload < 2 ^ 16 - 12 \<Longrightarrow> DataPacket_valid (CreateDataPacket conf sid path seq payload)"
  by (simp add: CreateDataPacket_def DataPacket_valid_def DATA_PACKET_HEADER_LEN_def unat_of_nat_less
      del: of_nat_add)

lemma length_DataPacket_enc: "DataPacket_valid p \<Longrightarrow> length (DataPacket_enc p) = unat (data_Length p)"
  by (simp add: DataPacket_enc_def DataPacket_valid_def)

lemma CreateDataPacket_simps [simp]:
  "data_Type (CreateDataPacket conf sid path seq payload) = DATA_PACKET conf"
  "data_SessionID (CreateDataPacket conf sid path seq payload) = sid"
  "data_PathID (CreateDataPacket conf sid path seq payload) = of_nat path"
  "data_SeqNumber (CreateDataPacket conf sid path seq payload) = seq"
  "data_Payload (CreateDataPacket conf sid path seq payload) = payload"
  by (simp_all add: CreateDataPacket_def)

section \<open>Hello ACK packets\<close>

definition HELLO_ACK_PACKET_HEADER_LEN :: nat where "HELLO_ACK_PACKET_HEADER_LEN = 8"

record NicInfo =
  nic_Type :: u8
  nic_AddrLen :: u8
  nic_Addr :: bytes

record HelloAckPacket =
  hack_Type :: u8
  hack_Length :: u16
  hack_SessionID :: u32
  hack_NumPath :: u8
  hack_NicInfos :: "NicInfo list"

text \<open>The sum \<^verbatim>\<open>nicInfo.AddrLen + 2\<close> is taken in \<^verbatim>\<open>byte\<close> before it is converted.\<close>

definition CreateHelloAckPacket :: "Config \<Rightarrow> u32 \<Rightarrow> NicInfo list \<Rightarrow> HelloAckPacket" where
  "CreateHelloAckPacket conf sessionID nicInfos =
     (let nicInfoLen = fold (\<lambda>nicInfo n. n + unat (nic_AddrLen nicInfo + 2)) nicInfos 0
      in \<lparr>hack_Type = HELLO_ACK_PACKET conf,
          hack_Length = of_nat (HELLO_ACK_PACKET_HEADER_LEN + nicInfoLen),
          hack_SessionID = sessionID, hack_NumPath = of_nat (length nicInfos),
          hack_NicInfos = nicInfos\<rparr>)"

fun read_addr :: "nat \<Rightarrow> bytes reader" where
  "read_addr 0 r = Inr ([], r)"
| "read_addr (Suc n) r =
     bindE (ReadByte r) (\<lambda>(b, r). bindE (read_addr n r) (\<lambda>(bs, r). Inr (b # bs, r)))"

fun read_nicInfos :: "nat \<Rightarrow> NicInfo list reader" where
  "read_nicInfos 0 r = Inr ([], r)"
| "read_nicInfos (Suc n) r =
     bindE (ReadByte r) (\<lambda>(ty, r).
     bindE (ReadByte r) (\<lambda>(addrLen, r).
     bindE (read_addr (unat addrLen) r) (\<lambda>(addr, r).
     bindE (read_nicInfos n r) (\<lambda>(infos, r).
     Inr (\<lparr>nic_Type = ty, nic_AddrLen = addrLen, nic_Addr = addr\<rparr> # infos, r)))))"

definition ParseHelloAckPacket :: "HelloAckPacket reader" where
  "ParseHelloAckPacket r =
     bindE (ReadByte r) (\<lambda>(packetType, r).
     bindE (ReadUint16 r) (\<lambda>(packetLength, r).
     bindE (ReadUint32 r) (\<lambda>(sessionID, r).
     bindE (ReadByte r) (\<lambda>(numPath, r).
     bindE (read_nicInfos (unat numPath) r) (\<lambda>(nicInfos, r).
     Inr (\<lparr>hack_Type = packetType, hack_Length = packetLength, hack_SessionID = sessionID,
           hack_NumPath = numPath, hack_NicInfos = nicInfos\<rparr>, r))))))"

text \<open>Both loops of \<^verbatim>\<open>Write\<close> trust the count fields and index the slices.\<close>

definition write_nicInfo :: "NicInfo \<Rightarrow> bytes \<Rightarrow> bytes result" where
  "write_nicInfo nic b =
     (let b = WriteByte b (nic_Type nic);
          b = WriteByte b (nic_AddrLen nic)
      in foldE (\<lambda>j b. bindE (go_index (nic_Addr nic) j) (\<lambda>x. Inr (WriteByte b x)))
           [0..<unat (nic_AddrLen nic)] b)"

definition HelloAckPacket_Write :: "HelloAckPacket \<Rightarrow> bytes \<Rightarrow> bytes result" where
  "HelloAckPacket_Write p b =
     (let b = WriteByte b (hack_Type p);
          b = WriteUint16 b (hack_Length p);
          b = WriteUint32 b (hack_SessionID p);
          b = WriteByte b (hack_NumPath p)
      in foldE (\<lambda>i b. bindE (go_index (hack_NicInfos p) i) (\<lambda>nic. write_nicInfo nic b))
           [0..<unat (hack_NumPath p)] b)"

definition NicInfo_enc :: "NicInfo \<Rightarrow> bytes" where
  "NicInfo_enc nic = nic_Type nic # nic_AddrLen nic # nic_Addr nic"

definition HelloAckPacket_enc :: "HelloAckPacket \<Rightarrow> bytes" where
  "HelloAckPacket_enc p =
     hack_Type p # WriteUint16 [] (hack_Length p) @ WriteUint32 [] (hack_SessionID p) @
     hack_NumPath p # concat (map NicInfo_enc (hack_NicInfos p))"

definition NicInfo_valid :: "NicInfo \<Rightarrow> bool" where
  "NicInfo_valid nic \<longleftrightarrow> unat (nic_AddrLen nic) = length (nic_Addr nic)"

definition HelloAckPacket_valid :: "HelloAckPacket \<Rightarrow> bool" where
  "HelloAckPacket_valid p \<longleftrightarrow>
     unat (hack_NumPath p) = length (hack_NicInfos p) \<and> list_all NicInfo_valid (hack_NicInfos p)"

lemma read_addr_append: "length xs = n \<Longrightarrow> read_addr n (xs @ r) = Inr (xs, r)"
  by (induction n arbitrary: xs) (auto simp: length_Suc_conv)

lemma read_addr_eq_Inr_iff: "read_addr n r = Inr (xs, r') \<longleftrightarrow> length xs = n \<and> r = xs @ r'"
  by (induction n arbitrary: r xs)
     (auto simp: bindE_eq_Inr_iff ReadByte_eq_Inr_iff length_Suc_conv)

lemma read_nicInfos_enc:
  "length nics = n \<Longrightarrow> list_all NicInfo_valid nics \<Longrightarrow>
   read_nicInfos n (concat (map NicInfo_enc nics) @ r) = Inr (nics, r)"
  by (induction n arbitrary: nics)
     (auto simp: length_Suc_conv NicInfo_enc_def NicInfo_valid_def read_addr_append)

lemma read_nicInfos_eq_Inr_iff:
  "read_nicInfos n r = Inr (nics, r') \<longleftrightarrow>
   length nics = n \<and> list_all NicInfo_valid nics \<and> r = concat (map NicInfo_enc nics) @ r'"
proof
  show "read_nicInfos n r = Inr (nics, r') \<Longrightarrow>
    length nics = n \<and> list_all NicInfo_valid nics \<and> r = concat (map NicInfo_enc nics) @ r'"
    by (induction n arbitrary: r nics)
       (fastforce simp: bindE_eq_Inr_iff ReadByte_eq_Inr_iff read_addr_eq_Inr_iff
         NicInfo_enc_def NicInfo_valid_def)+
qed (auto simp: read_nicInfos_enc)

lemma foldE_WriteByte_index:
  "n \<le> length xs \<Longrightarrow>
   foldE (\<lambda>j b. bindE (go_index xs j) (\<lambda>x. Inr (WriteByte b x))) [0..<n] b = Inr (b @ take n xs)"
  by (induction n) (auto simp: foldE_append WriteByte_def take_Suc_conv_app_nth)

lemma write_nicInfo_enc: "NicInfo_valid nic \<Longrightarrow> write_nicInfo nic b = Inr (b @ NicInfo_enc nic)"
  by (simp add: write_nicInfo_def NicInfo_valid_def foldE_WriteByte_index NicInfo_enc_def)
     (simp add: WriteByte_def)

lemma foldE_write_nicInfos:
  "n \<le> length nics \<Longrightarrow> list_all NicInfo_valid nics \<Longrightarrow>
   foldE (\<lambda>i b. bindE (go_index nics i) (\<lambda>nic. write_nicInfo nic b)) [0..<n] b =
     Inr (b @ concat (map NicInfo_enc (take n nics)))"
  by (induction n)
     (auto simp: foldE_append take_Suc_conv_app_nth write_nicInfo_enc list_all_length)

lemmas hack_defs = ParseHelloAckPacket_def HelloAckPacket_Write_def HelloAckPacket_enc_def
  HelloAckPacket_valid_def

interpretation hack: exact_codec ParseHelloAckPacket HelloAckPacket_Write HelloAckPacket_enc
  HelloAckPacket_valid hack_Type hack_Length
  by unfold_locales
     (auto simp: hack_defs Let_def codec reader_inversion read_nicInfos_eq_Inr_iff foldE_write_nicInfos)

lemma HelloAckPacket_Write_panics:
  assumes "length (hack_NicInfos p) < unat (hack_NumPath p)" and "list_all NicInfo_valid (hack_NicInfos p)"
  shows "HelloAckPacket_Write p b = Inl IndexOutOfRange"
proof -
  have "[0..<unat (hack_NumPath p)] =
      [0..<length (hack_NicInfos p)] @ length (hack_NicInfos p) # [Suc (length (hack_NicInfos p))..<unat (hack_NumPath p)]"
    using assms(1) by (metis le_add_diff_inverse less_imp_le upt_add_eq_append upt_conv_Cons zero_le)
  with assms(2) show ?thesis
    by (simp add: HelloAckPacket_Write_def Let_def foldE_append foldE_write_nicInfos)
qed

end
