(* ===== verification/Recv_Buffer.thy ===== *)
theory Recv_Buffer
  imports Session_Packets
begin

text \<open>
  The receive buffer of a session (\<^verbatim>\<open>mp2bs-main/session/recv_buffer.go\<close>): data packets that arrive
  in order are appended to \<open>readBuffer\<close>, the others wait in \<open>reorderBuffer\<close> under their sequence
  number.  Its contract is the locale \<open>in_order_buffer\<close>: whatever the arrival order and however
  often packets are repeated, what has been read so far followed by what can be read is the
  payloads of the sequence numbers below the first missing one, in order.
\<close>

section \<open>Model\<close>

record RecvBuffer =
  readSeqNumber :: u32
  recvSeqNumber :: u32
  expectedSeqNumber :: u32
  readBuffer :: bytes
  reorderBuffer :: "u32 \<rightharpoonup> DataPacket"

definition CreateRecvBuffer :: RecvBuffer where
  "CreateRecvBuffer =
     \<lparr>readSeqNumber = 0, recvSeqNumber = 0, expectedSeqNumber = 0, readBuffer = [],
      reorderBuffer = Map.empty\<rparr>"

text \<open>
  The loop that moves packets out of the reorder buffer.  The buffer is finite (its keys are
  32 bit numbers) and every round removes an entry.
\<close>

function move_in_order :: "RecvBuffer \<Rightarrow> RecvBuffer" where
  "move_in_order b =
     (case reorderBuffer b (expectedSeqNumber b) of
        None \<Rightarrow> b
      | Some oooPacket \<Rightarrow>
          move_in_order
            (b\<lparr>readBuffer := readBuffer b @ data_Payload oooPacket,
               reorderBuffer := (reorderBuffer b)(expectedSeqNumber b := None),
               expectedSeqNumber := expectedSeqNumber b + 1\<rparr>))"
  by pat_completeness auto
termination
proof (relation "measure (\<lambda>b. card (dom (reorderBuffer b)))", goal_cases)
  case (2 b p)
  then have "expectedSeqNumber b \<in> dom (reorderBuffer b)" by blast
  then have "card (dom (reorderBuffer b) - {expectedSeqNumber b}) < card (dom (reorderBuffer b))"
    by (intro card_Diff1_less) simp_all
  then show ?case by simp
qed simp

definition PushPacket :: "RecvBuffer \<Rightarrow> DataPacket \<Rightarrow> RecvBuffer" where
  "PushPacket b packet =
     (if data_SeqNumber packet = expectedSeqNumber b
      then move_in_order
             (b\<lparr>readBuffer := readBuffer b @ data_Payload packet,
                expectedSeqNumber := expectedSeqNumber b + 1\<rparr>)
      else b\<lparr>reorderBuffer := (reorderBuffer b)(data_SeqNumber packet \<mapsto> packet)\<rparr>)"

text \<open>\<^verbatim>\<open>Read\<close> returns the number of bytes read, the caller's buffer and the new state.\<close>

definition RecvBuffer_Read :: "RecvBuffer \<Rightarrow> bytes \<Rightarrow> nat \<times> bytes \<times> RecvBuffer" where
  "RecvBuffer_Read b buf =
     (if length (readBuffer b) > 0
      then let readLen = (if length (readBuffer b) < length buf then length (readBuffer b)
                          else length buf)
           in (readLen, go_copy buf (take readLen (readBuffer b)),
               b\<lparr>readBuffer := drop readLen (readBuffer b)\<rparr>)
      else (0, buf, b))"

definition RecvBuffer_IsEmpty :: "RecvBuffer \<Rightarrow> bool" where
  "RecvBuffer_IsEmpty b = (length (readBuffer b) = 0)"

definition RecvBuffer_GetLength :: "RecvBuffer \<Rightarrow> nat" where
  "RecvBuffer_GetLength b = length (readBuffer b)"

declare move_in_order.simps [simp del]

section \<open>Contract\<close>

text \<open>
  \<open>inv f R out b\<close>: the packets received so far are those with a sequence number in \<open>R\<close>, packet
  \<open>i\<close> carries \<open>f i\<close>, and \<open>out\<close> has been read from the buffer already.
\<close>

locale in_order_buffer =
  fixes init :: "'b"
    and push :: "'b \<Rightarrow> DataPacket \<Rightarrow> 'b"
    and read :: "'b \<Rightarrow> bytes \<Rightarrow> nat \<times> bytes \<times> 'b"
    and pending :: "'b \<Rightarrow> bytes"
    and inv :: "(nat \<Rightarrow> bytes) \<Rightarrow> nat set \<Rightarrow> bytes \<Rightarrow> 'b \<Rightarrow> bool"
  assumes inv_init: "inv f {} [] init"
    and inv_push: "inv f R out b \<Longrightarrow> data_Payload p = f (unat (data_SeqNumber p)) \<Longrightarrow>
        unat (data_SeqNumber p) < 2 ^ 32 - 1 \<Longrightarrow>
        inv f (insert (unat (data_SeqNumber p)) R) out (push b p)"
    and inv_read: "inv f R out b \<Longrightarrow> read b buf = (n, buf', b') \<Longrightarrow>
        n = min (length buf) (length (pending b)) \<and>
        take n buf' = take n (pending b) \<and> drop n buf' = drop n buf \<and>
        inv f R (out @ take n buf') b'"
    and inv_stream: "inv f R out b \<Longrightarrow> \<forall>i<k. i \<in> R \<Longrightarrow> k \<notin> R \<Longrightarrow>
        out @ pending b = concat (map f [0..<k])"
begin

text \<open>Any number of arrivals in any order.\<close>

lemma inv_push_list:
  "inv f R out b \<Longrightarrow>
   \<forall>p \<in> set ps. data_Payload p = f (unat (data_SeqNumber p)) \<and> unat (data_SeqNumber p) < 2 ^ 32 - 1 \<Longrightarrow>
   inv f (R \<union> (\<lambda>p. unat (data_SeqNumber p)) ` set ps) out (foldl push b ps)"
proof (induction ps arbitrary: R b)
  case (Cons p ps)
  from Cons.prems have "inv f (insert (unat (data_SeqNumber p)) R) out (push b p)"
    by (intro inv_push) auto
  then have "inv f (insert (unat (data_SeqNumber p)) R \<union> (\<lambda>p. unat (data_SeqNumber p)) ` set ps) out
      (foldl push (push b p) ps)"
    using Cons.prems by (intro Cons.IH) auto
  then show ?case by simp
qed simp

lemma push_list_stream:
  assumes "\<forall>p \<in> set ps. data_Payload p = f (unat (data_SeqNumber p)) \<and> unat (data_SeqNumber p) < 2 ^ 32 - 1"
    and "\<forall>i<k. \<exists>p \<in> set ps. unat (data_SeqNumber p) = i"
    and "\<not> (\<exists>p \<in> set ps. unat (data_SeqNumber p) = k)"
  shows "pending (foldl push init ps) = concat (map f [0..<k])"
proof -
  have "inv f ({} \<union> (\<lambda>p. unat (data_SeqNumber p)) ` set ps) [] (foldl push init ps)"
    by (rule inv_push_list [OF inv_init assms(1)])
  from inv_stream [OF this, of k] assms(2,3) show ?thesis by force
qed

end

section \<open>The receive buffer keeps the contract\<close>

definition rb_inv :: "(nat \<Rightarrow> bytes) \<Rightarrow> nat set \<Rightarrow> bytes \<Rightarrow> RecvBuffer \<Rightarrow> bool" where
  "rb_inv f R out b \<longleftrightarrow>
     (\<forall>i \<in> R. i < 2 ^ 32 - 1) \<and>
     (\<forall>i < unat (expectedSeqNumber b). i \<in> R) \<and> unat (expectedSeqNumber b) \<notin> R \<and>
     (\<forall>s p. reorderBuffer b s = Some p \<longrightarrow> unat s \<in> R \<and> data_Payload p = f (unat s)) \<and>
     (\<forall>i \<in> R. unat (expectedSeqNumber b) \<le> i \<longrightarrow> reorderBuffer b (of_nat i) \<noteq> None) \<and>
     out @ readBuffer b = concat (map f [0..<unat (expectedSeqNumber b)])"

text \<open>The same without the clause that the loop of \<open>move_in_order\<close> establishes.\<close>

definition rb_pre :: "(nat \<Rightarrow> bytes) \<Rightarrow> nat set \<Rightarrow> bytes \<Rightarrow> RecvBuffer \<Rightarrow> bool" where
  "rb_pre f R out b \<longleftrightarrow>
     (\<forall>i \<in> R. i < 2 ^ 32 - 1) \<and>
     (\<forall>i < unat (expectedSeqNumber b). i \<in> R) \<and>
     (\<forall>s p. reorderBuffer b s = Some p \<longrightarrow> unat s \<in> R \<and> data_Payload p = f (unat s)) \<and>
     (\<forall>i \<in> R. unat (expectedSeqNumber b) \<le> i \<longrightarrow> reorderBuffer b (of_nat i) \<noteq> None) \<and>
     out @ readBuffer b = concat (map f [0..<unat (expectedSeqNumber b)])"

lemma rb_pre_step:
  assumes pre: "rb_pre f R out b" and some: "reorderBuffer b (expectedSeqNumber b) = Some p"
  shows "rb_pre f R out
     (b\<lparr>readBuffer := readBuffer b @ data_Payload p,
        reorderBuffer := (reorderBuffer b)(expectedSeqNumber b := None),
        expectedSeqNumber := expectedSeqNumber b + 1\<rparr>)"
proof -
  let ?e = "unat (expectedSeqNumber b)"
  from pre some have e: "?e \<in> R" "data_Payload p = f ?e" "?e < 2 ^ 32 - 1"
    by (auto simp: rb_pre_def)
  then have Suc_e: "unat (expectedSeqNumber b + 1) = Suc ?e"
    by (intro unat_Suc_less) simp
  have ne: "of_nat i \<noteq> expectedSeqNumber b" if "i \<in> R" "Suc ?e \<le> i" for i
  proof
    assume "of_nat i = expectedSeqNumber b"
    then have "?e = unat (of_nat i :: u32)" by simp
    also have "\<dots> = i"
      using that pre by (intro unat_of_nat_less) (auto simp: rb_pre_def)
    finally show False using that by simp
  qed
  from pre e ne show ?thesis
    by (auto simp: rb_pre_def Suc_e less_Suc_eq simp flip: append_assoc)
qed

lemma move_in_order_inv: "rb_pre f R out b \<Longrightarrow> rb_inv f R out (move_in_order b)"
proof (induction b rule: move_in_order.induct)
  case (1 b)
  show ?case
  proof (cases "reorderBuffer b (expectedSeqNumber b)")
    case None
    have "unat (expectedSeqNumber b) \<notin> R"
    proof
      assume "unat (expectedSeqNumber b) \<in> R"
      with "1.prems" have "reorderBuffer b (of_nat (unat (expectedSeqNumber b))) \<noteq> None"
        unfolding rb_pre_def by blast
      with None show False by simp
    qed
    with 1 None show ?thesis
      by (simp add: move_in_order.simps [of b] rb_pre_def rb_inv_def)
  next
    case (Some p)
    with 1 show ?thesis
      by (simp add: move_in_order.simps [of b] rb_pre_step)
  qed
qed

lemma rb_inv_init: "rb_inv f {} [] CreateRecvBuffer"
  by (simp add: rb_inv_def CreateRecvBuffer_def)

lemma rb_inv_stale:
  assumes inv: "rb_inv f R out b" and "data_SeqNumber p \<noteq> expectedSeqNumber b"
    and "data_Payload p = f (unat (data_SeqNumber p))" and "unat (data_SeqNumber p) < 2 ^ 32 - 1"
  shows "rb_inv f (insert (unat (data_SeqNumber p)) R) out
           (b\<lparr>reorderBuffer := (reorderBuffer b)(data_SeqNumber p \<mapsto> p)\<rparr>)"
  using assms by (auto simp: rb_inv_def word_unat_eq_iff)

lemma rb_pre_in_order:
  assumes inv: "rb_inv f R out b" and eq: "data_SeqNumber p = expectedSeqNumber b"
    and payload: "data_Payload p = f (unat (data_SeqNumber p))"
    and bound: "unat (data_SeqNumber p) < 2 ^ 32 - 1"
  shows "rb_pre f (insert (unat (data_SeqNumber p)) R) out
           (b\<lparr>readBuffer := readBuffer b @ data_Payload p, expectedSeqNumber := expectedSeqNumber b + 1\<rparr>)"
proof -
  have Suc_e: "unat (expectedSeqNumber b + 1) = Suc (unat (expectedSeqNumber b))"
    using bound by (intro unat_Suc_less) (simp add: eq)
  from inv eq payload bound show ?thesis
    by (auto simp: rb_inv_def rb_pre_def Suc_e less_Suc_eq simp flip: append_assoc)
qed

lemma rb_inv_push:
  "rb_inv f R out b \<Longrightarrow> data_Payload p = f (unat (data_SeqNumber p)) \<Longrightarrow>
   unat (data_SeqNumber p) < 2 ^ 32 - 1 \<Longrightarrow>
   rb_inv f (insert (unat (data_SeqNumber p)) R) out (PushPacket b p)"
  unfolding PushPacket_def
  by (cases "data_SeqNumber p = expectedSeqNumber b")
     (simp_all only: if_True if_False rb_inv_stale simp_thms, metis rb_pre_in_order move_in_order_inv)

lemma rb_inv_read:
  assumes "rb_inv f R out b" and "RecvBuffer_Read b buf = (n, buf', b')"
  shows "n = min (length buf) (length (readBuffer b)) \<and> take n buf' = take n (readBuffer b) \<and>
    drop n buf' = drop n buf \<and> rb_inv f R (out @ take n buf') b'"
  using assms by (auto simp: RecvBuffer_Read_def rb_inv_def go_copy_def Let_def split: if_splits)

lemma rb_inv_stream:
  assumes "rb_inv f R out b" and "\<forall>i<k. i \<in> R" and "k \<notin> R"
  shows "out @ readBuffer b = concat (map f [0..<k])"
proof -
  from assms have "unat (expectedSeqNumber b) = k"
    by (metis linorder_neqE_nat rb_inv_def)
  with assms(1) show ?thesis by (simp add: rb_inv_def)
qed

interpretation recv_buffer: in_order_buffer CreateRecvBuffer PushPacket RecvBuffer_Read readBuffer rb_inv
  by unfold_locales
     (use rb_inv_init rb_inv_push rb_inv_read rb_inv_stream in \<open>blast+\<close>)

end
