(* ===== verification/Session_Scheduler.thy ===== *)
theory Session_Scheduler
  imports Session_Packets
begin

text \<open>
  The multipath scheduler (\<^verbatim>\<open>mp2bs-main/session/session_scheduler.go\<close>): weighted round robin over the
  paths of a session.  The monitor goroutine is modelled by its verdicts: each message on
  one of its channels leads to one comparison, whose result is the argument of
  \<open>monitor_verdict\<close>.  Shown: every run from a fresh scheduler stays in range, so that no index
  panics and the chosen path is one in use; and with full packets the paths get exactly
  their weights.
\<close>

section \<open>Model\<close>

definition SCHED_USER_WRR :: int where "SCHED_USER_WRR = 1"
definition SCHED_NET_WRR :: int where "SCHED_NET_WRR = 2"

definition REMAINING_BYTES_RESET_THRESH :: u32 where
  "REMAINING_BYTES_RESET_THRESH = of_nat (DATA_PACKET_PAYLOAD_SIZE div 8)"

record SessionScheduler =
  schedulerType :: int
  sched_numPath :: int
  weight :: "u32 list"
  remainingBytes :: "u32 list"
  currentPath :: int
  usePath :: int
  multipath :: bool

text \<open>For a scheduler type other than \<open>SCHED_USER_WRR\<close> the weights stay the nil slice.\<close>

definition CreateSessionScheduler :: "Config \<Rightarrow> int \<Rightarrow> SessionScheduler" where
  "CreateSessionScheduler conf schedType =
     \<lparr>schedulerType = schedType, sched_numPath = 0,
      weight = (if schedType = SCHED_USER_WRR then CONFIG_USER_WRR_WEIGHT conf else []),
      remainingBytes = [], currentPath = 0, usePath = 0, multipath = True\<rparr>"

text \<open>The quota of a path: \<^verbatim>\<open>c.weight[path] * DATA_PACKET_PAYLOAD_SIZE\<close> in 32 bits.\<close>

definition quota :: "SessionScheduler \<Rightarrow> int \<Rightarrow> u32 result" where
  "quota c path = bindE (go_index_int (weight c) path) (\<lambda>w. Inr (w * of_nat DATA_PACKET_PAYLOAD_SIZE))"

text \<open>The end of \<^verbatim>\<open>SetNumPath\<close> and of \<^verbatim>\<open>scheduling_path\<close>, which is the same code in both.\<close>

definition change_to_new_path :: "SessionScheduler \<Rightarrow> SessionScheduler result" where
  "change_to_new_path c =
     bindE (if usePath c > 1
            then bindE (quota c (currentPath c)) (\<lambda>q.
                 bindE (go_update_int (remainingBytes c) (currentPath c) q) (\<lambda>rb.
                 Inr (c\<lparr>remainingBytes := rb\<rparr>)))
            else Inr c) (\<lambda>c.
     let c = c\<lparr>currentPath := usePath c - 1\<rparr> in
     bindE (quota c (currentPath c)) (\<lambda>remainBytesOfNewPath.
     Inr (c\<lparr>remainingBytes := remainingBytes c @ [remainBytesOfNewPath]\<rparr>)))"

definition SetNumPath :: "SessionScheduler \<Rightarrow> int \<Rightarrow> SessionScheduler result" where
  "SetNumPath c numPath = change_to_new_path (c\<lparr>sched_numPath := numPath, usePath := numPath\<rparr>)"

text \<open>Go's \<^verbatim>\<open>%\<close> panics on zero; on the non-negative numbers that occur it is \<open>mod\<close>.\<close>

definition go_mod :: "int \<Rightarrow> int \<Rightarrow> int result" where
  "go_mod a b = (if b = 0 then Inl DivideByZero else Inr (sgn a * (\<bar>a\<bar> mod \<bar>b\<bar>)))"

definition scheduling_user_wrr :: "SessionScheduler \<Rightarrow> u32 \<Rightarrow> (int \<times> SessionScheduler) result" where
  "scheduling_user_wrr c payloadSize =
     (let selectedPath = currentPath c in
      bindE (go_index_int (remainingBytes c) selectedPath) (\<lambda>rem.
      let rem = (if rem \<ge> payloadSize then rem - payloadSize else 0) in
      bindE (go_update_int (remainingBytes c) selectedPath rem) (\<lambda>rb.
      let c = c\<lparr>remainingBytes := rb\<rparr> in
      if rem \<le> REMAINING_BYTES_RESET_THRESH
      then bindE (quota c selectedPath) (\<lambda>q.
           bindE (go_update_int (remainingBytes c) selectedPath q) (\<lambda>rb.
           bindE (go_mod (currentPath c + 1) (usePath c)) (\<lambda>nxt.
           Inr (selectedPath, c\<lparr>remainingBytes := rb, currentPath := nxt\<rparr>))))
      else Inr (selectedPath, c))))"

definition scheduling_net_wrr :: "SessionScheduler \<Rightarrow> u32 \<Rightarrow> (int \<times> SessionScheduler) result" where
  "scheduling_net_wrr c payloadSize = Inr (0, c)"

definition Scheduling :: "SessionScheduler \<Rightarrow> u32 \<Rightarrow> (int \<times> SessionScheduler) result" where
  "Scheduling c payloadSize =
     (if schedulerType c = SCHED_USER_WRR then scheduling_user_wrr c payloadSize
      else if schedulerType c = SCHED_NET_WRR then scheduling_net_wrr c payloadSize
      else scheduling_user_wrr c payloadSize)"

definition scheduling_path :: "SessionScheduler \<Rightarrow> SessionScheduler result" where
  "scheduling_path c =
     (if multipath c
      then if sched_numPath c > 1 then change_to_new_path (c\<lparr>usePath := sched_numPath c\<rparr>) else Inr c
      else if usePath c > 1 then change_to_new_path (c\<lparr>usePath := usePath c - 1\<rparr>) else Inr c)"

text \<open>
  One round of \<^verbatim>\<open>startMonitoring\<close>; \<open>better\<close> is the result of \<^verbatim>\<open>compareThroughput\<close> or of
  \<^verbatim>\<open>compareRemainingTime\<close>, after which both cases run the same code.
\<close>

definition monitor_verdict :: "SessionScheduler \<Rightarrow> bool \<Rightarrow> SessionScheduler result" where
  "monitor_verdict c better =
     (if better
      then if \<not> multipath c then scheduling_path (c\<lparr>multipath := True\<rparr>) else Inr c
      else if multipath c then scheduling_path (c\<lparr>multipath := False\<rparr>) else Inr c)"

text \<open>The paths chosen for a sequence of payload sizes, as \<^verbatim>\<open>Session.Write\<close> asks for them.\<close>

fun schedule_all :: "SessionScheduler \<Rightarrow> u32 list \<Rightarrow> (int list \<times> SessionScheduler) result" where
  "schedule_all c [] = Inr ([], c)"
| "schedule_all c (n # ns) =
     bindE (Scheduling c n) (\<lambda>(p, c). bindE (schedule_all c ns) (\<lambda>(ps, c). Inr (p # ps, c)))"

text \<open>A run of the scheduler: paths are added, packets scheduled, verdicts of the monitor arrive.\<close>

datatype sched_event = AddPath | Schedule u32 | Verdict bool

definition sched_step :: "sched_event \<Rightarrow> SessionScheduler \<Rightarrow> SessionScheduler result" where
  "sched_step e c =
     (case e of
        AddPath \<Rightarrow> SetNumPath c (sched_numPath c + 1)
      | Schedule n \<Rightarrow> bindE (Scheduling c n) (\<lambda>(_, c). Inr c)
      | Verdict b \<Rightarrow> monitor_verdict c b)"

section \<open>The scheduler stays in range\<close>

definition sched_inv :: "SessionScheduler \<Rightarrow> bool" where
  "sched_inv c \<longleftrightarrow>
     0 < usePath c \<and> usePath c \<le> sched_numPath c \<and>
     0 \<le> currentPath c \<and> currentPath c < usePath c \<and>
     sched_numPath c \<le> int (length (weight c)) \<and>
     sched_numPath c \<le> int (length (remainingBytes c))"

text \<open>A scheduler before its first path.\<close>

definition sched_fresh :: "SessionScheduler \<Rightarrow> bool" where
  "sched_fresh c \<longleftrightarrow> sched_numPath c = 0 \<and> usePath c = 0 \<and> currentPath c = 0"

lemma CreateSessionScheduler_fresh: "sched_fresh (CreateSessionScheduler conf ty)"
  by (simp add: CreateSessionScheduler_def sched_fresh_def)

lemma quota_Inr:
  "0 \<le> p \<Longrightarrow> p < int (length (weight c)) \<Longrightarrow>
   quota c p = Inr (weight c ! nat p * of_nat DATA_PACKET_PAYLOAD_SIZE)"
  by (simp add: quota_def nat_less_iff)

lemma change_to_new_path_ok:
  assumes "0 < usePath c" and "usePath c \<le> sched_numPath c"
    and "sched_numPath c \<le> int (length (weight c))"
    and "sched_numPath c \<le> int (length (remainingBytes c)) + 1"
    and "usePath c = 1 \<or> 0 \<le> currentPath c \<and> currentPath c < int (length (remainingBytes c)) \<and>
           currentPath c < int (length (weight c))"
  shows "\<exists>c'. change_to_new_path c = Inr c' \<and> sched_inv c' \<and>
    sched_numPath c' = sched_numPath c \<and> usePath c' = usePath c \<and> weight c' = weight c \<and>
    schedulerType c' = schedulerType c \<and> multipath c' = multipath c \<and>
    length (remainingBytes c') = Suc (length (remainingBytes c))"
  using assms by (auto simp: change_to_new_path_def quota_Inr sched_inv_def nat_less_iff Let_def)

lemma SetNumPath_first:
  assumes "sched_fresh c" and "0 < length (weight c)"
  shows "\<exists>c'. SetNumPath c 1 = Inr c' \<and> sched_inv c' \<and> sched_numPath c' = 1 \<and> usePath c' = 1 \<and> weight c' = weight c"
  using change_to_new_path_ok [of "c\<lparr>sched_numPath := 1, usePath := 1\<rparr>"] assms
  by (auto simp: SetNumPath_def sched_fresh_def)

lemma SetNumPath_create:
  assumes "CONFIG_USER_WRR_WEIGHT conf \<noteq> []"
  shows "\<exists>c. SetNumPath (CreateSessionScheduler conf SCHED_USER_WRR) 1 = Inr c \<and> sched_inv c \<and>
    sched_numPath c = 1 \<and> weight c = CONFIG_USER_WRR_WEIGHT conf"
proof -
  have "weight (CreateSessionScheduler conf SCHED_USER_WRR) = CONFIG_USER_WRR_WEIGHT conf"
    by (simp add: CreateSessionScheduler_def)
  with SetNumPath_first [OF CreateSessionScheduler_fresh, of conf SCHED_USER_WRR] assms show ?thesis by auto
qed

lemma SetNumPath_next:
  assumes "sched_inv c" and "sched_numPath c < int (length (weight c))"
  shows "\<exists>c'. SetNumPath c (sched_numPath c + 1) = Inr c' \<and> sched_inv c' \<and>
    sched_numPath c' = sched_numPath c + 1 \<and> usePath c' = sched_numPath c' \<and> weight c' = weight c"
  using change_to_new_path_ok
      [of "c\<lparr>sched_numPath := sched_numPath c + 1, usePath := sched_numPath c + 1\<rparr>"] assms
  by (auto simp: SetNumPath_def sched_inv_def)

lemma SetNumPath_too_many:
  assumes "sched_inv c" and "int (length (weight c)) < n"
  shows "SetNumPath c n = Inl IndexOutOfRange"
proof -
  have "quota c (n - 1) = Inl IndexOutOfRange" if "int (length (weight c)) < n" for c :: SessionScheduler
    using that by (auto simp: quota_def go_index_int_def nat_le_iff le_nat_iff)
  then show ?thesis using assms
    by (auto simp: SetNumPath_def change_to_new_path_def sched_inv_def quota_Inr nat_less_iff Let_def)
qed

lemma scheduling_user_wrr_ok:
  assumes "sched_inv c"
  shows "\<exists>c'. scheduling_user_wrr c n = Inr (currentPath c, c') \<and> sched_inv c' \<and>
    sched_numPath c' = sched_numPath c \<and> usePath c' = usePath c \<and> weight c' = weight c \<and>
    multipath c' = multipath c \<and> length (remainingBytes c') = length (remainingBytes c)"
  using assms
  by (auto simp: scheduling_user_wrr_def Let_def sched_inv_def quota_Inr nat_less_iff go_mod_def)

lemma scheduling_path_ok:
  assumes "sched_inv c"
  shows "\<exists>c'. scheduling_path c = Inr c' \<and> sched_inv c' \<and> sched_numPath c' = sched_numPath c \<and> weight c' = weight c"
  using assms change_to_new_path_ok [of "c\<lparr>usePath := sched_numPath c\<rparr>"]
    change_to_new_path_ok [of "c\<lparr>usePath := usePath c - 1\<rparr>"]
  by (auto simp: scheduling_path_def sched_inv_def)

lemma monitor_verdict_ok:
  assumes "sched_inv c"
  shows "\<exists>c'. monitor_verdict c b = Inr c' \<and> sched_inv c' \<and> sched_numPath c' = sched_numPath c \<and> weight c' = weight c"
  using assms scheduling_path_ok [of "c\<lparr>multipath := b\<rparr>"]
  by (auto simp: monitor_verdict_def sched_inv_def)

lemma Scheduling_ok:
  assumes "sched_inv c"
  shows "\<exists>p c'. Scheduling c n = Inr (p, c') \<and> 0 \<le> p \<and> p < usePath c \<and> p < sched_numPath c \<and> sched_inv c' \<and>
    usePath c' = usePath c \<and> sched_numPath c' = sched_numPath c \<and> weight c' = weight c"
  using scheduling_user_wrr_ok [OF assms, of n] assms
  by (auto simp: Scheduling_def scheduling_net_wrr_def sched_inv_def)

lemma sched_step_ok:
  assumes "sched_inv c" and "e = AddPath \<Longrightarrow> sched_numPath c < int (length (weight c))"
  shows "\<exists>c'. sched_step e c = Inr c' \<and> sched_inv c' \<and> weight c' = weight c \<and>
    sched_numPath c' = sched_numPath c + (if e = AddPath then 1 else 0)"
proof (cases e)
  case AddPath
  with SetNumPath_next [OF assms(1)] assms(2) show ?thesis by (auto simp: sched_step_def)
next
  case (Schedule n)
  with Scheduling_ok [OF assms(1), of n] show ?thesis by (auto simp: sched_step_def)
next
  case (Verdict b)
  with monitor_verdict_ok [OF assms(1), of b] show ?thesis by (auto simp: sched_step_def)
qed

lemma sched_run_ok:
  "sched_inv c \<Longrightarrow> sched_numPath c + int (count_list es AddPath) \<le> int (length (weight c)) \<Longrightarrow>
   \<exists>c'. foldE sched_step es c = Inr c' \<and> sched_inv c' \<and>
     sched_numPath c' = sched_numPath c + int (count_list es AddPath)"
proof (induction es arbitrary: c)
  case (Cons e es)
  from Cons.prems(2) have "e = AddPath \<Longrightarrow> sched_numPath c < int (length (weight c))" by simp
  from sched_step_ok [OF Cons.prems(1) this] obtain c1 where
    c1: "sched_step e c = Inr c1" "sched_inv c1" "weight c1 = weight c"
      "sched_numPath c1 = sched_numPath c + (if e = AddPath then 1 else 0)" by auto
  with Cons.prems(2) have "sched_numPath c1 + int (count_list es AddPath) \<le> int (length (weight c1))"
    by (simp split: if_splits)
  from Cons.IH [OF c1(2) this] c1 show ?case by auto
qed simp

section \<open>Contract for the session\<close>

text \<open>A scheduler that is ready never fails, and chooses one of the paths in use.\<close>

locale path_scheduler =
  fixes schedule :: "'c \<Rightarrow> u32 \<Rightarrow> (int \<times> 'c) result"
    and ready :: "'c \<Rightarrow> bool"
    and paths :: "'c \<Rightarrow> int"
  assumes schedule_ready: "ready c \<Longrightarrow>
    \<exists>p c'. schedule c n = Inr (p, c') \<and> 0 \<le> p \<and> p < paths c \<and> ready c' \<and> paths c' = paths c"

begin

lemma run_ready:
  "ready c \<Longrightarrow>
   \<exists>ps c'. foldE (\<lambda>n (ps, c). bindE (schedule c n) (\<lambda>(p, c). Inr (ps @ [p], c))) ns (qs, c) = Inr (qs @ ps, c') \<and>
     length ps = length ns \<and> (\<forall>p \<in> set ps. 0 \<le> p \<and> p < paths c) \<and> ready c' \<and> paths c' = paths c"
proof (induction ns arbitrary: c qs)
  case (Cons n ns)
  from schedule_ready [OF Cons.prems, of n] obtain p c1 where
    p: "schedule c n = Inr (p, c1)" "0 \<le> p" "p < paths c" "ready c1" "paths c1 = paths c" by blast
  from Cons.IH [OF p(4), of "qs @ [p]"] p show ?case by fastforce
qed simp

end

interpretation wrr: path_scheduler Scheduling sched_inv usePath
  by unfold_locales (meson Scheduling_ok)

section \<open>Weighted shares\<close>

abbreviation full_payload :: u32 where "full_payload \<equiv> of_nat DATA_PACKET_PAYLOAD_SIZE"

text \<open>All quotas are full, and a weight fits in the 32 bit byte count.\<close>

definition quotas_full :: "SessionScheduler \<Rightarrow> bool" where
  "quotas_full c \<longleftrightarrow>
     (\<forall>i < nat (usePath c). remainingBytes c ! i = weight c ! i * full_payload \<and>
        0 < unat (weight c ! i) \<and> unat (weight c ! i) * 1024 < 2 ^ 32)"

lemma schedule_all_append:
  "schedule_all c (ns @ ms) =
     bindE (schedule_all c ns) (\<lambda>(ps, c). bindE (schedule_all c ms) (\<lambda>(qs, c). Inr (ps @ qs, c)))"
proof (induction ns arbitrary: c)
  case Nil
  then show ?case by (cases "schedule_all c ms") auto
next
  case (Cons n ns)
  then show ?case
    by (cases "Scheduling c n"; cases "schedule_all (snd (projr (Scheduling c n))) ns";
        cases "schedule_all (snd (projr (schedule_all (snd (projr (Scheduling c n))) ns))) ms")
       (auto simp: split_def)
qed

lemma wrr_within_quota:
  assumes inv: "sched_inv c" and ty: "schedulerType c = SCHED_USER_WRR"
    and rem: "remainingBytes c ! nat (currentPath c) = of_nat (Suc k * 1024)" and k: "Suc k * 1024 < 2 ^ 32"
  shows "Scheduling c full_payload = Inr (currentPath c,
     if k = 0
     then c\<lparr>remainingBytes := (remainingBytes c)[nat (currentPath c) := weight c ! nat (currentPath c) * full_payload],
            currentPath := (currentPath c + 1) mod usePath c\<rparr>
     else c\<lparr>remainingBytes := (remainingBytes c)[nat (currentPath c) := of_nat (k * 1024)]\<rparr>)"
proof -
  define x y :: u32 where "x = of_nat (Suc k * 1024)" and "y = of_nat (k * 1024)"
  have unat: "unat x = Suc k * 1024" "unat y = k * 1024"
    unfolding x_def y_def using k
    by (auto intro!: unat_of_nat_less simp del: of_nat_mult of_nat_Suc of_nat_add)
  have ge: "full_payload \<le> x"
    unfolding word_le_nat_alt unat(1) by (simp add: DATA_PACKET_PAYLOAD_SIZE_def)
  have minus: "x - full_payload = y"
    by (simp add: x_def y_def DATA_PACKET_PAYLOAD_SIZE_def)
  have le: "y \<le> REMAINING_BYTES_RESET_THRESH \<longleftrightarrow> k = 0"
    unfolding word_le_nat_alt unat(2)
    by (simp add: REMAINING_BYTES_RESET_THRESH_def DATA_PACKET_PAYLOAD_SIZE_def) presburger
  from inv have idx: "0 \<le> currentPath c" "nat (currentPath c) < length (remainingBytes c)"
    "currentPath c < int (length (weight c))" "0 < usePath c"
    by (auto simp: sched_inv_def nat_less_iff)
  show ?thesis
    using idx ty rem [folded x_def] ge unfolding y_def [symmetric]
    by (simp add: Scheduling_def scheduling_user_wrr_def Let_def minus le quota_Inr go_mod_def)
qed

lemma wrr_block:
  assumes "sched_inv c" and "schedulerType c = SCHED_USER_WRR"
    and "remainingBytes c ! nat (currentPath c) = of_nat (Suc k * 1024)" and "Suc k * 1024 < 2 ^ 32"
  shows "schedule_all c (replicate (Suc k) full_payload) = Inr (replicate (Suc k) (currentPath c),
     c\<lparr>remainingBytes := (remainingBytes c)[nat (currentPath c) := weight c ! nat (currentPath c) * full_payload],
       currentPath := (currentPath c + 1) mod usePath c\<rparr>)"
  using assms
proof (induction k arbitrary: c)
  case 0
  then show ?case using wrr_within_quota [of c 0] by simp
next
  case (Suc k)
  let ?c = "c\<lparr>remainingBytes := (remainingBytes c)[nat (currentPath c) := of_nat (Suc k * 1024)]\<rparr>"
  from Suc.prems(1) have "nat (currentPath c) < length (remainingBytes c)"
    by (auto simp: sched_inv_def nat_less_iff)
  then have "sched_inv ?c" "remainingBytes ?c ! nat (currentPath ?c) = of_nat (Suc k * 1024)"
    using Suc.prems(1) by (simp_all add: sched_inv_def del: of_nat_mult of_nat_Suc)
  then have "schedule_all ?c (replicate (Suc k) full_payload) = Inr (replicate (Suc k) (currentPath ?c),
     ?c\<lparr>remainingBytes := (remainingBytes ?c)[nat (currentPath ?c) := weight ?c ! nat (currentPath ?c) * full_payload],
       currentPath := (currentPath ?c + 1) mod usePath ?c\<rparr>)"
    using Suc.prems by (intro Suc.IH) simp_all
  then show ?case
    unfolding replicate_Suc [of "Suc k"] schedule_all.simps wrr_within_quota [OF Suc.prems]
    by (simp del: replicate_Suc of_nat_mult of_nat_Suc)
qed

lemma wrr_full_block:
  assumes inv: "sched_inv c" and ty: "schedulerType c = SCHED_USER_WRR" and full: "quotas_full c"
  shows "schedule_all c (replicate (unat (weight c ! nat (currentPath c))) full_payload) =
    Inr (replicate (unat (weight c ! nat (currentPath c))) (currentPath c),
         c\<lparr>currentPath := (currentPath c + 1) mod usePath c\<rparr>)"
proof -
  let ?p = "nat (currentPath c)" and ?w = "unat (weight c ! nat (currentPath c))"
  from inv have p: "?p < nat (usePath c)" "?p < length (remainingBytes c)" by (auto simp: sched_inv_def)
  with full have w: "remainingBytes c ! ?p = weight c ! ?p * full_payload" "0 < ?w" "?w * 1024 < 2 ^ 32"
    by (auto simp: quotas_full_def)
  then obtain k where k: "?w = Suc k" by (cases ?w) auto
  have "of_nat (?w * 1024) = weight c ! ?p * full_payload"
    by (simp add: DATA_PACKET_PAYLOAD_SIZE_def)
  with w have rem: "remainingBytes c ! ?p = of_nat (Suc k * 1024)" by (simp only: k)
  have "(remainingBytes c)[?p := weight c ! ?p * full_payload] = remainingBytes c"
    using w(1) by (metis list_update_id)
  with wrr_block [OF inv ty rem] w(3) show ?thesis by (simp only: k) simp
qed

lemma wrr_round_prefix:
  assumes inv: "sched_inv c" and ty: "schedulerType c = SCHED_USER_WRR" and full: "quotas_full c"
    and zero: "currentPath c = 0" and m: "m \<le> nat (usePath c)"
  shows "schedule_all c (replicate (\<Sum>i<m. unat (weight c ! i)) full_payload) =
    Inr (concat (map (\<lambda>i. replicate (unat (weight c ! i)) (int i)) [0..<m]),
         c\<lparr>currentPath := int m mod usePath c\<rparr>)"
  using m
proof (induction m)
  case 0
  then show ?case using zero by simp
next
  case (Suc m)
  let ?c = "c\<lparr>currentPath := int m mod usePath c\<rparr>"
  have mod: "int m mod usePath c = int m" using Suc.prems by simp
  have "sched_inv ?c" "schedulerType ?c = SCHED_USER_WRR" "quotas_full ?c"
    using inv ty full Suc.prems by (simp_all add: sched_inv_def quotas_full_def)
  note step = wrr_full_block [OF this]
  have "schedule_all c (replicate (\<Sum>i<m. unat (weight c ! i)) full_payload) =
    Inr (concat (map (\<lambda>i. replicate (unat (weight c ! i)) (int i)) [0..<m]), ?c)"
    using Suc by simp
  then show ?case
    using step by (simp add: replicate_add schedule_all_append mod add.commute [of 1])
qed

lemma wrr_round:
  assumes "sched_inv c" and "schedulerType c = SCHED_USER_WRR" and "quotas_full c" and "currentPath c = 0"
  shows "schedule_all c (replicate (\<Sum>i<nat (usePath c). unat (weight c ! i)) full_payload) =
    Inr (concat (map (\<lambda>i. replicate (unat (weight c ! i)) (int i)) [0..<nat (usePath c)]), c)"
  using wrr_round_prefix [OF assms order_refl] assms(1,4) by (simp add: sched_inv_def)
end
