(* ===== verification/Session_Model.thy ===== *)
theory Session_Model
  imports Recv_Buffer Session_Scheduler
begin

text \<open>
  The multipath session (\<^verbatim>\<open>mp2bs-main/session/session.go\<close>): its state, the construction of paths, the
  segmentation of written data into data packets, the transmitter and receiver goroutines
  (one round of each loop) and the packet handlers.  The QUIC streams are code of another
  package; their operations are an argument of the definitions, the record \<open>quic\<close>.  Log output,
  the throughput statistics (floating point, only logged) and the polling channel \<^verbatim>\<open>checker\<close> are left out.
\<close>

section \<open>State\<close>

text \<open>
  \<^verbatim>\<open>stream.Read(buf)\<close> with room for \<open>n\<close> bytes gives the bytes that it stored and the error, as Go's \<^verbatim>\<open>(n, err)\<close>: bytes may
  come together with an error, and fewer than \<open>n\<close> may come without one.
\<close>

record 'st quic =
  q_Read :: "'st \<Rightarrow> nat \<Rightarrow> bytes \<times> fault option \<times> 'st"
  q_Write :: "'st \<Rightarrow> bytes \<Rightarrow> 'st"
  q_Close :: "'st \<Rightarrow> 'st"

record 'st Session =
  mutex :: "unit list"
  SessionID :: u32
  numPath :: int
  streamList :: "'st list"
  listenAddrList :: "string list"
  connectedAddrList :: "string list"
  sequenceNumber :: u32
  sentBytes :: "u32 list"
  recvBytes :: "u32 list"
  scheduler :: SessionScheduler
  recvBuffer :: RecvBuffer
  sendBuffer :: "DataPacket list list"
  goodbye :: bool

definition CreateSession :: "Config \<Rightarrow> u32 \<Rightarrow> string list \<Rightarrow> 'st Session" where
  "CreateSession conf sessionID addrList =
     \<lparr>mutex = replicate 2 (), SessionID = sessionID, numPath = 0, streamList = [],
      listenAddrList = addrList, connectedAddrList = [], sequenceNumber = 0,
      sentBytes = [], recvBytes = [],
      scheduler = CreateSessionScheduler conf SCHED_USER_WRR,
      recvBuffer = CreateRecvBuffer, sendBuffer = [], goodbye = False\<rparr>"

section \<open>Paths\<close>

definition AddStream :: "'st Session \<Rightarrow> 'st \<Rightarrow> string \<Rightarrow> bool \<Rightarrow> (int \<times> 'st Session) result" where
  "AddStream s stream connectedAddr accepted =
     (let s = s\<lparr>streamList := streamList s @ [stream],
                connectedAddrList := connectedAddrList s @ [connectedAddr],
                numPath := numPath s + 1,
                sentBytes := sentBytes s @ [0],
                recvBytes := recvBytes s @ [0],
                sendBuffer := sendBuffer s @ [[]]\<rparr>
      in if accepted
         then bindE (SetNumPath (scheduler s) (numPath s)) (\<lambda>c.
              Inr (numPath s - 1, s\<lparr>scheduler := c\<rparr>))
         else Inr (numPath s - 1, s))"

section \<open>Sending\<close>

text \<open>An error of \<^verbatim>\<open>stream.Write\<close> is only logged.\<close>

definition sendPacket :: "'st quic \<Rightarrow> 'st Session \<Rightarrow> bytes \<Rightarrow> int \<Rightarrow> 'st Session result" where
  "sendPacket q s packet pathID =
     bindE (go_index_int (streamList s) pathID) (\<lambda>stream.
     bindE (go_update_int (streamList s) pathID (q_Write q stream packet)) (\<lambda>streams.
     Inr (s\<lparr>streamList := streams\<rparr>)))"

definition sendHelloPacket :: "Config \<Rightarrow> 'st quic \<Rightarrow> 'st Session \<Rightarrow> int \<Rightarrow> 'st Session result" where
  "sendHelloPacket conf q s pathID =
     (let packet = CreateHelloPacket conf (SessionID s) (of_nat (length (listenAddrList s))) in
      bindE (HelloPacket_Write packet []) (\<lambda>b. sendPacket q s b pathID))"

definition byte_of_char :: "char \<Rightarrow> u8" where
  "byte_of_char c = of_nat (of_char c)"

definition char_of_byte :: "u8 \<Rightarrow> char" where
  "char_of_byte b = char_of (unat b)"

definition getNicInfo :: "'st Session \<Rightarrow> NicInfo list" where
  "getNicInfo s =
     map (\<lambda>addr. \<lparr>nic_Type = 0, nic_AddrLen = of_nat (length addr), nic_Addr = map byte_of_char addr\<rparr>)
       (listenAddrList s)"

definition sendHelloAckPacket :: "Config \<Rightarrow> 'st quic \<Rightarrow> 'st Session \<Rightarrow> int \<Rightarrow> 'st Session result" where
  "sendHelloAckPacket conf q s pathID =
     (let nicInfos = getNicInfo s;
          packet = CreateHelloAckPacket conf (SessionID s) nicInfos in
      bindE (HelloAckPacket_Write packet []) (\<lambda>b. sendPacket q s b pathID))"

text \<open>The two mutexes limit a session to two paths: a third index panics.\<close>

definition sendDataPacket :: "Config \<Rightarrow> 'st Session \<Rightarrow> bytes \<Rightarrow> int \<Rightarrow> 'st Session result" where
  "sendDataPacket conf s payload pathID =
     (let packet = CreateDataPacket conf (SessionID s) (nat pathID) (sequenceNumber s) payload in
      bindE (go_index_int (mutex s) pathID) (\<lambda>_.
      bindE (go_index_int (sendBuffer s) pathID) (\<lambda>queue.
      bindE (go_update_int (sendBuffer s) pathID (queue @ [packet])) (\<lambda>buffers.
      Inr (s\<lparr>sendBuffer := buffers\<rparr>)))))"

definition sendGoodbyePacket :: "Config \<Rightarrow> 'st quic \<Rightarrow> 'st Session \<Rightarrow> int \<Rightarrow> 'st Session result" where
  "sendGoodbyePacket conf q s pathID =
     bindE (GoodbyePacket_Write (CreateGoodbyePacket conf (SessionID s)) []) (\<lambda>b. sendPacket q s b pathID)"

text \<open>
  One round of \<^verbatim>\<open>dataPacketTransmitter\<close>.  The inner loop waits until the queue of the path is
  not empty; while it waits the state does not change.
\<close>

definition dataPacketTransmitter :: "'st quic \<Rightarrow> 'st Session \<Rightarrow> int \<Rightarrow> 'st Session result" where
  "dataPacketTransmitter q s pathID =
     bindE (go_index_int (sendBuffer s) pathID) (\<lambda>queue.
     case queue of
       [] \<Rightarrow> Inr s
     | packet # queue' \<Rightarrow>
         bindE (go_index_int (mutex s) pathID) (\<lambda>_.
         bindE (go_update_int (sendBuffer s) pathID queue') (\<lambda>buffers.
         bindE (DataPacket_Write packet []) (\<lambda>b.
         sendPacket q (s\<lparr>sendBuffer := buffers\<rparr>) b pathID))))"

text \<open>
  \<^verbatim>\<open>Write\<close>.  A round of its loop sends one packet.  The session has no lock around it: \<open>write_send\<close> queues a packet with the
  current sequence number, and only then the number is advanced.  \<open>verdicts k\<close> are the verdicts of the monitor
  goroutine that take effect before packet \<open>k\<close> of this call is scheduled; the monitor is only triggered for block data
  packets (\<^verbatim>\<open>pType == 14\<close>), for other packets \<open>verdicts\<close> gives the empty list.
\<close>

definition write_send :: "Config \<Rightarrow> bool list \<Rightarrow> 'st Session \<Rightarrow> bytes \<Rightarrow> 'st Session result" where
  "write_send conf verdicts s payload =
     (let payloadSize = of_nat (length payload) in
      bindE (foldE (\<lambda>b c. monitor_verdict c b) verdicts (scheduler s)) (\<lambda>c.
      bindE (Scheduling c payloadSize) (\<lambda>(pathID, c).
      let s = s\<lparr>scheduler := c\<rparr> in
      bindE (sendDataPacket conf s payload pathID) (\<lambda>s.
      bindE (go_index_int (sentBytes s) pathID) (\<lambda>n.
      bindE (go_update_int (sentBytes s) pathID (n + payloadSize)) (\<lambda>sent.
      Inr (s\<lparr>sentBytes := sent\<rparr>)))))))"

definition write_advance :: "'st Session \<Rightarrow> 'st Session" where
  "write_advance s = s\<lparr>sequenceNumber := sequenceNumber s + 1\<rparr>"

definition write_packet :: "Config \<Rightarrow> bool list \<Rightarrow> 'st Session \<Rightarrow> bytes \<Rightarrow> 'st Session result" where
  "write_packet conf verdicts s payload = bindE (write_send conf verdicts s payload) (\<lambda>s. Inr (write_advance s))"

text \<open>A round: the end of the payload, and the state.\<close>

definition write_round :: "Config \<Rightarrow> bool list \<Rightarrow> 'st Session \<Rightarrow> bytes \<Rightarrow> nat \<Rightarrow> (nat \<times> 'st Session) result" where
  "write_round conf verdicts s buf start =
     (let e = (if start + DATA_PACKET_PAYLOAD_SIZE < length buf
               then start + DATA_PACKET_PAYLOAD_SIZE else length buf)
      in bindE (go_slice buf start e) (\<lambda>payload.
         bindE (write_packet conf verdicts s payload) (\<lambda>s. Inr (e, s))))"

lemma write_round_end:
  "write_round conf verdicts s buf start = Inr (e, s') \<Longrightarrow> start < length buf \<Longrightarrow> start < e \<and> e \<le> length buf"
  by (auto simp: write_round_def Let_def bindE_eq_Inr_iff DATA_PACKET_PAYLOAD_SIZE_def split: if_splits)

function Session_Write_loop ::
  "Config \<Rightarrow> (nat \<Rightarrow> bool list) \<Rightarrow> 'st Session \<Rightarrow> bytes \<Rightarrow> nat \<Rightarrow> nat \<Rightarrow> nat \<Rightarrow> (nat \<times> 'st Session) result" where
  "Session_Write_loop conf verdicts s buf start k tot =
     (if start < length buf
      then bindE (write_round conf (verdicts k) s buf start) (\<lambda>(e, s).
           Session_Write_loop conf verdicts s buf e (Suc k) (tot + (e - start)))
      else Inr (tot, s))"
  by pat_completeness auto
termination
  by (relation "measure (\<lambda>(conf, verdicts, s, buf, start, k, tot). length buf - start)")
     (auto dest: write_round_end)

definition Session_Write :: "Config \<Rightarrow> (nat \<Rightarrow> bool list) \<Rightarrow> 'st Session \<Rightarrow> bytes \<Rightarrow> u8 \<Rightarrow> (nat \<times> 'st Session) result" where
  "Session_Write conf verdicts s buf pType =
     Session_Write_loop conf (if pType = 14 then verdicts else (\<lambda>_. [])) s buf 0 0 0"

declare Session_Write_loop.simps [simp del]

section \<open>Receiving\<close>

definition handleDataPacket :: "'st Session \<Rightarrow> DataPacket \<Rightarrow> 'st Session" where
  "handleDataPacket s packet = s\<lparr>recvBuffer := PushPacket (recvBuffer s) packet\<rparr>"

definition handleGoodbyePacket :: "'st Session \<Rightarrow> GoodbyePacket \<Rightarrow> 'st Session" where
  "handleGoodbyePacket s packet = s\<lparr>goodbye := True\<rparr>"

text \<open>
  \<^verbatim>\<open>handleHelloAckPacket\<close> returns, beside the new state, the address and the local interface of the
  connection it goes on to establish by calling \<^verbatim>\<open>Connect\<close>.
\<close>

definition handleHelloAckPacket ::
  "'st Session \<Rightarrow> HelloAckPacket \<Rightarrow> ('st Session \<times> (string \<times> int) option) result" where
  "handleHelloAckPacket s packet =
     (let s = (if SessionID s = 0 then s\<lparr>SessionID := hack_SessionID packet\<rparr> else s);
          addr = (\<lambda>i. bindE (go_index (hack_NicInfos packet) i) (\<lambda>nic. Inr (map char_of_byte (nic_Addr nic))))
      in bindE (SetNumPath (scheduler s) (numPath s)) (\<lambda>c.
         let s = s\<lparr>scheduler := c\<rparr> in
         if length (connectedAddrList s) = 1
         then if hack_NumPath packet = 2 \<and> length (listenAddrList s) = 1
              then bindE (addr 1) (\<lambda>nicAddr. Inr (s, Some (nicAddr, 0)))
              else if hack_NumPath packet = 1 \<and> length (listenAddrList s) = 2
              then bindE (addr 0) (\<lambda>nicAddr. Inr (s, Some (nicAddr, 1)))
              else if hack_NumPath packet = 2 \<and> length (listenAddrList s) = 2
              then bindE (addr 1) (\<lambda>nicAddr. Inr (s, Some (nicAddr, 1)))
              else Inr (s, None)
         else Inr (s, None)))"

text \<open>A read into \<^verbatim>\<open>buf[i:j]\<close>: the slice may panic, the stream may fail, and fewer bytes may come.\<close>

definition read_slice :: "'st quic \<Rightarrow> 'st \<Rightarrow> bytes \<Rightarrow> nat \<Rightarrow> nat \<Rightarrow> (nat \<times> bytes \<times> fault option \<times> 'st) result" where
  "read_slice q st buf i j =
     bindE (go_slice buf i j) (\<lambda>_.
     let (bs, err, st) = q_Read q st (j - i)
     in Inr (length bs, take i buf @ bs @ drop (i + length bs) buf, err, st))"

text \<open>A read after which every error panics.\<close>

definition read_or_panic :: "'st quic \<Rightarrow> 'st \<Rightarrow> bytes \<Rightarrow> nat \<Rightarrow> nat \<Rightarrow> (bytes \<times> 'st) result" where
  "read_or_panic q st buf i j =
     bindE (read_slice q st buf i j) (\<lambda>(_, buf, err, st).
     case err of None \<Rightarrow> Inr (buf, st) | Some e \<Rightarrow> Inl e)"

definition zero_buffer :: "Config \<Rightarrow> bytes" where
  "zero_buffer conf = replicate (unat (PACKET_SIZE conf)) 0"

text \<open>Packet type and length, from the three bytes \<^verbatim>\<open>buf[:3]\<close>.\<close>

definition packet_header :: "bytes \<Rightarrow> (u8 \<times> u16) result" where
  "packet_header buf =
     bindE (ReadByte (take 3 buf)) (\<lambda>(packetType, r).
     bindE (ReadUint16 r) (\<lambda>(packetLength, _).
     Inr (packetType, packetLength)))"

definition receiveHelloAckPacket ::
  "Config \<Rightarrow> 'st quic \<Rightarrow> 'st Session \<Rightarrow> int \<Rightarrow> ('st Session \<times> (string \<times> int) option) result" where
  "receiveHelloAckPacket conf q s pathID =
     bindE (go_index_int (streamList s) pathID) (\<lambda>stream.
     bindE (read_or_panic q stream (zero_buffer conf) 0 3) (\<lambda>(buf, stream).
     bindE (packet_header buf) (\<lambda>(packetType, packetLength).
     bindE (read_or_panic q stream buf 3 (unat packetLength)) (\<lambda>(buf, stream).
     bindE (go_update_int (streamList s) pathID stream) (\<lambda>streams.
     let s = s\<lparr>streamList := streams\<rparr> in
     if packetType = HELLO_ACK_PACKET conf
     then bindE (ParseHelloAckPacket buf) (\<lambda>(packet, _). handleHelloAckPacket s packet)
     else Inl (Panic ''Session.receiveHelloAckPacket(): Unknown packet type''))))))"

text \<open>
  The loop of \<^verbatim>\<open>receiver\<close> that reads the rest of a packet: \<open>None\<close> when the stream keeps returning
  no bytes and no error.  Bytes that come together with the end of the stream are in the buffer.
\<close>

partial_function (option) read_rest ::
  "'st quic \<Rightarrow> 'st \<Rightarrow> bytes \<Rightarrow> nat \<Rightarrow> nat \<Rightarrow> (nat \<times> bytes \<times> 'st) result option" where
  "read_rest q st buf i n =
     (if i = n then Some (Inr (i, buf, st))
      else case read_slice q st buf i n of
             Inl e \<Rightarrow> Some (Inl e)
           | Inr (len, buf, err, st) \<Rightarrow>
               (case err of
                  None \<Rightarrow> read_rest q st buf (i + len) n
                | Some e \<Rightarrow> Some (if e = EOF then Inr (i, buf, st) else Inl e)))"

declare read_rest.simps [code]

text \<open>The switch on the packet type; the case of a hello packet is empty in the source.\<close>

definition receiver_handle :: "Config \<Rightarrow> 'st Session \<Rightarrow> int \<Rightarrow> u8 \<Rightarrow> bytes \<Rightarrow> 'st Session result" where
  "receiver_handle conf s pathID packetType buf =
     (if packetType = HELLO_PACKET conf then Inr s
      else if packetType = HELLO_ACK_PACKET conf then Inl (Panic ''Session.receiver(): Error!'')
      else if packetType = DATA_PACKET conf
      then bindE (ParseDataPacket buf) (\<lambda>(packet, _).
           bindE (go_index_int (recvBytes s) pathID) (\<lambda>n.
           bindE (go_update_int (recvBytes s) pathID
                    (n + ucast (data_Length packet - DATA_PACKET_HEADER_LEN))) (\<lambda>recv.
           Inr (handleDataPacket (s\<lparr>recvBytes := recv\<rparr>) packet))))
      else if packetType = GOODBYE_PACKET conf
      then bindE (ParseGoodbyePacket buf) (\<lambda>(packet, _). Inr (handleGoodbyePacket s packet))
      else Inl (Panic ''Unknown packet type''))"

text \<open>
  One round of the loop of \<^verbatim>\<open>receiver\<close>: \<open>Inr None\<close> when the stream is at its end and the goroutine
  stops.  The number of header bytes that the first read returned is not checked.
\<close>

definition receiver_round ::
  "Config \<Rightarrow> 'st quic \<Rightarrow> 'st Session \<Rightarrow> int \<Rightarrow> 'st \<Rightarrow> ('st Session \<times> 'st) option result option" where
  "receiver_round conf q s pathID stream =
     (case read_slice q stream (zero_buffer conf) 0 3 of
        Inl e \<Rightarrow> Some (Inl e)
      | Inr (_, buf, Some e, stream) \<Rightarrow> Some (if e = EOF then Inr None else Inl e)
      | Inr (_, buf, None, stream) \<Rightarrow>
          (case packet_header buf of
             Inl e \<Rightarrow> Some (Inl e)
           | Inr (packetType, packetLength) \<Rightarrow>
               map_option (\<lambda>rest. bindE rest (\<lambda>(_, buf, stream).
                   bindE (receiver_handle conf s pathID packetType buf) (\<lambda>s. Inr (Some (s, stream)))))
                 (read_rest q stream buf 3 (unat packetLength))))"

section \<open>Reading\<close>

text \<open>
  \<^verbatim>\<open>Read\<close> and \<^verbatim>\<open>ReadWithSize\<close> poll until their condition holds; \<open>None\<close> stands for a poll that has
  to go on.
\<close>

definition Session_Read :: "'st Session \<Rightarrow> bytes \<Rightarrow> (nat \<times> bytes \<times> 'st Session) option" where
  "Session_Read s buf =
     (if \<not> RecvBuffer_IsEmpty (recvBuffer s) \<or> goodbye s
      then let (readLen, buf, b) = RecvBuffer_Read (recvBuffer s) buf
           in Some (readLen, buf, s\<lparr>recvBuffer := b\<rparr>)
      else None)"

definition Session_ReadWithSize :: "'st Session \<Rightarrow> bytes \<Rightarrow> nat \<Rightarrow> (nat \<times> bytes \<times> 'st Session) option" where
  "Session_ReadWithSize s buf sz =
     (if RecvBuffer_GetLength (recvBuffer s) \<ge> sz \<or> goodbye s
      then let (readLen, buf, b) = RecvBuffer_Read (recvBuffer s) buf
           in Some (readLen, buf, s\<lparr>recvBuffer := b\<rparr>)
      else None)"

definition Session_Close :: "'st quic \<Rightarrow> 'st Session \<Rightarrow> 'st Session" where
  "Session_Close q s = s\<lparr>streamList := map (q_Close q) (streamList s)\<rparr>"

section \<open>Connecting\<close>

text \<open>
  \<open>dial addr i\<close> stands for the calls of package quic: it gives the stream that is opened to
  \<open>addr\<close> from the local interface \<open>i\<close> and the remote address of the connection.
\<close>

definition connect_path ::
  "Config \<Rightarrow> 'st quic \<Rightarrow> (string \<Rightarrow> int \<Rightarrow> ('st \<times> string) result) \<Rightarrow> 'st Session \<Rightarrow> string \<Rightarrow> int \<Rightarrow>
   ('st Session \<times> (string \<times> int) option) result" where
  "connect_path conf q dial s addr i =
     bindE (go_index_int (listenAddrList s) i) (\<lambda>_.
     bindE (dial addr i) (\<lambda>(stream, remoteAddr).
     bindE (AddStream s stream remoteAddr False) (\<lambda>(pathID, s).
     bindE (sendHelloPacket conf q s pathID) (\<lambda>s.
     receiveHelloAckPacket conf q s pathID))))"

text \<open>
  \<^verbatim>\<open>Connect\<close> and \<^verbatim>\<open>handleHelloAckPacket\<close> call each other.  A further connection is opened only
  while there is exactly one, and every connection adds one, so the recursion stops.
\<close>

lemma handleHelloAckPacket_conn:
  "handleHelloAckPacket s p = Inr (s', nxt) \<Longrightarrow>
   connectedAddrList s' = connectedAddrList s \<and> (nxt \<noteq> None \<longrightarrow> length (connectedAddrList s) = 1)"
  by (auto simp: handleHelloAckPacket_def Let_def bindE_eq_Inr_iff split: if_splits)

lemma receiveHelloAckPacket_conn:
  assumes "receiveHelloAckPacket conf q s i = Inr (s', nxt)"
  shows "connectedAddrList s' = connectedAddrList s \<and> (nxt \<noteq> None \<longrightarrow> length (connectedAddrList s) = 1)"
proof -
  from assms obtain streams p where
    "handleHelloAckPacket (s\<lparr>streamList := streams\<rparr>) p = Inr (s', nxt)"
    by (auto simp: receiveHelloAckPacket_def Let_def bindE_eq_Inr_iff simp del: bindE_Inl split: if_splits)
  from handleHelloAckPacket_conn [OF this] show ?thesis by simp
qed

lemma sendHelloPacket_conn:
  "sendHelloPacket conf q s i = Inr s' \<Longrightarrow> connectedAddrList s' = connectedAddrList s"
  by (auto simp: sendHelloPacket_def sendPacket_def Let_def bindE_eq_Inr_iff)

lemma AddStream_conn:
  "AddStream s st addr acc = Inr (i, s') \<Longrightarrow> connectedAddrList s' = connectedAddrList s @ [addr]"
  by (auto simp: AddStream_def Let_def bindE_eq_Inr_iff split: if_splits)

lemma connect_path_next:
  assumes "connect_path conf q dial s addr i = Inr (s', Some x)"
  shows "connectedAddrList s = []" and "connectedAddrList s' \<noteq> []"
proof -
  from assms obtain st r j s1 s2 where
    "AddStream s st r False = Inr (j, s1)" "sendHelloPacket conf q s1 j = Inr s2"
    and rec: "receiveHelloAckPacket conf q s2 j = Inr (s', Some x)"
    unfolding connect_path_def by (auto simp: bindE_eq_Inr_iff)
  then have "connectedAddrList s2 = connectedAddrList s @ [r]"
    by (simp add: AddStream_conn sendHelloPacket_conn)
  with receiveHelloAckPacket_conn [OF rec]
  show "connectedAddrList s = []" and "connectedAddrList s' \<noteq> []" by auto
qed

function Session_Connect ::
  "Config \<Rightarrow> 'st quic \<Rightarrow> (string \<Rightarrow> int \<Rightarrow> ('st \<times> string) result) \<Rightarrow> 'st Session \<Rightarrow> string \<Rightarrow> int \<Rightarrow>
   'st Session result" where
  "Session_Connect conf q dial s addr i =
     bindE (connect_path conf q dial s addr i) (\<lambda>(s, next_conn).
     case next_conn of
       None \<Rightarrow> Inr s
     | Some (nicAddr, j) \<Rightarrow> Session_Connect conf q dial s nicAddr j)"
  by pat_completeness auto
termination
  by (relation "measure (\<lambda>(conf, q, dial, s, addr, i). if connectedAddrList s = [] then 1 else 0)")
     (auto dest: connect_path_next)

declare Session_Connect.simps [simp del]

end
