(* ===== verification/Session_Transfer.thy ===== *)
theory Session_Transfer
  imports Session_Model
begin

text \<open>
  The two ends of a transfer over a session: \<^verbatim>\<open>Write\<close> cuts the data into chunks of
  \<open>DATA_PACKET_PAYLOAD_SIZE\<close> bytes and queues one valid data packet with a fresh sequence
  number for each, on a path in use, and never panics; \<^verbatim>\<open>receiver\<close> cuts exactly one packet out of
  the byte stream in a round and hands it to the receive buffer, unless the stream returns a part of the three
  header bytes: \<^verbatim>\<open>receiver\<close> does not look at the count, and mostly panics then.  What is assumed of
  a QUIC stream is the documented behaviour \<open>reliable_stream\<close>.
\<close>

section \<open>Chunks\<close>

function chunks :: "nat \<Rightarrow> 'a list \<Rightarrow> 'a list list" where
  "chunks n xs = (if xs = [] \<or> n = 0 then [] else take n xs # chunks n (drop n xs))"
  by pat_completeness auto
termination
  by (relation "measure (\<lambda>(n, xs). length xs)") auto

declare chunks.simps [simp del]

lemma chunks_Nil [simp]: "chunks n [] = []"
  by (simp add: chunks.simps)

lemma chunks_step: "xs \<noteq> [] \<Longrightarrow> 0 < n \<Longrightarrow> chunks n xs = take n xs # chunks n (drop n xs)"
  by (subst chunks.simps) simp

lemma concat_chunks: "0 < n \<Longrightarrow> concat (chunks n xs) = xs"
proof (induction n xs rule: chunks.induct)
  case (1 n xs)
  then show ?case by (cases "xs = []") (auto simp: chunks_step)
qed

lemma chunks_bounded: "c \<in> set (chunks n xs) \<Longrightarrow> c \<noteq> [] \<and> length c \<le> n"
proof (induction n xs rule: chunks.induct)
  case (1 n xs)
  then show ?case by (cases "xs = [] \<or> n = 0") (auto simp: chunks.simps [of n xs])
qed

section \<open>Writing\<close>

text \<open>A session with its paths set up: one entry of every per-path slice for each path, at most two paths.\<close>

definition sess_inv :: "'st Session \<Rightarrow> bool" where
  "sess_inv s \<longleftrightarrow>
     length (mutex s) = 2 \<and> numPath s \<le> 2 \<and>
     numPath s = int (length (streamList s)) \<and> length (sendBuffer s) = length (streamList s) \<and>
     length (sentBytes s) = length (streamList s) \<and> length (recvBytes s) = length (streamList s) \<and>
     sched_inv (scheduler s) \<and> sched_numPath (scheduler s) = numPath s"

lemma verdicts_ok:
  "sched_inv c \<Longrightarrow> \<exists>c'. foldE (\<lambda>b c. monitor_verdict c b) bs c = Inr c' \<and> sched_inv c' \<and>
     sched_numPath c' = sched_numPath c \<and> weight c' = weight c"
proof (induction bs arbitrary: c)
  case (Cons b bs)
  from monitor_verdict_ok [OF Cons.prems, of b] obtain c1 where
    c1: "monitor_verdict c b = Inr c1" "sched_inv c1" "sched_numPath c1 = sched_numPath c" "weight c1 = weight c"
    by blast
  with Cons.IH [OF c1(2)] show ?case by auto
qed simp

lemma set_concat_update:
  assumes "i < length xss"
  shows "set (concat (xss[i := ys])) =
    set (concat (take i xss)) \<union> set ys \<union> set (concat (drop (Suc i) xss))"
  by (auto simp: upd_conv_take_nth_drop [OF assms])

lemma set_concat_nth:
  assumes "i < length xss"
  shows "set (concat xss) = set (concat (take i xss)) \<union> set (xss ! i) \<union> set (concat (drop (Suc i) xss))"
  using set_concat_update [OF assms, of "xss ! i"] by simp

lemma set_concat_snoc_at:
  assumes "i < length xss"
  shows "set (concat (xss[i := xss ! i @ [x]])) = insert x (set (concat xss))"
  unfolding set_concat_update [OF assms] set_concat_nth [OF assms] by auto

text \<open>
  The path of the next packet: the verdicts of the monitor take effect, then the scheduler is asked.  The paths of
  consecutive payloads are those of one run of the scheduler.
\<close>

definition assign_path :: "bool list \<Rightarrow> SessionScheduler \<Rightarrow> bytes \<Rightarrow> (nat \<times> SessionScheduler) result" where
  "assign_path vs c payload =
     bindE (foldE (\<lambda>b c. monitor_verdict c b) vs c) (\<lambda>c.
     bindE (Scheduling c (of_nat (length payload))) (\<lambda>(p, c). Inr (nat p, c)))"

fun assign_paths :: "(nat \<Rightarrow> bool list) \<Rightarrow> nat \<Rightarrow> SessionScheduler \<Rightarrow> bytes list \<Rightarrow> (nat list \<times> SessionScheduler) result" where
  "assign_paths vs k c [] = Inr ([], c)"
| "assign_paths vs k c (payload # payloads) =
     bindE (assign_path (vs k) c payload) (\<lambda>(p, c).
     bindE (assign_paths vs (Suc k) c payloads) (\<lambda>(ps, c). Inr (p # ps, c)))"

text \<open>What a packet changes in the state that the later ones see.\<close>

definition sent_on :: "Config \<Rightarrow> 'st Session \<Rightarrow> bytes \<Rightarrow> nat \<Rightarrow> SessionScheduler \<Rightarrow> 'st Session \<Rightarrow> bool" where
  "sent_on conf s payload p c s' \<longleftrightarrow>
     sess_inv s' \<and> scheduler s' = c \<and> SessionID s' = SessionID s \<and> numPath s' = numPath s \<and>
     streamList s' = streamList s \<and> recvBuffer s' = recvBuffer s \<and>
     sendBuffer s' = (sendBuffer s)[p := sendBuffer s ! p @ [CreateDataPacket conf (SessionID s) p (sequenceNumber s) payload]]"

lemma write_send_ok:
  assumes inv: "sess_inv s"
  shows "\<exists>p c s'. assign_path vs (scheduler s) payload = Inr (p, c) \<and> p < nat (numPath s) \<and>
    write_send conf vs s payload = Inr s' \<and> sent_on conf s payload p c s' \<and> sequenceNumber s' = sequenceNumber s"
proof -
  from verdicts_ok [of "scheduler s" vs] inv obtain c1 where
    c1: "foldE (\<lambda>b c. monitor_verdict c b) vs (scheduler s) = Inr c1" "sched_inv c1"
      "sched_numPath c1 = numPath s" by (auto simp: sess_inv_def)
  from Scheduling_ok [OF c1(2), of "of_nat (length payload)"] obtain p c2 where
    c2: "Scheduling c1 (of_nat (length payload)) = Inr (p, c2)" "0 \<le> p" "p < numPath s"
      "sched_inv c2" "sched_numPath c2 = numPath s" unfolding c1(3) by blast
  from inv c2(2,3) have "nat p < length (mutex s)" "nat p < length (sendBuffer s)" "nat p < length (sentBytes s)"
    by (auto simp: sess_inv_def)
  with c1 c2 inv show ?thesis
    by (intro exI [of _ "nat p"] exI [of _ c2])
       (auto simp: assign_path_def write_send_def sendDataPacket_def Let_def sent_on_def sess_inv_def)
qed

lemma write_packet_ok:
  assumes inv: "sess_inv s"
  shows "\<exists>p c s'. assign_path vs (scheduler s) payload = Inr (p, c) \<and> p < nat (numPath s) \<and>
    write_packet conf vs s payload = Inr s' \<and> sent_on conf s payload p c s' \<and> sequenceNumber s' = sequenceNumber s + 1"
proof -
  from write_send_ok [OF inv, of vs payload conf] obtain p c s1 where
    "assign_path vs (scheduler s) payload = Inr (p, c)" "p < nat (numPath s)"
    "write_send conf vs s payload = Inr s1" "sent_on conf s payload p c s1" "sequenceNumber s1 = sequenceNumber s" by blast
  then show ?thesis by (auto simp: write_packet_def write_advance_def sent_on_def sess_inv_def)
qed

lemma write_round_ok:
  assumes inv: "sess_inv s" and start: "start < length buf"
  defines "e \<equiv> if start + DATA_PACKET_PAYLOAD_SIZE < length buf then start + DATA_PACKET_PAYLOAD_SIZE else length buf"
  defines "payload \<equiv> take DATA_PACKET_PAYLOAD_SIZE (drop start buf)"
  shows "\<exists>p c s'. assign_path vs (scheduler s) payload = Inr (p, c) \<and> p < nat (numPath s) \<and>
      write_round conf vs s buf start = Inr (e, s') \<and> sent_on conf s payload p c s' \<and> sequenceNumber s' = sequenceNumber s + 1"
    and "chunks DATA_PACKET_PAYLOAD_SIZE (drop start buf) = payload # chunks DATA_PACKET_PAYLOAD_SIZE (drop e buf)"
proof -
  have n: "0 < DATA_PACKET_PAYLOAD_SIZE" by (simp add: DATA_PACKET_PAYLOAD_SIZE_def)
  have sl: "go_slice buf start e = Inr payload" using start n by (auto simp: e_def payload_def)
  from write_packet_ok [OF inv, of vs payload conf] sl show "\<exists>p c s'. assign_path vs (scheduler s) payload = Inr (p, c) \<and>
      p < nat (numPath s) \<and> write_round conf vs s buf start = Inr (e, s') \<and> sent_on conf s payload p c s' \<and>
      sequenceNumber s' = sequenceNumber s + 1"
    by (auto simp: write_round_def e_def [symmetric] Let_def simp del: go_slice_Inr)
  have rest: "drop e buf = drop DATA_PACKET_PAYLOAD_SIZE (drop start buf)" by (simp add: e_def add.commute)
  show "chunks DATA_PACKET_PAYLOAD_SIZE (drop start buf) = payload # chunks DATA_PACKET_PAYLOAD_SIZE (drop e buf)"
    unfolding rest payload_def using start n by (intro chunks_step) simp_all
qed

text \<open>The packets that consecutive payloads add to the queue of path \<open>i\<close>, given the path of each.\<close>

definition queued :: "Config \<Rightarrow> u32 \<Rightarrow> u32 \<Rightarrow> nat list \<Rightarrow> bytes list \<Rightarrow> nat \<Rightarrow> DataPacket list" where
  "queued conf sid seq paths cs i =
     map (\<lambda>j. CreateDataPacket conf sid i (seq + of_nat j) (cs ! j)) (filter (\<lambda>j. paths ! j = i) [0..<length cs])"

lemma queued_Nil [simp]: "queued conf sid seq paths [] i = []"
  by (simp add: queued_def)

lemma queued_Cons:
  "queued conf sid seq (p # paths) (c # cs) i =
     (if p = i then [CreateDataPacket conf sid i seq c] else []) @ queued conf sid (seq + 1) paths cs i"
proof -
  have "[0..<length (c # cs)] = 0 # map Suc [0..<length cs]" by (simp add: upt_conv_Cons map_Suc_upt del: upt_Suc)
  then show ?thesis unfolding queued_def by (simp add: filter_map comp_def algebra_simps del: upt_Suc)
qed

lemma Session_Write_loop_ok:
  assumes "sess_inv s"
  shows "\<exists>paths c s'. Session_Write_loop conf vs s buf start k tot = Inr (tot + (length buf - start), s') \<and> sess_inv s' \<and>
    assign_paths vs k (scheduler s) (chunks DATA_PACKET_PAYLOAD_SIZE (drop start buf)) = Inr (paths, c) \<and> scheduler s' = c \<and>
    length paths = length (chunks DATA_PACKET_PAYLOAD_SIZE (drop start buf)) \<and>
    (\<forall>p \<in> set paths. p < nat (numPath s)) \<and> length (sendBuffer s') = length (sendBuffer s) \<and>
    (\<forall>i < length (sendBuffer s). sendBuffer s' ! i = sendBuffer s ! i @
       queued conf (SessionID s) (sequenceNumber s) paths (chunks DATA_PACKET_PAYLOAD_SIZE (drop start buf)) i) \<and>
    sequenceNumber s' = sequenceNumber s + of_nat (length (chunks DATA_PACKET_PAYLOAD_SIZE (drop start buf))) \<and>
    streamList s' = streamList s \<and> recvBuffer s' = recvBuffer s"
  using assms
proof (induction conf vs s buf start k tot rule: Session_Write_loop.induct)
  case (1 conf vs s buf start k tot)
  let ?n = DATA_PACKET_PAYLOAD_SIZE
  let ?e = "if start + ?n < length buf then start + ?n else length buf"
  show ?case
  proof (cases "start < length buf")
    case False
    then show ?thesis using "1.prems" by (simp add: Session_Write_loop.simps [of conf vs s buf])
  next
    case True
    note round = write_round_ok [OF "1.prems" True]
    from round(1) [of "vs k" conf] obtain p c1 s1 where
      s1: "assign_path (vs k) (scheduler s) (take ?n (drop start buf)) = Inr (p, c1)" "p < nat (numPath s)"
        "write_round conf (vs k) s buf start = Inr (?e, s1)" "sent_on conf s (take ?n (drop start buf)) p c1 s1"
        "sequenceNumber s1 = sequenceNumber s + 1" by blast
    note S = s1(4) [unfolded sent_on_def]
    have p: "p < length (sendBuffer s)" using s1(2) "1.prems" by (auto simp: sess_inv_def)
    from "1.IH" [OF True s1(3) refl] S obtain paths c s' where
      IH: "Session_Write_loop conf vs s1 buf ?e (Suc k) (tot + (?e - start)) =
             Inr (tot + (?e - start) + (length buf - ?e), s')" "sess_inv s'"
        "assign_paths vs (Suc k) c1 (chunks ?n (drop ?e buf)) = Inr (paths, c)" "scheduler s' = c"
        "length paths = length (chunks ?n (drop ?e buf))" "\<forall>p \<in> set paths. p < nat (numPath s)"
        "length (sendBuffer s') = length (sendBuffer s1)"
        "\<forall>i < length (sendBuffer s1). sendBuffer s' ! i = sendBuffer s1 ! i @
           queued conf (SessionID s) (sequenceNumber s1) paths (chunks ?n (drop ?e buf)) i"
        "sequenceNumber s' = sequenceNumber s1 + of_nat (length (chunks ?n (drop ?e buf)))"
        "streamList s' = streamList s" "recvBuffer s' = recvBuffer s"
      by auto
    have "Session_Write_loop conf vs s buf start k tot = Inr (tot + (length buf - start), s')"
      using True IH(1) s1(3) by (subst Session_Write_loop.simps) (auto split: if_splits)
    moreover have "sendBuffer s' ! i = sendBuffer s ! i @ queued conf (SessionID s) (sequenceNumber s) (p # paths)
        (take ?n (drop start buf) # chunks ?n (drop ?e buf)) i" if "i < length (sendBuffer s)" for i
      using that IH(8) S p s1(5) by (cases "i = p") (simp_all add: queued_Cons)
    ultimately show ?thesis
      unfolding round(2) using IH S s1(1,2,5) by (intro exI [of _ "p # paths"] exI [of _ c] exI [of _ s']) auto
  qed
qed

section \<open>Receiving\<close>

text \<open>
  Documented behaviour of a QUIC stream: bytes come out in the order in which they were written, a read with data
  pending returns at least one byte and at most as many as asked for, possibly fewer than are pending, and a read
  without data returns none (it blocks or fails).  The end of the stream may be reported together with the last bytes.
\<close>

definition reliable_reads :: "'st quic \<Rightarrow> ('st \<Rightarrow> bytes) \<Rightarrow> bool" where
  "reliable_reads q content \<longleftrightarrow>
     (\<forall>st n. content st = [] \<longrightarrow> (\<exists>e st'. q_Read q st n = ([], Some e, st'))) \<and>
     (\<forall>st n. 0 < n \<and> content st \<noteq> [] \<longrightarrow>
        (\<exists>k err st'. 0 < k \<and> k \<le> n \<and> k \<le> length (content st) \<and>
           q_Read q st n = (take k (content st), err, st') \<and> content st' = drop k (content st) \<and>
           (err = None \<or> err = Some EOF \<and> k = length (content st))))"

definition reliable_stream :: "'st quic \<Rightarrow> ('st \<Rightarrow> bytes) \<Rightarrow> bool" where
  "reliable_stream q content \<longleftrightarrow>
     reliable_reads q content \<and> (\<forall>st b. content (q_Write q st b) = content st @ b)"

lemma reliable_readsE:
  assumes "reliable_reads q content" and "0 < n" and "content st \<noteq> []"
  obtains k err st' where "0 < k" "k \<le> n" "k \<le> length (content st)" "q_Read q st n = (take k (content st), err, st')"
    "content st' = drop k (content st)" "err = None \<or> err = Some EOF \<and> k = length (content st)"
  using assms unfolding reliable_reads_def by metis

text \<open>A read of a packet header that returns fewer than the three bytes it asks for.\<close>

definition header_cut :: "'st quic \<Rightarrow> 'st \<Rightarrow> bool" where
  "header_cut q st \<longleftrightarrow> length (fst (q_Read q st 3)) < 3"

lemma header_read:
  assumes "reliable_reads q content" and "3 < length (content st)"
  obtains k st' where "0 < k" "k \<le> 3" "k < 3 \<longleftrightarrow> header_cut q st" "q_Read q st 3 = (take k (content st), None, st')"
    "content st' = drop k (content st)"
proof -
  have "content st \<noteq> []" using assms(2) by auto
  from reliable_readsE [OF assms(1) _ this, of 3] obtain k err st' where "0 < k" "k \<le> 3" "k \<le> length (content st)" "q_Read q st 3 = (take k (content st), err, st')"
    "content st' = drop k (content st)" "err = None \<or> err = Some EOF \<and> k = length (content st)"
    by auto
  then show ?thesis using that [of k st'] assms(2) by (auto simp: header_cut_def)
qed

text \<open>The length is read from bytes of which the first ones came and the others are zero.\<close>

lemma packet_header_cut:
  assumes bs: "take 3 bs = t # WriteUint16 [] len" and z: "take 3 zs = [0, 0, 0]"
    and k: "k = 1 \<or> k = 2 \<and> unat len < 256"
  shows "packet_header (take k bs @ drop k zs) = Inr (t, 0)"
proof -
  obtain hi lo xs where b: "bs = t # hi # lo # xs" "hi = ucast (drop_bit 8 len)"
    using bs by (cases bs; cases "tl bs"; cases "tl (tl bs)") (auto simp: numeral_3_eq_3 WriteUint16_def WriteBytes_def)
  obtain ys where y: "zs = 0 # 0 # 0 # ys"
    using z by (cases zs; cases "tl zs"; cases "tl (tl zs)") (auto simp: numeral_3_eq_3)
  have "hi = 0" if "unat len < 256"
  proof -
    have "unat (drop_bit 8 len) = 0" using that by (simp add: drop_bit_eq_div unat_div)
    then have "drop_bit 8 len = 0" by (simp only: unat_eq_0)
    then show ?thesis by (simp add: b(2))
  qed
  then show ?thesis using k by (auto simp: b(1) y packet_header_def ReadUint16_def ReadByte_def numeral_2_eq_2 numeral_3_eq_3)
qed

text \<open>The loop over the rest of a packet returns, however the stream cuts the bytes.\<close>

lemma read_rest_ok:
  assumes rel: "reliable_reads q content"
  shows "content st = xs @ r \<Longrightarrow> i + length xs = n \<Longrightarrow> n \<le> length buf \<Longrightarrow>
    \<exists>m st'. read_rest q st buf i n = Some (Inr (m, take i buf @ xs @ drop n buf, st')) \<and> content st' = r"
proof (induction "length xs" arbitrary: st xs i buf rule: less_induct)
  case less
  show ?case
  proof (cases "xs = []")
    case True
    with less.prems show ?thesis by (simp add: read_rest.simps)
  next
    case False
    have ne: "0 < n - i" "content st \<noteq> []" using False less.prems by auto
    obtain k err st1 where
      k: "0 < k" "k \<le> n - i" "q_Read q st (n - i) = (take k (xs @ r), err, st1)"
        "content st1 = drop k (xs @ r)" "err = None \<or> err = Some EOF \<and> k = length (xs @ r)"
      using reliable_readsE [OF rel ne] less.prems(1) by metis
    have kl: "k \<le> length xs" using k(2) less.prems(2) by linarith
    let ?buf = "take i buf @ take k xs @ drop (i + k) buf"
    have read: "read_slice q st buf i n = Inr (k, ?buf, err, st1)"
      using less.prems k(3) kl by (simp add: read_slice_def min_def)
    have i: "i \<noteq> n" using ne by simp
    show ?thesis
    proof (cases err)
      case None
      have len: "length ?buf = length buf" using less.prems kl by auto
      have "\<exists>m st'. read_rest q st1 ?buf (i + k) n =
          Some (Inr (m, take (i + k) ?buf @ drop k xs @ drop n ?buf, st')) \<and> content st' = r"
        using k kl less.prems False len by (intro less.hyps) auto
      moreover have "take (i + k) ?buf @ drop k xs @ drop n ?buf = take i buf @ xs @ drop n buf"
      proof -
        have A: "take (i + k) ?buf = take i buf @ take k xs" using less.prems kl by auto
        have B: "drop n ?buf = drop n buf" using less.prems kl by auto
        show ?thesis unfolding A B by simp
      qed
      moreover have "read_rest q st buf i n = read_rest q st1 ?buf (i + k) n"
        using i read None by (subst read_rest.simps) simp
      ultimately show ?thesis by simp
    next
      case (Some e)
      then have e: "e = EOF" "k = length xs" "r = []" using k(5) kl by auto
      then have "read_rest q st buf i n = Some (Inr (i, take i buf @ xs @ drop n buf, st1))"
        using i read Some less.prems(2) by (subst read_rest.simps) simp
      then show ?thesis using k(4) e by simp
    qed
  qed
qed

text \<open>The packet types are told apart and the receive buffer holds a full data packet.\<close>

definition Config_ok :: "Config \<Rightarrow> bool" where
  "Config_ok conf \<longleftrightarrow>
     DATA_PACKET conf \<noteq> HELLO_PACKET conf \<and> DATA_PACKET conf \<noteq> HELLO_ACK_PACKET conf \<and>
     unat DATA_PACKET_HEADER_LEN + DATA_PACKET_PAYLOAD_SIZE \<le> unat (PACKET_SIZE conf)"

lemma data_packet_sizes:
  assumes "DataPacket_valid p" and "length (data_Payload p) \<le> DATA_PACKET_PAYLOAD_SIZE" and "Config_ok conf"
  shows "unat (data_Length p) = length (DataPacket_enc p)" and "12 \<le> length (DataPacket_enc p)"
    and "length (DataPacket_enc p) \<le> length (zero_buffer conf)" and "3 \<le> length (zero_buffer conf)"
    and "take 3 (DataPacket_enc p) = data_Type p # WriteUint16 [] (data_Length p)"
  using assms data.take_3_enc [OF assms(1), of "[]"]
  by (auto simp: length_DataPacket_enc DataPacket_valid_def Config_ok_def zero_buffer_def DATA_PACKET_HEADER_LEN_def)

lemma receiver_round_ok:
  assumes q: "reliable_reads q content" and hdr: "\<not> header_cut q st" and conf: "Config_ok conf"
    and p: "DataPacket_valid p" "data_Type p = DATA_PACKET conf" "length (data_Payload p) \<le> DATA_PACKET_PAYLOAD_SIZE"
    and j: "0 \<le> j" "nat j < length (recvBytes s)" and st: "content st = DataPacket_enc p @ r"
  shows "\<exists>st' n. receiver_round conf q s j st =
      Some (Inr (Some (handleDataPacket (s\<lparr>recvBytes := (recvBytes s)[nat j := n]\<rparr>) p, st'))) \<and> content st' = r"
proof -
  let ?n = "unat (data_Length p)" and ?z = "zero_buffer conf"
  note n = data_packet_sizes [OF p(1,3) conf]
  have long: "3 < length (content st)" using n(2) by (simp add: st)
  obtain st1 where
    st1: "q_Read q st 3 = (take 3 (DataPacket_enc p), None, st1)" "content st1 = drop 3 (DataPacket_enc p) @ r"
  proof (rule header_read [OF q long])
    fix k st' assume k: "k \<le> 3" "k < 3 \<longleftrightarrow> header_cut q st" "q_Read q st 3 = (take k (content st), None, st')"
      "content st' = drop k (content st)"
    then have "k = 3" using hdr by simp
    then show ?thesis using that k n(2) by (simp add: st)
  qed
  let ?buf = "take 3 (DataPacket_enc p) @ drop 3 ?z"
  have read1: "read_slice q st ?z 0 3 = Inr (3, ?buf, None, st1)"
    using n(2,4) st1(1) by (simp add: read_slice_def)
  have take3: "take 3 ?buf = take 3 (DataPacket_enc p)" using n by simp
  have rd: "packet_header ?buf = Inr (data_Type p, data_Length p)"
    unfolding packet_header_def take3 n(5) using ReadUint16_WriteUint16 [of _ "[]"] by simp
  have "length ?buf = length ?z" using n by simp
  then obtain m st2 where
    st2: "read_rest q st1 ?buf 3 ?n = Some (Inr (m, take 3 ?buf @ drop 3 (DataPacket_enc p) @ drop ?n ?buf, st2))"
      "content st2 = r"
    using read_rest_ok [OF q st1(2), of 3 ?n ?buf] n by auto
  have buf: "take 3 ?buf @ drop 3 (DataPacket_enc p) @ drop ?n ?buf = DataPacket_enc p @ drop ?n ?buf"
    unfolding take3 by (simp flip: append_assoc)
  obtain m where "receiver_handle conf s j (data_Type p) (DataPacket_enc p @ drop ?n ?buf) =
      Inr (handleDataPacket (s\<lparr>recvBytes := (recvBytes s)[nat j := m]\<rparr>) p)"
    using p(2) conf j data.Parse_enc [OF p(1)] by (simp add: receiver_handle_def Config_ok_def)
  then show ?thesis
    using st2 unfolding receiver_round_def read1 buf
    by (auto simp: rd simp del: drop_append take_append)
qed

text \<open>
  Of a header that is cut after one byte, or of a packet with fewer than 256 bytes, the receiver takes zero for the
  length, and the slice \<^verbatim>\<open>buf[3:0]\<close> panics.
\<close>

lemma receiver_round_cut:
  assumes q: "reliable_reads q content" and hdr: "header_cut q st" and conf: "Config_ok conf"
    and p: "DataPacket_valid p" "length (data_Payload p) \<le> DATA_PACKET_PAYLOAD_SIZE"
    and st: "content st = DataPacket_enc p @ r" and k: "length (fst (q_Read q st 3)) = 1 \<or> unat (data_Length p) < 256"
  shows "receiver_round conf q s j st = Some (Inl SliceOutOfRange)"
proof -
  let ?z = "zero_buffer conf"
  note n = data_packet_sizes [OF p conf]
  have "3 < length (content st)" using n(2) by (simp add: st)
  from header_read [OF q this] obtain k st1 where "0 < k" "k < 3" "q_Read q st 3 = (take k (content st), None, st1)"
    using hdr by metis
  then have st1: "0 < k" "k < 3" "q_Read q st 3 = (take k (DataPacket_enc p), None, st1)" using n(2) by (simp_all add: st)
  let ?buf = "take k (DataPacket_enc p) @ drop k ?z"
  have "k = 1 \<or> k = 2 \<and> unat (data_Length p) < 256" using st1 k n(2) by (auto simp: min_def)
  moreover have "take 3 ?z = [0, 0, 0]" using n(4) by (auto simp: zero_buffer_def numeral_3_eq_3 min_def)
  ultimately have hd: "packet_header ?buf = Inr (data_Type p, 0)" using n(5) by (intro packet_header_cut)
  have read1: "read_slice q st ?z 0 3 = Inr (k, ?buf, None, st1)"
    using n st1 by (simp add: read_slice_def min_def)
  have "read_rest q st1 ?buf 3 0 = Some (Inl SliceOutOfRange)"
    by (subst read_rest.simps) (simp add: read_slice_def go_slice_def)
  then show ?thesis unfolding receiver_round_def read1 by (simp add: hd)
qed

section \<open>Setting up\<close>

text \<open>A server session that accepts one or two paths is set up.\<close>

lemma AddStream_first:
  assumes "0 < length (CONFIG_USER_WRR_WEIGHT conf)"
  shows "\<exists>s. AddStream (CreateSession conf sid addrs) st addr True = Inr (0, s) \<and> sess_inv s \<and>
    streamList s = [st] \<and> sendBuffer s = [[]] \<and> sequenceNumber s = 0 \<and> recvBuffer s = CreateRecvBuffer \<and>
    weight (scheduler s) = CONFIG_USER_WRR_WEIGHT conf"
proof -
  from SetNumPath_create [of conf] assms obtain c where
    "SetNumPath (CreateSessionScheduler conf SCHED_USER_WRR) 1 = Inr c" "sched_inv c" "sched_numPath c = 1"
    "weight c = CONFIG_USER_WRR_WEIGHT conf" by auto
  then show ?thesis by (simp add: AddStream_def CreateSession_def sess_inv_def)
qed

lemma AddStream_next:
  assumes inv: "sess_inv s" and "numPath s = 1" and "1 < length (weight (scheduler s))"
  shows "\<exists>s'. AddStream s st addr True = Inr (1, s') \<and> sess_inv s' \<and>
    streamList s' = streamList s @ [st] \<and> sendBuffer s' = sendBuffer s @ [[]] \<and>
    sequenceNumber s' = sequenceNumber s \<and> recvBuffer s' = recvBuffer s"
proof -
  from assms have "sched_inv (scheduler s)" "sched_numPath (scheduler s) = 1" by (auto simp: sess_inv_def)
  with SetNumPath_next [of "scheduler s"] assms(3) obtain c where
    "SetNumPath (scheduler s) 2 = Inr c" "sched_inv c" "sched_numPath c = 2" by auto
  with assms show ?thesis by (auto simp: AddStream_def Let_def sess_inv_def)
qed

section \<open>Advertising the local addresses\<close>

lemma char_of_byte_of_char [simp]: "char_of_byte (byte_of_char c) = c"
proof -
  have "(of_char c :: nat) = of_char c mod 256"
    using of_char_of [of "of_char c :: nat"] by simp
  then have "(of_char c :: nat) < 256" by linarith
  then show ?thesis by (simp add: char_of_byte_def byte_of_char_def unat_of_nat_less)
qed

lemma getNicInfo_valid:
  "\<forall>a \<in> set (listenAddrList s). length a < 2 ^ 8 \<Longrightarrow> list_all NicInfo_valid (getNicInfo s)"
  by (auto simp: getNicInfo_def list_all_iff NicInfo_valid_def unat_of_nat_less)

lemma fold_nic_length:
  "\<forall>a \<in> set addrs. length a + 2 < 2 ^ 8 \<Longrightarrow>
   fold (\<lambda>nic n. n + unat (nic_AddrLen nic + 2))
     (map (\<lambda>addr. \<lparr>nic_Type = 0, nic_AddrLen = of_nat (length addr), nic_Addr = map byte_of_char addr\<rparr>) addrs) n =
   n + length (concat (map NicInfo_enc
     (map (\<lambda>addr. \<lparr>nic_Type = 0, nic_AddrLen = of_nat (length addr), nic_Addr = map byte_of_char addr\<rparr>) addrs)))"
proof (induction addrs arbitrary: n)
  case (Cons a addrs)
  then have "unat (of_nat (length a) + 2 :: u8) = length a + 2"
    using unat_of_nat_less [of "length a + 2", where 'a = 8] by (simp add: add.commute)
  with Cons show ?case by (simp add: NicInfo_enc_def)
qed simp

lemma hello_ack_ok:
  assumes p_def: "p = CreateHelloAckPacket conf sid (getNicInfo s)" and "length (listenAddrList s) < 2 ^ 8" and "\<forall>a \<in> set (listenAddrList s). length a + 2 < 2 ^ 8"
    and "length (HelloAckPacket_enc p) < 2 ^ 16"
  shows "HelloAckPacket_valid p" and "unat (hack_Length p) = length (HelloAckPacket_enc p)"
    and "map (\<lambda>nic. map char_of_byte (nic_Addr nic)) (hack_NicInfos p) = listenAddrList s"
proof -
  show "HelloAckPacket_valid p"
  proof -
    have "list_all NicInfo_valid (getNicInfo s)" using assms(3) by (intro getNicInfo_valid) auto
    with assms(2) show ?thesis
      by (simp add: p_def HelloAckPacket_valid_def CreateHelloAckPacket_def Let_def unat_of_nat_less getNicInfo_def)
  qed
  have "8 + fold (\<lambda>nic n. n + unat (nic_AddrLen nic + 2)) (getNicInfo s) 0 = length (HelloAckPacket_enc p)"
    using fold_nic_length [OF assms(3), of 0]
    by (simp add: p_def HelloAckPacket_enc_def CreateHelloAckPacket_def Let_def getNicInfo_def)
  then show "unat (hack_Length p) = length (HelloAckPacket_enc p)"
    using assms(4) by (simp add: p_def CreateHelloAckPacket_def Let_def HELLO_ACK_PACKET_HEADER_LEN_def
        unat_of_nat_less del: of_nat_add)
  show "map (\<lambda>nic. map char_of_byte (nic_Addr nic)) (hack_NicInfos p) = listenAddrList s"
    by (simp add: p_def CreateHelloAckPacket_def Let_def getNicInfo_def comp_def)
qed

end
