(* ===== verification/Session_Network.thy ===== *)
theory Session_Network
  imports Session_Transfer "HOL-Library.Sublist"
begin

text \<open>
  One direction of a session from end to end, as a step relation: a \<^verbatim>\<open>Write\<close> of the application is under way and sends
  packet after packet, the transmitter of a path takes a packet from its queue to the stream, a receiver takes
  one from the stream, the application reads, in any order and over any number of paths.  One \<^verbatim>\<open>Write\<close> is under way at a
  time; two that overlap are the subject of \<open>Session_Overlap\<close>.
  The invariant \<open>net_inv\<close> follows every packet from queue to stream to receive buffer; it
  gives that what is read is always a prefix of what was written, and that every reachable
  state can be driven to one in which everything has been read, as long as no read of a packet header was cut.
\<close>

section \<open>Steps\<close>

text \<open>
  \<open>net_call\<close> is the call of \<^verbatim>\<open>Write\<close> that is under way, with the start of its next packet.  \<open>net_writes\<close> and \<open>net_out\<close>
  record what the applications wrote and read, \<open>net_cut\<close> whether a read of a packet header has returned fewer than the three
  bytes.  A stream of the sending session is also the one the receiving side reads from.  \<open>content\<close> gives the
  bytes that are on a stream; every use of a stream may behave in any way that is documented, \<open>q\<close>.
\<close>

record 'st net =
  net_snd :: "'st Session"
  net_rcv :: "'st Session"
  net_call :: "(bytes \<times> nat) option"
  net_writes :: "bytes list"
  net_out :: bytes
  net_cut :: bool

inductive net_step :: "Config \<Rightarrow> ('st \<Rightarrow> bytes) \<Rightarrow> 'st net \<Rightarrow> 'st net \<Rightarrow> bool" for conf content where
  net_begin: "net_call n = None \<Longrightarrow>
     net_step conf content n (n\<lparr>net_call := Some (buf, 0), net_writes := net_writes n @ [buf]\<rparr>)"
| net_packet: "net_call n = Some (buf, start) \<Longrightarrow> start < length buf \<Longrightarrow>
     write_round conf verdicts (net_snd n) buf start = Inr (e, s') \<Longrightarrow>
     net_step conf content n (n\<lparr>net_snd := s', net_call := Some (buf, e)\<rparr>)"
| net_return: "net_call n = Some (buf, start) \<Longrightarrow> \<not> start < length buf \<Longrightarrow>
     net_step conf content n (n\<lparr>net_call := None\<rparr>)"
| net_transmit: "reliable_stream q content \<Longrightarrow> dataPacketTransmitter q (net_snd n) i = Inr s' \<Longrightarrow>
     net_step conf content n (n\<lparr>net_snd := s'\<rparr>)"
| net_deliver: "reliable_stream q content \<Longrightarrow> i < length (streamList (net_snd n)) \<Longrightarrow>
     0 \<le> j \<Longrightarrow> nat j < length (recvBytes (net_rcv n)) \<Longrightarrow>
     receiver_round conf q (net_rcv n) j (streamList (net_snd n) ! i) = Some (Inr (Some (r', st'))) \<Longrightarrow>
     net_step conf content n
       (n\<lparr>net_snd := (net_snd n)\<lparr>streamList := (streamList (net_snd n))[i := st']\<rparr>, net_rcv := r',
          net_cut := net_cut n \<or> header_cut q (streamList (net_snd n) ! i)\<rparr>)"
| net_read: "Session_Read (net_rcv n) buf = Some (k, buf', r') \<Longrightarrow>
     net_step conf content n (n\<lparr>net_rcv := r', net_out := net_out n @ take k buf'\<rparr>)"

inductive_cases net_stepE: "net_step conf content n n'"

text \<open>Both sessions set up, nothing sent yet.\<close>

definition net_init :: "('st \<Rightarrow> bytes) \<Rightarrow> 'st net \<Rightarrow> bool" where
  "net_init content n \<longleftrightarrow>
     sess_inv (net_snd n) \<and> sequenceNumber (net_snd n) = 0 \<and>
     (\<forall>b \<in> set (sendBuffer (net_snd n)). b = []) \<and>
     (\<forall>st \<in> set (streamList (net_snd n)). content st = []) \<and>
     recvBuffer (net_rcv n) = CreateRecvBuffer \<and> recvBytes (net_rcv n) \<noteq> [] \<and>
     net_call n = None \<and> net_writes n = [] \<and> net_out n = [] \<and> \<not> net_cut n"

section \<open>Invariant\<close>

abbreviation payloads :: "bytes list \<Rightarrow> bytes list" where
  "payloads ws \<equiv> concat (map (chunks DATA_PACKET_PAYLOAD_SIZE) ws)"

abbreviation seqno :: "DataPacket \<Rightarrow> nat" where
  "seqno p \<equiv> unat (data_SeqNumber p)"

text \<open>The payloads that the call under way has yet to send.\<close>

definition unsent :: "'st net \<Rightarrow> bytes list" where
  "unsent n = (case net_call n of None \<Rightarrow> [] | Some (buf, start) \<Rightarrow> chunks DATA_PACKET_PAYLOAD_SIZE (drop start buf))"

definition packet_ok :: "Config \<Rightarrow> bytes list \<Rightarrow> DataPacket \<Rightarrow> bool" where
  "packet_ok conf ps p \<longleftrightarrow>
     DataPacket_valid p \<and> data_Type p = DATA_PACKET conf \<and>
     length (data_Payload p) \<le> DATA_PACKET_PAYLOAD_SIZE \<and>
     seqno p < length ps \<and> data_Payload p = ps ! seqno p"

text \<open>
  \<open>ps\<close> are the payloads sent so far, \<open>wires\<close> the packets whose encodings are the contents of the streams, \<open>R\<close> the
  sequence numbers that have reached the receive buffer: every payload sent is in a queue, on a
  stream or received.
\<close>

definition net_inv_with ::
  "Config \<Rightarrow> ('st \<Rightarrow> bytes) \<Rightarrow> 'st net \<Rightarrow> bytes list \<Rightarrow> DataPacket list list \<Rightarrow> nat set \<Rightarrow> bool" where
  "net_inv_with conf content n ps wires R \<longleftrightarrow>
     sess_inv (net_snd n) \<and> recvBytes (net_rcv n) \<noteq> [] \<and>
     payloads (net_writes n) = ps @ unsent n \<and> length (payloads (net_writes n)) < 2 ^ 32 - 1 \<and>
     unat (sequenceNumber (net_snd n)) = length ps \<and>
     length wires = length (streamList (net_snd n)) \<and>
     (\<forall>i < length wires. content (streamList (net_snd n) ! i) = concat (map DataPacket_enc (wires ! i))) \<and>
     (\<forall>p \<in> set (concat (sendBuffer (net_snd n))) \<union> set (concat wires). packet_ok conf ps p) \<and>
     seqno ` (set (concat (sendBuffer (net_snd n))) \<union> set (concat wires)) \<union> R = {..<length ps} \<and>
     rb_inv (\<lambda>i. ps ! i) R (net_out n) (recvBuffer (net_rcv n))"

definition net_inv :: "Config \<Rightarrow> ('st \<Rightarrow> bytes) \<Rightarrow> 'st net \<Rightarrow> bool" where
  "net_inv conf content n \<longleftrightarrow> (\<exists>ps wires R. net_inv_with conf content n ps wires R)"

lemma net_inv_withD:
  assumes "net_inv_with conf content n ps wires R"
  shows "sess_inv (net_snd n)" and "recvBytes (net_rcv n) \<noteq> []"
    and "payloads (net_writes n) = ps @ unsent n"
    and "length (payloads (net_writes n)) < 2 ^ 32 - 1"
    and "unat (sequenceNumber (net_snd n)) = length ps"
    and "length wires = length (streamList (net_snd n))"
    and "\<forall>i < length wires. content (streamList (net_snd n) ! i) = concat (map DataPacket_enc (wires ! i))"
    and "\<forall>p \<in> set (concat (sendBuffer (net_snd n))) \<union> set (concat wires). packet_ok conf ps p"
    and "seqno ` (set (concat (sendBuffer (net_snd n))) \<union> set (concat wires)) \<union> R = {..<length ps}"
    and "rb_inv (\<lambda>i. ps ! i) R (net_out n) (recvBuffer (net_rcv n))"
  using assms unfolding net_inv_with_def by blast+

lemma net_inv_with_short: "net_inv_with conf content n ps wires R \<Longrightarrow> length ps < 2 ^ 32 - 1"
  by (auto simp: net_inv_with_def)

lemma rb_inv_cong:
  assumes "rb_inv f R out b" and "\<And>i. i \<in> R \<Longrightarrow> f i = g i"
  shows "rb_inv g R out b"
proof -
  have "map f [0..<unat (expectedSeqNumber b)] = map g [0..<unat (expectedSeqNumber b)]"
    using assms by (intro map_cong) (auto simp: rb_inv_def)
  with assms show ?thesis unfolding rb_inv_def by (metis (no_types, lifting))
qed

lemma net_inv_init:
  assumes "net_init content n" shows "net_inv conf content n"
proof -
  from assms have "net_inv_with conf content n [] (map (\<lambda>_. []) (streamList (net_snd n))) {}"
    by (auto simp: net_init_def net_inv_with_def rb_inv_init unsent_def)
  then show ?thesis by (auto simp: net_inv_def)
qed

lemma packet_ok_append: "packet_ok conf ps p \<Longrightarrow> packet_ok conf (ps @ qs) p"
  by (auto simp: packet_ok_def nth_append)

lemma new_packet_ok:
  assumes "length ps < 2 ^ 32 - 1" and "unat seq = length ps" and "length c \<le> DATA_PACKET_PAYLOAD_SIZE"
  shows "packet_ok conf (ps @ [c]) (CreateDataPacket conf sid path seq c)"
proof -
  have "length c < 2 ^ 16 - 12" using assms(3) by (simp add: DATA_PACKET_PAYLOAD_SIZE_def)
  then show ?thesis using assms by (simp add: packet_ok_def CreateDataPacket_valid)
qed

lemma net_begin_inv:
  assumes inv: "net_inv_with conf content n ps wires R" and "net_call n = None"
    and "length (payloads (net_writes n @ [buf])) < 2 ^ 32 - 1"
  shows "net_inv_with conf content (n\<lparr>net_call := Some (buf, 0), net_writes := net_writes n @ [buf]\<rparr>) ps wires R"
  using assms by (simp add: net_inv_with_def unsent_def del: set_concat)

lemma net_return_inv:
  assumes inv: "net_inv_with conf content n ps wires R" and "net_call n = Some (buf, start)" and "\<not> start < length buf"
  shows "net_inv_with conf content (n\<lparr>net_call := None\<rparr>) ps wires R"
  using assms by (auto simp: net_inv_with_def unsent_def simp del: set_concat)

lemma net_packet_inv:
  assumes inv: "net_inv_with conf content n ps wires R" and call: "net_call n = Some (buf, start)" "start < length buf"
    and wr: "write_round conf verdicts (net_snd n) buf start = Inr (e, s')"
  shows "\<exists>ps'. net_inv_with conf content (n\<lparr>net_snd := s', net_call := Some (buf, e)\<rparr>) ps' wires R"
proof -
  let ?s = "net_snd n" and ?c = "take DATA_PACKET_PAYLOAD_SIZE (drop start buf)"
  note I = net_inv_withD [OF inv]
  note round = write_round_ok [OF I(1) call(2)]
  from round(1) [of verdicts conf] wr obtain path c where
    path: "path < nat (numPath ?s)" and S: "sent_on conf ?s ?c path c s'" and seq: "sequenceNumber s' = sequenceNumber ?s + 1"
    and e: "e = (if start + DATA_PACKET_PAYLOAD_SIZE < length buf then start + DATA_PACKET_PAYLOAD_SIZE else length buf)"
    by auto
  let ?p = "CreateDataPacket conf (SessionID ?s) path (sequenceNumber ?s) ?c" and ?ps = "ps @ [?c]"
  let ?n = "n\<lparr>net_snd := s', net_call := Some (buf, e)\<rparr>"
  have path: "path < length (sendBuffer ?s)" using path I(1) by (auto simp: sess_inv_def)
  have unsent: "unsent n = ?c # unsent ?n" using round(2) call by (simp add: unsent_def e)
  have len: "length ps < 2 ^ 32 - 1" by (rule net_inv_with_short [OF inv])
  have sb: "set (concat (sendBuffer s')) = insert ?p (set (concat (sendBuffer ?s)))"
    using S set_concat_snoc_at [OF path] by (simp add: sent_on_def del: set_concat)
  have new: "packet_ok conf ?ps ?p" by (rule new_packet_ok [OF len I(5)]) simp
  have no: "seqno ?p = length ps" using I(5) by simp
  have seq': "unat (sequenceNumber s') = length ?ps" unfolding seq using len I(5) by (subst unat_plus_less) simp_all
  have R: "i < length ps" if "i \<in> R" for i using I(9) that by blast
  have rb: "rb_inv (\<lambda>i. ?ps ! i) R (net_out n) (recvBuffer (net_rcv n))"
    by (rule rb_inv_cong [OF I(10)]) (simp add: R nth_append)
  have seqs: "seqno ` (set (concat (sendBuffer s')) \<union> set (concat wires)) \<union> R = {..<length ?ps}"
    using I(9) no unfolding sb by (auto simp: lessThan_Suc simp del: set_concat)
  have ok: "\<forall>x \<in> set (concat (sendBuffer s')) \<union> set (concat wires). packet_ok conf ?ps x"
    unfolding sb using I(8) new packet_ok_append by blast
  have "net_inv_with conf content ?n ?ps wires R"
    unfolding net_inv_with_def using I S seq' rb seqs ok unsent
    by (intro conjI) (simp_all add: sent_on_def del: set_concat)
  then show ?thesis by blast
qed

lemma net_transmit_inv:
  assumes q: "reliable_stream q content" and inv: "net_inv_with conf content n ps wires R"
    and tr: "dataPacketTransmitter q (net_snd n) i = Inr s'"
  shows "\<exists>wires'. net_inv_with conf content (n\<lparr>net_snd := s'\<rparr>) ps wires' R"
proof (cases "sendBuffer (net_snd n) ! nat i")
  case Nil
  with tr have "s' = net_snd n"
    by (auto simp: dataPacketTransmitter_def bindE_eq_Inr_iff go_index_int_def go_index_eq_Inr_iff split: if_splits)
  with inv show ?thesis by auto
next
  case (Cons p rest)
  let ?s = "net_snd n" and ?i = "nat i"
  note I = net_inv_withD [OF inv]
  from tr have i: "0 \<le> i" "?i < length (sendBuffer ?s)"
    by (auto simp: dataPacketTransmitter_def bindE_eq_Inr_iff go_index_int_def go_index_eq_Inr_iff split: if_splits)
  from I(1,6) have lens: "length (sendBuffer ?s) = length (streamList ?s)" "length wires = length (streamList ?s)"
    "length (mutex ?s) = 2" "length (streamList ?s) \<le> 2"
    by (auto simp: sess_inv_def)
  have p: "packet_ok conf ps p"
    using I(8) unfolding set_concat_nth [OF i(2)] Cons by simp
  have s': "s' = ?s\<lparr>sendBuffer := (sendBuffer ?s)[?i := rest],
      streamList := (streamList ?s)[?i := q_Write q (streamList ?s ! ?i) (DataPacket_enc p)]\<rparr>"
    using tr i lens Cons p by (auto simp: dataPacketTransmitter_def sendPacket_def data.Write_enc packet_ok_def)
  let ?wires = "wires[?i := wires ! ?i @ [p]]"
  have cont: "\<forall>j < length ?wires. content (streamList s' ! j) = concat (map DataPacket_enc (?wires ! j))"
  proof (intro allI impI)
    fix j assume "j < length ?wires"
    with I(7) q i lens show "content (streamList s' ! j) = concat (map DataPacket_enc (?wires ! j))"
      by (cases "j = ?i") (simp_all add: s' reliable_stream_def)
  qed
  have sb: "set (concat (sendBuffer ?s)) = insert p (set (concat (sendBuffer s')))"
  proof -
    have sb': "sendBuffer s' = (sendBuffer ?s)[?i := rest]" by (simp add: s')
    show ?thesis unfolding sb' set_concat_nth [OF i(2)] set_concat_update [OF i(2)] Cons by auto
  qed
  have w: "set (concat ?wires) = insert p (set (concat wires))"
    using i lens by (intro set_concat_snoc_at) simp
  have queued: "set (concat (sendBuffer s')) \<union> set (concat ?wires) =
      set (concat (sendBuffer ?s)) \<union> set (concat wires)" unfolding sb w by blast
  have "sess_inv s'" using I(1) by (simp add: s' sess_inv_def)
  moreover have "sequenceNumber s' = sequenceNumber ?s" "length (streamList s') = length (streamList ?s)"
    by (simp_all add: s')
  ultimately have "net_inv_with conf content (n\<lparr>net_snd := s'\<rparr>) ps ?wires R"
    unfolding net_inv_with_def using I cont by (intro conjI) (simp_all add: queued unsent_def del: set_concat)
  then show ?thesis by blast
qed

lemma receiver_round_empty:
  assumes "reliable_reads q content" and "content st = []"
  shows "receiver_round conf q s j st \<noteq> Some (Inr (Some x))"
proof -
  from assms obtain e st' where "q_Read q st 3 = ([], Some e, st')" unfolding reliable_reads_def by blast
  then show ?thesis
    by (cases "go_slice (zero_buffer conf) 0 3") (auto simp: read_slice_def receiver_round_def)
qed

lemma net_deliver_inv:
  assumes q: "reliable_stream q content" and conf: "Config_ok conf"
    and inv: "net_inv_with conf content n ps wires R" and hdr: "\<not> header_cut q (streamList (net_snd n) ! i)"
    and i: "i < length (streamList (net_snd n))" and j: "0 \<le> j" "nat j < length (recvBytes (net_rcv n))"
    and rr: "receiver_round conf q (net_rcv n) j (streamList (net_snd n) ! i) = Some (Inr (Some (r', st')))"
  shows "\<exists>wires' R'. net_inv_with conf content
    (n\<lparr>net_snd := (net_snd n)\<lparr>streamList := (streamList (net_snd n))[i := st']\<rparr>, net_rcv := r', net_cut := c\<rparr>) ps wires' R'"
proof -
  let ?s = "net_snd n" and ?r = "net_rcv n"
  note I = net_inv_withD [OF inv]
  have rd: "reliable_reads q content" using q by (simp add: reliable_stream_def)
  have iw: "i < length wires" using i I(6) by simp
  have cont: "content (streamList ?s ! i) = concat (map DataPacket_enc (wires ! i))" using I(7) iw by blast
  obtain p rest where w: "wires ! i = p # rest"
    using receiver_round_empty [OF rd, of "streamList ?s ! i" conf ?r j] rr cont by (cases "wires ! i") auto
  have p: "packet_ok conf ps p"
    using I(8) unfolding set_concat_nth [OF iw] w by simp
  from receiver_round_ok [OF rd hdr conf _ _ _ j, of p "concat (map DataPacket_enc rest)"] p cont w
  obtain st2 m where
    "receiver_round conf q ?r j (streamList ?s ! i) =
       Some (Inr (Some (handleDataPacket (?r\<lparr>recvBytes := (recvBytes ?r)[nat j := m]\<rparr>) p, st2)))"
    and st2: "content st2 = concat (map DataPacket_enc rest)"
    by (auto simp: packet_ok_def)
  with rr have r': "r' = handleDataPacket (?r\<lparr>recvBytes := (recvBytes ?r)[nat j := m]\<rparr>) p" and st': "st' = st2"
    by auto
  let ?R = "insert (seqno p) R" and ?wires = "wires[i := rest]"
  have rb: "rb_inv (\<lambda>i. ps ! i) ?R (net_out n) (recvBuffer r')"
    using rb_inv_push [OF I(10), of p] p net_inv_with_short [OF inv] by (simp add: r' handleDataPacket_def packet_ok_def)
  have cont': "\<forall>k < length ?wires. content ((streamList ?s)[i := st'] ! k) = concat (map DataPacket_enc (?wires ! k))"
    using I(7) iw i st2 st' by (auto simp: nth_list_update)
  have split_w: "set (concat wires) = insert p (set (concat ?wires))"
    unfolding set_concat_nth [OF iw] set_concat_update [OF iw] w by auto
  have seqs: "seqno ` (set (concat (sendBuffer ?s)) \<union> set (concat ?wires)) \<union> ?R = {..<length ps}"
    unfolding I(9) [symmetric] split_w by blast
  have ok: "\<forall>x \<in> set (concat (sendBuffer ?s)) \<union> set (concat ?wires). packet_ok conf ps x"
    using I(8) unfolding split_w by blast
  have "sess_inv (?s\<lparr>streamList := (streamList ?s)[i := st']\<rparr>)" using I(1) by (simp add: sess_inv_def)
  moreover have "recvBytes r' \<noteq> []" using I(2) by (simp add: r' handleDataPacket_def)
  ultimately have "net_inv_with conf content
      (n\<lparr>net_snd := ?s\<lparr>streamList := (streamList ?s)[i := st']\<rparr>, net_rcv := r', net_cut := c\<rparr>) ps ?wires ?R"
    unfolding net_inv_with_def using I rb cont' seqs ok by (intro conjI) (simp_all add: unsent_def del: set_concat)
  then show ?thesis by blast
qed

lemma net_read_inv:
  assumes inv: "net_inv_with conf content n ps wires R" and rd: "Session_Read (net_rcv n) buf = Some (k, buf', r')"
  shows "net_inv_with conf content (n\<lparr>net_rcv := r', net_out := net_out n @ take k buf'\<rparr>) ps wires R"
proof -
  note I = net_inv_withD [OF inv]
  from rd obtain b where b: "RecvBuffer_Read (recvBuffer (net_rcv n)) buf = (k, buf', b)"
    and r': "r' = (net_rcv n)\<lparr>recvBuffer := b\<rparr>"
    by (auto simp: Session_Read_def split: if_splits prod.splits)
  from rb_inv_read [OF I(10) b] have "rb_inv (\<lambda>i. ps ! i) R (net_out n @ take k buf') b" by blast
  with I show ?thesis unfolding net_inv_with_def by (intro conjI) (simp_all add: r' unsent_def del: set_concat)
qed

lemma net_step_writes: "net_step conf content n n' \<Longrightarrow> prefix (net_writes n) (net_writes n') \<and> (net_cut n \<longrightarrow> net_cut n')"
  by (induction rule: net_step.induct) simp_all

lemma net_step_inv:
  assumes conf: "Config_ok conf" and st: "net_step conf content n n'" and inv: "net_inv conf content n"
    and bound: "length (payloads (net_writes n')) < 2 ^ 32 - 1" and cut: "\<not> net_cut n'"
  shows "net_inv conf content n'"
proof -
  from inv obtain ps wires R where I: "net_inv_with conf content n ps wires R" by (auto simp: net_inv_def)
  from st show ?thesis
  proof cases
    case (net_begin buf)
    with net_begin_inv [OF I] bound show ?thesis by (auto simp: net_inv_def)
  next
    case (net_packet buf start verdicts e s')
    with net_packet_inv [OF I net_packet(2-4)] show ?thesis by (auto simp: net_inv_def)
  next
    case (net_return buf start)
    with net_return_inv [OF I net_return(2,3)] show ?thesis by (auto simp: net_inv_def)
  next
    case (net_transmit q i s')
    with net_transmit_inv [OF net_transmit(2) I net_transmit(3)] show ?thesis by (auto simp: net_inv_def)
  next
    case (net_deliver q i j r' st')
    then have "\<not> header_cut q (streamList (net_snd n) ! i)" using cut by simp
    from net_deliver_inv [OF net_deliver(2) conf I this net_deliver(3-6)] show ?thesis
      unfolding net_deliver(1) net_inv_def by blast
  next
    case (net_read buf k buf' r')
    with net_read_inv [OF I net_read(2)] show ?thesis by (auto simp: net_inv_def)
  qed
qed

lemma payloads_prefix_length: "prefix ws ws' \<Longrightarrow> length (payloads ws) \<le> length (payloads ws')"
  by (auto simp: prefix_def)

lemma net_reach_inv:
  assumes conf: "Config_ok conf" and reach: "(net_step conf content)\<^sup>*\<^sup>* n0 n" and init: "net_init content n0"
    and bound: "length (payloads (net_writes n)) < 2 ^ 32 - 1" and cut: "\<not> net_cut n"
  shows "net_inv conf content n"
  using reach bound cut
proof (induction rule: rtranclp_induct)
  case base
  then show ?case using net_inv_init [OF init] by blast
next
  case (step n1 n2)
  have w: "prefix (net_writes n1) (net_writes n2)" "\<not> net_cut n1" using net_step_writes [OF step(2)] step.prems by auto
  from payloads_prefix_length [OF w(1)] step.prems
  have "length (payloads (net_writes n1)) < 2 ^ 32 - 1" by linarith
  with step.IH w(2) net_step_inv [OF conf step(2) _ step.prems] show ?case by blast
qed

lemma concat_payloads: "concat (payloads ws) = concat ws"
  by (induction ws) (simp_all add: concat_chunks DATA_PACKET_PAYLOAD_SIZE_def)

lemma concat_nth_upt: "k \<le> length xs \<Longrightarrow> concat (map (\<lambda>i. xs ! i) [0..<k]) = concat (take k xs)"
  by (intro arg_cong [where f = concat] nth_equalityI) simp_all

lemma net_inv_stream:
  assumes "net_inv conf content n"
  shows "prefix (net_out n @ readBuffer (recvBuffer (net_rcv n))) (concat (net_writes n))"
    and "net_call n = None \<Longrightarrow> \<forall>b \<in> set (sendBuffer (net_snd n)). b = [] \<Longrightarrow>
      \<forall>st \<in> set (streamList (net_snd n)). content st = [] \<Longrightarrow>
      net_out n @ readBuffer (recvBuffer (net_rcv n)) = concat (net_writes n)"
proof -
  let ?e = "unat (expectedSeqNumber (recvBuffer (net_rcv n)))"
  from assms obtain ps wires R where "net_inv_with conf content n ps wires R" by (auto simp: net_inv_def)
  note I = net_inv_withD [OF this]
  have writes: "concat (net_writes n) = concat ps @ concat (unsent n)"
    using concat_payloads [of "net_writes n"] by (simp only: I(3) concat_append)
  from I(10) have out: "net_out n @ readBuffer (recvBuffer (net_rcv n)) = concat (map (\<lambda>i. ps ! i) [0..<?e])"
    and e: "\<forall>i < ?e. i \<in> R" "?e \<notin> R" by (auto simp: rb_inv_def)
  have le: "?e \<le> length ps"
  proof (rule ccontr)
    assume "\<not> ?thesis"
    then have "length ps \<in> R" using e by auto
    with I(9) show False by blast
  qed
  have out': "net_out n @ readBuffer (recvBuffer (net_rcv n)) = concat (take ?e ps)"
    unfolding out by (rule concat_nth_upt [OF le])
  have "concat ps = concat (take ?e ps) @ concat (drop ?e ps)" by (simp flip: concat_append)
  then show "prefix (net_out n @ readBuffer (recvBuffer (net_rcv n))) (concat (net_writes n))"
    unfolding out' writes by (auto simp: prefix_def)
  assume call: "net_call n = None"
    and empty: "\<forall>b \<in> set (sendBuffer (net_snd n)). b = []" "\<forall>st \<in> set (streamList (net_snd n)). content st = []"
  have "set (concat (sendBuffer (net_snd n))) = {}" using empty(1) by auto
  moreover have "set (concat wires) = {}"
  proof -
    have "wires ! i = []" if "i < length wires" for i
      using I(6,7) empty(2) that by (cases "wires ! i") (auto simp: DataPacket_enc_def)
    then show ?thesis by (metis concat_eq_Nil_conv in_set_conv_nth set_empty)
  qed
  ultimately have "R = {..<length ps}" using I(9) by (simp only: image_empty Un_empty_left Un_empty_right)
  with e le have "?e = length ps" by (metis le_neq_implies_less lessThan_iff)
  with out' call show "net_out n @ readBuffer (recvBuffer (net_rcv n)) = concat (net_writes n)"
    by (simp add: writes unsent_def)
qed

section \<open>Draining\<close>

text \<open>A read may return all that it asks for, as far as it is pending.\<close>

definition whole_headers :: "'st quic \<Rightarrow> ('st \<Rightarrow> bytes) \<Rightarrow> bool" where
  "whole_headers q content \<longleftrightarrow> (\<forall>st. 3 \<le> length (content st) \<longrightarrow> \<not> header_cut q st)"

text \<open>A continuation in which the application begins no call and no header is cut.\<close>

definition continues :: "Config \<Rightarrow> ('st \<Rightarrow> bytes) \<Rightarrow> 'st net \<Rightarrow> 'st net \<Rightarrow> bool" where
  "continues conf content n n' \<longleftrightarrow> (net_step conf content)\<^sup>*\<^sup>* n n' \<and> net_writes n' = net_writes n \<and>
     net_inv conf content n' \<and> \<not> net_cut n'"

lemma net_inv_bound: "net_inv conf content n \<Longrightarrow> length (payloads (net_writes n)) < 2 ^ 32 - 1"
  by (auto simp: net_inv_def net_inv_with_def)

lemma continues_step:
  assumes "Config_ok conf" and "net_step conf content n n1" and "net_writes n1 = net_writes n" and "\<not> net_cut n1"
    and "net_inv conf content n"
  shows "net_inv conf content n1" and "continues conf content n1 n' \<Longrightarrow> continues conf content n n'"
proof -
  show "net_inv conf content n1" using net_step_inv [OF assms(1,2,5) _ assms(4)] net_inv_bound [OF assms(5)] assms(3) by simp
  show "continues conf content n1 n' \<Longrightarrow> continues conf content n n'"
    using assms(2,3) by (auto simp: continues_def intro: converse_rtranclp_into_rtranclp)
qed

lemma continues_refl: "net_inv conf content n \<Longrightarrow> \<not> net_cut n \<Longrightarrow> continues conf content n n"
  by (simp add: continues_def)

lemma continues_trans: "continues conf content n n1 \<Longrightarrow> continues conf content n1 n2 \<Longrightarrow> continues conf content n n2"
  by (auto simp: continues_def)

lemma drain_call:
  assumes conf: "Config_ok conf"
  shows "net_inv conf content n \<Longrightarrow> \<not> net_cut n \<Longrightarrow> \<exists>n'. continues conf content n n' \<and> net_call n' = None"
proof (induction "case net_call n of None \<Rightarrow> 0 | Some (buf, start) \<Rightarrow> length buf - start" arbitrary: n rule: less_induct)
  case less
  show ?case
  proof (cases "net_call n")
    case None
    then show ?thesis using less.prems by (intro exI [of _ n] conjI continues_refl)
  next
    case (Some c)
    then obtain buf start where call: "net_call n = Some (buf, start)" by (cases c) auto
    show ?thesis
    proof (cases "start < length buf")
      case False
      from continues_step [OF conf net_return [OF call False] _ _ less.prems(1)] less.prems(2) show ?thesis
        by (intro exI [of _ "n\<lparr>net_call := None\<rparr>"]) (simp add: continues_refl)
    next
      case True
      from less.prems obtain ps wires R where "net_inv_with conf content n ps wires R" by (auto simp: net_inv_def)
      then have "sess_inv (net_snd n)" by (rule net_inv_withD)
      from write_round_ok(1) [OF this True, of "[]" conf] obtain e s' where
        wr: "write_round conf [] (net_snd n) buf start = Inr (e, s')" by blast
      let ?n = "n\<lparr>net_snd := s', net_call := Some (buf, e)\<rparr>"
      note step = continues_step [OF conf net_packet [OF call True wr] _ _ less.prems(1)]
      have "net_inv conf content ?n" using step(1) less.prems(2) by simp
      moreover have "length buf - e < length buf - start" using write_round_end [OF wr True] by linarith
      ultimately obtain n' where "continues conf content ?n n'" "net_call n' = None"
        using less.hyps [of ?n] call less.prems(2) by auto
      then show ?thesis using step(2) less.prems(2) by auto
    qed
  qed
qed

lemma length_concat_update:
  "i < length xss \<Longrightarrow> xss ! i = x # xs \<Longrightarrow> length (concat xss) = Suc (length (concat (xss[i := xs])))"
  by (subst (1) id_take_nth_drop [of i xss]) (auto simp: upd_conv_take_nth_drop)

lemma transmit_progress:
  assumes q: "reliable_stream q content" and inv: "net_inv conf content n" and b: "b \<in> set (sendBuffer (net_snd n))" "b \<noteq> []"
  shows "\<exists>s'. net_step conf content n (n\<lparr>net_snd := s'\<rparr>) \<and>
    length (concat (sendBuffer (net_snd n))) = Suc (length (concat (sendBuffer s')))"
proof -
  let ?s = "net_snd n"
  from inv obtain ps wires R where "net_inv_with conf content n ps wires R" by (auto simp: net_inv_def)
  note I = net_inv_withD [OF this]
  from b obtain i p rest where i: "i < length (sendBuffer ?s)" "sendBuffer ?s ! i = p # rest"
    by (metis in_set_conv_nth neq_Nil_conv)
  have p: "DataPacket_valid p"
    using I(8) unfolding set_concat_nth [OF i(1)] i(2) by (simp add: packet_ok_def)
  have lens: "i < length (streamList ?s)" "i < length (mutex ?s)"
    using I(1) i(1) by (auto simp: sess_inv_def)
  obtain s' where "dataPacketTransmitter q ?s (int i) = Inr s'" "sendBuffer s' = (sendBuffer ?s)[i := rest]"
    using i lens p by (simp add: dataPacketTransmitter_def sendPacket_def data.Write_enc)
  with length_concat_update [OF i] show ?thesis by (auto intro: net_transmit [OF q])
qed

lemma deliver_progress:
  assumes q: "reliable_stream q content" "whole_headers q content" and conf: "Config_ok conf"
    and inv: "net_inv conf content n" and st: "st \<in> set (streamList (net_snd n))" "content st \<noteq> []"
  shows "\<exists>n'. net_step conf content n n' \<and> net_writes n' = net_writes n \<and> net_cut n' = net_cut n \<and> net_call n' = net_call n \<and>
    sendBuffer (net_snd n') = sendBuffer (net_snd n) \<and>
    sum_list (map (length \<circ> content) (streamList (net_snd n'))) <
    sum_list (map (length \<circ> content) (streamList (net_snd n)))"
proof -
  let ?s = "net_snd n"
  from inv obtain ps wires R where "net_inv_with conf content n ps wires R" by (auto simp: net_inv_def)
  note I = net_inv_withD [OF this]
  from st obtain i where i: "i < length (streamList ?s)" "streamList ?s ! i = st" by (auto simp: in_set_conv_nth)
  then have iw: "i < length wires" using I(6) by simp
  have "content st = concat (map DataPacket_enc (wires ! i))" using I(7) iw i(2) by blast
  with st(2) obtain p rest where w: "wires ! i = p # rest" by (cases "wires ! i") auto
  have cont: "content st = DataPacket_enc p @ concat (map DataPacket_enc rest)"
    using I(7) iw i(2) w by auto
  have p: "packet_ok conf ps p"
    using I(8) unfolding set_concat_nth [OF iw] w by simp
  have j: "0 \<le> (0 :: int)" "nat 0 < length (recvBytes (net_rcv n))" using I(2) by auto
  have hdr: "\<not> header_cut q st" using q(2) cont by (simp add: whole_headers_def DataPacket_enc_def)
  have "reliable_reads q content" using q(1) by (simp add: reliable_stream_def)
  from receiver_round_ok [OF this hdr conf _ _ _ j cont] p obtain r' st' where
    rr: "receiver_round conf q (net_rcv n) 0 st = Some (Inr (Some (r', st')))"
    and st': "content st' = concat (map DataPacket_enc rest)"
    by (auto simp: packet_ok_def)
  have "length (content st') < length (content st)" by (simp add: st' cont DataPacket_enc_def)
  moreover have "sum_list (map (length \<circ> content) (streamList ?s)) =
      sum_list (map (length \<circ> content) (take i (streamList ?s))) + length (content st) +
      sum_list (map (length \<circ> content) (drop (Suc i) (streamList ?s)))"
    by (subst id_take_nth_drop [OF i(1)]) (simp add: i(2))
  ultimately have "sum_list (map (length \<circ> content) ((streamList ?s)[i := st'])) <
      sum_list (map (length \<circ> content) (streamList ?s))"
    by (simp add: upd_conv_take_nth_drop [OF i(1)])
  moreover have "net_step conf content n (n\<lparr>net_snd := ?s\<lparr>streamList := (streamList ?s)[i := st']\<rparr>, net_rcv := r',
      net_cut := net_cut n\<rparr>)"
    using net_deliver [OF q(1) i(1) j, of conf r' st'] rr i(2) hdr by simp
  ultimately show ?thesis by force
qed

lemma drain_send:
  assumes q: "reliable_stream q content" and conf: "Config_ok conf"
  shows "net_inv conf content n \<Longrightarrow> \<not> net_cut n \<Longrightarrow> net_call n = None \<Longrightarrow>
    \<exists>n'. continues conf content n n' \<and> net_call n' = None \<and> (\<forall>b \<in> set (sendBuffer (net_snd n')). b = [])"
proof (induction "length (concat (sendBuffer (net_snd n)))" arbitrary: n rule: less_induct)
  case less
  show ?case
  proof (cases "\<forall>b \<in> set (sendBuffer (net_snd n)). b = []")
    case True
    with less.prems show ?thesis using continues_refl by blast
  next
    case False
    then obtain b where b: "b \<in> set (sendBuffer (net_snd n))" "b \<noteq> []" by blast
    from transmit_progress [OF q less.prems(1) b] obtain s' where
      s': "net_step conf content n (n\<lparr>net_snd := s'\<rparr>)"
        "length (concat (sendBuffer (net_snd n))) = Suc (length (concat (sendBuffer s')))" by blast
    note step = continues_step [OF conf s'(1) _ _ less.prems(1)]
    have "net_inv conf content (n\<lparr>net_snd := s'\<rparr>)" using step(1) less.prems(2) by simp
    from less.hyps [OF _ this] s'(2) less.prems(2,3) obtain n' where
      "continues conf content (n\<lparr>net_snd := s'\<rparr>) n'" "net_call n' = None" "\<forall>b \<in> set (sendBuffer (net_snd n')). b = []" by auto
    then show ?thesis using step(2) less.prems(2) by auto
  qed
qed

lemma drain_wires:
  assumes q: "reliable_stream q content" "whole_headers q content" and conf: "Config_ok conf"
  shows "net_inv conf content n \<Longrightarrow> \<not> net_cut n \<Longrightarrow> net_call n = None \<Longrightarrow> \<forall>b \<in> set (sendBuffer (net_snd n)). b = [] \<Longrightarrow>
    \<exists>n'. continues conf content n n' \<and> net_call n' = None \<and> (\<forall>b \<in> set (sendBuffer (net_snd n')). b = []) \<and>
      (\<forall>st \<in> set (streamList (net_snd n')). content st = [])"
proof (induction "sum_list (map (length \<circ> content) (streamList (net_snd n)))" arbitrary: n rule: less_induct)
  case less
  show ?case
  proof (cases "\<forall>st \<in> set (streamList (net_snd n)). content st = []")
    case True
    with less.prems show ?thesis using continues_refl by blast
  next
    case False
    then obtain st where st: "st \<in> set (streamList (net_snd n))" "content st \<noteq> []" by blast
    from deliver_progress [OF q conf less.prems(1) st] obtain n1 where
      n1: "net_step conf content n n1" "net_writes n1 = net_writes n" "net_cut n1 = net_cut n" "net_call n1 = net_call n"
        "sendBuffer (net_snd n1) = sendBuffer (net_snd n)"
        "sum_list (map (length \<circ> content) (streamList (net_snd n1))) <
         sum_list (map (length \<circ> content) (streamList (net_snd n)))" by blast
    have cut: "\<not> net_cut n1" using n1(3) less.prems(2) by simp
    note step = continues_step [OF conf n1(1,2) cut less.prems(1)]
    from less.hyps [OF n1(6) step(1) cut] n1 less.prems(3,4) obtain n' where
      "continues conf content n1 n'" "net_call n' = None"
      "\<forall>b \<in> set (sendBuffer (net_snd n')). b = []" "\<forall>st \<in> set (streamList (net_snd n')). content st = []" by auto
    then show ?thesis using step(2) by blast
  qed
qed

lemma read_all_step:
  "\<exists>n'. (net_step conf content)\<^sup>*\<^sup>* n n' \<and> net_writes n' = net_writes n \<and>
     net_out n' = net_out n @ readBuffer (recvBuffer (net_rcv n))"
proof (cases "readBuffer (recvBuffer (net_rcv n)) = []")
  case True
  then show ?thesis by (intro exI [of _ n]) simp
next
  case False
  let ?b = "recvBuffer (net_rcv n)"
  let ?buf = "replicate (length (readBuffer ?b)) 0 :: bytes"
  have "Session_Read (net_rcv n) ?buf =
      Some (length (readBuffer ?b), readBuffer ?b, (net_rcv n)\<lparr>recvBuffer := ?b\<lparr>readBuffer := []\<rparr>\<rparr>)"
    using False by (simp add: Session_Read_def RecvBuffer_IsEmpty_def RecvBuffer_Read_def go_copy_def Let_def)
  from net_step.net_read [OF this, of conf content] show ?thesis
    by (intro exI [of _ "n\<lparr>net_rcv := (net_rcv n)\<lparr>recvBuffer := ?b\<lparr>readBuffer := []\<rparr>\<rparr>,
        net_out := net_out n @ readBuffer ?b\<rparr>"] conjI r_into_rtranclp) auto
qed

lemma net_drains:
  assumes q: "reliable_stream q content" "whole_headers q content" and conf: "Config_ok conf"
    and inv: "net_inv conf content n" "\<not> net_cut n"
  shows "\<exists>n'. (net_step conf content)\<^sup>*\<^sup>* n n' \<and> net_writes n' = net_writes n \<and> net_out n' = concat (net_writes n)"
proof -
  from drain_call [OF conf inv] obtain n0 where n0: "continues conf content n n0" "net_call n0 = None" by blast
  from drain_send [OF q(1) conf _ _ n0(2)] n0(1) obtain n1 where
    n1: "continues conf content n0 n1" "net_call n1 = None" "\<forall>b \<in> set (sendBuffer (net_snd n1)). b = []"
    by (auto simp: continues_def)
  from drain_wires [OF q conf _ _ n1(2,3)] n1(1) obtain n2 where
    n2: "continues conf content n1 n2" "net_call n2 = None"
      "\<forall>b \<in> set (sendBuffer (net_snd n2)). b = []" "\<forall>st \<in> set (streamList (net_snd n2)). content st = []"
    by (auto simp: continues_def)
  have c: "continues conf content n n2" by (intro continues_trans [OF n0(1)] continues_trans [OF n1(1)] n2(1))
  from read_all_step [of conf content n2] obtain n3 where
    n3: "(net_step conf content)\<^sup>*\<^sup>* n2 n3" "net_writes n3 = net_writes n2"
      "net_out n3 = net_out n2 @ readBuffer (recvBuffer (net_rcv n2))" by blast
  have "net_out n3 = concat (net_writes n)"
    using net_inv_stream(2) [OF _ n2(2-4), of conf] n3(3) c by (simp add: continues_def)
  with c n3 show ?thesis by (intro exI [of _ n3]) (auto simp: continues_def)
qed

section \<open>An instance\<close>

text \<open>
  A stream as the list of bytes that are on the way, a session with two paths at each end,
  and a run that writes three bytes, takes them across and reads them.
\<close>

definition pipe :: "bytes quic" where
  "pipe = \<lparr>q_Read = (\<lambda>st n. if st = [] then ([], Some Blocked, st) else (take n st, None, drop n st)),
           q_Write = (\<lambda>st b. st @ b), q_Close = (\<lambda>st. st)\<rparr>"

lemma pipe_reliable: "reliable_stream pipe id" "whole_headers pipe id"
proof -
  have "\<exists>k. 0 < k \<and> k \<le> n \<and> k \<le> length st \<and> take n st = take k st \<and> drop n st = drop k st"
    if "0 < n" "st \<noteq> []" for n and st :: bytes
    using that by (intro exI [of _ "min n (length st)"]) (auto simp: min_def)
  then show "reliable_stream pipe id" by (auto simp: reliable_stream_def reliable_reads_def pipe_def)
  show "whole_headers pipe id" by (auto simp: whole_headers_def header_cut_def pipe_def)
qed

text \<open>A stream that gives one byte at a time.\<close>

definition trickle :: "bytes quic" where
  "trickle = \<lparr>q_Read = (\<lambda>st n. if st = [] then ([], Some Blocked, st) else if n = 0 then ([], None, st) else ([hd st], None, tl st)),
              q_Write = (\<lambda>st b. st @ b), q_Close = (\<lambda>st. st)\<rparr>"

lemma trickle_reliable: "reliable_stream trickle id" and trickle_cuts: "st \<noteq> [] \<Longrightarrow> length (fst (q_Read trickle st 3)) = 1"
proof -
  have "[hd st] = take 1 st \<and> tl st = drop 1 st" if "st \<noteq> []" for st :: bytes
    using that by (cases st) simp_all
  then show "reliable_stream trickle id"
    by (simp add: reliable_stream_def reliable_reads_def trickle_def) (metis One_nat_def Suc_leI length_greater_0_conv zero_less_one)
qed (simp add: trickle_def)

lemma default_Conf_ok: "Config_ok default_Conf"
  by (simp add: Config_ok_def default_Conf_def DATA_PACKET_HEADER_LEN_def DATA_PACKET_PAYLOAD_SIZE_def)

definition demo_session :: "bytes Session" where
  "demo_session =
     \<lparr>mutex = [(), ()], SessionID = 7, numPath = 2, streamList = [[], []], listenAddrList = [],
      connectedAddrList = [''a'', ''b''], sequenceNumber = 0, sentBytes = [0, 0], recvBytes = [0, 0],
      scheduler = \<lparr>schedulerType = 1, sched_numPath = 2, weight = [5, 2], remainingBytes = [5120, 2048],
        currentPath = 1, usePath = 2, multipath = True\<rparr>,
      recvBuffer = CreateRecvBuffer, sendBuffer = [[], []], goodbye = False\<rparr>"

lemma demo_session_accepts:
  "bindE (AddStream (CreateSession default_Conf 7 []) [] ''a'' True) (\<lambda>(_, s). AddStream s [] ''b'' True) =
   Inr (1, demo_session)"
  by code_simp

definition demo_net0 :: "bytes net" where
  "demo_net0 = \<lparr>net_snd = demo_session, net_rcv = demo_session, net_call = None, net_writes = [], net_out = [], net_cut = False\<rparr>"

lemma demo_net0_init: "net_init id demo_net0"
  by (simp add: net_init_def demo_net0_def demo_session_def sess_inv_def sched_inv_def)

definition demo_net1 :: "bytes net" where
  "demo_net1 = demo_net0\<lparr>net_writes := [[1, 2, 3]],
     net_snd := snd (projr (write_round default_Conf [] demo_session [1, 2, 3] 0)), net_call := Some ([1, 2, 3], 3)\<rparr>"

definition demo_net2 :: "bytes net" where
  "demo_net2 = demo_net1\<lparr>net_snd := projr (dataPacketTransmitter pipe (net_snd demo_net1) 1)\<rparr>"

definition demo_received :: "bytes Session \<times> bytes" where
  "demo_received =
     (demo_session\<lparr>recvBytes := [0, 3], recvBuffer := PushPacket CreateRecvBuffer
        (CreateDataPacket default_Conf 7 1 0 [1, 2, 3])\<rparr>, [])"

definition demo_net3 :: "bytes net" where
  "demo_net3 = demo_net2\<lparr>
     net_snd := (net_snd demo_net2)\<lparr>streamList := (streamList (net_snd demo_net2))[1 := snd demo_received]\<rparr>,
     net_rcv := fst demo_received, net_cut := False\<rparr>"

definition demo_net4 :: "bytes net" where
  "demo_net4 = demo_net3\<lparr>
     net_rcv := snd (snd (the (Session_Read (net_rcv demo_net3) [0, 0, 0, 0]))), net_out := [1, 2, 3]\<rparr>"

lemma demo_write: "(net_step default_Conf id)\<^sup>*\<^sup>* demo_net0 demo_net1"
proof -
  let ?n = "demo_net0\<lparr>net_call := Some ([1, 2, 3], 0), net_writes := [[1, 2, 3]]\<rparr>"
  have "write_round default_Conf [] (net_snd ?n) [1, 2, 3] 0 = Inr (3, net_snd demo_net1)" by code_simp
  then have "net_step default_Conf id ?n demo_net1"
    using net_packet [of ?n "[1, 2, 3]" 0 default_Conf "[]" 3 "net_snd demo_net1" id] by (simp add: demo_net1_def)
  moreover have "net_step default_Conf id demo_net0 ?n" using net_begin [of demo_net0 default_Conf id "[1, 2, 3]"] by (simp add: demo_net0_def)
  ultimately show ?thesis by (meson converse_rtranclp_into_rtranclp rtranclp.rtrancl_refl)
qed

lemma demo_transmit: "net_step default_Conf id demo_net1 demo_net2"
proof -
  have "dataPacketTransmitter pipe (net_snd demo_net1) 1 = Inr (net_snd demo_net2)" by code_simp
  from net_transmit [OF pipe_reliable(1) this] show ?thesis by (simp add: demo_net2_def)
qed

lemma demo_deliver: "net_step default_Conf id demo_net2 demo_net3"
proof -
  have "length (streamList (net_snd demo_net2)) = 2" "length (recvBytes (net_rcv demo_net2)) = 2" by code_simp+
  moreover have "receiver_round default_Conf pipe (net_rcv demo_net2) 1 (streamList (net_snd demo_net2) ! 1) =
      Some (Inr (Some demo_received))" by code_simp
  moreover have "\<not> header_cut pipe (streamList (net_snd demo_net2) ! 1)" "\<not> net_cut demo_net2" by code_simp+
  ultimately show ?thesis
    using net_deliver [OF pipe_reliable(1), of 1 demo_net2 1 default_Conf "fst demo_received" "snd demo_received"]
    by (simp add: demo_net3_def)
qed

lemma demo_read: "net_step default_Conf id demo_net3 demo_net4"
proof -
  let ?b = "recvBuffer (net_rcv demo_net3)"
  have rb: "readBuffer ?b = [1, 2, 3]" and out: "net_out demo_net3 = []" by code_simp+
  have "Session_Read (net_rcv demo_net3) [0, 0, 0, 0] =
      Some (3, [1, 2, 3, 0], (net_rcv demo_net3)\<lparr>recvBuffer := ?b\<lparr>readBuffer := []\<rparr>\<rparr>)"
    by (simp add: Session_Read_def RecvBuffer_IsEmpty_def RecvBuffer_Read_def rb go_copy_def)
  from net_read [OF this] this show ?thesis by (simp add: demo_net4_def out)
qed

lemma demo_run: "(net_step default_Conf id)\<^sup>*\<^sup>* demo_net0 demo_net4"
  using demo_write demo_transmit demo_deliver demo_read by (meson rtranclp.rtrancl_into_rtrancl)

end
