(* ===== verification/Session_Overlap.thy ===== *)
theory Session_Overlap
  imports Session_Transfer
begin

text \<open>
  Calls of \<^verbatim>\<open>Session.Write\<close> that overlap.  \<^verbatim>\<open>Write\<close> takes no lock, but goroutines share a session:
  \<^verbatim>\<open>handleBlockRequestPacket\<close> starts a goroutine with \<^verbatim>\<open>sendBlockData\<close> for every request, and \<^verbatim>\<open>WriteControl\<close> writes from the goroutine of the
  application.  Each goroutine is a program counter with the payloads that its call still has to send; a step queues one packet or
  advances the sequence number.  Shown: two calls may use a sequence number twice and skip the next one, and then
  the receiving buffer delivers one of the two payloads and nothing ever after.
\<close>

datatype write_pc = Sending "bytes list" | Advancing "bytes list"

inductive writers_step :: "Config \<Rightarrow> 'st Session \<times> write_pc list \<Rightarrow> 'st Session \<times> write_pc list \<Rightarrow> bool" for conf where
  send: "i < length ws \<Longrightarrow> ws ! i = Sending (x # xs) \<Longrightarrow> write_send conf verdicts s x = Inr s' \<Longrightarrow>
    writers_step conf (s, ws) (s', ws[i := Advancing xs])"
| advance: "i < length ws \<Longrightarrow> ws ! i = Advancing xs \<Longrightarrow>
    writers_step conf (s, ws) (write_advance s, ws[i := Sending xs])"

text \<open>A call that is alone makes the steps of \<^verbatim>\<open>Write\<close>.\<close>

lemma alone_writes_packet:
  "write_packet conf verdicts s x = Inr s' \<Longrightarrow> (writers_step conf)\<^sup>*\<^sup>* (s, [Sending (x # xs)]) (s', [Sending xs])"
proof -
  assume "write_packet conf verdicts s x = Inr s'"
  then obtain s1 where "write_send conf verdicts s x = Inr s1" "s' = write_advance s1"
    by (auto simp: write_packet_def bindE_eq_Inr_iff)
  then have "writers_step conf (s, [Sending (x # xs)]) (s1, [Advancing xs])"
    "writers_step conf (s1, [Advancing xs]) (s', [Sending xs])"
    using send [of 0 "[Sending (x # xs)]" x xs conf verdicts s s1] advance [of 0 "[Advancing xs]" xs conf s1] by simp_all
  then show ?thesis by (meson converse_rtranclp_into_rtranclp rtranclp.rtrancl_refl)
qed

section \<open>Two calls, one number\<close>

lemma overlapping_calls:
  assumes inv: "sess_inv s"
  shows "\<exists>s' p p'. (writers_step conf)\<^sup>*\<^sup>* (s, [Sending (x # xs), Sending (y # ys)]) (s', [Sending xs, Sending ys]) \<and>
    sess_inv s' \<and> set (concat (sendBuffer s')) =
      {CreateDataPacket conf (SessionID s) p (sequenceNumber s) x, CreateDataPacket conf (SessionID s) p' (sequenceNumber s) y} \<union>
      set (concat (sendBuffer s)) \<and>
    sequenceNumber s' = sequenceNumber s + 2"
proof -
  from write_send_ok [OF inv, of "[]" x conf] obtain p c s1 where
    s1: "p < nat (numPath s)" "write_send conf [] s x = Inr s1" "sent_on conf s x p c s1" "sequenceNumber s1 = sequenceNumber s" by blast
  then have inv1: "sess_inv s1" by (simp add: sent_on_def)
  from write_send_ok [OF inv1, of "[]" y conf] obtain p' c' s2 where
    s2: "p' < nat (numPath s1)" "write_send conf [] s1 y = Inr s2" "sent_on conf s1 y p' c' s2" "sequenceNumber s2 = sequenceNumber s1" by blast
  let ?s = "write_advance (write_advance s2)"
  have q: "p < length (sendBuffer s)" "p' < length (sendBuffer s1)"
    using s1(1) s2(1) inv inv1 by (auto simp: sess_inv_def)
  have sb: "set (concat (sendBuffer s2)) =
      insert (CreateDataPacket conf (SessionID s) p' (sequenceNumber s) y)
        (insert (CreateDataPacket conf (SessionID s) p (sequenceNumber s) x) (set (concat (sendBuffer s))))"
    using s1(3,4) s2(3) set_concat_snoc_at [OF q(1)] set_concat_snoc_at [OF q(2)] by (simp add: sent_on_def del: set_concat)
  have "writers_step conf (s, [Sending (x # xs), Sending (y # ys)]) (s1, [Advancing xs, Sending (y # ys)])"
    "writers_step conf (s1, [Advancing xs, Sending (y # ys)]) (s2, [Advancing xs, Advancing ys])"
    "writers_step conf (s2, [Advancing xs, Advancing ys]) (write_advance s2, [Sending xs, Advancing ys])"
    "writers_step conf (write_advance s2, [Sending xs, Advancing ys]) (?s, [Sending xs, Sending ys])"
    using send [of 0 "[Sending (x # xs), Sending (y # ys)]" x xs conf "[]" s s1]
      send [of 1 "[Advancing xs, Sending (y # ys)]" y ys conf "[]" s1 s2]
      advance [of 0 "[Advancing xs, Advancing ys]" xs conf s2]
      advance [of 1 "[Sending xs, Advancing ys]" ys conf "write_advance s2"] s1(2) s2(2) by simp_all
  then have "(writers_step conf)\<^sup>*\<^sup>* (s, [Sending (x # xs), Sending (y # ys)]) (?s, [Sending xs, Sending ys])"
    by (meson converse_rtranclp_into_rtranclp rtranclp.rtrancl_refl)
  moreover have "sess_inv ?s" "sequenceNumber ?s = sequenceNumber s + 2" "sendBuffer ?s = sendBuffer s2"
    using s1(4) s2(3,4) by (auto simp: write_advance_def sent_on_def sess_inv_def)
  ultimately show ?thesis using sb by (intro exI [of _ ?s] exI [of _ p] exI [of _ p']) auto
qed

section \<open>A number that never comes\<close>

lemma push_other:
  "\<forall>p \<in> set ps. data_SeqNumber p \<noteq> expectedSeqNumber b \<Longrightarrow>
   readBuffer (foldl PushPacket b ps) = readBuffer b \<and> expectedSeqNumber (foldl PushPacket b ps) = expectedSeqNumber b \<and>
   (\<forall>n. (\<forall>p \<in> set ps. data_SeqNumber p \<noteq> n) \<longrightarrow> reorderBuffer (foldl PushPacket b ps) n = reorderBuffer b n)"
  by (induction ps arbitrary: b) (auto simp: PushPacket_def)

lemma push_before_hole:
  assumes "p \<in> set ps" and "data_SeqNumber p = expectedSeqNumber b" and "reorderBuffer b (expectedSeqNumber b + 1) = None"
    and hole: "\<forall>p \<in> set ps. data_SeqNumber p \<noteq> expectedSeqNumber b + 1"
  shows "\<exists>p \<in> set ps. data_SeqNumber p = expectedSeqNumber b \<and>
    readBuffer (foldl PushPacket b ps) = readBuffer b @ data_Payload p"
proof -
  from assms(1,2) obtain as p0 bs where ps: "ps = as @ p0 # bs" "data_SeqNumber p0 = expectedSeqNumber b"
    "\<forall>p \<in> set as. data_SeqNumber p \<noteq> expectedSeqNumber b"
    using split_list_first_prop [of ps "\<lambda>p. data_SeqNumber p = expectedSeqNumber b"] by blast
  define b1 where "b1 = foldl PushPacket b as"
  define b2 where "b2 = b1\<lparr>readBuffer := readBuffer b @ data_Payload p0, expectedSeqNumber := expectedSeqNumber b + 1\<rparr>"
  have b1: "readBuffer b1 = readBuffer b" "expectedSeqNumber b1 = expectedSeqNumber b" "reorderBuffer b1 (expectedSeqNumber b + 1) = None"
    using push_other [OF ps(3)] hole assms(3) by (auto simp: b1_def ps(1))
  then have "PushPacket b1 p0 = b2"
    using ps(2) move_in_order.simps [of b2] by (simp add: PushPacket_def b2_def)
  then have "foldl PushPacket b ps = foldl PushPacket b2 bs" by (simp add: ps(1) b1_def)
  moreover have "\<forall>p \<in> set bs. data_SeqNumber p \<noteq> expectedSeqNumber b2" using hole by (simp add: ps(1) b2_def)
  ultimately have "readBuffer (foldl PushPacket b ps) = readBuffer b @ data_Payload p0"
    using push_other [of bs b2] by (simp add: b2_def)
  then show ?thesis using ps by auto
qed

end
