(* ===== verification/Session_Manager.thy ===== *)
theory Session_Manager
  imports Session_Transfer "HOL-Library.Sublist"
begin

text \<open>
  The session manager (\<^verbatim>\<open>mp2bs-main/session/session_manager.go\<close>) and the handshake.  Sessions are shared
  by reference: they live in the list \<open>m_sessions\<close> and a pointer is an index into it.  A
  channel is the list of the values whose senders wait.  Opening sockets and listeners is left out;
  the streams that the QUIC listeners accept are arguments of \<open>accept_round\<close>.  Shown: the sessions
  that the server sets up are well formed, and a client opens as many paths as the server waits for.
\<close>

section \<open>Model\<close>

record 'st SessionManager =
  m_numPath :: int
  m_listenAddrList :: "string list"
  m_sessions :: "'st Session list"
  m_sessionMap :: "u32 \<rightharpoonup> nat"
  m_numPathChan :: "u8 list option"
  m_sessionChan :: "nat list"
  m_listenFlag :: bool

definition CreateSessionManager :: "string list \<Rightarrow> 'st SessionManager" where
  "CreateSessionManager addrList =
     \<lparr>m_numPath = int (length addrList), m_listenAddrList = addrList, m_sessions = [],
      m_sessionMap = Map.empty, m_numPathChan = None, m_sessionChan = [], m_listenFlag = False\<rparr>"

text \<open>The number of bytes that the read returned is not checked.\<close>

definition receiveHelloPacket ::
  "Config \<Rightarrow> 'st quic \<Rightarrow> 'st SessionManager \<Rightarrow> 'st \<Rightarrow> (u32 \<times> 'st SessionManager \<times> 'st) result" where
  "receiveHelloPacket conf q m stream =
     bindE (read_or_panic q stream (replicate (unat HELLO_PACKET_HEADER_LEN) 0) 0 (unat HELLO_PACKET_HEADER_LEN))
       (\<lambda>(buf, stream).
     bindE (ReadByte buf) (\<lambda>(packetType, _).
     if packetType = HELLO_PACKET conf
     then bindE (ParseHelloPacket buf) (\<lambda>(packet, _).
          Inr (hello_SessionID packet,
               m\<lparr>m_numPathChan := map_option (\<lambda>vs. vs @ [hello_NumPath packet]) (m_numPathChan m)\<rparr>, stream))
     else Inl (Panic ''SessionManager.receiveHelloPacket(): Unknown initial packet type'')))"

text \<open>
  The session a hello packet belongs to: a new one for the identifier 0, with the random
  identifier \<open>rnd\<close> (\<^verbatim>\<open>rand.Uint32()\<close>), else the one in the map.
\<close>

definition session_for ::
  "Config \<Rightarrow> u32 \<Rightarrow> 'st SessionManager \<Rightarrow> u32 \<Rightarrow> (nat \<times> 'st SessionManager) result" where
  "session_for conf rnd m sessionID =
     (if sessionID = 0
      then let sess = CreateSession conf rnd (m_listenAddrList m);
               a = length (m_sessions m)
           in Inr (a, m\<lparr>m_sessions := m_sessions m @ [sess],
                        m_sessionMap := (m_sessionMap m)(rnd \<mapsto> a)\<rparr>)
      else case m_sessionMap m sessionID of
             None \<Rightarrow> Inl (Panic ''SessionManger.accept(): not exists in the session map!'')
           | Some a \<Rightarrow> Inr (a, m))"

text \<open>One round of the loop of \<^verbatim>\<open>accept\<close>.\<close>

definition accept_round ::
  "Config \<Rightarrow> 'st quic \<Rightarrow> u32 \<Rightarrow> 'st SessionManager \<Rightarrow> 'st \<Rightarrow> string \<Rightarrow> 'st SessionManager result" where
  "accept_round conf q rnd m stream remoteAddr =
     bindE (receiveHelloPacket conf q m stream) (\<lambda>(sessionID, m, stream).
     bindE (session_for conf rnd m sessionID) (\<lambda>(a, m).
     bindE (go_index (m_sessions m) a) (\<lambda>sess.
     bindE (AddStream sess stream remoteAddr True) (\<lambda>(newPathID, sess).
     bindE (sendHelloAckPacket conf q sess newPathID) (\<lambda>sess.
     Inr (m\<lparr>m_sessions := (m_sessions m)[a := sess], m_sessionChan := m_sessionChan m @ [a]\<rparr>))))))"

text \<open>
  \<^verbatim>\<open>Accept\<close>: its start, up to the first wait, and the rest, which blocks until the values are
  there.  The session returned is the last one received from the channel.
\<close>

definition Accept_start :: "'st SessionManager \<Rightarrow> 'st SessionManager" where
  "Accept_start m = m\<lparr>m_numPathChan := Some [], m_listenFlag := True\<rparr>"

definition numberOfWaits :: "'st SessionManager \<Rightarrow> u8 \<Rightarrow> nat" where
  "numberOfWaits m remoteNumPath =
     (if m_numPath m > int (unat remoteNumPath) then nat (m_numPath m) else unat remoteNumPath)"

definition Accept :: "'st SessionManager \<Rightarrow> (nat \<times> 'st SessionManager) result" where
  "Accept m =
     (case m_numPathChan m of
        None \<Rightarrow> Inl Blocked
      | Some [] \<Rightarrow> Inl Blocked
      | Some (remoteNumPath # _) \<Rightarrow>
          let n = numberOfWaits m remoteNumPath in
          if length (m_sessionChan m) < n then Inl Blocked
          else if n = 0 then Inl NilDereference
          else let a = m_sessionChan m ! (n - 1) in
               bindE (go_index (m_sessions m) a) (\<lambda>sess.
               Inr (a, m\<lparr>m_numPathChan := None, m_sessionChan := drop n (m_sessionChan m),
                         m_sessionMap := (m_sessionMap m)(SessionID sess \<mapsto> a)\<rparr>)))"

definition Connect ::
  "Config \<Rightarrow> 'st quic \<Rightarrow> (string \<Rightarrow> int \<Rightarrow> ('st \<times> string) result) \<Rightarrow> 'st SessionManager \<Rightarrow> string \<Rightarrow> 'st Session result" where
  "Connect conf q dial m addr = Session_Connect conf q dial (CreateSession conf 0 (m_listenAddrList m)) addr 0"

section \<open>The server's sessions are well formed\<close>

definition sess_ready :: "Config \<Rightarrow> 'st Session \<Rightarrow> bool" where
  "sess_ready conf s \<longleftrightarrow> sess_inv s \<and> weight (scheduler s) = CONFIG_USER_WRR_WEIGHT conf"

definition sm_inv :: "Config \<Rightarrow> 'st SessionManager \<Rightarrow> bool" where
  "sm_inv conf m \<longleftrightarrow>
     (\<forall>s \<in> set (m_sessions m). sess_ready conf s) \<and>
     (\<forall>a \<in> ran (m_sessionMap m). a < length (m_sessions m)) \<and>
     (\<forall>a \<in> set (m_sessionChan m). a < length (m_sessions m))"

text \<open>The same while the session at \<open>a\<close> may still be without a path.\<close>

definition sm_except :: "Config \<Rightarrow> nat \<Rightarrow> 'st SessionManager \<Rightarrow> bool" where
  "sm_except conf a m \<longleftrightarrow>
     a < length (m_sessions m) \<and>
     (\<forall>i < length (m_sessions m). sess_ready conf (m_sessions m ! i) \<or>
        i = a \<and> (\<exists>sid addrs. m_sessions m ! i = CreateSession conf sid addrs)) \<and>
     (\<forall>a \<in> ran (m_sessionMap m). a < length (m_sessions m)) \<and>
     (\<forall>a \<in> set (m_sessionChan m). a < length (m_sessions m))"

lemma sendHelloAckPacket_sess_inv:
  assumes "sendHelloAckPacket conf q s i = Inr s'" and "sess_inv s"
  shows "sess_inv s' \<and> scheduler s' = scheduler s \<and> numPath s' = numPath s \<and> SessionID s' = SessionID s"
  using assms by (auto simp: sendHelloAckPacket_def sendPacket_def Let_def bindE_eq_Inr_iff sess_inv_def
      go_update_int_def go_update_eq_Inr_iff split: if_splits)

lemma AddStream_sess_inv:
  assumes add: "AddStream s st addr True = Inr (i, s')" and inv: "sess_inv s"
    and len: "length (weight (scheduler s)) \<le> 2"
  shows "sess_inv s' \<and> weight (scheduler s') = weight (scheduler s) \<and> numPath s' = numPath s + 1 \<and> SessionID s' = SessionID s"
proof -
  from inv have sched: "sched_inv (scheduler s)" "sched_numPath (scheduler s) = numPath s" by (auto simp: sess_inv_def)
  from add obtain c where c: "SetNumPath (scheduler s) (numPath s + 1) = Inr c"
    and s': "s' = s\<lparr>streamList := streamList s @ [st], connectedAddrList := connectedAddrList s @ [addr],
      numPath := numPath s + 1, sentBytes := sentBytes s @ [0], recvBytes := recvBytes s @ [0],
      sendBuffer := sendBuffer s @ [[]], scheduler := c\<rparr>"
    by (auto simp: AddStream_def Let_def bindE_eq_Inr_iff)
  have room: "numPath s < int (length (weight (scheduler s)))"
  proof (rule ccontr)
    assume "\<not> ?thesis"
    then have "SetNumPath (scheduler s) (numPath s + 1) = Inl IndexOutOfRange"
      by (intro SetNumPath_too_many [OF sched(1)]) simp
    with c show False by simp
  qed
  from SetNumPath_next [OF sched(1)] sched(2) room c have
    "sched_inv c" "sched_numPath c = numPath s + 1" "weight c = weight (scheduler s)" by auto
  with inv room len show ?thesis by (auto simp: s' sess_inv_def)
qed

lemma AddStream_new:
  assumes "AddStream (CreateSession conf sid addrs) st addr True = Inr (i, s)"
  shows "sess_ready conf s"
proof -
  have "0 < length (CONFIG_USER_WRR_WEIGHT conf)"
  proof (rule ccontr)
    assume "\<not> ?thesis"
    with assms show False
      by (simp add: CreateSession_def AddStream_def SetNumPath_def change_to_new_path_def quota_def
          CreateSessionScheduler_def go_index_int_def)
  qed
  from AddStream_first [OF this, of sid addrs st addr] assms show ?thesis by (auto simp: sess_ready_def)
qed

lemma session_for_except:
  assumes "session_for conf rnd m sid = Inr (a, m')" and "sm_inv conf m"
  shows "sm_except conf a m'"
proof (cases "sid = 0")
  case True
  let ?new = "CreateSession conf rnd (m_listenAddrList m)"
  from True assms(1) have m': "m' = m\<lparr>m_sessions := m_sessions m @ [?new], m_sessionMap := (m_sessionMap m)(rnd \<mapsto> a)\<rparr>"
    and a: "a = length (m_sessions m)" by (auto simp: session_for_def Let_def)
  have "sess_ready conf ((m_sessions m @ [?new]) ! i) \<or> i = a \<and> (\<exists>sid addrs. (m_sessions m @ [?new]) ! i = CreateSession conf sid addrs)"
    if "i < length (m_sessions m @ [?new])" for i
  proof (cases "i < length (m_sessions m)")
    case True
    then show ?thesis using assms(2) by (simp add: sm_inv_def nth_append)
  next
    case False
    with that have "i = a" by (simp add: a)
    then show ?thesis by (auto simp: a)
  qed
  moreover have "ran ((m_sessionMap m)(rnd \<mapsto> a)) \<subseteq> insert a (ran (m_sessionMap m))" by (auto simp: ran_def)
  ultimately show ?thesis using assms(2) by (auto simp: sm_inv_def sm_except_def m' a less_Suc_eq)
next
  case False
  then show ?thesis
    using assms by (auto simp: session_for_def sm_inv_def sm_except_def ran_def split: option.splits)
qed

lemma sm_except_update:
  assumes "sm_except conf a m" and "sess_ready conf s"
  shows "sm_inv conf (m\<lparr>m_sessions := (m_sessions m)[a := s], m_sessionChan := m_sessionChan m @ [a]\<rparr>)"
proof -
  have "sess_ready conf x" if "x \<in> set ((m_sessions m)[a := s])" for x
    using that assms by (auto simp: sm_except_def in_set_conv_nth nth_list_update split: if_splits)
  with assms show ?thesis by (auto simp: sm_except_def sm_inv_def)
qed

lemma accept_round_inv:
  assumes acc: "accept_round conf q rnd m stream addr = Inr m'" and inv: "sm_inv conf m"
    and w: "length (CONFIG_USER_WRR_WEIGHT conf) \<le> 2"
  shows "sm_inv conf m'"
proof -
  from acc obtain sid m1 st1 a m2 s0 i s1 s2 where
    r: "receiveHelloPacket conf q m stream = Inr (sid, m1, st1)"
    and c: "session_for conf rnd m1 sid = Inr (a, m2)"
    and s: "go_index (m_sessions m2) a = Inr s0" "AddStream s0 st1 addr True = Inr (i, s1)"
      "sendHelloAckPacket conf q s1 i = Inr s2"
    and m': "m' = m2\<lparr>m_sessions := (m_sessions m2)[a := s2], m_sessionChan := m_sessionChan m2 @ [a]\<rparr>"
    unfolding accept_round_def by (auto simp: bindE_eq_Inr_iff)
  from r inv have "sm_inv conf m1"
    by (auto simp: receiveHelloPacket_def sm_inv_def bindE_eq_Inr_iff split: if_splits)
  from session_for_except [OF c this] have ex: "sm_except conf a m2" .
  with s(1) have "sess_ready conf s0 \<or> (\<exists>sid addrs. s0 = CreateSession conf sid addrs)"
    by (auto simp: sm_except_def go_index_eq_Inr_iff)
  then have "sess_ready conf s1"
  proof
    assume "sess_ready conf s0"
    with AddStream_sess_inv [OF s(2)] w show ?thesis by (auto simp: sess_ready_def)
  qed (metis AddStream_new s(2))
  then have "sess_ready conf s2"
    using sendHelloAckPacket_sess_inv [OF s(3)] by (auto simp: sess_ready_def)
  with sm_except_update [OF ex] show ?thesis by (simp add: m')
qed

lemma CreateSessionManager_inv: "sm_inv conf (CreateSessionManager addrs)"
  by (simp add: sm_inv_def CreateSessionManager_def)

section \<open>The client opens the paths that the server waits for\<close>

text \<open>The stream after the hello packet is written.\<close>

definition hello_sent :: "Config \<Rightarrow> 'st quic \<Rightarrow> u32 \<Rightarrow> u8 \<Rightarrow> 'st \<Rightarrow> 'st" where
  "hello_sent conf q sid n st = q_Write q st (HelloPacket_enc (CreateHelloPacket conf sid n))"

text \<open>A server that answers a hello packet with the hello ACK packet \<open>p\<close>: its bytes are what there is to read.\<close>

definition answers_with :: "Config \<Rightarrow> 'st quic \<Rightarrow> ('st \<Rightarrow> bytes) \<Rightarrow> HelloAckPacket \<Rightarrow> 'st \<Rightarrow> bool" where
  "answers_with conf q content p st \<longleftrightarrow> (\<forall>sid n. prefix (HelloAckPacket_enc p) (content (hello_sent conf q sid n st)))"

text \<open>A hello ACK packet that the client can take, in type and size.\<close>

definition ack_fits :: "Config \<Rightarrow> HelloAckPacket \<Rightarrow> bool" where
  "ack_fits conf p \<longleftrightarrow>
     HelloAckPacket_valid p \<and> hack_Type p = HELLO_ACK_PACKET conf \<and>
     unat (hack_Length p) = length (HelloAckPacket_enc p) \<and> unat (hack_Length p) \<le> unat (PACKET_SIZE conf)"

text \<open>
  The two reads of the client, of the header and of the rest, both return as many bytes as they ask for.  A QUIC stream
  does not promise this, and the client does not look at the number of bytes.
\<close>

definition read_whole :: "'st quic \<Rightarrow> 'st \<Rightarrow> bytes \<Rightarrow> bool" where
  "read_whole q st bs \<longleftrightarrow>
     (\<exists>st1 st2. q_Read q st 3 = (take 3 bs, None, st1) \<and> q_Read q st1 (length bs - 3) = (drop 3 bs, None, st2))"

text \<open>A session with a further path, whose scheduler does not know it yet.\<close>

definition with_path :: "'st Session \<Rightarrow> 'st \<Rightarrow> string \<Rightarrow> 'st Session" where
  "with_path s st addr = s\<lparr>streamList := streamList s @ [st], connectedAddrList := connectedAddrList s @ [addr],
     numPath := numPath s + 1, sentBytes := sentBytes s @ [0], recvBytes := recvBytes s @ [0],
     sendBuffer := sendBuffer s @ [[]]\<rparr>"

lemma with_path_simps [simp]:
  "streamList (with_path s st addr) = streamList s @ [st]"
  "connectedAddrList (with_path s st addr) = connectedAddrList s @ [addr]"
  "numPath (with_path s st addr) = numPath s + 1" "listenAddrList (with_path s st addr) = listenAddrList s"
  "SessionID (with_path s st addr) = SessionID s" "scheduler (with_path s st addr) = scheduler s"
  "AddStream s st addr False = Inr (numPath s, with_path s st addr)"
  "(with_path s st addr)\<lparr>streamList := streamList s @ [st']\<rparr> = with_path s st' addr"
  by (simp_all add: with_path_def AddStream_def Let_def)

lemma ack_sizes:
  assumes "ack_fits conf p"
  shows "8 \<le> length (HelloAckPacket_enc p)" and "length (HelloAckPacket_enc p) \<le> length (zero_buffer conf)"
    and "take 3 (HelloAckPacket_enc p) = hack_Type p # WriteUint16 [] (hack_Length p)"
  using assms hack.take_3_enc [of p "[]"] by (auto simp: ack_fits_def HelloAckPacket_enc_def zero_buffer_def)

lemma receiveHelloAckPacket_ok:
  assumes whole: "read_whole q st (HelloAckPacket_enc p)" and p: "ack_fits conf p"
    and i: "0 \<le> i" "nat i < length (streamList s)" "streamList s ! nat i = st"
  shows "\<exists>st2. receiveHelloAckPacket conf q s i = handleHelloAckPacket (s\<lparr>streamList := (streamList s)[nat i := st2]\<rparr>) p"
proof -
  let ?z = "zero_buffer conf" and ?n = "unat (hack_Length p)" and ?bs = "HelloAckPacket_enc p"
  note l = ack_sizes [OF p]
  have len: "HelloAckPacket_valid p" "hack_Type p = HELLO_ACK_PACKET conf" "?n = length ?bs" using p by (simp_all add: ack_fits_def)
  from whole obtain st1 st2 where
    rd: "q_Read q st 3 = (take 3 ?bs, None, st1)" "q_Read q st1 (length ?bs - 3) = (drop 3 ?bs, None, st2)"
    by (auto simp: read_whole_def)
  let ?buf = "take 3 ?bs @ drop 3 ?z"
  have read1: "read_or_panic q st ?z 0 3 = Inr (?buf, st1)"
    using rd(1) l(1,2) by (simp add: read_or_panic_def read_slice_def)
  have take3: "take 3 ?buf = hack_Type p # WriteUint16 [] (hack_Length p)" using l by simp
  have hdr: "packet_header ?buf = Inr (hack_Type p, hack_Length p)"
    unfolding packet_header_def take3 using ReadUint16_WriteUint16 [of _ "[]"] by simp
  have buf3: "length (drop 3 ?bs) = ?n - 3" "length ?buf = length ?z" "?n \<le> length ?z" "3 \<le> ?n"
    using l len by simp_all
  have "take 3 ?buf @ drop 3 ?bs @ drop ?n ?buf = ?bs @ drop ?n ?buf" using l(1,2) by simp
  then have read2: "read_or_panic q st1 ?buf 3 ?n = Inr (?bs @ drop ?n ?buf, st2)"
    using rd(2) buf3 len(3) by (simp add: read_or_panic_def read_slice_def del: take_append drop_append append_assoc)
  have parse: "ParseHelloAckPacket (?bs @ drop ?n ?buf) = Inr (p, drop ?n ?buf)"
    by (rule hack.Parse_enc [OF len(1)])
  show ?thesis
    using i len(2) by (auto simp: receiveHelloAckPacket_def read1 hdr read2 parse Let_def simp del: drop_append take_append)
qed

text \<open>When the header is cut, the length is taken to be zero and the slice \<^verbatim>\<open>buf[3:0]\<close> panics.\<close>

lemma receiveHelloAckPacket_cut:
  assumes q: "reliable_reads q content" and hdr: "header_cut q st" and p: "ack_fits conf p"
    and st: "content st = HelloAckPacket_enc p @ r"
    and k: "length (fst (q_Read q st 3)) = 1 \<or> unat (hack_Length p) < 256"
    and i: "0 \<le> i" "nat i < length (streamList s)" "streamList s ! nat i = st"
  shows "receiveHelloAckPacket conf q s i = Inl SliceOutOfRange"
proof -
  let ?z = "zero_buffer conf" and ?bs = "HelloAckPacket_enc p"
  note l = ack_sizes [OF p]
  have "3 < length (content st)" using l by (simp add: st)
  from header_read [OF q this] obtain k st1 where "0 < k" "k < 3" "q_Read q st 3 = (take k (content st), None, st1)"
    using hdr by metis
  then have st1: "0 < k" "k < 3" "q_Read q st 3 = (take k ?bs, None, st1)" using l by (simp_all add: st)
  let ?buf = "take k ?bs @ drop k ?z"
  have "k = 1 \<or> k = 2 \<and> unat (hack_Length p) < 256" using st1 k l by (auto simp: min_def)
  moreover have "take 3 ?z = [0, 0, 0]" using l by (auto simp: zero_buffer_def numeral_3_eq_3 min_def)
  ultimately have hd: "packet_header ?buf = Inr (hack_Type p, 0)" using l by (intro packet_header_cut)
  have "read_or_panic q st ?z 0 3 = Inr (?buf, st1)"
    using l st1 by (simp add: read_or_panic_def read_slice_def min_def)
  moreover have "read_or_panic q st1 ?buf 3 0 = Inl SliceOutOfRange"
    by (simp add: read_or_panic_def read_slice_def go_slice_def)
  ultimately show ?thesis using i by (simp add: receiveHelloAckPacket_def hd)
qed

lemma connect_path_sent:
  assumes "dial addr i = Inr (st, r)" and "0 \<le> i" "nat i < length (listenAddrList s)" and "numPath s = int (length (streamList s))"
  shows "connect_path conf q dial s addr i = receiveHelloAckPacket conf q
    (with_path s (hello_sent conf q (SessionID s) (of_nat (length (listenAddrList s))) st) r) (numPath s)"
proof -
  have "sendHelloPacket conf q (with_path s st r) (numPath s) =
      Inr (with_path s (hello_sent conf q (SessionID s) (of_nat (length (listenAddrList s))) st) r)"
    using assms by (simp add: sendHelloPacket_def sendPacket_def hello.Write_enc Let_def hello_sent_def)
  with assms show ?thesis by (auto simp: connect_path_def)
qed

lemma connect_path_ok:
  assumes whole: "\<forall>sid n. read_whole q (hello_sent conf q sid n st) (HelloAckPacket_enc p)" and p: "ack_fits conf p"
    and dial: "dial addr i = Inr (st, r)"
    and i: "0 \<le> i" "nat i < length (listenAddrList s)" and np: "numPath s = int (length (streamList s))"
  shows "\<exists>st'. connect_path conf q dial s addr i = handleHelloAckPacket (with_path s st' r) p"
proof -
  let ?st = "hello_sent conf q (SessionID s) (of_nat (length (listenAddrList s))) st"
  have "\<exists>st2. receiveHelloAckPacket conf q (with_path s ?st r) (numPath s) = handleHelloAckPacket (with_path s st2 r) p"
    using receiveHelloAckPacket_ok [OF _ p, of q ?st "numPath s" "with_path s ?st r"] whole np by simp
  with connect_path_sent [where dial = dial and addr = addr and i = i and s = s, OF dial i np] show ?thesis by simp
qed

text \<open>The effect of a hello ACK packet: the scheduler learns the path, and it decides on a second one.\<close>

lemma handleHelloAckPacket_first:
  assumes "numPath s = 1" and "connectedAddrList s = [a]" and "SessionID s = 0"
    and "SetNumPath (scheduler s) 1 = Inr c" and "HelloAckPacket_valid p"
    and "unat (hack_NumPath p) \<in> {1, 2}" and "length (listenAddrList s) \<in> {1, 2}"
  shows "\<exists>nxt. handleHelloAckPacket s p = Inr (s\<lparr>SessionID := hack_SessionID p, scheduler := c\<rparr>, nxt) \<and>
    (nxt = None \<longleftrightarrow> max (unat (hack_NumPath p)) (length (listenAddrList s)) = 1) \<and>
    (\<forall>addr j. nxt = Some (addr, j) \<longrightarrow> 0 \<le> j \<and> nat j < length (listenAddrList s))"
proof -
  have np: "hack_NumPath p = 1 \<longleftrightarrow> unat (hack_NumPath p) = 1" "hack_NumPath p = 2 \<longleftrightarrow> unat (hack_NumPath p) = 2"
    by (simp_all add: word_unat_eq_iff)
  have "unat (hack_NumPath p) = length (hack_NicInfos p)" using assms(5) by (simp add: HelloAckPacket_valid_def)
  with assms show ?thesis by (auto simp: handleHelloAckPacket_def Let_def np)
qed

lemma handleHelloAckPacket_later:
  assumes "length (connectedAddrList s) \<noteq> 1" and "SessionID s \<noteq> 0" and "SetNumPath (scheduler s) (numPath s) = Inr c"
  shows "handleHelloAckPacket s p = Inr (s\<lparr>scheduler := c\<rparr>, None)"
  using assms by (simp add: handleHelloAckPacket_def Let_def)

lemma Session_Connect_ok:
  assumes ans: "\<And>addr i. \<exists>st r. dial addr i = Inr (st, r) \<and>
      (\<forall>sid n. read_whole q (hello_sent conf q sid n st) (HelloAckPacket_enc p))"
    and p: "ack_fits conf p" and sid: "hack_SessionID p \<noteq> 0" and np: "unat (hack_NumPath p) \<in> {1, 2}"
    and addrs: "length addrs \<in> {1, 2}" and w: "2 \<le> length (CONFIG_USER_WRR_WEIGHT conf)"
  shows "\<exists>s. Session_Connect conf q dial (CreateSession conf 0 addrs) addr 0 = Inr s \<and> sess_inv s \<and>
    numPath s = int (max (unat (hack_NumPath p)) (length addrs)) \<and> SessionID s = hack_SessionID p"
proof -
  let ?s0 = "CreateSession conf 0 addrs :: 'a Session"
  have s0: "numPath ?s0 = 0" "streamList ?s0 = []" "connectedAddrList ?s0 = []" "listenAddrList ?s0 = addrs"
    "SessionID ?s0 = 0" "scheduler ?s0 = CreateSessionScheduler conf SCHED_USER_WRR"
    by (simp_all add: CreateSession_def)
  obtain st r where d0: "dial addr 0 = Inr (st, r)"
    "\<forall>sid n. read_whole q (hello_sent conf q sid n st) (HelloAckPacket_enc p)" using ans by blast
  have valid: "HelloAckPacket_valid p" using p by (simp add: ack_fits_def)
  have "CONFIG_USER_WRR_WEIGHT conf \<noteq> []" using w by auto
  from SetNumPath_create [OF this] obtain c where
    c: "SetNumPath (CreateSessionScheduler conf SCHED_USER_WRR) 1 = Inr c" "sched_inv c" "sched_numPath c = 1"
      "weight c = CONFIG_USER_WRR_WEIGHT conf" by blast
  obtain st1 where cp: "connect_path conf q dial ?s0 addr 0 = handleHelloAckPacket (with_path ?s0 st1 r) p"
    using connect_path_ok [where dial = dial and addr = addr and i = 0 and s = ?s0, OF d0(2) p d0(1)] addrs s0
    by (cases addrs) auto
  let ?s1 = "(with_path ?s0 st1 r)\<lparr>SessionID := hack_SessionID p, scheduler := c\<rparr>"
  from handleHelloAckPacket_first [of "with_path ?s0 st1 r" r c p] valid np addrs s0 c(1) obtain nxt where
    h: "connect_path conf q dial ?s0 addr 0 = Inr (?s1, nxt)"
      "nxt = None \<longleftrightarrow> max (unat (hack_NumPath p)) (length addrs) = 1"
      "\<forall>addr j. nxt = Some (addr, j) \<longrightarrow> 0 \<le> j \<and> nat j < length addrs" unfolding cp by auto
  show ?thesis
  proof (cases nxt)
    case None
    then have "sess_inv ?s1" using c by (simp add: sess_inv_def with_path_def CreateSession_def)
    with None h s0 show ?thesis by (subst Session_Connect.simps) simp
  next
    case (Some x)
    then obtain addr' j where x: "nxt = Some (addr', j)" by (cases x) auto
    obtain st2 r2 where d1: "dial addr' j = Inr (st2, r2)"
      "\<forall>sid n. read_whole q (hello_sent conf q sid n st2) (HelloAckPacket_enc p)" using ans by blast
    obtain st3 where cp2: "connect_path conf q dial ?s1 addr' j = handleHelloAckPacket (with_path ?s1 st3 r2) p"
      using connect_path_ok [where dial = dial and addr = addr' and i = j and s = ?s1, OF d1(2) p d1(1)] h(3) x s0 by auto
    from SetNumPath_next [OF c(2)] c w obtain c2 where
      c2: "SetNumPath c 2 = Inr c2" "sched_inv c2" "sched_numPath c2 = 2" by auto
    let ?s2 = "(with_path ?s1 st3 r2)\<lparr>scheduler := c2\<rparr>"
    have "connect_path conf q dial ?s1 addr' j = Inr (?s2, None)"
      unfolding cp2 using c2 sid s0 by (intro handleHelloAckPacket_later) simp_all
    then have con: "Session_Connect conf q dial ?s0 addr 0 = Inr ?s2"
      using h(1) x by (simp add: Session_Connect.simps [of _ _ _ ?s0] Session_Connect.simps [of _ _ _ ?s1])
    have "sess_inv ?s2" using c2 by (simp add: sess_inv_def with_path_def CreateSession_def)
    moreover have "max (unat (hack_NumPath p)) (length addrs) = 2" using h(2) x np addrs by auto
    ultimately show ?thesis using con s0 by simp
  qed
qed

lemma Session_Connect_cut:
  assumes q: "reliable_reads q content" and dial: "dial addr 0 = Inr (st, r)" and ans: "answers_with conf q content p st"
    and p: "ack_fits conf p" and addrs: "addrs \<noteq> []" and st: "st0 = hello_sent conf q 0 (of_nat (length addrs)) st"
    and cut: "header_cut q st0" and k: "length (fst (q_Read q st0 3)) = 1 \<or> unat (hack_Length p) < 256"
  shows "Session_Connect conf q dial (CreateSession conf 0 addrs) addr 0 = Inl SliceOutOfRange"
proof -
  let ?s0 = "CreateSession conf 0 addrs :: 'a Session"
  have s0: "numPath ?s0 = 0" "streamList ?s0 = []" "listenAddrList ?s0 = addrs" "SessionID ?s0 = 0"
    by (simp_all add: CreateSession_def)
  from ans obtain r' where "content st0 = HelloAckPacket_enc p @ r'" unfolding answers_with_def prefix_def st by blast
  from receiveHelloAckPacket_cut [OF q cut p this k, of 0 "with_path ?s0 st0 r"]
  have "connect_path conf q dial ?s0 addr 0 = Inl SliceOutOfRange"
    using connect_path_sent [where s = ?s0 and q = q and conf = conf and dial = dial and addr = addr and i = 0, OF dial] addrs s0 by (simp add: st)
  then show ?thesis by (simp add: Session_Connect.simps [of _ _ _ ?s0])
qed

section \<open>A third path\<close>

text \<open>With three weights a session takes a third path, but there are only two mutexes.\<close>

lemma third_path:
  assumes "sess_inv s" and "numPath s = 2" and "3 \<le> length (weight (scheduler s))"
  shows "\<exists>s'. AddStream s st addr True = Inr (2, s') \<and> numPath s' = 3 \<and> length (sendBuffer s') = 3 \<and>
    sched_inv (scheduler s') \<and> usePath (scheduler s') = 3 \<and> (\<forall>conf payload. sendDataPacket conf s' payload 2 = Inl IndexOutOfRange)"
proof -
  from assms have "sched_inv (scheduler s)" "sched_numPath (scheduler s) = 2" by (auto simp: sess_inv_def)
  with SetNumPath_next [of "scheduler s"] assms(3) obtain c where
    c: "SetNumPath (scheduler s) 3 = Inr c" "sched_inv c" "usePath c = 3" by auto
  then show ?thesis using assms
    by (auto simp: AddStream_def sendDataPacket_def go_index_int_def go_index_def sess_inv_def Let_def)
qed

end
