(* ===== verification/Session_Properties.thy ===== *)
theory Session_Properties
  imports Session_Network Session_Overlap Session_Manager
begin

text \<open>
  The properties of the session layer: the byte stream over several paths (C1 to C5), the path
  scheduler, the handshake and the hello ACK packet, each with a concrete instance.
\<close>

section \<open>The session as a byte stream\<close>

text \<open>C1. What the receiving application has read is at every moment a prefix of what the sending
  application has written: for every interleaving of the packets of a \<^verbatim>\<open>Write\<close>, transmissions, deliveries and reads, over
  any of the paths, with every cut of the bytes that a reliable QUIC stream may make within packets, nothing is lost,
  repeated or reordered.  It holds for one \<^verbatim>\<open>Write\<close> at a time, below \<open>2 ^ 32 - 1\<close> packets, and as long as no read of
  the three bytes of a packet header has returned fewer (\<open>net_cut\<close>), which the code does not handle.\<close>

theorem session_delivers_in_order:
  assumes "net_init content n0" and "Config_ok conf" and "(net_step conf content)\<^sup>*\<^sup>* n0 n"
    and "length (payloads (net_writes n)) < 2 ^ 32 - 1" and "\<not> net_cut n"
  shows "prefix (net_out n) (concat (net_writes n))"
  using net_inv_stream(1) [OF net_reach_inv [OF assms(2,3,1,4,5)]] by (rule append_prefixD)

theorem session_delivers_in_order_witness:
  "net_out demo_net4 = [1, 2, 3] \<and> prefix (net_out demo_net4) (concat (net_writes demo_net4))"
proof -
  have "net_writes demo_net4 = [[1, 2, 3]]" "net_out demo_net4 = [1, 2, 3]" "\<not> net_cut demo_net4"
    by (simp_all add: demo_net4_def demo_net3_def demo_net2_def demo_net1_def demo_net0_def)
  then show ?thesis
    using session_delivers_in_order [OF demo_net0_init default_Conf_ok demo_run]
    by (simp add: chunks_step DATA_PACKET_PAYLOAD_SIZE_def)
qed

text \<open>C2. Everything that was written can be read: from every state that is reached without a cut header, in the
  middle of a \<^verbatim>\<open>Write\<close> or not, there is a continuation, in which the application starts no further \<^verbatim>\<open>Write\<close>, after
  which exactly the bytes written have been read, provided that the streams may return packet headers whole
  (some \<open>q\<close> that is reliable does).  In particular no such state has lost a packet or is stuck.\<close>

theorem session_can_drain:
  assumes "net_init content n0" and "Config_ok conf" and "(net_step conf content)\<^sup>*\<^sup>* n0 n"
    and "length (payloads (net_writes n)) < 2 ^ 32 - 1" and "\<not> net_cut n"
    and "\<exists>q. reliable_stream q content \<and> whole_headers q content"
  shows "\<exists>n'. (net_step conf content)\<^sup>*\<^sup>* n n' \<and> net_writes n' = net_writes n \<and> net_out n' = concat (net_writes n)"
  using assms(6) net_drains [OF _ _ assms(2) net_reach_inv [OF assms(2,3,1,4,5)] assms(5)] by blast

theorem session_can_drain_witness:
  "\<exists>n'. (net_step default_Conf id)\<^sup>*\<^sup>* demo_net1 n' \<and> net_out n' = [1, 2, 3]"
proof -
  have "net_writes demo_net1 = [[1, 2, 3]]" "\<not> net_cut demo_net1" by (simp_all add: demo_net1_def demo_net0_def)
  then show ?thesis
    using session_can_drain [OF demo_net0_init default_Conf_ok demo_write] pipe_reliable
    by (auto simp: chunks_step DATA_PACKET_PAYLOAD_SIZE_def)
qed

text \<open>C3. The receive buffer puts packets back in order: whatever the order and the repetitions in which
  data packets arrive, the bytes that can be read are the payloads of the sequence numbers below the first
  one that is missing, in order.\<close>

theorem recv_buffer_in_order:
  assumes "\<forall>p \<in> set ps. data_Payload p = f (unat (data_SeqNumber p)) \<and> unat (data_SeqNumber p) < 2 ^ 32 - 1"
    and "\<forall>i<k. \<exists>p \<in> set ps. unat (data_SeqNumber p) = i"
    and "\<not> (\<exists>p \<in> set ps. unat (data_SeqNumber p) = k)"
  shows "readBuffer (foldl PushPacket CreateRecvBuffer ps) = concat (map f [0..<k])"
  using recv_buffer.push_list_stream [OF assms] .

theorem recv_buffer_in_order_witness:
  "readBuffer (foldl PushPacket CreateRecvBuffer
     [CreateDataPacket default_Conf 7 0 2 [5], CreateDataPacket default_Conf 7 1 1 [3, 4],
      CreateDataPacket default_Conf 7 0 0 [1, 2], CreateDataPacket default_Conf 7 1 1 [3, 4],
      CreateDataPacket default_Conf 7 1 5 [9]]) = [1, 2, 3, 4, 5]"
proof -
  define f :: "nat \<Rightarrow> bytes" where "f i = (if i = 0 then [1, 2] else if i = 1 then [3, 4] else if i = 2 then [5] else [9])" for i
  have "\<forall>i<3. \<exists>p \<in> set [CreateDataPacket default_Conf 7 0 2 [5], CreateDataPacket default_Conf 7 1 1 [3, 4],
      CreateDataPacket default_Conf 7 0 0 [1, 2], CreateDataPacket default_Conf 7 1 1 [3, 4],
      CreateDataPacket default_Conf 7 1 5 [9]]. unat (data_SeqNumber p) = i"
    by (simp add: less_Suc_eq numeral_3_eq_3)
  from recv_buffer_in_order [OF _ this, of f] show ?thesis by (simp add: f_def numeral_3_eq_3)
qed

text \<open>C4. \<^verbatim>\<open>Write\<close>, run alone on a session that is set up, never panics, reports the number of bytes of its argument, and makes
  one data packet of each chunk of at most 1024 bytes, with consecutive sequence numbers.  The path of each is the one that the
  scheduler gives in turn, a path of the session, and every queue has exactly its packets added at its end, once and in order;
  the chunks together are the bytes written.\<close>

theorem session_write_queues_chunks:
  assumes "sess_inv s"
  shows "\<exists>paths c s'. Session_Write conf verdicts s buf pType = Inr (length buf, s') \<and> sess_inv s' \<and>
    concat (chunks DATA_PACKET_PAYLOAD_SIZE buf) = buf \<and>
    assign_paths (if pType = 14 then verdicts else (\<lambda>_. [])) 0 (scheduler s) (chunks DATA_PACKET_PAYLOAD_SIZE buf) = Inr (paths, c) \<and>
    scheduler s' = c \<and>
    length paths = length (chunks DATA_PACKET_PAYLOAD_SIZE buf) \<and> (\<forall>p \<in> set paths. p < nat (numPath s)) \<and>
    length (sendBuffer s') = length (sendBuffer s) \<and>
    (\<forall>i < length (sendBuffer s). sendBuffer s' ! i = sendBuffer s ! i @
       queued conf (SessionID s) (sequenceNumber s) paths (chunks DATA_PACKET_PAYLOAD_SIZE buf) i) \<and>
    sequenceNumber s' = sequenceNumber s + of_nat (length (chunks DATA_PACKET_PAYLOAD_SIZE buf))"
proof -
  have "concat (chunks DATA_PACKET_PAYLOAD_SIZE buf) = buf"
    by (rule concat_chunks) (simp add: DATA_PACKET_PAYLOAD_SIZE_def)
  with Session_Write_loop_ok [OF assms, of conf "if pType = 14 then verdicts else (\<lambda>_. [])" buf 0 0 0]
  show ?thesis unfolding Session_Write_def by (simp only: drop_0 add_0 diff_zero) blast
qed

theorem session_write_queues_chunks_witness:
  "\<exists>s'. Session_Write default_Conf (\<lambda>_. [True, False]) demo_session [1, 2, 3] 14 = Inr (3, s') \<and> sess_inv s' \<and>
     sequenceNumber s' = 1"
proof -
  have "sess_inv demo_session" by (simp add: demo_session_def sess_inv_def sched_inv_def)
  from session_write_queues_chunks [OF this, of default_Conf "\<lambda>_. [True, False]" "[1, 2, 3]" 14] show ?thesis
    by (auto simp: chunks_step DATA_PACKET_PAYLOAD_SIZE_def demo_session_def)
qed

text \<open>C5. One round of \<^verbatim>\<open>receiver\<close> on a stream that starts with an encoded data packet: when the read of the header returns
  its three bytes, the round returns, takes exactly that packet off the stream whatever the sizes of the reads that follow,
  and pushes it into the receive buffer.  When that read is cut after one byte, or the packet has fewer
  than 256 bytes, the receiver panics.\<close>

theorem receiver_takes_one_packet:
  assumes "reliable_reads q content" and "Config_ok conf"
    and "DataPacket_valid p" and "data_Type p = DATA_PACKET conf"
    and "length (data_Payload p) \<le> DATA_PACKET_PAYLOAD_SIZE"
    and "0 \<le> pathID" and "nat pathID < length (recvBytes s)" and "content st = DataPacket_enc p @ r"
  shows "(\<not> header_cut q st \<longrightarrow>
      (\<exists>s' st'. receiver_round conf q s pathID st = Some (Inr (Some (s', st'))) \<and> content st' = r \<and>
         recvBuffer s' = PushPacket (recvBuffer s) p)) \<and>
    (header_cut q st \<and> (length (fst (q_Read q st 3)) = 1 \<or> unat (data_Length p) < 256) \<longrightarrow>
      receiver_round conf q s pathID st = Some (Inl SliceOutOfRange))"
  using receiver_round_ok [OF assms(1) _ assms(2-8)] receiver_round_cut [OF assms(1) _ assms(2,3,5,8)]
  by (auto simp: handleDataPacket_def)

theorem receiver_takes_one_packet_witness:
  "(\<exists>s' st'. receiver_round default_Conf pipe demo_session 1
       (DataPacket_enc (CreateDataPacket default_Conf 7 1 0 [1, 2, 3]) @ [9, 9]) = Some (Inr (Some (s', st'))) \<and>
     st' = [9, 9] \<and> recvBuffer s' = PushPacket CreateRecvBuffer (CreateDataPacket default_Conf 7 1 0 [1, 2, 3])) \<and>
   receiver_round default_Conf trickle demo_session 1
       (DataPacket_enc (CreateDataPacket default_Conf 7 1 0 [1, 2, 3]) @ [9, 9]) = Some (Inl SliceOutOfRange)"
proof -
  let ?p = "CreateDataPacket default_Conf 7 1 0 [1, 2, 3]"
  let ?st = "DataPacket_enc ?p @ [9, 9]"
  have p: "DataPacket_valid ?p" "data_Type ?p = DATA_PACKET default_Conf" "length (data_Payload ?p) \<le> DATA_PACKET_PAYLOAD_SIZE"
    "nat 1 < length (recvBytes demo_session)"
    by (simp_all add: CreateDataPacket_valid demo_session_def DATA_PACKET_PAYLOAD_SIZE_def)
  have q: "reliable_reads pipe id" "reliable_reads trickle id"
    using pipe_reliable trickle_reliable by (simp_all add: reliable_stream_def)
  have "\<not> header_cut pipe ?st" "header_cut trickle ?st" "length (fst (q_Read trickle ?st 3)) = 1" by code_simp+
  moreover have "recvBuffer demo_session = CreateRecvBuffer" by (simp add: demo_session_def)
  ultimately show ?thesis
    using receiver_takes_one_packet [OF q(1) default_Conf_ok p(1-3) _ p(4), of ?st "[9, 9]"]
      receiver_takes_one_packet [OF q(2) default_Conf_ok p(1-3) _ p(4), of ?st "[9, 9]"] by simp
qed

section \<open>The scheduler\<close>

text \<open>C6. The path scheduler stays in range: from a new scheduler with its first path, every sequence of added
  paths (at most as many as there are configured weights), scheduled packets and verdicts of the monitor runs
  without a panic, and the next packet is again given a path in use.\<close>

theorem scheduler_run_in_range:
  assumes "1 + count_list es AddPath \<le> length (CONFIG_USER_WRR_WEIGHT conf)"
  shows "\<exists>c c' p c''. SetNumPath (CreateSessionScheduler conf SCHED_USER_WRR) 1 = Inr c \<and>
    foldE sched_step es c = Inr c' \<and> sched_numPath c' = 1 + int (count_list es AddPath) \<and>
    Scheduling c' payloadSize = Inr (p, c'') \<and> 0 \<le> p \<and> p < usePath c' \<and>
    usePath c' \<le> sched_numPath c'"
proof -
  have "CONFIG_USER_WRR_WEIGHT conf \<noteq> []" using assms by auto
  from SetNumPath_create [OF this] obtain c where
    c: "SetNumPath (CreateSessionScheduler conf SCHED_USER_WRR) 1 = Inr c" "sched_inv c" "sched_numPath c = 1"
      "weight c = CONFIG_USER_WRR_WEIGHT conf" by blast
  from sched_run_ok [OF c(2), of es] c assms obtain c' where
    "foldE sched_step es c = Inr c'" "sched_inv c'" "sched_numPath c' = 1 + int (count_list es AddPath)" by auto
  moreover from this have "usePath c' \<le> sched_numPath c'" by (simp add: sched_inv_def)
  ultimately show ?thesis using c wrr.schedule_ready [of c' payloadSize] by blast
qed

theorem scheduler_run_in_range_witness:
  "\<exists>c c' p c''. SetNumPath (CreateSessionScheduler default_Conf SCHED_USER_WRR) 1 = Inr c \<and>
     foldE sched_step [Schedule 1024, AddPath, Verdict False, Schedule 100, Verdict True] c = Inr c' \<and>
     Scheduling c' 1024 = Inr (p, c'') \<and> 0 \<le> p \<and> p < usePath c'"
  using scheduler_run_in_range [of "[Schedule 1024, AddPath, Verdict False, Schedule 100, Verdict True]" default_Conf 1024]
  by (auto simp: default_Conf_def)

text \<open>C7. Weighted round robin gives each path exactly its weight: when the current path is the first and all
  quotas are full, the next round of full packets (as many as the weights of the paths in use add up to) uses
  path 0 for its weight, then path 1, and so on, and leaves the scheduler as it was.\<close>

theorem wrr_gives_exact_shares:
  assumes "sched_inv c" and "schedulerType c = SCHED_USER_WRR" and "quotas_full c" and "currentPath c = 0"
  shows "schedule_all c (replicate (\<Sum>i<nat (usePath c). unat (weight c ! i)) full_payload) =
    Inr (concat (map (\<lambda>i. replicate (unat (weight c ! i)) (int i)) [0..<nat (usePath c)]), c)"
  using wrr_round [OF assms] .

theorem wrr_gives_exact_shares_witness:
  "bindE (schedule_all \<lparr>schedulerType = 1, sched_numPath = 2, weight = [5, 2], remainingBytes = [5120, 2048],
       currentPath = 0, usePath = 2, multipath = True\<rparr> (replicate 7 full_payload)) (\<lambda>(ps, _). Inr ps) =
     Inr [0, 0, 0, 0, 0, 1, 1]"
proof -
  let ?c = "\<lparr>schedulerType = 1, sched_numPath = 2, weight = [5, 2], remainingBytes = [5120, 2048],
       currentPath = 0, usePath = 2, multipath = True\<rparr> :: SessionScheduler"
  have "sched_inv ?c" "schedulerType ?c = SCHED_USER_WRR" "currentPath ?c = 0"
    by (simp_all add: sched_inv_def SCHED_USER_WRR_def)
  moreover have "quotas_full ?c"
    by (auto simp: quotas_full_def DATA_PACKET_PAYLOAD_SIZE_def less_2_cases_iff)
  moreover have "(\<Sum>i<nat (usePath ?c). unat (weight ?c ! i)) = 7"
    "concat (map (\<lambda>i. replicate (unat (weight ?c ! i)) (int i)) [0..<nat (usePath ?c)]) = [0, 0, 0, 0, 0, 1, 1]"
    by code_simp+
  ultimately show ?thesis using wrr_gives_exact_shares [of ?c] by (simp only: bindE_Inr case_prod_conv)
qed

section \<open>Connecting\<close>

text \<open>C8. A client opens as many paths as the server waits for: with one or two local addresses and a server
  that advertises one or two, \<^verbatim>\<open>Connect\<close> returns, without a panic, a session that is set up, has the identifier
  that the server assigned, and has as many paths as the larger of the two numbers, which is
  \<open>numberOfWaits\<close> on the server's side, when on every path the two reads of the hello ACK packet return all the bytes they ask for
  (\<open>read_whole\<close>).  The client does not look at the number of bytes that it gets: when the header on the first path comes
  cut, after one byte or in a packet of fewer than 256 bytes, \<^verbatim>\<open>Connect\<close> panics.\<close>

theorem connect_opens_the_awaited_paths:
  assumes "reliable_reads q content" and "\<And>addr i. \<exists>st r. dial addr i = Inr (st, r) \<and> answers_with conf q content p st"
    and "ack_fits conf p" and "hack_SessionID p \<noteq> 0" and "unat (hack_NumPath p) \<in> {1, 2}" and "length (m_listenAddrList m) \<in> {1, 2}"
    and "2 \<le> length (CONFIG_USER_WRR_WEIGHT conf)" and "m_numPath server = int (unat (hack_NumPath p))"
  shows "((\<forall>addr i st r sid n. dial addr i = Inr (st, r) \<longrightarrow> read_whole q (hello_sent conf q sid n st) (HelloAckPacket_enc p)) \<longrightarrow>
      (\<exists>s. Connect conf q dial m addr = Inr s \<and> sess_inv s \<and> SessionID s = hack_SessionID p \<and>
         numPath s = int (numberOfWaits server (of_nat (length (m_listenAddrList m)))))) \<and>
    (\<forall>st r st0. dial addr 0 = Inr (st, r) \<and> st0 = hello_sent conf q 0 (of_nat (length (m_listenAddrList m))) st \<and> header_cut q st0 \<and>
       (length (fst (q_Read q st0 3)) = 1 \<or> unat (hack_Length p) < 256) \<longrightarrow>
       Connect conf q dial m addr = Inl SliceOutOfRange)"
proof (intro conjI impI allI)
  assume "\<forall>addr i st r sid n. dial addr i = Inr (st, r) \<longrightarrow> read_whole q (hello_sent conf q sid n st) (HelloAckPacket_enc p)"
  then have "\<exists>st r. dial addr i = Inr (st, r) \<and> (\<forall>sid n. read_whole q (hello_sent conf q sid n st) (HelloAckPacket_enc p))" for addr i
    using assms(2) [of addr i] by blast
  from Session_Connect_ok [where dial = dial and addr = addr, OF this assms(3-7)] obtain s where
    s: "Connect conf q dial m addr = Inr s" "sess_inv s" "SessionID s = hack_SessionID p"
      "numPath s = int (max (unat (hack_NumPath p)) (length (m_listenAddrList m)))" by (auto simp: Connect_def)
  moreover have "numberOfWaits server (of_nat (length (m_listenAddrList m))) =
      max (unat (hack_NumPath p)) (length (m_listenAddrList m))"
  proof -
    obtain k where k: "unat (hack_NumPath p) = k" "k \<in> {1, 2}" using assms(5) by blast
    have "m_numPath server = int k" using assms(8) unfolding k(1) .
    with k assms(6) show ?thesis by (auto simp: numberOfWaits_def)
  qed
  ultimately show "\<exists>s. Connect conf q dial m addr = Inr s \<and> sess_inv s \<and> SessionID s = hack_SessionID p \<and>
      numPath s = int (numberOfWaits server (of_nat (length (m_listenAddrList m))))" by auto
next
  fix st r st0
  assume *: "dial addr 0 = Inr (st, r) \<and> st0 = hello_sent conf q 0 (of_nat (length (m_listenAddrList m))) st \<and> header_cut q st0 \<and>
    (length (fst (q_Read q st0 3)) = 1 \<or> unat (hack_Length p) < 256)"
  moreover have "answers_with conf q content p st" using assms(2) [of addr 0] * by auto
  moreover have "m_listenAddrList m \<noteq> []" using assms(6) by auto
  ultimately show "Connect conf q dial m addr = Inl SliceOutOfRange"
    using Session_Connect_cut [where dial = dial and addr = addr, OF assms(1)] assms(3) unfolding Connect_def by blast
qed

text \<open>
  A stream on which the server has already answered: reads take at most \<open>k\<close> bytes from the answer, writes are kept apart.
\<close>

definition answering :: "nat \<Rightarrow> (bytes \<times> bytes) quic" where
  "answering k = \<lparr>q_Read = (\<lambda>(i, out) n. if i = [] then ([], Some Blocked, (i, out))
                                        else (take (min k n) i, None, (drop (min k n) i, out))),
                  q_Write = (\<lambda>(i, out) b. (i, out @ b)), q_Close = (\<lambda>st. st)\<rparr>"

lemma answering_reliable:
  assumes "0 < k" shows "reliable_reads (answering k) fst"
proof -
  have "\<exists>m. 0 < m \<and> m \<le> n \<and> m \<le> length i \<and> take (min k n) i = take m i \<and> drop (min k n) i = drop m i"
    if "0 < n" "i \<noteq> []" for n and i :: bytes
    using that assms by (intro exI [of _ "min (min k n) (length i)"]) (auto simp: min_def)
  then show ?thesis by (auto simp: reliable_reads_def answering_def)
qed

definition demo_ack :: HelloAckPacket where
  "demo_ack = CreateHelloAckPacket default_Conf 7
     [\<lparr>nic_Type = 0, nic_AddrLen = 2, nic_Addr = [65, 66]\<rparr>, \<lparr>nic_Type = 0, nic_AddrLen = 1, nic_Addr = [67]\<rparr>]"

definition demo_dial :: "string \<Rightarrow> int \<Rightarrow> ((bytes \<times> bytes) \<times> string) result" where
  "demo_dial addr i = Inr ((HelloAckPacket_enc demo_ack, []), addr)"

theorem connect_opens_the_awaited_paths_witness:
  "(\<exists>s. Connect default_Conf (answering 100) demo_dial (CreateSessionManager [''x'']) ''AB'' = Inr s \<and>
      sess_inv s \<and> SessionID s = 7 \<and> numPath s = 2) \<and>
   Connect default_Conf (answering 1) demo_dial (CreateSessionManager [''x'']) ''AB'' = Inl SliceOutOfRange"
proof -
  let ?m = "CreateSessionManager [''x''] :: (bytes \<times> bytes) SessionManager"
  let ?srv = "CreateSessionManager [''x'', ''y''] :: (bytes \<times> bytes) SessionManager"
  let ?e = "HelloAckPacket_enc demo_ack"
  have ack: "ack_fits default_Conf demo_ack" "hack_SessionID demo_ack \<noteq> 0" "unat (hack_NumPath demo_ack) \<in> {1, 2}"
    "length (m_listenAddrList ?m) \<in> {1, 2}" "2 \<le> length (CONFIG_USER_WRR_WEIGHT default_Conf)"
    "m_numPath ?srv = int (unat (hack_NumPath demo_ack))" by code_simp+
  have val: "numberOfWaits ?srv (of_nat (length (m_listenAddrList ?m))) = 2" "hack_SessionID demo_ack = 7"
    "length ?e = 15" by code_simp+
  have sent: "hello_sent default_Conf (answering k) sid n (?e, []) = (?e, HelloPacket_enc (CreateHelloPacket default_Conf sid n))"
    for k sid n by (simp add: hello_sent_def answering_def)
  have ans: "\<exists>st r. demo_dial addr i = Inr (st, r) \<and> answers_with default_Conf (answering k) fst demo_ack st" for k addr i
    by (simp add: demo_dial_def answers_with_def sent)
  have "read_whole (answering 100) (?e, out) ?e" for out
    using val(3) by (auto simp: read_whole_def answering_def)
  then have whole: "\<forall>addr i st r sid n. demo_dial addr i = Inr (st, r) \<longrightarrow>
      read_whole (answering 100) (hello_sent default_Conf (answering 100) sid n st) ?e" by (simp add: demo_dial_def sent)
  have "?e \<noteq> []" using val(3) by auto
  then have one: "length (fst (q_Read (answering 1) (?e, out) 3)) = 1" for out
    by (cases ?e) (simp_all add: answering_def)
  then have cut: "header_cut (answering 1) (?e, out)" for out by (simp add: header_cut_def)
  have d: "demo_dial ''AB'' 0 = Inr ((?e, []), ''AB'')" by (simp add: demo_dial_def)
  show ?thesis
    using connect_opens_the_awaited_paths [where dial = demo_dial and addr = "''AB''", OF answering_reliable [of 100] ans ack] whole
      connect_opens_the_awaited_paths [where dial = demo_dial and addr = "''AB''", OF answering_reliable [of 1] ans ack] d sent one cut val
    by simp
qed

text \<open>C9. With at most two configured weights, the sessions that a server sets up stay well formed: starting from a new session
  manager, every sequence of accepted connections that does not panic leaves all its sessions set up, with one scheduler
  entry and one send queue for every path and the two mutexes for its one or two paths, and all its references valid.
  (With more weights a session can get a third path, which has no mutex.)\<close>

theorem accept_keeps_sessions_ready:
  assumes "foldE (\<lambda>(rnd, stream, remoteAddr) m. accept_round conf q rnd m stream remoteAddr) conns
             (CreateSessionManager addrs) = Inr m"
    and "length (CONFIG_USER_WRR_WEIGHT conf) \<le> 2"
  shows "sm_inv conf m"
  using assms(1)
  by (rule foldE_invariant [where I = "sm_inv conf", rotated 2])
     (use accept_round_inv assms(2) CreateSessionManager_inv in \<open>fastforce+\<close>)

theorem accept_keeps_sessions_ready_witness:
  "\<exists>m. foldE (\<lambda>(rnd, stream, remoteAddr) m. accept_round default_Conf pipe rnd m stream remoteAddr)
       [(7, HelloPacket_enc (CreateHelloPacket default_Conf 0 1), ''x''),
        (8, HelloPacket_enc (CreateHelloPacket default_Conf 7 1), ''y'')]
       (CreateSessionManager [''p'', ''q'']) = Inr m \<and> sm_inv default_Conf m \<and> map numPath (m_sessions m) = [2]"
proof -
  let ?r = "foldE (\<lambda>(rnd, stream, remoteAddr) m. accept_round default_Conf pipe rnd m stream remoteAddr)
       [(7, HelloPacket_enc (CreateHelloPacket default_Conf 0 1), ''x''),
        (8, HelloPacket_enc (CreateHelloPacket default_Conf 7 1), ''y'')] (CreateSessionManager [''p'', ''q''])"
  have "bindE ?r (\<lambda>m. Inr (map numPath (m_sessions m))) = Inr [2]" by code_simp
  then obtain m where m: "?r = Inr m" "map numPath (m_sessions m) = [2]" by (cases ?r) auto
  moreover have "length (CONFIG_USER_WRR_WEIGHT default_Conf) \<le> 2" by code_simp
  ultimately show ?thesis using accept_keeps_sessions_ready [OF m(1)] by auto
qed

text \<open>C10. A hello ACK packet carries the server's addresses to the client: for at most 255 addresses of at most 253
  characters, the bytes that the server writes have the length that the packet states, and the client's parser gets
  back the packet, with the same addresses, and leaves the bytes behind it.\<close>

theorem hello_ack_carries_addresses:
  assumes "p = CreateHelloAckPacket conf sid (getNicInfo s)" and "length (listenAddrList s) < 2 ^ 8"
    and "\<forall>a \<in> set (listenAddrList s). length a + 2 < 2 ^ 8" and "length (HelloAckPacket_enc p) < 2 ^ 16"
  shows "\<exists>b. HelloAckPacket_Write p [] = Inr b \<and> unat (hack_Length p) = length b \<and>
    ParseHelloAckPacket (b @ r) = Inr (p, r) \<and>
    map (\<lambda>nic. map char_of_byte (nic_Addr nic)) (hack_NicInfos p) = listenAddrList s"
  using hello_ack_ok [OF assms] hack.Write_enc [of p "[]"] hack.Parse_enc [of p r] by auto

theorem hello_ack_carries_addresses_witness:
  "\<exists>b. HelloAckPacket_Write (CreateHelloAckPacket default_Conf 7
       (getNicInfo (CreateSession default_Conf 7 [''10.0.0.1:5'', ''b''] :: bytes Session))) [] = Inr b \<and> length b = 23"
proof -
  let ?s = "CreateSession default_Conf 7 [''10.0.0.1:5'', ''b''] :: bytes Session"
  let ?p = "CreateHelloAckPacket default_Conf 7 (getNicInfo ?s)"
  have "listenAddrList ?s = [''10.0.0.1:5'', ''b'']" by (simp add: CreateSession_def)
  moreover have "length (HelloAckPacket_enc ?p) = 23" "unat (hack_Length ?p) = 23" by code_simp+
  ultimately show ?thesis using hello_ack_carries_addresses [of ?p default_Conf 7 ?s] by auto
qed

text \<open>C11. A third path does not work: \<^verbatim>\<open>AddStream\<close> of an accepted connection on a session with two paths panics when
  there are two configured weights; with more weights it adds the path, with its queue, and the scheduler uses all three, but
  a packet sent on the third path panics, since there are only two mutexes.\<close>

theorem third_path_panics:
  assumes "sess_inv s" and "numPath s = 2"
  shows "if length (weight (scheduler s)) = 2 then AddStream s st addr True = Inl IndexOutOfRange
    else \<exists>s'. AddStream s st addr True = Inr (2, s') \<and> numPath s' = 3 \<and> length (sendBuffer s') = 3 \<and>
      usePath (scheduler s') = 3 \<and> sendDataPacket conf s' payload 2 = Inl IndexOutOfRange"
proof -
  have inv: "sched_inv (scheduler s)" "2 \<le> length (weight (scheduler s))" using assms by (auto simp: sess_inv_def sched_inv_def)
  show ?thesis
  proof (cases "length (weight (scheduler s)) = 2")
    case True
    with SetNumPath_too_many [OF inv(1), of 3] assms show ?thesis by (simp add: AddStream_def Let_def)
  next
    case False
    with inv(2) have "3 \<le> length (weight (scheduler s))" by simp
    from third_path [OF assms this, of st addr] False show ?thesis by auto
  qed
qed

theorem third_path_panics_witness:
  "AddStream demo_session [] ''c'' True = Inl IndexOutOfRange \<and>
   (\<exists>s'. AddStream (demo_session\<lparr>scheduler := (scheduler demo_session)\<lparr>weight := [5, 2, 1]\<rparr>\<rparr>) [] ''c'' True = Inr (2, s') \<and>
      sendDataPacket default_Conf s' [1] 2 = Inl IndexOutOfRange)"
  using third_path_panics [of demo_session "[]" "''c''"]
    third_path_panics [of "demo_session\<lparr>scheduler := (scheduler demo_session)\<lparr>weight := [5, 2, 1]\<rparr>\<rparr>" "[]" "''c''" default_Conf "[1]"]
  by (auto simp: demo_session_def sess_inv_def sched_inv_def)

section \<open>Writing from two goroutines\<close>

text \<open>C40. Two calls of \<^verbatim>\<open>Write\<close> that overlap lose data.  On any session that is set up, two goroutines that each send a packet may
  interleave so that both packets get the sequence number that was next and the number after it is never used.  A receiver
  that expects that number then delivers the payload of the one that arrives first, and whatever else arrives, in
  whatever order and number, it never delivers the other one or anything sent later.\<close>

theorem overlapping_writes_lose_data:
  assumes "sess_inv s"
  shows "\<exists>s' px py. (writers_step conf)\<^sup>*\<^sup>* (s, [Sending [x], Sending [y]]) (s', [Sending [], Sending []]) \<and>
    data_Payload px = x \<and> data_Payload py = y \<and>
    set (concat (sendBuffer s')) = {px, py} \<union> set (concat (sendBuffer s)) \<and>
    data_SeqNumber px = sequenceNumber s \<and> data_SeqNumber py = sequenceNumber s \<and> sequenceNumber s' = sequenceNumber s + 2 \<and>
    (\<forall>b ps. expectedSeqNumber b = sequenceNumber s \<and> reorderBuffer b (sequenceNumber s + 1) = None \<and> (px \<in> set ps \<or> py \<in> set ps) \<and>
       (\<forall>p \<in> set ps. p \<in> {px, py} \<or> data_SeqNumber p \<notin> {sequenceNumber s, sequenceNumber s + 1}) \<longrightarrow>
       readBuffer (foldl PushPacket b ps) \<in> {readBuffer b @ x, readBuffer b @ y})"
proof -
  from overlapping_calls [OF assms, of conf x "[]" y "[]"] obtain s' p p' where
    r: "(writers_step conf)\<^sup>*\<^sup>* (s, [Sending [x], Sending [y]]) (s', [Sending [], Sending []])"
      "set (concat (sendBuffer s')) = {CreateDataPacket conf (SessionID s) p (sequenceNumber s) x,
         CreateDataPacket conf (SessionID s) p' (sequenceNumber s) y} \<union> set (concat (sendBuffer s))"
      "sequenceNumber s' = sequenceNumber s + 2" by blast
  define px where "px = CreateDataPacket conf (SessionID s) p (sequenceNumber s) x"
  define py where "py = CreateDataPacket conf (SessionID s) p' (sequenceNumber s) y"
  have xy: "data_Payload px = x" "data_SeqNumber px = sequenceNumber s" "data_Payload py = y" "data_SeqNumber py = sequenceNumber s"
    by (simp_all add: px_def py_def CreateDataPacket_def)
  have stuck: "readBuffer (foldl PushPacket b ps) \<in> {readBuffer b @ x, readBuffer b @ y}"
    if b: "expectedSeqNumber b = sequenceNumber s" "reorderBuffer b (sequenceNumber s + 1) = None" "px \<in> set ps \<or> py \<in> set ps"
      "\<forall>p \<in> set ps. p \<in> {px, py} \<or> data_SeqNumber p \<notin> {sequenceNumber s, sequenceNumber s + 1}" for b ps
  proof -
    have hole: "\<forall>p \<in> set ps. data_SeqNumber p \<noteq> expectedSeqNumber b + 1" using b(1,4) xy by auto
    obtain p0 where "p0 \<in> set ps" "data_SeqNumber p0 = expectedSeqNumber b" using b(1,3) xy by auto
    from push_before_hole [OF this _ hole] b(1,2) obtain p1 where
      "p1 \<in> set ps" "data_SeqNumber p1 = sequenceNumber s" "readBuffer (foldl PushPacket b ps) = readBuffer b @ data_Payload p1" by auto
    then show ?thesis using b(4) xy by auto
  qed
  show ?thesis
    using r xy stuck unfolding px_def [symmetric] py_def [symmetric] by (intro exI [of _ s'] exI [of _ px] exI [of _ py]) blast
qed

theorem overlapping_writes_lose_data_witness:
  "\<exists>s' px py. (writers_step default_Conf)\<^sup>*\<^sup>* (demo_session, [Sending [[1, 2]], Sending [[3]]]) (s', [Sending [], Sending []]) \<and>
     set (concat (sendBuffer s')) = {px, py} \<and> sequenceNumber s' = 2 \<and>
     readBuffer (foldl PushPacket CreateRecvBuffer [px, py, CreateDataPacket default_Conf 7 0 2 [4]]) \<in> {[1, 2], [3]}"
proof -
  have "sess_inv demo_session" by (simp add: demo_session_def sess_inv_def sched_inv_def)
  from overlapping_writes_lose_data [OF this, of default_Conf "[1, 2]" "[3]"] obtain s' px py where
    r: "(writers_step default_Conf)\<^sup>*\<^sup>* (demo_session, [Sending [[1, 2]], Sending [[3]]]) (s', [Sending [], Sending []])"
      "set (concat (sendBuffer s')) = {px, py} \<union> set (concat (sendBuffer demo_session))"
      "sequenceNumber s' = sequenceNumber demo_session + 2"
      "\<forall>b ps. expectedSeqNumber b = sequenceNumber demo_session \<and> reorderBuffer b (sequenceNumber demo_session + 1) = None \<and>
         (px \<in> set ps \<or> py \<in> set ps) \<and>
         (\<forall>p \<in> set ps. p \<in> {px, py} \<or> data_SeqNumber p \<notin> {sequenceNumber demo_session, sequenceNumber demo_session + 1}) \<longrightarrow>
         readBuffer (foldl PushPacket b ps) \<in> {readBuffer b @ [1, 2], readBuffer b @ [3]}" by blast
  have d: "sequenceNumber demo_session = 0" "set (concat (sendBuffer demo_session)) = {}" by (simp_all add: demo_session_def)
  have "readBuffer (foldl PushPacket CreateRecvBuffer [px, py, CreateDataPacket default_Conf 7 0 2 [4]]) \<in>
      {readBuffer CreateRecvBuffer @ [1, 2], readBuffer CreateRecvBuffer @ [3]}"
    by (rule r(4) [rule_format]) (simp add: d CreateRecvBuffer_def CreateDataPacket_def)
  moreover have "set (concat (sendBuffer s')) = {px, py}" "sequenceNumber s' = 2" using r(2,3) unfolding d by simp_all
  moreover have "readBuffer CreateRecvBuffer = []" by (simp add: CreateRecvBuffer_def)
  ultimately show ?thesis using r(1) by (metis append_Nil)
qed

end
