(* ===== verification/Mp2_Packets.thy ===== *)
theory Mp2_Packets
  imports Packet_Codec Mp2bs_Config
begin

text \<open>
  The packets of the block protocol (\<^verbatim>\<open>mp2bs-main/mp2session/*_packet.go\<close>): record, \<^verbatim>\<open>Create\<close>, \<^verbatim>\<open>Parse\<close>
  and \<^verbatim>\<open>Write\<close> of each, and an interpretation of the codec contract on them.  Packets of fixed
  size are parsed exactly; block data and control packets carry a payload whose size is
  computed from the length field in 16 bits, so they are parsed back only when that field is
  right.
\<close>

section \<open>Block find packets\<close>

definition BLOCK_FIND_PACKET_HEADER_LEN :: u16 where "BLOCK_FIND_PACKET_HEADER_LEN = 7"

record BlockFindPacket =
  bfind_Type :: u8
  bfind_Length :: u16
  bfind_BlockNumber :: u32

definition CreateBlockFindPacket :: "u32 \<Rightarrow> BlockFindPacket" where
  "CreateBlockFindPacket blockNumber =
     \<lparr>bfind_Type = BLOCK_FIND_PACKET, bfind_Length = BLOCK_FIND_PACKET_HEADER_LEN,
      bfind_BlockNumber = blockNumber\<rparr>"

definition ParseBlockFindPacket :: "BlockFindPacket reader" where
  "ParseBlockFindPacket r =
     bindE (ReadByte r) (\<lambda>(packetType, r).
     bindE (ReadUint16 r) (\<lambda>(packetLength, r).
     bindE (ReadUint32 r) (\<lambda>(blockNumber, r).
     Inr (\<lparr>bfind_Type = packetType, bfind_Length = packetLength,
           bfind_BlockNumber = blockNumber\<rparr>, r))))"

definition BlockFindPacket_Write :: "BlockFindPacket \<Rightarrow> bytes \<Rightarrow> bytes result" where
  "BlockFindPacket_Write p b =
     (let b = WriteByte b (bfind_Type p);
          b = WriteUint16 b (bfind_Length p);
          b = WriteUint32 b (bfind_BlockNumber p)
      in Inr b)"

definition BlockFindPacket_enc :: "BlockFindPacket \<Rightarrow> bytes" where
  "BlockFindPacket_enc p =
     bfind_Type p # WriteUint16 [] (bfind_Length p) @
     WriteUint32 [] (bfind_BlockNumber p)"

lemmas bfind_defs = ParseBlockFindPacket_def BlockFindPacket_Write_def BlockFindPacket_enc_def

interpretation bfind: exact_codec ParseBlockFindPacket BlockFindPacket_Write BlockFindPacket_enc
  "\<lambda>_. True" bfind_Type bfind_Length
  by unfold_locales (auto simp: bfind_defs Let_def codec reader_inversion)

section \<open>Block info packets\<close>

definition BLOCK_INFO_PACKET_HEADER_LEN :: u16 where "BLOCK_INFO_PACKET_HEADER_LEN = 15"

record BlockInfoPacket =
  binfo_Type :: u8
  binfo_Length :: u16
  binfo_BlockNumber :: u32
  binfo_Status :: u32
  binfo_BlockSize :: u32

definition CreateBlockInfoPacket :: "u32 \<Rightarrow> u32 \<Rightarrow> u32 \<Rightarrow> BlockInfoPacket" where
  "CreateBlockInfoPacket blockNumber status blockSize =
     \<lparr>binfo_Type = BLOCK_INFO_PACKET, binfo_Length = BLOCK_INFO_PACKET_HEADER_LEN,
      binfo_BlockNumber = blockNumber,
      binfo_Status = status,
      binfo_BlockSize = blockSize\<rparr>"

definition ParseBlockInfoPacket :: "BlockInfoPacket reader" where
  "ParseBlockInfoPacket r =
     bindE (ReadByte r) (\<lambda>(packetType, r).
     bindE (ReadUint16 r) (\<lambda>(packetLength, r).
     bindE (ReadUint32 r) (\<lambda>(blockNumber, r).
     bindE (ReadUint32 r) (\<lambda>(status, r).
     bindE (ReadUint32 r) (\<lambda>(blockSize, r).
     Inr (\<lparr>binfo_Type = packetType, binfo_Length = packetLength,
           binfo_BlockNumber = blockNumber,
           binfo_Status = status,
           binfo_BlockSize = blockSize\<rparr>, r))))))"

definition BlockInfoPacket_Write :: "BlockInfoPacket \<Rightarrow> bytes \<Rightarrow> bytes result" where
  "BlockInfoPacket_Write p b =
     (let b = WriteByte b (binfo_Type p);
          b = WriteUint16 b (binfo_Length p);
          b = WriteUint32 b (binfo_BlockNumber p);
          b = WriteUint32 b (binfo_Status p);
          b = WriteUint32 b (binfo_BlockSize p)
      in Inr b)"

definition BlockInfoPacket_enc :: "BlockInfoPacket \<Rightarrow> bytes" where
  "BlockInfoPacket_enc p =
     binfo_Type p # WriteUint16 [] (binfo_Length p) @
     WriteUint32 [] (binfo_BlockNumber p) @
     WriteUint32 [] (binfo_Status p) @
     WriteUint32 [] (binfo_BlockSize p)"

lemmas binfo_defs = ParseBlockInfoPacket_def BlockInfoPacket_Write_def BlockInfoPacket_enc_def

interpretation binfo: exact_codec ParseBlockInfoPacket BlockInfoPacket_Write BlockInfoPacket_enc
  "\<lambda>_. True" binfo_Type binfo_Length
  by unfold_locales (auto simp: binfo_defs Let_def codec reader_inversion)

section \<open>Block request packets\<close>

definition BLOCK_REQUEST_PACKET_HEADER_LEN :: u16 where "BLOCK_REQUEST_PACKET_HEADER_LEN = 16"

record BlockRequestPacket =
  breq_Type :: u8
  breq_Length :: u16
  breq_BlockNumber :: u32
  breq_StartDataNumber :: u32
  breq_EndDataNumber :: u32
  breq_FecIndex :: u8

definition CreateBlockRequestPacket :: "u32 \<Rightarrow> u32 \<Rightarrow> u32 \<Rightarrow> u8 \<Rightarrow> BlockRequestPacket" where
  "CreateBlockRequestPacket blockNumber startDataNumber endDataNumber fecIndex =
     \<lparr>breq_Type = BLOCK_REQUEST_PACKET, breq_Length = BLOCK_REQUEST_PACKET_HEADER_LEN,
      breq_BlockNumber = blockNumber,
      breq_StartDataNumber = startDataNumber,
      breq_EndDataNumber = endDataNumber,
      breq_FecIndex = fecIndex\<rparr>"

definition ParseBlockRequestPacket :: "BlockRequestPacket reader" where
  "ParseBlockRequestPacket r =
     bindE (ReadByte r) (\<lambda>(packetType, r).
     bindE (ReadUint16 r) (\<lambda>(packetLength, r).
     bindE (ReadUint32 r) (\<lambda>(blockNumber, r).
     bindE (ReadUint32 r) (\<lambda>(startDataNumber, r).
     bindE (ReadUint32 r) (\<lambda>(endDataNumber, r).
     bindE (ReadByte r) (\<lambda>(fecIndex, r).
     Inr (\<lparr>breq_Type = packetType, breq_Length = packetLength,
           breq_BlockNumber = blockNumber,
           breq_StartDataNumber = startDataNumber,
           breq_EndDataNumber = endDataNumber,
           breq_FecIndex = fecIndex\<rparr>, r)))))))"

definition BlockRequestPacket_Write :: "BlockRequestPacket \<Rightarrow> bytes \<Rightarrow> bytes result" where
  "BlockRequestPacket_Write p b =
     (let b = WriteByte b (breq_Type p);
          b = WriteUint16 b (breq_Length p);
          b = WriteUint32 b (breq_BlockNumber p);
          b = WriteUint32 b (breq_StartDataNumber p);
          b = WriteUint32 b (breq_EndDataNumber p);
          b = WriteByte b (breq_FecIndex p)
      in Inr b)"

definition BlockRequestPacket_enc :: "BlockRequestPacket \<Rightarrow> bytes" where
  "BlockRequestPacket_enc p =
     breq_Type p # WriteUint16 [] (breq_Length p) @
     WriteUint32 [] (breq_BlockNumber p) @
     WriteUint32 [] (breq_StartDataNumber p) @
     WriteUint32 [] (breq_EndDataNumber p) @ [breq_FecIndex p]"

lemmas breq_defs = ParseBlockRequestPacket_def BlockRequestPacket_Write_def BlockRequestPacket_enc_def

interpretation breq: exact_codec ParseBlockRequestPacket BlockRequestPacket_Write BlockRequestPacket_enc
  "\<lambda>_. True" breq_Type breq_Length
  by unfold_locales (auto simp: breq_defs Let_def codec reader_inversion)

section \<open>Block data ACK packets\<close>

definition BLOCK_DATA_ACK_PACKET_HEADER_LEN :: u16 where "BLOCK_DATA_ACK_PACKET_HEADER_LEN = 11"

record BlockDataAckPacket =
  bdack_Type :: u8
  bdack_Length :: u16
  bdack_BlockNumber :: u32
  bdack_LastDataNumber :: u32

definition CreateBlockDataAckPacket :: "u32 \<Rightarrow> u32 \<Rightarrow> BlockDataAckPacket" where
  "CreateBlockDataAckPacket blockNumber lastDataNumber =
     \<lparr>bdack_Type = BLOCK_DATA_ACK_PACKET, bdack_Length = BLOCK_DATA_ACK_PACKET_HEADER_LEN,
      bdack_BlockNumber = blockNumber,
      bdack_LastDataNumber = lastDataNumber\<rparr>"

definition ParseBlockDataAckPacket :: "BlockDataAckPacket reader" where
  "ParseBlockDataAckPacket r =
     bindE (ReadByte r) (\<lambda>(packetType, r).
     bindE (ReadUint16 r) (\<lambda>(packetLength, r).
     bindE (ReadUint32 r) (\<lambda>(blockNumber, r).
     bindE (ReadUint32 r) (\<lambda>(lastDataNumber, r).
     Inr (\<lparr>bdack_Type = packetType, bdack_Length = packetLength,
           bdack_BlockNumber = blockNumber,
           bdack_LastDataNumber = lastDataNumber\<rparr>, r)))))"

definition BlockDataAckPacket_Write :: "BlockDataAckPacket \<Rightarrow> bytes \<Rightarrow> bytes result" where
  "BlockDataAckPacket_Write p b =
     (let b = WriteByte b (bdack_Type p);
          b = WriteUint16 b (bdack_Length p);
          b = WriteUint32 b (bdack_BlockNumber p);
          b = WriteUint32 b (bdack_LastDataNumber p)
      in Inr b)"

definition BlockDataAckPacket_enc :: "BlockDataAckPacket \<Rightarrow> bytes" where
  "BlockDataAckPacket_enc p =
     bdack_Type p # WriteUint16 [] (bdack_Length p) @
     WriteUint32 [] (bdack_BlockNumber p) @
     WriteUint32 [] (bdack_LastDataNumber p)"

lemmas bdack_defs = ParseBlockDataAckPacket_def BlockDataAckPacket_Write_def BlockDataAckPacket_enc_def

interpretation bdack: exact_codec ParseBlockDataAckPacket BlockDataAckPacket_Write BlockDataAckPacket_enc
  "\<lambda>_. True" bdack_Type bdack_Length
  by unfold_locales (auto simp: bdack_defs Let_def codec reader_inversion)

section \<open>Block FIN packets\<close>

definition BLOCK_FIN_PACKET_HEADER_LEN :: u16 where "BLOCK_FIN_PACKET_HEADER_LEN = 11"

record BlockFinPacket =
  bfin_Type :: u8
  bfin_Length :: u16
  bfin_SessionID :: u32
  bfin_BlockNumber :: u32

definition CreateBlockFinPacket :: "u32 \<Rightarrow> u32 \<Rightarrow> BlockFinPacket" where
  "CreateBlockFinPacket sessionID blockNumber =
     \<lparr>bfin_Type = BLOCK_FIN_PACKET, bfin_Length = BLOCK_FIN_PACKET_HEADER_LEN,
      bfin_SessionID = sessionID,
      bfin_BlockNumber = blockNumber\<rparr>"

definition ParseBlockFinPacket :: "BlockFinPacket reader" where
  "ParseBlockFinPacket r =
     bindE (ReadByte r) (\<lambda>(packetType, r).
     bindE (ReadUint16 r) (\<lambda>(packetLength, r).
     bindE (ReadUint32 r) (\<lambda>(sessionID, r).
     bindE (ReadUint32 r) (\<lambda>(blockNumber, r).
     Inr (\<lparr>bfin_Type = packetType, bfin_Length = packetLength,
           bfin_SessionID = sessionID,
           bfin_BlockNumber = blockNumber\<rparr>, r)))))"

definition BlockFinPacket_Write :: "BlockFinPacket \<Rightarrow> bytes \<Rightarrow> bytes result" where
  "BlockFinPacket_Write p b =
     (let b = WriteByte b (bfin_Type p);
          b = WriteUint16 b (bfin_Length p);
          b = WriteUint32 b (bfin_SessionID p);
          b = WriteUint32 b (bfin_BlockNumber p)
      in Inr b)"

definition BlockFinPacket_enc :: "BlockFinPacket \<Rightarrow> bytes" where
  "BlockFinPacket_enc p =
     bfin_Type p # WriteUint16 [] (bfin_Length p) @
     WriteUint32 [] (bfin_SessionID p) @
     WriteUint32 [] (bfin_BlockNumber p)"

lemmas bfin_defs = ParseBlockFinPacket_def BlockFinPacket_Write_def BlockFinPacket_enc_def

interpretation bfin: exact_codec ParseBlockFinPacket BlockFinPacket_Write BlockFinPacket_enc
  "\<lambda>_. True" bfin_Type bfin_Length
  by unfold_locales (auto simp: bfin_defs Let_def codec reader_inversion)

section \<open>Node info ACK packets\<close>

definition NODE_INFO_ACK_PACKET_HEADER_LEN :: u16 where "NODE_INFO_ACK_PACKET_HEADER_LEN = 5"

record NodeInfoAckPacket =
  niack_Type :: u8
  niack_Length :: u16
  niack_NumOfInfo :: u16

definition CreateNodeInfoAckPacket :: "u16 \<Rightarrow> NodeInfoAckPacket" where
  "CreateNodeInfoAckPacket numOfInfo =
     \<lparr>niack_Type = NODE_INFO_ACK_PACKET, niack_Length = NODE_INFO_ACK_PACKET_HEADER_LEN,
      niack_NumOfInfo = numOfInfo\<rparr>"

definition ParseNodeInfoAckPacket :: "NodeInfoAckPacket reader" where
  "ParseNodeInfoAckPacket r =
     bindE (ReadByte r) (\<lambda>(packetType, r).
     bindE (ReadUint16 r) (\<lambda>(packetLength, r).
     bindE (ReadUint16 r) (\<lambda>(numOfInfo, r).
     Inr (\<lparr>niack_Type = packetType, niack_Length = packetLength,
           niack_NumOfInfo = numOfInfo\<rparr>, r))))"

definition NodeInfoAckPacket_Write :: "NodeInfoAckPacket \<Rightarrow> bytes \<Rightarrow> bytes result" where
  "NodeInfoAckPacket_Write p b =
     (let b = WriteByte b (niack_Type p);
          b = WriteUint16 b (niack_Length p);
          b = WriteUint16 b (niack_NumOfInfo p)
      in Inr b)"

definition NodeInfoAckPacket_enc :: "NodeInfoAckPacket \<Rightarrow> bytes" where
  "NodeInfoAckPacket_enc p =
     niack_Type p # WriteUint16 [] (niack_Length p) @
     WriteUint16 [] (niack_NumOfInfo p)"

lemmas niack_defs = ParseNodeInfoAckPacket_def NodeInfoAckPacket_Write_def NodeInfoAckPacket_enc_def

interpretation niack: exact_codec ParseNodeInfoAckPacket NodeInfoAckPacket_Write NodeInfoAckPacket_enc
  "\<lambda>_. True" niack_Type niack_Length
  by unfold_locales (auto simp: niack_defs Let_def codec reader_inversion)

section \<open>Block data packets\<close>

definition BLOCK_DATA_PACKET_HEADER_LEN :: u16 where "BLOCK_DATA_PACKET_HEADER_LEN = 16"

record BlockDataPacket =
  bdata_Type :: u8
  bdata_Length :: u16
  bdata_BlockNumber :: u32
  bdata_DataNumber :: u32
  bdata_SessionID :: u32
  bdata_Redundant :: u8
  bdata_Data :: bytes

text \<open>The check for oversized data looks at the length after its truncation to 16 bits.\<close>

definition CreateBlockDataPacket :: "u32 \<Rightarrow> u32 \<Rightarrow> u32 \<Rightarrow> u8 \<Rightarrow> bytes \<Rightarrow> BlockDataPacket result" where
  "CreateBlockDataPacket blockNumber dataNumber sessionID redundant data =
     (let len = of_nat (unat BLOCK_DATA_PACKET_HEADER_LEN + length data) :: u16 in
      if len > BLOCK_DATA_PACKET_HEADER_LEN + of_nat PAYLOAD_SIZE
      then Inl (Panic ''packet length is larger than maximum size!'')
      else Inr \<lparr>bdata_Type = BLOCK_DATA_PACKET, bdata_Length = len,
                bdata_BlockNumber = blockNumber, bdata_DataNumber = dataNumber,
                bdata_SessionID = sessionID, bdata_Redundant = redundant,
                bdata_Data = go_copy (replicate (length data) 0) data\<rparr>)"

definition ParseBlockDataPacket :: "BlockDataPacket reader" where
  "ParseBlockDataPacket r =
     bindE (ReadByte r) (\<lambda>(packetType, r).
     bindE (ReadUint16 r) (\<lambda>(packetLength, r).
     bindE (ReadUint32 r) (\<lambda>(blockNumber, r).
     bindE (ReadUint32 r) (\<lambda>(dataNumber, r).
     bindE (ReadUint32 r) (\<lambda>(sessionID, r).
     bindE (ReadByte r) (\<lambda>(redundant, r).
     let (data, r) = ReadInto (unat (packetLength - BLOCK_DATA_PACKET_HEADER_LEN)) r
     in Inr (\<lparr>bdata_Type = packetType, bdata_Length = packetLength,
              bdata_BlockNumber = blockNumber, bdata_DataNumber = dataNumber,
              bdata_SessionID = sessionID, bdata_Redundant = redundant,
              bdata_Data = data\<rparr>, r)))))))"

definition BlockDataPacket_Write :: "BlockDataPacket \<Rightarrow> bytes \<Rightarrow> bytes result" where
  "BlockDataPacket_Write p b =
     (let b = WriteByte b (bdata_Type p);
          b = WriteUint16 b (bdata_Length p);
          b = WriteUint32 b (bdata_BlockNumber p);
          b = WriteUint32 b (bdata_DataNumber p);
          b = WriteUint32 b (bdata_SessionID p);
          b = WriteByte b (bdata_Redundant p);
          b = WriteBytes b (bdata_Data p)
      in Inr b)"

definition BlockDataPacket_enc :: "BlockDataPacket \<Rightarrow> bytes" where
  "BlockDataPacket_enc p =
     bdata_Type p # WriteUint16 [] (bdata_Length p) @ WriteUint32 [] (bdata_BlockNumber p) @
     WriteUint32 [] (bdata_DataNumber p) @ WriteUint32 [] (bdata_SessionID p) @
     bdata_Redundant p # bdata_Data p"

definition BlockDataPacket_valid :: "BlockDataPacket \<Rightarrow> bool" where
  "BlockDataPacket_valid p \<longleftrightarrow> unat (bdata_Length p) = 16 + length (bdata_Data p)"

lemmas bdata_defs = ParseBlockDataPacket_def BlockDataPacket_Write_def BlockDataPacket_enc_def

lemma BlockDataPacket_valid_data:
  assumes "BlockDataPacket_valid p"
  shows "unat (bdata_Length p - BLOCK_DATA_PACKET_HEADER_LEN) = length (bdata_Data p)"
  using assms by (intro payload_length) (simp_all add: BlockDataPacket_valid_def BLOCK_DATA_PACKET_HEADER_LEN_def)

interpretation bdata: framed_codec ParseBlockDataPacket BlockDataPacket_Write BlockDataPacket_enc
  BlockDataPacket_valid bdata_Type bdata_Length
  by unfold_locales (auto simp: bdata_defs Let_def codec BlockDataPacket_valid_data)

lemma CreateBlockDataPacket_ok:
  assumes "length data \<le> PAYLOAD_SIZE"
  shows "\<exists>p. CreateBlockDataPacket bn dn sid red data = Inr p \<and> BlockDataPacket_valid p \<and>
    bdata_Type p = BLOCK_DATA_PACKET \<and> bdata_BlockNumber p = bn \<and> bdata_DataNumber p = dn \<and>
    bdata_SessionID p = sid \<and> bdata_Redundant p = red \<and> bdata_Data p = data"
proof -
  have "unat (of_nat (16 + length data) :: u16) = 16 + length data"
    using assms by (intro unat_of_nat_less) (simp add: PAYLOAD_SIZE_def)
  with assms show ?thesis
    by (auto simp: CreateBlockDataPacket_def BlockDataPacket_valid_def BLOCK_DATA_PACKET_HEADER_LEN_def
        PAYLOAD_SIZE_def word_less_nat_alt Let_def simp del: of_nat_add)
qed

text \<open>An oversized payload is refused, unless it is so large that the 16 bit length wraps around.\<close>

lemma CreateBlockDataPacket_oversized:
  assumes "PAYLOAD_SIZE < length data" and "length data < 2 ^ 16 - 16"
  shows "CreateBlockDataPacket bn dn sid red data = Inl (Panic ''packet length is larger than maximum size!'')"
proof -
  have "unat (of_nat (16 + length data) :: u16) = 16 + length data"
    using assms by (intro unat_of_nat_less) simp
  with assms show ?thesis
    by (auto simp: CreateBlockDataPacket_def BLOCK_DATA_PACKET_HEADER_LEN_def
        PAYLOAD_SIZE_def word_less_nat_alt Let_def simp del: of_nat_add)
qed

section \<open>Control packets\<close>

definition CONTROL_PACKET_HEADER_LEN :: u16 where "CONTROL_PACKET_HEADER_LEN = 3"

record ControlPacket =
  ctrl_Type :: u8
  ctrl_Length :: u16
  ctrl_Data :: bytes

definition CreateControlPacket :: "bytes \<Rightarrow> ControlPacket result" where
  "CreateControlPacket data =
     (let len = of_nat (unat CONTROL_PACKET_HEADER_LEN + length data) :: u16 in
      if len > CONTROL_PACKET_HEADER_LEN + of_nat PAYLOAD_SIZE
      then Inl (Panic ''packet length is larger than maximum size!'')
      else Inr \<lparr>ctrl_Type = CONTROL_PACKET, ctrl_Length = len,
                ctrl_Data = go_copy (replicate (length data) 0) data\<rparr>)"

definition ParseControlPacket :: "ControlPacket reader" where
  "ParseControlPacket r =
     bindE (ReadByte r) (\<lambda>(packetType, r).
     bindE (ReadUint16 r) (\<lambda>(packetLength, r).
     let (data, r) = ReadInto (unat (packetLength - CONTROL_PACKET_HEADER_LEN)) r
     in Inr (\<lparr>ctrl_Type = packetType, ctrl_Length = packetLength, ctrl_Data = data\<rparr>, r)))"

definition ControlPacket_Write :: "ControlPacket \<Rightarrow> bytes \<Rightarrow> bytes result" where
  "ControlPacket_Write p b =
     (let b = WriteByte b (ctrl_Type p);
          b = WriteUint16 b (ctrl_Length p);
          b = WriteBytes b (ctrl_Data p)
      in Inr b)"

definition ControlPacket_enc :: "ControlPacket \<Rightarrow> bytes" where
  "ControlPacket_enc p = ctrl_Type p # WriteUint16 [] (ctrl_Length p) @ ctrl_Data p"

definition ControlPacket_valid :: "ControlPacket \<Rightarrow> bool" where
  "ControlPacket_valid p \<longleftrightarrow> unat (ctrl_Length p) = 3 + length (ctrl_Data p)"

lemmas ctrl_defs = ParseControlPacket_def ControlPacket_Write_def ControlPacket_enc_def

lemma ControlPacket_valid_data:
  assumes "ControlPacket_valid p"
  shows "unat (ctrl_Length p - CONTROL_PACKET_HEADER_LEN) = length (ctrl_Data p)"
  using assms by (intro payload_length) (simp_all add: ControlPacket_valid_def CONTROL_PACKET_HEADER_LEN_def)

interpretation ctrl: framed_codec ParseControlPacket ControlPacket_Write ControlPacket_enc
  ControlPacket_valid ctrl_Type ctrl_Length
  by unfold_locales (auto simp: ctrl_defs Let_def codec ControlPacket_valid_data)

lemma CreateControlPacket_ok:
  assumes "length data \<le> PAYLOAD_SIZE"
  shows "\<exists>p. CreateControlPacket data = Inr p \<and> ControlPacket_valid p \<and>
    ctrl_Type p = CONTROL_PACKET \<and> ctrl_Data p = data"
proof -
  have "unat (of_nat (3 + length data) :: u16) = 3 + length data"
    using assms by (intro unat_of_nat_less) (simp add: PAYLOAD_SIZE_def)
  with assms show ?thesis
    by (auto simp: CreateControlPacket_def ControlPacket_valid_def CONTROL_PACKET_HEADER_LEN_def
        PAYLOAD_SIZE_def word_less_nat_alt Let_def simp del: of_nat_add)
qed

section \<open>Node info packets\<close>

definition NODE_INFO_PACKET_HEADER_LEN :: u16 where "NODE_INFO_PACKET_HEADER_LEN = 5"

record NodeInfo =
  NodeIP :: u32
  Port :: u16
  NumOfChilds :: u8
  OffsetOfChild :: u8

record NodeInfoPacket =
  ninfo_Type :: u8
  ninfo_Length :: u16
  ninfo_Reserved :: u16
  ninfo_NodeInfos :: "NodeInfo list"

definition CreateNodeInfoPacket :: "NodeInfo list \<Rightarrow> NodeInfoPacket" where
  "CreateNodeInfoPacket nodeInfos =
     \<lparr>ninfo_Type = NODE_INFO_PACKET,
      ninfo_Length = of_nat (unat NODE_INFO_PACKET_HEADER_LEN + length nodeInfos * 8),
      ninfo_Reserved = 0, ninfo_NodeInfos = nodeInfos\<rparr>"

fun read_nodeInfos :: "nat \<Rightarrow> NodeInfo list reader" where
  "read_nodeInfos 0 r = Inr ([], r)"
| "read_nodeInfos (Suc n) r =
     bindE (ReadUint32 r) (\<lambda>(nodeIP, r).
     bindE (ReadUint16 r) (\<lambda>(port, r).
     bindE (ReadByte r) (\<lambda>(numOfChilds, r).
     bindE (ReadByte r) (\<lambda>(offsetOfChild, r).
     bindE (read_nodeInfos n r) (\<lambda>(infos, r).
     Inr (\<lparr>NodeIP = nodeIP, Port = port, NumOfChilds = numOfChilds,
           OffsetOfChild = offsetOfChild\<rparr> # infos, r))))))"

definition ParseNodeInfoPacket :: "NodeInfoPacket reader" where
  "ParseNodeInfoPacket r =
     bindE (ReadByte r) (\<lambda>(packetType, r).
     bindE (ReadUint16 r) (\<lambda>(packetLength, r).
     bindE (ReadUint16 r) (\<lambda>(packetReserved, r).
     let nodeInfosLen = (packetLength - NODE_INFO_PACKET_HEADER_LEN) div 8 in
     bindE (read_nodeInfos (unat nodeInfosLen) r) (\<lambda>(nodeInfos, r).
     Inr (\<lparr>ninfo_Type = packetType, ninfo_Length = packetLength,
           ninfo_Reserved = packetReserved, ninfo_NodeInfos = nodeInfos\<rparr>, r)))))"

definition write_nodeInfo :: "NodeInfo \<Rightarrow> bytes \<Rightarrow> bytes" where
  "write_nodeInfo info b =
     (let b = WriteUint32 b (NodeIP info);
          b = WriteUint16 b (Port info);
          b = WriteByte b (NumOfChilds info);
          b = WriteByte b (OffsetOfChild info)
      in b)"

definition NodeInfoPacket_Write :: "NodeInfoPacket \<Rightarrow> bytes \<Rightarrow> bytes result" where
  "NodeInfoPacket_Write p b =
     (let b = WriteByte b (ninfo_Type p);
          b = WriteUint16 b (ninfo_Length p);
          b = WriteUint16 b (ninfo_Reserved p)
      in Inr (fold write_nodeInfo (ninfo_NodeInfos p) b))"

definition NodeInfo_enc :: "NodeInfo \<Rightarrow> bytes" where
  "NodeInfo_enc info = WriteUint32 [] (NodeIP info) @ WriteUint16 [] (Port info) @
     [NumOfChilds info, OffsetOfChild info]"

definition NodeInfoPacket_enc :: "NodeInfoPacket \<Rightarrow> bytes" where
  "NodeInfoPacket_enc p =
     ninfo_Type p # WriteUint16 [] (ninfo_Length p) @ WriteUint16 [] (ninfo_Reserved p) @
     concat (map NodeInfo_enc (ninfo_NodeInfos p))"

text \<open>The number of entries is the one the parser computes from the length field.\<close>

definition NodeInfoPacket_valid :: "NodeInfoPacket \<Rightarrow> bool" where
  "NodeInfoPacket_valid p \<longleftrightarrow>
     unat ((ninfo_Length p - NODE_INFO_PACKET_HEADER_LEN) div 8) = length (ninfo_NodeInfos p)"

lemma read_nodeInfos_enc:
  "length infos = n \<Longrightarrow> read_nodeInfos n (concat (map NodeInfo_enc infos) @ r) = Inr (infos, r)"
  by (induction n arbitrary: infos) (auto simp: length_Suc_conv NodeInfo_enc_def codec)

lemma read_nodeInfos_eq_Inr_iff:
  "read_nodeInfos n r = Inr (infos, r') \<longleftrightarrow> length infos = n \<and> r = concat (map NodeInfo_enc infos) @ r'"
proof
  show "read_nodeInfos n r = Inr (infos, r') \<Longrightarrow> length infos = n \<and> r = concat (map NodeInfo_enc infos) @ r'"
    by (induction n arbitrary: r infos) (fastforce simp: reader_inversion NodeInfo_enc_def)+
qed (auto simp: read_nodeInfos_enc)

lemma fold_write_nodeInfo: "fold write_nodeInfo infos b = b @ concat (map NodeInfo_enc infos)"
proof (induction infos arbitrary: b)
  case (Cons info infos)
  have "write_nodeInfo info b = b @ NodeInfo_enc info"
    by (simp add: write_nodeInfo_def NodeInfo_enc_def Let_def codec WriteUint32_append [of b])
  with Cons show ?case by simp
qed simp

lemmas ninfo_defs = ParseNodeInfoPacket_def NodeInfoPacket_Write_def NodeInfoPacket_enc_def
  NodeInfoPacket_valid_def

interpretation ninfo: exact_codec ParseNodeInfoPacket NodeInfoPacket_Write NodeInfoPacket_enc
  NodeInfoPacket_valid ninfo_Type ninfo_Length
  by unfold_locales
     (auto simp: ninfo_defs Let_def codec reader_inversion read_nodeInfos_eq_Inr_iff fold_write_nodeInfo)

lemma CreateNodeInfoPacket_valid:
  assumes "length infos < 2 ^ 13 - 1"
  shows "NodeInfoPacket_valid (CreateNodeInfoPacket infos)"
proof -
  have "unat (of_nat (5 + length infos * 8) :: u16) = 5 + length infos * 8"
    using assms by (intro unat_of_nat_less) simp
  then have "unat ((of_nat (5 + length infos * 8) :: u16) - 5) = length infos * 8"
    by (intro payload_length) simp_all
  then show ?thesis
    by (simp add: NodeInfoPacket_valid_def CreateNodeInfoPacket_def NODE_INFO_PACKET_HEADER_LEN_def unat_div
        del: of_nat_add of_nat_mult)
qed

end
