(* ===== verification/Mp2_Segment.thy ===== *)
theory Mp2_Segment
  imports Mp2_Packets
begin

text \<open>
  Segments of a block under reception and the queue of segments of a session
  (\<^verbatim>\<open>mp2bs-main/mp2session/segment.go\<close>, \<^verbatim>\<open>block_buffer.go\<close>).  A segment is a byte buffer cut into
  slots of \<open>PAYLOAD_SIZE\<close> bytes, one for each data number; data arrives in any order and is read
  in order.  The contract is the locale \<open>slot_store\<close>: whatever the order and repetitions of
  arrivals, what has been read is a prefix of the segment's bytes, and once every slot has
  arrived the segment is complete and can be read to its end.
\<close>

section \<open>Segments\<close>

record Segment =
  seg_BlockNumber :: u32
  seg_SessionID :: u32
  seg_Index :: u32
  startDataNumber :: u32
  endDataNumber :: u32
  expectedDataNumber :: u32
  readDataOffset :: u32
  lastRecvDataOffset :: u32
  seg_size :: u32
  Complete :: bool
  Last :: bool
  seg_recvBuffer :: bytes
  recvDataSize :: "u32 list"
  symSize :: u32
  numSrcSymbols :: u32
  numEncSymbols :: u32
  numDataNumber :: u32
  numRedDataNumber :: u32
  startRedDataNumber :: u32
  endRedDataNumber :: u32
  recvRedBuffer :: bytes
  recvRedDataSize :: "u32 list"
  FecFinish :: bool

definition CreateSegment :: "u32 \<Rightarrow> u32 \<Rightarrow> u32 \<Rightarrow> u32 \<Rightarrow> u32 \<Rightarrow> u32 \<Rightarrow> bool \<Rightarrow> Segment" where
  "CreateSegment blockNumber sessionID idx start e segmentSize isLast =
     \<lparr>seg_BlockNumber = blockNumber, seg_SessionID = sessionID, seg_Index = idx,
      startDataNumber = start, endDataNumber = e, expectedDataNumber = start,
      readDataOffset = 0, lastRecvDataOffset = 0, seg_size = segmentSize,
      Complete = False, Last = isLast,
      seg_recvBuffer = replicate (unat segmentSize) 0,
      recvDataSize = replicate (unat (e - start + 1)) 0,
      symSize = 0, numSrcSymbols = 0, numEncSymbols = 0, numDataNumber = 0, numRedDataNumber = 0,
      startRedDataNumber = 0, endRedDataNumber = 0, recvRedBuffer = [], recvRedDataSize = [],
      FecFinish = False\<rparr>"

text \<open>
  \<^verbatim>\<open>math.Ceil(float64(n) / float64(m))\<close> for \<open>n\<close> of 32 bits and \<open>m\<close> a power of two: the quotient
  is exact in 64 bit floating point, so this is integer division rounded up.
\<close>

definition ceil_div :: "nat \<Rightarrow> nat \<Rightarrow> nat" where
  "ceil_div n m = (n + m - 1) div m"

definition CreateSegmentWithRedundant ::
  "u32 \<Rightarrow> u32 \<Rightarrow> u32 \<Rightarrow> u32 \<Rightarrow> u32 \<Rightarrow> u32 \<Rightarrow> bool \<Rightarrow> u32 \<Rightarrow> u32 \<Rightarrow> u32 \<Rightarrow> Segment" where
  "CreateSegmentWithRedundant blockNumber sessionID idx start e segmentSize isLast symSz numSrcSym numEncSym =
     (let g = CreateSegment blockNumber sessionID idx start e segmentSize isLast;
          redundantSize = symSz * (numEncSym - numSrcSym);
          startRed = e + 1;
          endRed = startRed + of_nat (ceil_div (unat redundantSize) PAYLOAD_SIZE) - 1
      in g\<lparr>symSize := symSz, numSrcSymbols := numSrcSym, numEncSymbols := numEncSym,
           startRedDataNumber := startRed, endRedDataNumber := endRed,
           recvRedBuffer := replicate (unat redundantSize) 0,
           recvRedDataSize := replicate (unat (endRed - startRed + 1)) 0,
           FecFinish := False\<rparr>)"

text \<open>
  The loop that moves \<open>expectedDataNumber\<close> over the slots that have arrived.  It stops at the
  end of \<open>recvDataSize\<close>, whose length is taken in 32 bits as the code does; the distance to
  that end shrinks in every round.
\<close>

function advance_expected :: "Segment \<Rightarrow> Segment result" where
  "advance_expected g =
     bindE (go_index (recvDataSize g) (unat (expectedDataNumber g - startDataNumber g))) (\<lambda>sz.
     if sz > 0
     then let g = (if expectedDataNumber g = endDataNumber g then g\<lparr>Complete := True\<rparr> else g);
              g = g\<lparr>lastRecvDataOffset := lastRecvDataOffset g + sz,
                    expectedDataNumber := expectedDataNumber g + 1\<rparr>
          in if expectedDataNumber g - startDataNumber g = of_nat (length (recvDataSize g))
             then Inr g else advance_expected g
     else Inr g)"
  by pat_completeness auto
termination
proof (relation "measure (\<lambda>g. unat (of_nat (length (recvDataSize g)) - (expectedDataNumber g - startDataNumber g) - 1 :: u32))",
       goal_cases)
  case (2 g sz g1 g2)
  let ?d = "of_nat (length (recvDataSize g)) - (expectedDataNumber g - startDataNumber g) - 1 :: u32"
  have eq: "of_nat (length (recvDataSize g2)) - (expectedDataNumber g2 - startDataNumber g2) - 1 = ?d - 1"
    using 2(3,4) by (simp add: algebra_simps)
  have "?d \<noteq> 0"
  proof
    assume "?d = 0"
    then have "expectedDataNumber g + 1 - startDataNumber g = of_nat (length (recvDataSize g))"
      by (simp add: algebra_simps)
    with 2(3,4,5) show False by (auto split: if_splits)
  qed
  then have "unat (?d - 1) < unat ?d" by (metis unat_minus_one lessI Suc_pred unat_gt_0 diff_Suc_1 diff_less zero_less_one)
  then show ?case by (simp only: in_measure eq)
qed simp

declare advance_expected.simps [simp del]

definition PushData :: "Segment \<Rightarrow> u32 \<Rightarrow> u32 \<Rightarrow> bytes \<Rightarrow> (bool \<times> Segment) result" where
  "PushData g blockNumber dataNumber data =
     (if blockNumber = seg_BlockNumber g \<and> dataNumber \<ge> startDataNumber g \<and> dataNumber \<le> endDataNumber g
      then let dataIdx = dataNumber - startDataNumber g;
               startIdx = dataIdx * of_nat PAYLOAD_SIZE;
               endIdx = startIdx + of_nat (length data)
           in bindE (go_copy_slice (seg_recvBuffer g) (unat startIdx) (unat endIdx) data) (\<lambda>buf.
              bindE (go_update (recvDataSize g) (unat dataIdx) (of_nat (length data))) (\<lambda>sizes.
              let g = g\<lparr>seg_recvBuffer := buf, recvDataSize := sizes, numDataNumber := numDataNumber g + 1\<rparr>
              in bindE (if dataNumber = expectedDataNumber g then advance_expected g else Inr g) (\<lambda>g.
                 Inr (True, g))))
      else Inr (False, g))"

definition PushRedData :: "Segment \<Rightarrow> u32 \<Rightarrow> u32 \<Rightarrow> bytes \<Rightarrow> (bool \<times> Segment) result" where
  "PushRedData g blockNumber dataNumber data =
     (if blockNumber = seg_BlockNumber g \<and> dataNumber \<ge> startRedDataNumber g \<and> dataNumber \<le> endRedDataNumber g
      then let dataIdx = dataNumber - startRedDataNumber g;
               startIdx = dataIdx * of_nat PAYLOAD_SIZE;
               endIdx = startIdx + of_nat (length data)
           in bindE (go_copy_slice (recvRedBuffer g) (unat startIdx) (unat endIdx) data) (\<lambda>buf.
              bindE (go_update (recvRedDataSize g) (unat dataIdx) (of_nat (length data))) (\<lambda>sizes.
              Inr (True, g\<lparr>recvRedBuffer := buf, recvRedDataSize := sizes,
                           numRedDataNumber := numRedDataNumber g + 1\<rparr>)))
      else Inr (False, g))"

text \<open>\<^verbatim>\<open>PopData\<close> gives the number of bytes, whether the segment is read to its end, and the caller's buffer.\<close>

definition PopData :: "Segment \<Rightarrow> bytes \<Rightarrow> (nat \<times> bool \<times> bytes \<times> Segment) result" where
  "PopData g buf =
     (let bufLen = of_nat (length buf) in
      bindE (if readDataOffset g < lastRecvDataOffset g
             then let unreadDataSize = lastRecvDataOffset g - readDataOffset g;
                      readLen = (if bufLen < unreadDataSize then bufLen else unreadDataSize)
                  in bindE (go_slice (seg_recvBuffer g) (unat (readDataOffset g)) (unat (readDataOffset g + readLen))) (\<lambda>src.
                     Inr (readLen, go_copy buf src, g\<lparr>readDataOffset := readDataOffset g + readLen\<rparr>))
             else Inr (0, buf, g)) (\<lambda>(readLen, buf, g).
      Inr (unat readLen, readDataOffset g = seg_size g, buf, g)))"

definition hasDataToRead :: "Segment \<Rightarrow> bool" where
  "hasDataToRead g \<longleftrightarrow> readDataOffset g < lastRecvDataOffset g"

text \<open>\<open>numSymbolsForDecode\<close> is the field \<^verbatim>\<open>NumSymbolsForDecode\<close> of the decoder.\<close>

definition FecDecode :: "Segment \<Rightarrow> u32 \<Rightarrow> bool" where
  "FecDecode g numSymbolsForDecode \<longleftrightarrow> numDataNumber g + numRedDataNumber g \<ge> numSymbolsForDecode"

section \<open>Block buffers\<close>

record BlockBuffer =
  lastRecvBytes :: u32
  readBytes :: u32
  bb_buffer :: "Segment list"

definition CreateBlockBuffer :: BlockBuffer where
  "CreateBlockBuffer = \<lparr>lastRecvBytes = 0, readBytes = 0, bb_buffer = []\<rparr>"

definition PushSegment :: "BlockBuffer \<Rightarrow> Segment \<Rightarrow> BlockBuffer" where
  "PushSegment b segment = b\<lparr>bb_buffer := bb_buffer b @ [segment]\<rparr>"

definition ReadSegment :: "BlockBuffer \<Rightarrow> Segment result" where
  "ReadSegment b = go_index (bb_buffer b) 0"

definition RemoveSegment :: "BlockBuffer \<Rightarrow> BlockBuffer result" where
  "RemoveSegment b =
     bindE (go_slice (bb_buffer b) 1 (length (bb_buffer b))) (\<lambda>segments. Inr (b\<lparr>bb_buffer := segments\<rparr>))"

definition BlockBuffer_IsEmpty :: "BlockBuffer \<Rightarrow> bool" where
  "BlockBuffer_IsEmpty b \<longleftrightarrow> length (bb_buffer b) = 0"

definition BlockBuffer_GetLength :: "BlockBuffer \<Rightarrow> nat" where
  "BlockBuffer_GetLength b = length (bb_buffer b)"

section \<open>Slots\<close>

definition slot :: "bytes \<Rightarrow> nat \<Rightarrow> bytes" where
  "slot B i = take PAYLOAD_SIZE (drop (i * PAYLOAD_SIZE) B)"

definition nslots :: "bytes \<Rightarrow> nat" where
  "nslots B = ceil_div (length B) PAYLOAD_SIZE"

lemma length_slot: "length (slot B i) = min PAYLOAD_SIZE (length B - i * PAYLOAD_SIZE)"
  by (simp add: slot_def min.commute)

lemma nslots_iff: "i < nslots B \<longleftrightarrow> i * PAYLOAD_SIZE < length B"
  by (auto simp: nslots_def ceil_div_def PAYLOAD_SIZE_def)

lemma slot_nonempty: "i < nslots B \<Longrightarrow> 0 < length (slot B i)"
  by (simp add: length_slot nslots_iff PAYLOAD_SIZE_def)

lemma nslots_cover: "length B \<le> nslots B * PAYLOAD_SIZE"
  by (simp add: nslots_def ceil_div_def PAYLOAD_SIZE_def)

lemma slot_before:
  assumes "i < j" and "j < nslots B" shows "length (slot B i) = PAYLOAD_SIZE"
proof -
  have "Suc i * PAYLOAD_SIZE \<le> j * PAYLOAD_SIZE" using assms by (intro mult_le_mono1) simp
  with assms show ?thesis by (simp add: length_slot nslots_iff)
qed

lemma slot_end: "i < nslots B \<Longrightarrow> i * PAYLOAD_SIZE + length (slot B i) \<le> length B"
  by (simp add: length_slot nslots_iff min_def) linarith

lemma slots_prefix:
  "\<forall>i<m. slot xs i = slot ys i \<Longrightarrow> take (m * PAYLOAD_SIZE) xs = take (m * PAYLOAD_SIZE) ys"
proof (induction m)
  case (Suc m)
  then show ?case by (simp add: add.commute [of PAYLOAD_SIZE] take_add) (simp add: slot_def)
qed simp

lemma slot_update:
  assumes i: "i < nslots B" and len: "length buf = length B" and j: "j < nslots B"
  shows "slot (take (i * PAYLOAD_SIZE) buf @ slot B i @ drop (i * PAYLOAD_SIZE + length (slot B i)) buf) j =
    (if j = i then slot B i else slot buf j)"
proof -
  have ip: "i * PAYLOAD_SIZE < length buf" using i len by (simp add: nslots_iff)
  consider "j < i" | "j = i" | "i < j" by linarith
  then show ?thesis
  proof cases
    case 1
    then have "Suc j * PAYLOAD_SIZE \<le> i * PAYLOAD_SIZE" by (intro mult_le_mono1) simp
    then show ?thesis using 1 ip by (simp add: slot_def drop_take)
  next
    case 2
    have "length (slot B i) \<le> PAYLOAD_SIZE" by (simp add: length_slot)
    moreover have "length (slot B i) = PAYLOAD_SIZE \<or> i * PAYLOAD_SIZE + length (slot B i) = length buf"
      using i len by (auto simp: length_slot nslots_iff min_def)
    ultimately show ?thesis using 2 ip by (auto simp: slot_def [of "_ @ _"])
  next
    case 3
    then have full: "length (slot B i) = PAYLOAD_SIZE" using j slot_before by simp
    have "Suc i * PAYLOAD_SIZE \<le> j * PAYLOAD_SIZE" using 3 by (intro mult_le_mono1) simp
    then obtain d where "j * PAYLOAD_SIZE = i * PAYLOAD_SIZE + PAYLOAD_SIZE + d"
      by (metis add.commute le_add_diff_inverse mult_Suc)
    with 3 ip show ?thesis unfolding slot_def [of "_ @ _"] slot_def [of buf] by (simp add: full ac_simps)
  qed
qed

section \<open>Contract\<close>

text \<open>
  \<open>inv B R k g\<close>: the segment \<open>g\<close> is to hold the bytes \<open>B\<close>, the slots in \<open>R\<close> have arrived and \<open>k\<close>
  bytes have been read.
\<close>

locale slot_store =
  fixes push :: "'g \<Rightarrow> nat \<Rightarrow> bytes \<Rightarrow> 'g result"
    and pop :: "'g \<Rightarrow> bytes \<Rightarrow> (nat \<times> bool \<times> bytes \<times> 'g) result"
    and is_complete :: "'g \<Rightarrow> bool"
    and inv :: "bytes \<Rightarrow> nat set \<Rightarrow> nat \<Rightarrow> 'g \<Rightarrow> bool"
  assumes inv_push: "inv B R k g \<Longrightarrow> i < nslots B \<Longrightarrow>
      \<exists>g'. push g i (slot B i) = Inr g' \<and> inv B (insert i R) k g'"
    and inv_pop: "inv B R k g \<Longrightarrow> length buf < 2 ^ 32 \<Longrightarrow> \<forall>i<m. i \<in> R \<Longrightarrow> m \<notin> R \<Longrightarrow>
      \<exists>n buf' g'. pop g buf = Inr (n, k + n = length B, buf', g') \<and>
        n = min (length buf) (min (m * PAYLOAD_SIZE) (length B) - k) \<and>
        buf' = take n (drop k B) @ drop n buf \<and> inv B R (k + n) g'"
    and inv_complete: "inv B R k g \<Longrightarrow> is_complete g \<longleftrightarrow> R = {..<nslots B}"
    and inv_slots: "inv B R k g \<Longrightarrow> R \<subseteq> {..<nslots B}"
begin

lemma push_all:
  "inv B R k g \<Longrightarrow> \<forall>i \<in> set is. i < nslots B \<Longrightarrow>
   \<exists>g'. foldE (\<lambda>i g. push g i (slot B i)) is g = Inr g' \<and> inv B (R \<union> set is) k g'"
proof (induction "is" arbitrary: R g)
  case (Cons i "is")
  from inv_push [OF Cons.prems(1), of i] Cons.prems(2) obtain g1 where
    "push g i (slot B i) = Inr g1" "inv B (insert i R) k g1" by auto
  with Cons.IH [of "insert i R" g1] Cons.prems(2) show ?case by auto
qed simp

lemma complete_read:
  assumes "inv B {} 0 g" and "set is = {..<nslots B}" and "length buf = length B" and "length B < 2 ^ 32"
  shows "\<exists>g1 g2. foldE (\<lambda>i g. push g i (slot B i)) is g = Inr g1 \<and> is_complete g1 \<and>
    pop g1 buf = Inr (length B, True, B, g2)"
proof -
  from push_all [OF assms(1), of "is"] assms(2) obtain g1 where
    g1: "foldE (\<lambda>i g. push g i (slot B i)) is g = Inr g1" "inv B {..<nslots B} 0 g1" by auto
  from inv_pop [OF g1(2), of buf "nslots B"] assms(3,4) nslots_cover [of B]
  obtain g2 where "pop g1 buf = Inr (length B, True, B, g2)" by (auto simp: min_def split: if_splits)
  with g1 inv_complete show ?thesis by blast
qed

end

section \<open>Segments keep the contract\<close>

definition seg_push :: "Segment \<Rightarrow> nat \<Rightarrow> bytes \<Rightarrow> Segment result" where
  "seg_push g i data =
     bindE (PushData g (seg_BlockNumber g) (startDataNumber g + of_nat i) data) (\<lambda>(_, g). Inr g)"

text \<open>\<open>m\<close> is the slot that \<open>expectedDataNumber\<close> stands for.\<close>

definition seg_body :: "bytes \<Rightarrow> nat set \<Rightarrow> nat \<Rightarrow> nat \<Rightarrow> Segment \<Rightarrow> bool" where
  "seg_body B R k m g \<longleftrightarrow>
     length B = unat (seg_size g) \<and> B \<noteq> [] \<and> length (seg_recvBuffer g) = length B \<and>
     unat (startDataNumber g) + nslots B < 2 ^ 32 \<and>
     Suc (unat (endDataNumber g)) = unat (startDataNumber g) + nslots B \<and>
     length (recvDataSize g) = nslots B \<and> R \<subseteq> {..<nslots B} \<and>
     (\<forall>i<nslots B. recvDataSize g ! i = (if i \<in> R then of_nat (length (slot B i)) else 0)) \<and>
     (\<forall>i \<in> R. slot (seg_recvBuffer g) i = slot B i) \<and>
     unat (expectedDataNumber g) = unat (startDataNumber g) + m \<and> (\<forall>i<m. i \<in> R) \<and>
     unat (lastRecvDataOffset g) = min (m * PAYLOAD_SIZE) (length B) \<and> (Complete g \<longleftrightarrow> m = nslots B) \<and>
     unat (readDataOffset g) = k \<and> k \<le> unat (lastRecvDataOffset g)"

definition seg_inv :: "bytes \<Rightarrow> nat set \<Rightarrow> nat \<Rightarrow> Segment \<Rightarrow> bool" where
  "seg_inv B R k g \<longleftrightarrow> (\<exists>m. seg_body B R k m g \<and> m \<notin> R)"

lemma seg_inv_create:
  assumes "B \<noteq> []" and "unat sz = length B" and "unat start + nslots B < 2 ^ 32"
    and "Suc (unat e) = unat start + nslots B"
  shows "seg_inv B {} 0 (CreateSegment bn sid idx start e sz isLast)"
proof -
  have "0 < nslots B" using assms(1) by (simp add: nslots_iff)
  have "unat (e - start) = nslots B - 1" using assms(4) \<open>0 < nslots B\<close> by (intro payload_length [of _ "unat start"]) auto
  then have "unat (e - start + 1) = nslots B"
    using assms(3) \<open>0 < nslots B\<close> by (subst unat_Suc_less) auto
  with assms \<open>0 < nslots B\<close> show ?thesis
    by (auto simp: seg_inv_def seg_body_def CreateSegment_def intro!: exI [of _ 0])
qed

lemma seg_bodyD:
  assumes "seg_body B R k m g"
  shows "unat (expectedDataNumber g - startDataNumber g) = m" and "m \<le> nslots B"
proof -
  show "unat (expectedDataNumber g - startDataNumber g) = m"
    using assms by (intro payload_length) (auto simp: seg_body_def)
  show "m \<le> nslots B"
  proof (rule ccontr)
    assume "\<not> m \<le> nslots B"
    then have "nslots B \<in> R" using assms by (auto simp: seg_body_def)
    then show False using assms by (auto simp: seg_body_def)
  qed
qed

lemma unat_slot_length: "length B = unat (s :: u32) \<Longrightarrow> unat (of_nat (length (slot B i)) :: u32) = length (slot B i)"
  using unat_bound [of s] by (intro unat_of_nat_less) (simp add: length_slot PAYLOAD_SIZE_def)

lemma seg_body_step:
  assumes body: "seg_body B R k m g" and m: "m \<in> R"
  defines "g' \<equiv> (if expectedDataNumber g = endDataNumber g then g\<lparr>Complete := True\<rparr> else g)
     \<lparr>lastRecvDataOffset := lastRecvDataOffset g + recvDataSize g ! m,
      expectedDataNumber := expectedDataNumber g + 1\<rparr>"
  shows "seg_body B R k (Suc m) g'"
proof -
  from body m have mn: "m < nslots B" by (auto simp: seg_body_def)
  have sz: "unat (recvDataSize g ! m) = length (slot B m)"
    using body m mn unat_slot_length [of B "seg_size g" m] by (simp add: seg_body_def)
  have min: "min (m * PAYLOAD_SIZE) (length B) = m * PAYLOAD_SIZE" using mn by (simp add: nslots_iff)
  have last: "unat (lastRecvDataOffset g + recvDataSize g ! m) = min (Suc m * PAYLOAD_SIZE) (length B)"
  proof (subst unat_plus_less)
    have "m * PAYLOAD_SIZE + length (slot B m) \<le> unat (seg_size g)"
      using slot_end [OF mn] body by (simp add: seg_body_def)
    then show "unat (lastRecvDataOffset g) + unat (recvDataSize g ! m) < 2 ^ LENGTH(32)"
      using body unat_bound [of "seg_size g"] unfolding sz by (simp add: seg_body_def min)
    show "unat (lastRecvDataOffset g) + unat (recvDataSize g ! m) = min (Suc m * PAYLOAD_SIZE) (length B)"
      using body mn unfolding sz by (simp add: seg_body_def min length_slot nslots_iff)
  qed
  have ex: "unat (expectedDataNumber g + 1) = unat (startDataNumber g) + Suc m"
    using body mn by (subst unat_Suc_less) (auto simp: seg_body_def)
  have "expectedDataNumber g = endDataNumber g \<longleftrightarrow> Suc m = nslots B"
    using body mn by (auto simp: seg_body_def word_unat_eq_iff)
  then show ?thesis using body mn m last ex
    by (auto simp: g'_def seg_body_def less_Suc_eq min.coboundedI1)
qed

lemma advance_expected_stop:
  "seg_body B R k m g \<Longrightarrow> m < nslots B \<Longrightarrow> m \<notin> R \<Longrightarrow> advance_expected g = Inr g"
  by (subst advance_expected.simps) (simp add: seg_bodyD(1), simp add: seg_body_def)

lemma advance_expected_ok:
  "seg_body B R k m g \<Longrightarrow> m \<in> R \<Longrightarrow> \<exists>g' m'. advance_expected g = Inr g' \<and> seg_body B R k m' g' \<and> m' \<notin> R"
proof (induction "nslots B - m" arbitrary: g m rule: less_induct)
  case less
  let ?g = "(if expectedDataNumber g = endDataNumber g then g\<lparr>Complete := True\<rparr> else g)
     \<lparr>lastRecvDataOffset := lastRecvDataOffset g + recvDataSize g ! m,
      expectedDataNumber := expectedDataNumber g + 1\<rparr>"
  note body' = seg_body_step [OF less.prems]
  have mn: "m < nslots B" "length (recvDataSize g) = nslots B" "nslots B < 2 ^ 32"
    using less.prems by (auto simp: seg_body_def)
  have pos: "0 < recvDataSize g ! m"
    using less.prems mn unat_slot_length [of B "seg_size g" m] slot_nonempty [of m B]
    by (simp add: seg_body_def word_greater_zero_iff unat_gt_0 [symmetric] del: unat_gt_0)
  have "expectedDataNumber g + 1 - startDataNumber g = of_nat (nslots B) \<longleftrightarrow> Suc m = nslots B"
    using seg_bodyD(1) [OF body'] mn unat_of_nat_less [of "nslots B", where 'a = 32]
    by (simp add: word_unat_eq_iff split: if_splits)
  then have adv: "advance_expected g = (if Suc m = nslots B then Inr ?g else advance_expected ?g)"
    using mn pos by (subst advance_expected.simps) (auto simp: seg_bodyD(1) [OF less.prems(1)] Let_def)
  show ?case
  proof (cases "Suc m \<in> R")
    case True
    then have "Suc m < nslots B" using less.prems by (auto simp: seg_body_def)
    then show ?thesis using less.hyps [OF _ body' True] adv by auto
  next
    case False
    have "advance_expected ?g = Inr ?g" if "Suc m < nslots B"
      using advance_expected_stop [OF body' that False] .
    then show ?thesis using adv body' False seg_bodyD(2) [OF body'] by (metis le_neq_implies_less)
  qed
qed

lemma seg_body_store:
  assumes body: "seg_body B R k m g" and i: "i < nslots B"
  shows "seg_body B (insert i R) k m
    (g\<lparr>seg_recvBuffer := take (i * PAYLOAD_SIZE) (seg_recvBuffer g) @ slot B i @
         drop (i * PAYLOAD_SIZE + length (slot B i)) (seg_recvBuffer g),
       recvDataSize := (recvDataSize g)[i := of_nat (length (slot B i))], numDataNumber := n\<rparr>)"
proof -
  have len: "length (seg_recvBuffer g) = length B" using body by (simp add: seg_body_def)
  have "\<forall>j \<in> insert i R. slot (take (i * PAYLOAD_SIZE) (seg_recvBuffer g) @ slot B i @
      drop (i * PAYLOAD_SIZE + length (slot B i)) (seg_recvBuffer g)) j = slot B j"
    using body i by (auto simp: slot_update [OF i len] seg_body_def)
  moreover have "length (take (i * PAYLOAD_SIZE) (seg_recvBuffer g) @ slot B i @
      drop (i * PAYLOAD_SIZE + length (slot B i)) (seg_recvBuffer g)) = length B"
    using slot_end [OF i] len by simp
  moreover have "\<forall>j<nslots B. (recvDataSize g)[i := of_nat (length (slot B i))] ! j =
      (if j \<in> insert i R then of_nat (length (slot B j)) else 0)"
    using body i by (simp add: seg_body_def nth_list_update)
  moreover have "k \<le> m * PAYLOAD_SIZE \<and> k \<le> unat (seg_size g)" using body by (auto simp: seg_body_def)
  ultimately show ?thesis using body i unfolding seg_body_def by simp
qed

lemma seg_push_ok:
  assumes inv: "seg_inv B R k g" and i: "i < nslots B"
  shows "\<exists>g'. PushData g (seg_BlockNumber g) (startDataNumber g + of_nat i) (slot B i) = Inr (True, g') \<and>
    seg_inv B (insert i R) k g'"
proof -
  from inv obtain m where body: "seg_body B R k m g" and m: "m \<notin> R" by (auto simp: seg_inv_def)
  have bounds: "i * PAYLOAD_SIZE + length (slot B i) \<le> length B" "length B = unat (seg_size g)"
    "length B < 2 ^ 32" "nslots B < 2 ^ 32" "unat (startDataNumber g) + i < 2 ^ 32"
    using slot_end [OF i] body unat_bound [of "seg_size g"] i by (auto simp: seg_body_def)
  have ui: "unat (of_nat i :: u32) = i" using bounds i by (intro unat_of_nat_less) simp
  have dn: "unat (startDataNumber g + of_nat i) = unat (startDataNumber g) + i"
    using bounds by (subst unat_plus_less) (simp_all add: ui)
  have si: "unat (of_nat i * of_nat PAYLOAD_SIZE :: u32) = i * PAYLOAD_SIZE"
    using bounds unfolding of_nat_mult [symmetric] by (intro unat_of_nat_less) simp
  have ei: "unat (of_nat i * of_nat PAYLOAD_SIZE + of_nat (length (slot B i)) :: u32) = i * PAYLOAD_SIZE + length (slot B i)"
    using bounds unfolding of_nat_mult [symmetric] of_nat_add [symmetric] by (intro unat_of_nat_less) simp
  let ?g = "g\<lparr>seg_recvBuffer := take (i * PAYLOAD_SIZE) (seg_recvBuffer g) @ slot B i @
         drop (i * PAYLOAD_SIZE + length (slot B i)) (seg_recvBuffer g),
       recvDataSize := (recvDataSize g)[i := of_nat (length (slot B i))], numDataNumber := numDataNumber g + 1\<rparr>"
  note body' = seg_body_store [OF body i, of "numDataNumber g + 1"]
  have exp: "startDataNumber g + of_nat i = expectedDataNumber g \<longleftrightarrow> i = m"
    using body by (auto simp: word_unat_eq_iff dn seg_body_def)
  have range: "startDataNumber g \<le> startDataNumber g + of_nat i" "startDataNumber g + of_nat i \<le> endDataNumber g"
    using body i by (auto simp: word_le_nat_alt dn seg_body_def)
  have push: "PushData g (seg_BlockNumber g) (startDataNumber g + of_nat i) (slot B i) =
      bindE (if i = m then advance_expected ?g else Inr ?g) (\<lambda>g. Inr (True, g))"
    using body bounds i
    by (simp add: PushData_def range exp ui si ei Let_def seg_body_def del: of_nat_mult)
  show ?thesis
  proof (cases "i = m")
    case True
    with advance_expected_ok [OF body'] push show ?thesis by (auto simp: seg_inv_def)
  next
    case False
    with body' m push show ?thesis unfolding seg_inv_def by auto
  qed
qed

lemma PushData_refused:
  "blockNumber \<noteq> seg_BlockNumber g \<or> dataNumber < startDataNumber g \<or> endDataNumber g < dataNumber \<Longrightarrow>
   PushData g blockNumber dataNumber data = Inr (False, g)"
  by (auto simp: PushData_def)

lemma seg_pop_ok:
  assumes inv: "seg_inv B R k g" and buf: "length buf < 2 ^ 32" and m: "\<forall>i<m. i \<in> R" "m \<notin> R"
  shows "\<exists>n buf' g'. PopData g buf = Inr (n, k + n = length B, buf', g') \<and>
    n = min (length buf) (min (m * PAYLOAD_SIZE) (length B) - k) \<and>
    buf' = take n (drop k B) @ drop n buf \<and> seg_inv B R (k + n) g'"
proof -
  from inv m obtain body: "seg_body B R k m g"
    unfolding seg_inv_def by (metis linorder_neqE_nat seg_body_def)
  let ?last = "min (m * PAYLOAD_SIZE) (length B)" and ?n = "min (length buf) (min (m * PAYLOAD_SIZE) (length B) - k)"
  have f: "unat (lastRecvDataOffset g) = ?last" "unat (readDataOffset g) = k" "k \<le> ?last"
    "length B = unat (seg_size g)" "length (seg_recvBuffer g) = length B"
    using body by (auto simp: seg_body_def)
  have bl: "unat (of_nat (length buf) :: u32) = length buf" using buf by (intro unat_of_nat_less) simp
  have unread: "unat (lastRecvDataOffset g - readDataOffset g) = ?last - k"
    using f by (intro payload_length) simp_all
  have k: "k < ?last \<longleftrightarrow> readDataOffset g < lastRecvDataOffset g" by (simp add: word_less_nat_alt f)
  have prefix: "take ?last (seg_recvBuffer g) = take ?last B"
    using slots_prefix [of m "seg_recvBuffer g" B] body by (auto simp: seg_body_def min_def)
  have src: "take ?n (drop k (seg_recvBuffer g)) = take ?n (drop k B)"
  proof -
    have "take ?n (drop k xs) = take ?n (drop k (take ?last xs))" for xs :: bytes
      by (simp add: drop_take min_def)
    then show ?thesis using prefix by metis
  qed
  let ?rl = "if of_nat (length buf) < lastRecvDataOffset g - readDataOffset g
    then of_nat (length buf) else lastRecvDataOffset g - readDataOffset g :: u32"
  have rl: "unat ?rl = ?n" by (auto simp: word_less_nat_alt bl unread)
  have kn: "unat (readDataOffset g + ?rl) = k + ?n"
  proof (subst unat_plus_less)
    have "k + ?n \<le> length B" using f(3) by linarith
    then show "unat (readDataOffset g) + unat ?rl < 2 ^ LENGTH(32)"
      unfolding rl f(2) using f(4) unat_bound [of "seg_size g"] by simp
  qed (simp only: rl f(2))
  have fin: "readDataOffset g + ?rl = seg_size g \<longleftrightarrow> k + ?n = length B"
    by (simp only: word_unat_eq_iff kn f(4))
  show ?thesis
  proof (cases "k < ?last")
    case True
    let ?g = "g\<lparr>readDataOffset := readDataOffset g + ?rl\<rparr>"
    have "k + ?n \<le> m * PAYLOAD_SIZE" "k + ?n \<le> unat (seg_size g)" using f(3,4) by linarith+
    then have "seg_body B R (k + ?n) m ?g" using body by (simp add: seg_body_def kn del: unat_of_nat)
    moreover have "PopData g buf = Inr (?n, k + ?n = length B, take ?n (drop k B) @ drop ?n buf, ?g)"
    proof -
      have len: "length (take ?n (drop k B)) = ?n" using f(3) by (simp add: min_def) linarith
      have "go_slice (seg_recvBuffer g) k (k + ?n) = Inr (take ?n (drop k B))"
        using src \<open>k + ?n \<le> unat (seg_size g)\<close> f(4,5) by simp
      moreover have "go_copy buf (take ?n (drop k B)) = take ?n (drop k B) @ drop ?n buf"
        unfolding go_copy_def len by simp
      ultimately show ?thesis
        using True unfolding k by (simp add: PopData_def Let_def kn f(2) fin rl del: go_slice_Inr min.bounded_iff)
    qed
    ultimately show ?thesis using m unfolding seg_inv_def by blast
  next
    case False
    then have "k = ?last" using f(3) by linarith
    moreover have "readDataOffset g = seg_size g \<longleftrightarrow> k = length B" by (simp add: word_unat_eq_iff f)
    ultimately show ?thesis using False inv unfolding k by (simp add: PopData_def)
  qed
qed

lemma seg_complete:
  assumes "seg_inv B R k g" shows "Complete g \<longleftrightarrow> R = {..<nslots B}"
proof -
  from assms obtain m where m: "R \<subseteq> {..<nslots B}" "\<forall>i<m. i \<in> R" "m \<notin> R" "Complete g \<longleftrightarrow> m = nslots B"
    by (auto simp: seg_inv_def seg_body_def)
  have "m = nslots B" if "R = {..<nslots B}" using m that by (metis lessThan_iff linorder_neqE_nat order_less_irrefl)
  moreover have "R = {..<nslots B}" if "m = nslots B" using m that by auto
  ultimately have "m = nslots B \<longleftrightarrow> R = {..<nslots B}" by blast
  with m(4) show ?thesis by simp
qed

interpretation segment: slot_store seg_push PopData Complete seg_inv
proof (unfold_locales, goal_cases)
  case (1 B R k g i)
  from seg_push_ok [OF this] show ?case by (auto simp: seg_push_def)
next
  case (2 B R k g buf m)
  then show ?case by (rule seg_pop_ok)
next
  case (3 B R k g)
  then show ?case by (rule seg_complete)
next
  case (4 B R k g)
  then show ?case by (auto simp: seg_inv_def seg_body_def)
qed

end
