(* ===== verification/Mp2_Address.thy ===== *)
theory Mp2_Address
  imports Util_Codec
begin

text \<open>
  Addresses of nodes as text and as numbers: \<^verbatim>\<open>Ip2int\<close> and \<^verbatim>\<open>Int2ip\<close> of \<^verbatim>\<open>mp2bs-main/util/util.go\<close> and
  the functions of the Go library that they and the session manager use (decimal formatting and parsing of
  package strconv, \<^verbatim>\<open>strings.Split\<close>, IPv4 addresses of package net).  Addresses in IPv6
  notation are not modelled.  Shown: printing an address and reading it back is the identity.
\<close>

section \<open>Decimal numbers\<close>

definition digit :: "nat \<Rightarrow> char" where
  "digit d = char_of (48 + d)"

definition digit_value :: "char \<Rightarrow> nat option" where
  "digit_value c = (let n = of_char c in if 48 \<le> n \<and> n \<le> 57 then Some (n - 48) else None)"

text \<open>\<^verbatim>\<open>strconv.FormatInt(n, 10)\<close> for \<open>n \<ge> 0\<close>.\<close>

fun FormatInt :: "nat \<Rightarrow> string" where
  "FormatInt n = (if n < 10 then [digit n] else FormatInt (n div 10) @ [digit (n mod 10)])"

declare FormatInt.simps [simp del]

text \<open>The value of a non-empty string of decimal digits.\<close>

fun digits_value :: "nat \<Rightarrow> string \<Rightarrow> nat option" where
  "digits_value acc [] = Some acc"
| "digits_value acc (c # cs) =
     (case digit_value c of None \<Rightarrow> None | Some d \<Rightarrow> digits_value (10 * acc + d) cs)"

definition parse_digits :: "string \<Rightarrow> nat option" where
  "parse_digits s = (if s = [] then None else digits_value 0 s)"

text \<open>
  \<^verbatim>\<open>strconv.ParseInt(s, 10, 16)\<close> with its error ignored: 0 on a syntax error, and the nearest
  16 bit signed number on overflow.
\<close>

definition ParseInt16 :: "string \<Rightarrow> int" where
  "ParseInt16 s =
     (let (neg, t) = (case s of [] \<Rightarrow> (False, []) | c # cs \<Rightarrow>
            if c = CHR ''-'' then (True, cs) else if c = CHR ''+'' then (False, cs) else (False, s))
      in case parse_digits t of
           None \<Rightarrow> 0
         | Some n \<Rightarrow> if neg then - int (min n 32768) else int (min n 32767))"

lemma digit_value_digit: "d < 10 \<Longrightarrow> digit_value (digit d) = Some d"
  by (simp add: digit_value_def digit_def of_char_of Let_def)

lemma digits_value_append:
  "digits_value acc (xs @ ys) = (case digits_value acc xs of None \<Rightarrow> None | Some a \<Rightarrow> digits_value a ys)"
  by (induction xs arbitrary: acc) (auto split: option.splits)

lemma digits_value_FormatInt: "digits_value 0 (FormatInt n) = Some n"
proof (induction n rule: FormatInt.induct)
  case (1 n)
  show ?case
  proof (cases "n < 10")
    case True
    then show ?thesis by (simp add: FormatInt.simps [of n] digit_value_digit)
  next
    case False
    with 1 show ?thesis by (simp add: FormatInt.simps [of n] digits_value_append digit_value_digit)
  qed
qed

lemma FormatInt_nonempty [simp]: "FormatInt n \<noteq> []"
  by (subst FormatInt.simps) simp

lemma parse_digits_FormatInt [simp]: "parse_digits (FormatInt n) = Some n"
  by (simp add: parse_digits_def digits_value_FormatInt)

lemma digit_in_FormatInt: "c \<in> set (FormatInt n) \<Longrightarrow> \<exists>d<10. c = digit d"
proof (induction n rule: FormatInt.induct)
  case (1 n)
  show ?case
  proof (cases "n < 10")
    case True
    with 1 show ?thesis by (auto simp: FormatInt.simps [of n])
  next
    case False
    with 1 have "c \<in> set (FormatInt (n div 10)) \<or> c = digit (n mod 10)" by (auto simp: FormatInt.simps [of n])
    with 1(1) False show ?thesis by (metis mod_less_divisor zero_less_numeral)
  qed
qed

lemma digit_noteq: "d < 10 \<Longrightarrow> digit_value c = None \<Longrightarrow> digit d \<noteq> c"
  by (metis digit_value_digit option.distinct(1))

lemma FormatInt_no: "digit_value c = None \<Longrightarrow> c \<notin> set (FormatInt n)"
  using digit_in_FormatInt digit_noteq by blast

text \<open>A printed number has no leading zero.\<close>

lemma hd_FormatInt: "hd (FormatInt n) = digit 0 \<Longrightarrow> n = 0"
proof (induction n rule: FormatInt.induct)
  case (1 n)
  show ?case
  proof (cases "n < 10")
    case True
    with "1.prems" have "digit_value (digit n) = digit_value (digit 0)" by (simp add: FormatInt.simps [of n])
    with True show ?thesis by (simp add: digit_value_digit)
  next
    case False
    then have "hd (FormatInt n) = hd (FormatInt (n div 10))" by (subst FormatInt.simps) simp
    with 1 False show ?thesis by simp
  qed
qed

lemma FormatInt_0: "FormatInt 0 = [digit 0]"
  by (simp add: FormatInt.simps)

section \<open>Splitting\<close>

text \<open>\<^verbatim>\<open>strings.Split\<close> with a separator of one character.\<close>

fun Split :: "char \<Rightarrow> string \<Rightarrow> string list" where
  "Split sep [] = [[]]"
| "Split sep (c # cs) =
     (if c = sep then [] # Split sep cs
      else case Split sep cs of [] \<Rightarrow> [[c]] | f # fs \<Rightarrow> (c # f) # fs)"

lemma Split_no: "sep \<notin> set s \<Longrightarrow> Split sep s = [s]"
  by (induction s) auto

lemma Split_nonempty: "Split sep s \<noteq> []"
  by (induction s) (auto split: list.splits)

lemma Split_append: "sep \<notin> set s \<Longrightarrow> Split sep (s @ sep # t) = s # Split sep t"
  by (induction s) (auto split: list.splits)

section \<open>IPv4 addresses\<close>

text \<open>A decimal octet: no leading zero, at most 255.\<close>

definition parse_octet :: "string \<Rightarrow> u8 option" where
  "parse_octet s =
     (if length s > 1 \<and> hd s = digit 0 then None
      else case parse_digits s of None \<Rightarrow> None | Some n \<Rightarrow> if n \<le> 255 then Some (of_nat n) else None)"

definition ParseIPv4 :: "string \<Rightarrow> bytes option" where
  "ParseIPv4 s =
     (case Split (CHR ''.'') s of
        [a, b, c, d] \<Rightarrow>
          (case (parse_octet a, parse_octet b, parse_octet c, parse_octet d) of
             (Some w, Some x, Some y, Some z) \<Rightarrow> Some [w, x, y, z] | _ \<Rightarrow> None)
      | _ \<Rightarrow> None)"

text \<open>\<^verbatim>\<open>binary.BigEndian.Uint32\<close> is the order of \<open>ReadUint32\<close>.\<close>

definition Ip2int :: "string \<Rightarrow> u32 result" where
  "Ip2int addr =
     (case ParseIPv4 addr of
        None \<Rightarrow> Inr 0
      | Some ip \<Rightarrow> bindE (ReadUint32 ip) (\<lambda>(n, _). Inr n))"

definition Int2ip :: "u32 \<Rightarrow> string" where
  "Int2ip ipInt =
     (case map (\<lambda>b. FormatInt (unat b)) (WriteUint32 [] ipInt) of
        [a, b, c, d] \<Rightarrow> a @ CHR ''.'' # b @ CHR ''.'' # c @ CHR ''.'' # d
      | _ \<Rightarrow> [])"

lemma no_digit_dot: "digit_value (CHR ''.'') = None" and no_digit_colon: "digit_value (CHR '':'') = None"
  by code_simp+

lemma parse_octet_FormatInt: "parse_octet (FormatInt (unat (b :: u8))) = Some b"
proof -
  have "unat b \<le> 255" using unat_bound [of b] by simp
  moreover have "length (FormatInt (unat b)) = 1" if "hd (FormatInt (unat b)) = digit 0"
    using hd_FormatInt [OF that] by (simp add: FormatInt_0)
  ultimately show ?thesis by (auto simp: parse_octet_def)
qed

lemma ParseIPv4_Int2ip: "ParseIPv4 (Int2ip n) = Some (WriteUint32 [] n)"
proof -
  obtain a b c d where bs: "WriteUint32 [] n = [a, b, c, d]"
    by (simp add: WriteUint32_def WriteBytes_def)
  have "Split (CHR ''.'') (Int2ip n) =
      [FormatInt (unat a), FormatInt (unat b), FormatInt (unat c), FormatInt (unat d)]"
    by (simp add: Int2ip_def bs Split_append Split_no FormatInt_no [OF no_digit_dot])
  then show ?thesis by (simp add: ParseIPv4_def parse_octet_FormatInt bs)
qed

lemma Ip2int_Int2ip: "Ip2int (Int2ip n) = Inr n"
  using ReadUint32_WriteUint32 [of n "[]"] by (simp add: Ip2int_def ParseIPv4_Int2ip)

lemma Int2ip_no_colon: "CHR '':'' \<notin> set (Int2ip n)"
  by (auto simp: Int2ip_def FormatInt_no [OF no_digit_colon] split: list.splits)

end
