(* ===== verification/Mp2_State.thy ===== *)
theory Mp2_State
  imports Session_Manager Mp2_Segment Mp2_Address "HOL-Library.AList"
begin

text \<open>
  State of the block layer (\<^verbatim>\<open>mp2bs-main/mp2session/mp2session.go\<close>, \<^verbatim>\<open>mp2session_manager.go\<close>) and its sending
  operations.  The manager and its sessions refer to each other: a pointer to an \<^verbatim>\<open>Mp2Session\<close> is its key
  in \<open>mp2sessionMap\<close>, and the operations take the state of the manager and such a key.  Maps that the
  code iterates over are association lists; Go leaves the order of an iteration open, here it is the order of
  the list, about which nothing is assumed.  A goroutine that is started is recorded in \<open>goroutines\<close>.
\<close>

section \<open>Channels\<close>

text \<open>
  A buffered channel is the list of the values in it.  Sending to a full channel, or to a nil
  channel, does not return.
\<close>

definition chan_send :: "nat \<Rightarrow> 'a list option \<Rightarrow> 'a \<Rightarrow> 'a list result" where
  "chan_send cap ch v =
     (case ch of None \<Rightarrow> Inl Blocked | Some vs \<Rightarrow> if length vs < cap then Inr (vs @ [v]) else Inl Blocked)"

definition chan_recv :: "'a list option \<Rightarrow> ('a \<times> 'a list) result" where
  "chan_recv ch = (case ch of Some (v # vs) \<Rightarrow> Inr (v, vs) | _ \<Rightarrow> Inl Blocked)"

section \<open>State\<close>

datatype goroutine =
    SessionHandler u32 u32
  | SendBlockRequest u32 u32 u32 u32
  | SendFecBlockRequest u32 u32 u32
  | SendBlockData u32 u32 u32 u32 u32 u8
  | SendBlockRedData u32 u32 u32 u32 u32 u8
  | Timer u32
  | ReceiveBlockInfo u32

record 'st Mp2Session =
  ms_sessionMap :: "(u32 \<times> 'st Session) list"
  blockOwners :: "(u32 \<times> u32) list"
  ms_blockNumber :: u32
  controlRecvBuffer :: "ControlPacket list"
  sem :: "(nat \<times> u32 list) option"
  ms_key :: u32
  ms_goodbye :: bool
  firstSegment :: bool
  noTimeoutChan :: "bool list"

record 'st Mp2SessionManager =
  peerId :: u32
  peerPushMode :: bool
  peerModeStatus :: string
  myAddr :: "string list"
  childAddr :: "string list"
  allAddr :: "string list"
  blockList :: "(u32 \<times> u32) list"
  receivedBlockChannel :: "u32 list"
  mp2IdFromParent :: u32
  mp2IdToChildren :: u32
  mp2IdForPull :: u32
  mp2sessionMap :: "u32 \<rightharpoonup> 'st Mp2Session"
  sessionManager :: "'st SessionManager"
  blockNumChannel :: "u32 \<rightharpoonup> u32 list"
  blockInfoChannel :: "u32 \<rightharpoonup> BlockInfoPacket list"
  mp_sendBuffer :: bytes
  mp_recvBuffer :: "u32 \<rightharpoonup> BlockBuffer"
  mp_goodbye :: bool
  timeoutFlag :: "u32 \<rightharpoonup> bool"
  nodeInfoChan :: "bool list"
  nodeInfoFlag :: "(u32 \<times> bool) list"
  stopSendCond :: u32
  blockFinishFlag :: "u32 \<rightharpoonup> bool list"
  goroutines :: "goroutine list"

text \<open>
  What the operations get from outside: the configuration, whether \<^verbatim>\<open>FEC_MODE\<close> is on and the sizes of
  the code (fields of \<^verbatim>\<open>Raptor\<close>), the QUIC operations, \<open>dial\<close> of \<open>Session_Connect\<close>, and the
  verdicts of the throughput monitor during a \<^verbatim>\<open>Write\<close> that starts at a given sequence number.
\<close>

record 'st env =
  e_conf :: Config
  e_fec :: bool
  e_symbols :: "u32 \<times> u32 \<times> u32"
  e_quic :: "'st quic"
  e_dial :: "string \<Rightarrow> int \<Rightarrow> ('st \<times> string) result"
  e_verdicts :: "u32 \<Rightarrow> nat \<Rightarrow> bool list"

definition CreateMp2SessionManager :: "Config \<Rightarrow> u32 \<Rightarrow> 'st Mp2SessionManager" where
  "CreateMp2SessionManager conf peerID =
     \<lparr>peerId = peerID, peerPushMode = True, peerModeStatus = [], myAddr = NIC_ADDRS conf, childAddr = [],
      allAddr = [], blockList = [], receivedBlockChannel = [], mp2IdFromParent = 0, mp2IdToChildren = 0,
      mp2IdForPull = 0, mp2sessionMap = Map.empty, sessionManager = CreateSessionManager (NIC_ADDRS conf),
      blockNumChannel = Map.empty, blockInfoChannel = Map.empty, mp_sendBuffer = [],
      mp_recvBuffer = Map.empty, mp_goodbye = False, timeoutFlag = Map.empty, nodeInfoChan = [],
      nodeInfoFlag = [], stopSendCond = 0, blockFinishFlag = Map.empty, goroutines = []\<rparr>"

definition get_mp2 :: "'st Mp2SessionManager \<Rightarrow> u32 \<Rightarrow> 'st Mp2Session result" where
  "get_mp2 p key = (case mp2sessionMap p key of None \<Rightarrow> Inl NilDereference | Some s \<Rightarrow> Inr s)"

definition put_mp2 :: "'st Mp2SessionManager \<Rightarrow> u32 \<Rightarrow> 'st Mp2Session \<Rightarrow> 'st Mp2SessionManager" where
  "put_mp2 p key s = p\<lparr>mp2sessionMap := (mp2sessionMap p)(key \<mapsto> s)\<rparr>"

definition go_spawn :: "'st Mp2SessionManager \<Rightarrow> goroutine \<Rightarrow> 'st Mp2SessionManager" where
  "go_spawn p g = p\<lparr>goroutines := goroutines p @ [g]\<rparr>"

section \<open>Sessions of a block transfer\<close>

definition AddSession :: "'st Mp2Session \<Rightarrow> 'st Session \<Rightarrow> 'st Mp2Session" where
  "AddSession s session =
     s\<lparr>ms_sessionMap := AList.update (SessionID session) session (ms_sessionMap s),
       blockOwners := AList.update (SessionID session) PEER_NOT_KNOWN (blockOwners s)\<rparr>"

definition CreateMp2Session :: "'st Session option \<Rightarrow> 'st Mp2Session" where
  "CreateMp2Session sess =
     (let s = \<lparr>ms_sessionMap = [], blockOwners = [], ms_blockNumber = 0, controlRecvBuffer = [],
               sem = None, ms_key = 0, ms_goodbye = False, firstSegment = True, noTimeoutChan = []\<rparr>
      in case sess of None \<Rightarrow> s | Some session \<Rightarrow> AddSession s session)"

definition HandlerStart :: "'st Mp2SessionManager \<Rightarrow> u32 \<Rightarrow> u32 \<Rightarrow> 'st Mp2SessionManager" where
  "HandlerStart p key sessionID = go_spawn p (SessionHandler key sessionID)"

section \<open>Sending\<close>

text \<open>\<^verbatim>\<open>sendPacket\<close>; a session that is not in the map is a nil pointer.\<close>

definition mp2_sendPacket ::
  "'st env \<Rightarrow> u32 \<Rightarrow> u32 \<Rightarrow> bytes \<Rightarrow> u8 \<Rightarrow> 'st Mp2SessionManager \<Rightarrow> 'st Mp2SessionManager result" where
  "mp2_sendPacket E key sessionID buf pType p =
     bindE (get_mp2 p key) (\<lambda>s.
     case map_of (ms_sessionMap s) sessionID of
       None \<Rightarrow> Inl NilDereference
     | Some session \<Rightarrow>
         bindE (Session_Write (e_conf E) (e_verdicts E (sequenceNumber session)) session buf pType) (\<lambda>(_, session).
         Inr (put_mp2 p key (s\<lparr>ms_sessionMap := AList.update sessionID session (ms_sessionMap s)\<rparr>))))"

definition sendBlockDataAckPacket ::
  "'st env \<Rightarrow> u32 \<Rightarrow> u32 \<Rightarrow> u32 \<Rightarrow> u32 \<Rightarrow> 'st Mp2SessionManager \<Rightarrow> 'st Mp2SessionManager result" where
  "sendBlockDataAckPacket E key sessionID blockNumber lastDataNumber p =
     (let packet = CreateBlockDataAckPacket blockNumber lastDataNumber in
      bindE (BlockDataAckPacket_Write packet []) (\<lambda>b. mp2_sendPacket E key sessionID b (bdack_Type packet) p))"

definition sendBlockFindPacket ::
  "'st env \<Rightarrow> u32 \<Rightarrow> u32 \<Rightarrow> u32 \<Rightarrow> 'st Mp2SessionManager \<Rightarrow> 'st Mp2SessionManager result" where
  "sendBlockFindPacket E key sessionID blockNumber p =
     (let packet = CreateBlockFindPacket blockNumber in
      bindE (BlockFindPacket_Write packet []) (\<lambda>b. mp2_sendPacket E key sessionID b (bfind_Type packet) p))"

definition sendBlockInfoPacket ::
  "'st env \<Rightarrow> u32 \<Rightarrow> u32 \<Rightarrow> u32 \<Rightarrow> u32 \<Rightarrow> u32 \<Rightarrow> 'st Mp2SessionManager \<Rightarrow> 'st Mp2SessionManager result" where
  "sendBlockInfoPacket E key sessionID blockNumber blockSize status p =
     (let packet = CreateBlockInfoPacket blockNumber status blockSize in
      bindE (BlockInfoPacket_Write packet []) (\<lambda>b. mp2_sendPacket E key sessionID b (binfo_Type packet) p))"

definition sendBlockRequestPacket ::
  "'st env \<Rightarrow> u32 \<Rightarrow> u32 \<Rightarrow> u32 \<Rightarrow> u32 \<Rightarrow> u32 \<Rightarrow> u8 \<Rightarrow> 'st Mp2SessionManager \<Rightarrow> 'st Mp2SessionManager result" where
  "sendBlockRequestPacket E key sessionID blockNumber start e fecIndex p =
     (let packet = CreateBlockRequestPacket blockNumber start e fecIndex in
      bindE (BlockRequestPacket_Write packet []) (\<lambda>b. mp2_sendPacket E key sessionID b (breq_Type packet) p))"

definition sendBlockDataPacket ::
  "'st env \<Rightarrow> u32 \<Rightarrow> u32 \<Rightarrow> u32 \<Rightarrow> u32 \<Rightarrow> u8 \<Rightarrow> bytes \<Rightarrow> 'st Mp2SessionManager \<Rightarrow> 'st Mp2SessionManager result" where
  "sendBlockDataPacket E key sessionID blockNumber dataNumber redundant data p =
     bindE (CreateBlockDataPacket blockNumber dataNumber sessionID redundant data) (\<lambda>packet.
     bindE (BlockDataPacket_Write packet []) (\<lambda>b. mp2_sendPacket E key sessionID b (bdata_Type packet) p))"

definition sendBlockFinPacket ::
  "'st env \<Rightarrow> u32 \<Rightarrow> u32 \<Rightarrow> 'st Mp2SessionManager \<Rightarrow> 'st Mp2SessionManager result" where
  "sendBlockFinPacket E key sessionID p =
     bindE (get_mp2 p key) (\<lambda>s.
     let packet = CreateBlockFinPacket sessionID (ms_blockNumber s) in
     bindE (BlockFinPacket_Write packet []) (\<lambda>b. mp2_sendPacket E key sessionID b (bfin_Type packet) p))"

definition sendControlPacket ::
  "'st env \<Rightarrow> u32 \<Rightarrow> u32 \<Rightarrow> bytes \<Rightarrow> 'st Mp2SessionManager \<Rightarrow> 'st Mp2SessionManager result" where
  "sendControlPacket E key sessionID data p =
     bindE (CreateControlPacket data) (\<lambda>packet.
     bindE (ControlPacket_Write packet []) (\<lambda>b. mp2_sendPacket E key sessionID b (ctrl_Type packet) p))"

definition sendNodeInfoPacket ::
  "'st env \<Rightarrow> u32 \<Rightarrow> u32 \<Rightarrow> NodeInfo list \<Rightarrow> 'st Mp2SessionManager \<Rightarrow> 'st Mp2SessionManager result" where
  "sendNodeInfoPacket E key sessionID nodeInfos p =
     (let packet = CreateNodeInfoPacket nodeInfos in
      bindE (NodeInfoPacket_Write packet []) (\<lambda>b. mp2_sendPacket E key sessionID b (ninfo_Type packet) p))"

definition sendNodeInfoAckPacket ::
  "'st env \<Rightarrow> u32 \<Rightarrow> u32 \<Rightarrow> u16 \<Rightarrow> 'st Mp2SessionManager \<Rightarrow> 'st Mp2SessionManager result" where
  "sendNodeInfoAckPacket E key sessionID numOfInfo p =
     (let packet = CreateNodeInfoAckPacket numOfInfo in
      bindE (NodeInfoAckPacket_Write packet []) (\<lambda>b. mp2_sendPacket E key sessionID b (niack_Type packet) p))"

definition session_ids :: "'st Mp2Session \<Rightarrow> u32 list" where
  "session_ids s = map fst (ms_sessionMap s)"

definition FindBlock ::
  "'st env \<Rightarrow> u32 \<Rightarrow> u32 \<Rightarrow> u32 \<Rightarrow> 'st Mp2SessionManager \<Rightarrow> 'st Mp2SessionManager result" where
  "FindBlock E key sessionID blockNumber p =
     bindE (get_mp2 p key) (\<lambda>s.
     sendBlockFindPacket E key sessionID blockNumber
       (put_mp2 p key (s\<lparr>ms_blockNumber := blockNumber,
          blockOwners := AList.update sessionID PEER_NOT_KNOWN (blockOwners s)\<rparr>)))"

definition BlockInfo ::
  "'st env \<Rightarrow> u32 \<Rightarrow> u32 \<Rightarrow> u32 \<Rightarrow> u32 \<Rightarrow> 'st Mp2SessionManager \<Rightarrow> 'st Mp2SessionManager result" where
  "BlockInfo E key blockNumber blockSize status p =
     bindE (get_mp2 p key) (\<lambda>s.
     foldE (\<lambda>sessionID p. sendBlockInfoPacket E key sessionID blockNumber blockSize status p)
       (session_ids s) (put_mp2 p key (s\<lparr>ms_blockNumber := blockNumber\<rparr>)))"

text \<open>The node table of the configuration; its four lists are indexed together.\<close>

definition config_nodeInfos :: "Config \<Rightarrow> NodeInfo list result" where
  "config_nodeInfos conf =
     foldE (\<lambda>i infos.
       bindE (go_index (PEER_ADDRS conf) i) (\<lambda>addr.
       bindE (Ip2int addr) (\<lambda>ip.
       bindE (go_index (PEER_PORTS conf) i) (\<lambda>port.
       bindE (go_index (NUM_OF_CHILDS conf) i) (\<lambda>n.
       bindE (go_index (OFFSET_OF_CHILDS conf) i) (\<lambda>off.
       Inr (infos @ [\<lparr>NodeIP = ip, Port = port, NumOfChilds = n, OffsetOfChild = off\<rparr>])))))))
       [0..<length (PEER_ADDRS conf)] []"

definition SendNodeInfo ::
  "'st env \<Rightarrow> u32 \<Rightarrow> u32 \<Rightarrow> 'st Mp2SessionManager \<Rightarrow> 'st Mp2SessionManager result" where
  "SendNodeInfo E key sessionID p =
     bindE (config_nodeInfos (e_conf E)) (\<lambda>nodeInfos. sendNodeInfoPacket E key sessionID nodeInfos p)"

text \<open>
  \<^verbatim>\<open>ReadControl\<close> polls until a control packet is there; it returns the length of the packet's data,
  which may be more than what fits into the caller's buffer.
\<close>

definition ReadControl ::
  "u32 \<Rightarrow> bytes \<Rightarrow> 'st Mp2SessionManager \<Rightarrow> (nat \<times> bytes \<times> 'st Mp2SessionManager) result" where
  "ReadControl key buf p =
     bindE (get_mp2 p key) (\<lambda>s.
     case controlRecvBuffer s of
       [] \<Rightarrow> if ms_goodbye s then Inr (0, buf, p) else Inl Blocked
     | packet # rest \<Rightarrow>
         Inr (length (ctrl_Data packet), go_copy buf (ctrl_Data packet), put_mp2 p key (s\<lparr>controlRecvBuffer := rest\<rparr>)))"

text \<open>
  The loop of \<^verbatim>\<open>WriteControl\<close>.  Offsets are 32 bit numbers; where the sum of offset and size wraps
  around the slice panics, so the offset grows in every round that goes on.
\<close>

function WriteControl_loop ::
  "'st env \<Rightarrow> u32 \<Rightarrow> bytes \<Rightarrow> u32 \<Rightarrow> 'st Mp2SessionManager \<Rightarrow> 'st Mp2SessionManager result" where
  "WriteControl_loop E key buf offset p =
     (let buf_len = of_nat (length buf) in
      if offset < buf_len
      then let sz = (if offset + of_nat PAYLOAD_SIZE \<le> buf_len then of_nat PAYLOAD_SIZE else buf_len - offset)
           in bindE (bindE (go_slice buf (unat offset) (unat (offset + sz))) (\<lambda>data.
                     bindE (get_mp2 p key) (\<lambda>s.
                     foldE (\<lambda>sessionID p. sendControlPacket E key sessionID data p) (session_ids s) p)))
                (WriteControl_loop E key buf (offset + sz))
      else Inr p)"
  by pat_completeness auto
termination
proof (relation "measure (\<lambda>(E, key, buf, offset, p). unat (of_nat (length buf) - offset :: u32))", goal_cases)
  case (2 E key buf offset p len sz p')
  have le: "unat offset \<le> unat (offset + sz)"
    using 2(4) by (auto simp: bindE_eq_Inr_iff go_slice_def split: if_splits)
  have sz: "sz \<noteq> 0" "offset + sz \<le> len"
    using 2(1,2,3) by (auto simp: PAYLOAD_SIZE_def split: if_splits)
  have "unat offset < unat (offset + sz)" using le sz(1) by (simp add: order_le_less word_unat_eq_iff [symmetric])
  then have "unat (len - (offset + sz)) < unat (len - offset)"
    using sz(2) 2(1,2) by (simp add: unat_minus_le word_le_nat_alt word_less_nat_alt)
  then show ?case using 2(1) by simp
qed simp

declare WriteControl_loop.simps [simp del]

definition WriteControl ::
  "'st env \<Rightarrow> u32 \<Rightarrow> bytes \<Rightarrow> 'st Mp2SessionManager \<Rightarrow> 'st Mp2SessionManager result" where
  "WriteControl E key buf p = WriteControl_loop E key buf 0 p"

definition Mp2Session_Close :: "'st quic \<Rightarrow> 'st Mp2Session \<Rightarrow> 'st Mp2Session" where
  "Mp2Session_Close q s = s\<lparr>ms_sessionMap := map (\<lambda>(sid, session). (sid, Session_Close q session)) (ms_sessionMap s)\<rparr>"

end
