(* ===== verification/Mp2_Manager.thy ===== *)
theory Mp2_Manager
  imports Mp2_State
begin

text \<open>
  The manager of the block layer (\<^verbatim>\<open>mp2bs-main/mp2session/mp2session_manager.go\<close>): connections to child and
  pull nodes, the table of nodes, block information, and reading a block.  Random numbers are arguments.  An
  operation that would wait for another goroutine gives \<open>Inl Blocked\<close>.
\<close>

section \<open>Connections\<close>

text \<open>The part of the loops below that creates the \<^verbatim>\<open>Mp2Session\<close> on the first connection.\<close>

definition join_mp2session :: "'st Mp2SessionManager \<Rightarrow> u32 \<Rightarrow> 'st Session \<Rightarrow> 'st Mp2SessionManager" where
  "join_mp2session p mp2ID session =
     (case mp2sessionMap p mp2ID of
        None \<Rightarrow>
          put_mp2 (p\<lparr>blockNumChannel := (blockNumChannel p)(mp2ID \<mapsto> []),
                     blockInfoChannel := (blockInfoChannel p)(mp2ID \<mapsto> []),
                     blockFinishFlag := (blockFinishFlag p)(mp2ID \<mapsto> [])\<rparr>)
            mp2ID ((CreateMp2Session (Some session))\<lparr>ms_key := mp2ID\<rparr>)
      | Some s \<Rightarrow> put_mp2 p mp2ID (AddSession s session))"

definition Mp2ConnectToChildren ::
  "'st env \<Rightarrow> u32 \<Rightarrow> (nat \<Rightarrow> nat) \<Rightarrow> 'st Mp2SessionManager \<Rightarrow> (u32 \<times> 'st Mp2SessionManager) result" where
  "Mp2ConnectToChildren E mp2ID intn p =
     bindE (foldE (\<lambda>(i, addr) p.
         bindE (Connect (e_conf E) (e_quic E) (e_dial E) (sessionManager p) addr) (\<lambda>session.
         let p = HandlerStart (join_mp2session p mp2ID session) mp2ID (SessionID session)
         in Inr (if peerId p = 1 then p\<lparr>stopSendCond := of_nat (intn i) * 1024 * 1024\<rparr> else p)))
       (enumerate 0 (childAddr p)) p) (\<lambda>p. Inr (mp2ID, p))"

definition Mp2Connect ::
  "'st env \<Rightarrow> u32 \<Rightarrow> (nat \<Rightarrow> nat) \<Rightarrow> string \<Rightarrow> 'st Mp2SessionManager \<Rightarrow> 'st Mp2SessionManager result" where
  "Mp2Connect E mp2ID intn topAddr p =
     bindE (Mp2ConnectToChildren E mp2ID intn (p\<lparr>childAddr := childAddr p @ [topAddr]\<rparr>)) (\<lambda>(mp2ID, p).
     Inr (p\<lparr>mp2IdToChildren := mp2ID\<rparr>))"

definition Mp2WriteControl ::
  "'st env \<Rightarrow> bytes \<Rightarrow> u32 \<Rightarrow> 'st Mp2SessionManager \<Rightarrow> 'st Mp2SessionManager result" where
  "Mp2WriteControl E b mp2ID p = bindE (get_mp2 p mp2ID) (\<lambda>_. WriteControl E mp2ID b p)"

definition Mp2ReadControl ::
  "bytes \<Rightarrow> u32 \<Rightarrow> 'st Mp2SessionManager \<Rightarrow> (nat \<times> bytes \<times> 'st Mp2SessionManager) result" where
  "Mp2ReadControl b mp2ID p = ReadControl mp2ID b p"

definition Mp2FindBlock :: "'st env \<Rightarrow> u32 \<Rightarrow> 'st Mp2SessionManager \<Rightarrow> 'st Mp2SessionManager result" where
  "Mp2FindBlock E blockNumber p =
     bindE (get_mp2 p (mp2IdForPull p)) (\<lambda>s.
     foldE (\<lambda>sessionID p. FindBlock E (mp2IdForPull p) sessionID blockNumber p) (session_ids s) p)"

text \<open>The second address of the table is skipped (a setting for tests in the source).\<close>

definition Mp2ConnectForPull ::
  "'st env \<Rightarrow> u32 \<Rightarrow> u32 \<Rightarrow> 'st Mp2SessionManager \<Rightarrow> 'st Mp2SessionManager result" where
  "Mp2ConnectForPull E mp2ID blockNumber p =
     bindE (foldE (\<lambda>(idx, addr) p.
         if idx = 1 then Inr p
         else bindE (Connect (e_conf E) (e_quic E) (e_dial E) (sessionManager p) addr) (\<lambda>session.
              Inr (HandlerStart (join_mp2session p mp2ID session) mp2ID (SessionID session))))
       (enumerate 0 (allAddr p)) p) (\<lambda>p.
     bindE (Mp2WriteControl E (map byte_of_char ''Pull Mode'') mp2ID
              (p\<lparr>mp2IdForPull := mp2ID, peerPushMode := False\<rparr>)) (\<lambda>p.
     bindE (chan_send 1 (blockFinishFlag p (mp2IdFromParent p)) True) (\<lambda>ch.
     let p = p\<lparr>blockFinishFlag := (blockFinishFlag p)(mp2IdFromParent p \<mapsto> ch)\<rparr> in
     bindE (get_mp2 p (mp2IdFromParent p)) (\<lambda>s.
     bindE (foldE (\<lambda>sessionID p. sendBlockFinPacket E (mp2IdFromParent p) sessionID p) (session_ids s) p) (\<lambda>p.
     Mp2FindBlock E blockNumber p)))))"

text \<open>\<^verbatim>\<open>Mp2Accept\<close> with the session that \<^verbatim>\<open>sessionManager.Accept()\<close> gave.\<close>

definition Mp2Accept ::
  "u32 \<Rightarrow> 'st Session \<Rightarrow> 'st Mp2SessionManager \<Rightarrow> u32 \<times> 'st Mp2SessionManager" where
  "Mp2Accept mp2ID session p =
     (let p = put_mp2 (p\<lparr>blockNumChannel := (blockNumChannel p)(mp2ID \<mapsto> []),
                         blockInfoChannel := (blockInfoChannel p)(mp2ID \<mapsto> []),
                         blockFinishFlag := (blockFinishFlag p)(mp2ID \<mapsto> [])\<rparr>)
                mp2ID ((CreateMp2Session (Some session))\<lparr>ms_key := mp2ID\<rparr>)
      in (mp2ID, HandlerStart p mp2ID (SessionID session)))"

section \<open>Block information\<close>

text \<open>
  \<^verbatim>\<open>for _, s := range p.blockList\<close> runs over the values of the map, which are sizes, and compares
  them with the block number.
\<close>

definition Mp2SendBlockInfo ::
  "'st env \<Rightarrow> u32 \<Rightarrow> u32 \<Rightarrow> u32 \<Rightarrow> 'st Mp2SessionManager \<Rightarrow> 'st Mp2SessionManager result" where
  "Mp2SendBlockInfo E mp2ID blockNumber blockSize p =
     (let status = (if blockNumber \<in> set (map snd (blockList p)) then PEER_HAS_BLOCK else PEER_HAS_NO_BLOCK)
      in BlockInfo E mp2ID blockNumber blockSize status p)"

definition Mp2ReceiveBlockFind :: "u32 \<Rightarrow> 'st Mp2SessionManager \<Rightarrow> (u32 \<times> 'st Mp2SessionManager) result" where
  "Mp2ReceiveBlockFind mp2ID p =
     bindE (chan_recv (blockNumChannel p mp2ID)) (\<lambda>(blockNumber, rest).
     Inr (blockNumber, p\<lparr>blockNumChannel := (blockNumChannel p)(mp2ID \<mapsto> rest)\<rparr>))"

text \<open>One round of the loop of \<^verbatim>\<open>Mp2ReceiveBlockInfo\<close>.\<close>

definition Mp2ReceiveBlockInfo :: "'st env \<Rightarrow> u32 \<Rightarrow> 'st Mp2SessionManager \<Rightarrow> 'st Mp2SessionManager result" where
  "Mp2ReceiveBlockInfo E mp2ID p =
     bindE (chan_recv (blockInfoChannel p mp2ID)) (\<lambda>(packet, rest).
     bindE (chan_send 1 (Some (receivedBlockChannel p)) (binfo_BlockNumber packet)) (\<lambda>ch.
     let p = p\<lparr>blockInfoChannel := (blockInfoChannel p)(mp2ID \<mapsto> rest),
               blockList := AList.update (binfo_BlockNumber packet) (binfo_BlockSize packet) (blockList p),
               receivedBlockChannel := ch\<rparr>
     in if mp2IdToChildren p \<noteq> 0
        then bindE (chan_recv (Some (nodeInfoChan p))) (\<lambda>(_, rest).
             bindE (Mp2SendBlockInfo E (mp2IdToChildren p) (binfo_BlockNumber packet) (binfo_BlockSize packet)
                      (p\<lparr>nodeInfoChan := rest\<rparr>)) (\<lambda>p.
             bindE (chan_send 1 (Some (nodeInfoChan p)) True) (\<lambda>ch. Inr (p\<lparr>nodeInfoChan := ch\<rparr>))))
        else Inr p))"

text \<open>
  One round of the loop of \<^verbatim>\<open>Mp2Listen\<close>, after \<^verbatim>\<open>Mp2Accept\<close> gave \<open>mp2Id\<close>.  \<open>buf\<close> is the buffer of
  1024 bytes, which is not cleared between rounds.
\<close>

definition contains_text :: "bytes \<Rightarrow> string \<Rightarrow> bool" where
  "contains_text buf sub \<longleftrightarrow> (\<exists>i \<in> set [0..<Suc (length buf)]. take (length sub) (drop i buf) = map byte_of_char sub)"

definition Mp2Listen_round ::
  "'st env \<Rightarrow> u32 \<Rightarrow> bytes \<Rightarrow> 'st Mp2SessionManager \<Rightarrow> (bytes \<times> 'st Mp2SessionManager) result" where
  "Mp2Listen_round E mp2Id buf p =
     bindE (Mp2ReadControl buf mp2Id p) (\<lambda>(_, buf, p).
     if contains_text buf ''Push Mode''
     then Inr (buf, go_spawn (p\<lparr>mp2IdFromParent := mp2Id\<rparr>) (ReceiveBlockInfo mp2Id))
     else if contains_text buf ''Pull Mode''
     then bindE (Mp2ReceiveBlockFind mp2Id (p\<lparr>mp2IdForPull := mp2Id\<rparr>)) (\<lambda>(blockNumber, p).
          case map_of (blockList p) blockNumber of
            Some sz \<Rightarrow> bindE (Mp2SendBlockInfo E (mp2IdForPull p) blockNumber sz p) (\<lambda>p. Inr (buf, p))
          | None \<Rightarrow> Inr (buf, p))
     else Inr (buf, p))"

definition AddSendBuffer :: "bytes \<Rightarrow> 'st Mp2SessionManager \<Rightarrow> 'st Mp2SessionManager" where
  "AddSendBuffer buf p = p\<lparr>mp_sendBuffer := mp_sendBuffer p @ buf\<rparr>"

text \<open>\<^verbatim>\<open>Mp2SendBlock\<close> for a file with the contents \<open>file\<close>, read in pieces of 1024 bytes.\<close>

definition Mp2SendBlock ::
  "'st env \<Rightarrow> bytes \<Rightarrow> u32 \<Rightarrow> 'st Mp2SessionManager \<Rightarrow> 'st Mp2SessionManager result" where
  "Mp2SendBlock E file blockNumber p =
     (let sz = of_nat (length file) in
      bindE (chan_recv (Some (nodeInfoChan p))) (\<lambda>(_, rest).
      bindE (Mp2SendBlockInfo E (mp2IdToChildren p) blockNumber sz
               (p\<lparr>blockList := AList.update blockNumber sz (blockList p), nodeInfoChan := rest\<rparr>)) (\<lambda>p.
      let p = fold AddSendBuffer (chunks 1024 file) p in
      bindE (chan_send 1 (Some (nodeInfoChan p)) True) (\<lambda>ch. Inr (p\<lparr>nodeInfoChan := ch\<rparr>)))))"

text \<open>
  \<^verbatim>\<open>Mp2Test\<close> with the size that it computes in floating point as the argument \<open>totalSize\<close>, and the 1024 random
  bytes as \<open>buf\<close>.  The length of a piece stays 1024 until the last round.
\<close>

function Mp2Test_loop :: "nat \<Rightarrow> bytes \<Rightarrow> nat \<Rightarrow> 'st Mp2SessionManager \<Rightarrow> 'st Mp2SessionManager" where
  "Mp2Test_loop totalSize buf sentSize p =
     (if sentSize < totalSize
      then let n = (if totalSize - sentSize \<le> 1024 then totalSize - sentSize else 1024)
           in Mp2Test_loop totalSize buf (sentSize + n) (AddSendBuffer (take n buf) p)
      else p)"
  by pat_completeness auto
termination
  by (relation "measure (\<lambda>(totalSize, _, sentSize, _). totalSize - sentSize)") auto

declare Mp2Test_loop.simps [simp del]

definition Mp2Test :: "'st env \<Rightarrow> nat \<Rightarrow> bytes \<Rightarrow> 'st Mp2SessionManager \<Rightarrow> 'st Mp2SessionManager result" where
  "Mp2Test E totalSize buf p =
     (let blockNumber = 100; sz = of_nat totalSize in
      bindE (chan_recv (Some (nodeInfoChan p))) (\<lambda>(_, rest).
      bindE (Mp2SendBlockInfo E (mp2IdToChildren p) blockNumber sz
               (p\<lparr>blockList := AList.update blockNumber sz (blockList p), nodeInfoChan := rest\<rparr>)) (\<lambda>p.
      let p = Mp2Test_loop totalSize buf 0 p in
      bindE (chan_send 1 (Some (nodeInfoChan p)) True) (\<lambda>ch. Inr (p\<lparr>nodeInfoChan := ch\<rparr>)))))"

definition Mp2GetBlockInfo :: "'st Mp2SessionManager \<Rightarrow> (u32 \<times> u32 \<times> 'st Mp2SessionManager) result" where
  "Mp2GetBlockInfo p =
     bindE (chan_recv (Some (receivedBlockChannel p))) (\<lambda>(blockNumber, rest).
     Inr (blockNumber, (case map_of (blockList p) blockNumber of None \<Rightarrow> 0 | Some sz \<Rightarrow> sz),
          p\<lparr>receivedBlockChannel := rest\<rparr>))"

definition Mp2GetPeerStatus :: "'st Mp2SessionManager \<Rightarrow> string" where
  "Mp2GetPeerStatus p = peerModeStatus p"

section \<open>Nodes\<close>

definition Mp2SendNodeInfoForAnchor :: "'st env \<Rightarrow> 'st Mp2SessionManager \<Rightarrow> 'st Mp2SessionManager result" where
  "Mp2SendNodeInfoForAnchor E p =
     bindE (Mp2WriteControl E (map byte_of_char ''Push Mode'') (mp2IdToChildren p) p) (\<lambda>p.
     bindE (get_mp2 p (mp2IdToChildren p)) (\<lambda>s.
     foldE (\<lambda>sessionID p. SendNodeInfo E (mp2IdToChildren p) sessionID p) (session_ids s) p))"

definition Mp2SendNodeInfo ::
  "'st env \<Rightarrow> u32 \<Rightarrow> (nat \<Rightarrow> nat) \<Rightarrow> NodeInfo list \<Rightarrow> 'st Mp2SessionManager \<Rightarrow> 'st Mp2SessionManager result" where
  "Mp2SendNodeInfo E mp2ID intn nodeInfos p =
     (if length (childAddr p) \<noteq> 0
      then bindE (Mp2ConnectToChildren E mp2ID intn p) (\<lambda>(mp2ID, p).
           bindE (Mp2WriteControl E (map byte_of_char ''Push Mode'') mp2ID (p\<lparr>mp2IdToChildren := mp2ID\<rparr>)) (\<lambda>p.
           bindE (get_mp2 p (mp2IdToChildren p)) (\<lambda>s.
           foldE (\<lambda>sessionID p.
               sendNodeInfoPacket E (mp2IdToChildren p) sessionID nodeInfos
                 (p\<lparr>nodeInfoFlag := AList.update sessionID False (nodeInfoFlag p)\<rparr>))
             (session_ids s) p)))
      else Inr p)"

text \<open>
  Whether a local address is the one of a node.  The port is parsed as a signed number of 16 bits
  and the error of \<^verbatim>\<open>ParseInt\<close> is ignored.
\<close>

definition is_my_node :: "string \<Rightarrow> NodeInfo \<Rightarrow> bool result" where
  "is_my_node nicInfo nodeInfo =
     (let ip = Split (CHR '':'') nicInfo in
      bindE (go_index ip 1) (\<lambda>portText.
      bindE (go_index ip 0) (\<lambda>host.
      Inr (Int2ip (NodeIP nodeInfo) = host \<and> Port nodeInfo = of_int (ParseInt16 portText)))))"

text \<open>The inner loop leaves at the first address that matches.\<close>

fun find_my_nic :: "string list \<Rightarrow> NodeInfo \<Rightarrow> bool result" where
  "find_my_nic [] nodeInfo = Inr False"
| "find_my_nic (nic # nics) nodeInfo =
     bindE (is_my_node nic nodeInfo) (\<lambda>b. if b then Inr True else find_my_nic nics nodeInfo)"

definition find_my_index :: "string list \<Rightarrow> NodeInfo list \<Rightarrow> nat result" where
  "find_my_index nics nodeInfos =
     foldE (\<lambda>(idx, nodeInfo) myIdx. bindE (find_my_nic nics nodeInfo) (\<lambda>b. Inr (if b then idx else myIdx)))
       (enumerate 0 nodeInfos) 0"

definition node_address :: "NodeInfo \<Rightarrow> string" where
  "node_address nodeInfo = Int2ip (NodeIP nodeInfo) @ CHR '':'' # FormatInt (unat (Port nodeInfo))"

text \<open>
  The bounds of the loop over the children are bytes: \<^verbatim>\<open>endChildIdx\<close> wraps around, and then the
  loop does not run.
\<close>

definition Mp2SetNodeInfo :: "Config \<Rightarrow> NodeInfo list \<Rightarrow> 'st Mp2SessionManager \<Rightarrow> 'st Mp2SessionManager result" where
  "Mp2SetNodeInfo conf nodeInfos p =
     bindE (find_my_index (NIC_ADDRS conf) nodeInfos) (\<lambda>myIdx.
     bindE (go_index nodeInfos myIdx) (\<lambda>me.
     bindE (if NumOfChilds me \<noteq> 0
            then let firstChildIdx = OffsetOfChild me; endChildIdx = firstChildIdx + NumOfChilds me in
                 foldE (\<lambda>i addrs. bindE (go_index nodeInfos i) (\<lambda>node. Inr (addrs @ [node_address node])))
                   [unat firstChildIdx..<unat endChildIdx] (childAddr p)
            else Inr (childAddr p)) (\<lambda>children.
     Inr (p\<lparr>childAddr := children,
            allAddr := allAddr p @ map (\<lambda>(i, node). node_address node)
              (filter (\<lambda>(i, node). i \<noteq> myIdx) (enumerate 0 nodeInfos))\<rparr>))))"

section \<open>Reading a block\<close>

definition AddRecvBuffer :: "Segment \<Rightarrow> 'st Mp2SessionManager \<Rightarrow> 'st Mp2SessionManager result" where
  "AddRecvBuffer segment p =
     (case mp_recvBuffer p (seg_BlockNumber segment) of
        None \<Rightarrow> Inl NilDereference
      | Some b \<Rightarrow> Inr (p\<lparr>mp_recvBuffer := (mp_recvBuffer p)(seg_BlockNumber segment \<mapsto> PushSegment b segment)\<rparr>))"

text \<open>
  \<^verbatim>\<open>Mp2ReadBlock\<close>: the segment at the front of the queue is read, and removed once it is read to its
  end.  While there is no segment, or the front segment has no data, the call waits.
\<close>

definition Mp2ReadBlock ::
  "bytes \<Rightarrow> u32 \<Rightarrow> 'st Mp2SessionManager \<Rightarrow> (nat \<times> bytes \<times> 'st Mp2SessionManager) result" where
  "Mp2ReadBlock buf blockNumber p =
     (case mp_recvBuffer p blockNumber of
        None \<Rightarrow> Inl NilDereference
      | Some b \<Rightarrow>
          bindE (if BlockBuffer_GetLength b > 0
                 then bindE (ReadSegment b) (\<lambda>segment.
                      if \<not> hasDataToRead segment then Inl Blocked
                      else bindE (PopData segment buf) (\<lambda>(readLen, complete, buf, segment).
                           let b = b\<lparr>bb_buffer := (bb_buffer b)[0 := segment]\<rparr> in
                           if complete
                           then bindE (RemoveSegment b) (\<lambda>b.
                                Inr (readLen, buf, b, if Last segment then p\<lparr>mp_goodbye := True\<rparr> else p))
                           else Inr (readLen, buf, b, p)))
                 else if mp_goodbye p then Inr (0, buf, b, p) else Inl Blocked) (\<lambda>(readLen, buf, b, p).
          Inr (readLen, buf,
               p\<lparr>mp_recvBuffer := (mp_recvBuffer p)(blockNumber \<mapsto> b\<lparr>readBytes := readBytes b + of_nat readLen\<rparr>),
                 peerModeStatus := (if peerPushMode p then ''Push Mode: Download from parent!''
                                    else ''Pull Mode: Download from pull node(s)!'')\<rparr>)))"

section \<open>Closing\<close>

definition close_mp2 :: "'st env \<Rightarrow> u32 \<Rightarrow> 'st Mp2SessionManager \<Rightarrow> 'st Mp2SessionManager result" where
  "close_mp2 E mp2ID p =
     bindE (get_mp2 p mp2ID) (\<lambda>s. Inr (put_mp2 p mp2ID (Mp2Session_Close (e_quic E) s)))"

definition await_finish :: "u32 \<Rightarrow> 'st Mp2SessionManager \<Rightarrow> 'st Mp2SessionManager result" where
  "await_finish mp2ID p =
     bindE (chan_recv (blockFinishFlag p mp2ID)) (\<lambda>(_, rest).
     Inr (p\<lparr>blockFinishFlag := (blockFinishFlag p)(mp2ID \<mapsto> rest)\<rparr>))"

definition Mp2Close :: "'st env \<Rightarrow> 'st Mp2SessionManager \<Rightarrow> 'st Mp2SessionManager result" where
  "Mp2Close E p =
     bindE (if blockFinishFlag p (mp2IdFromParent p) \<noteq> None
            then if peerId p = 0 then close_mp2 E (mp2IdFromParent p) p
                 else bindE (await_finish (mp2IdFromParent p) p) (close_mp2 E (mp2IdFromParent p))
            else Inr p) (\<lambda>p.
     bindE (if blockFinishFlag p (mp2IdToChildren p) \<noteq> None
            then bindE (await_finish (mp2IdToChildren p) p) (close_mp2 E (mp2IdToChildren p))
            else Inr p) (\<lambda>p.
     if blockFinishFlag p (mp2IdForPull p) \<noteq> None
     then bindE (await_finish (mp2IdForPull p) p) (close_mp2 E (mp2IdForPull p))
     else Inr p))"

end
