(* ===== verification/Mp2_Session.thy ===== *)
theory Mp2_Session
  imports Mp2_Manager
begin

text \<open>
  The packet handlers of a block session and its goroutines (\<^verbatim>\<open>mp2bs-main/mp2session/mp2session.go\<close>): the
  session handler that cuts packets out of the session's byte stream, the requests for the segments of a block,
  the sending of block data, and the timer.  A loop that waits in the middle is modelled by its start and its
  rounds.
\<close>

section \<open>Handlers\<close>

definition handleBlockFindPacket ::
  "u32 \<Rightarrow> BlockFindPacket \<Rightarrow> 'st Mp2SessionManager \<Rightarrow> 'st Mp2SessionManager result" where
  "handleBlockFindPacket key packet p =
     bindE (chan_send 1 (blockNumChannel p key) (bfind_BlockNumber packet)) (\<lambda>ch.
     Inr (p\<lparr>blockNumChannel := (blockNumChannel p)(key \<mapsto> ch)\<rparr>))"

definition count_answered :: "(u32 \<times> u32) list \<Rightarrow> nat" where
  "count_answered owners =
     length (filter (\<lambda>(_, status). status = PEER_HAS_BLOCK \<or> status = PEER_HAS_NO_BLOCK) owners)"

text \<open>The status in the packet is not looked at: the sender is recorded as having the block.\<close>

definition handleBlockInfoPacket ::
  "'st env \<Rightarrow> u32 \<Rightarrow> BlockInfoPacket \<Rightarrow> u32 \<Rightarrow> 'st Mp2SessionManager \<Rightarrow> 'st Mp2SessionManager result" where
  "handleBlockInfoPacket E key packet sessionID p =
     bindE (get_mp2 p key) (\<lambda>s.
     let bn = binfo_BlockNumber packet;
         s = s\<lparr>ms_blockNumber := bn, blockOwners := AList.update sessionID PEER_HAS_BLOCK (blockOwners s)\<rparr>;
         p = put_mp2 p key s
     in if count_answered (blockOwners s) = length (blockOwners s)
        then bindE (chan_send 1 (blockInfoChannel p key) packet) (\<lambda>ch.
             let b = (case mp_recvBuffer p bn of None \<Rightarrow> CreateBlockBuffer | Some b \<Rightarrow> b);
                 p = p\<lparr>blockInfoChannel := (blockInfoChannel p)(key \<mapsto> ch),
                       mp_recvBuffer := (mp_recvBuffer p)(bn \<mapsto> b)\<rparr>;
                 p = go_spawn p (if e_fec E then SendFecBlockRequest key bn (binfo_BlockSize packet)
                                 else SendBlockRequest key bn (binfo_BlockSize packet) (lastRecvBytes b))
             in Inr (go_spawn p (Timer key)))
        else Inr p)"

definition handleBlockRequestPacket ::
  "'st env \<Rightarrow> u32 \<Rightarrow> BlockRequestPacket \<Rightarrow> u32 \<Rightarrow> 'st Mp2SessionManager \<Rightarrow> 'st Mp2SessionManager" where
  "handleBlockRequestPacket E key packet sessionID p =
     (let p = go_spawn p (SendBlockData key sessionID (breq_BlockNumber packet) (breq_StartDataNumber packet)
                            (breq_EndDataNumber packet) (breq_FecIndex packet))
      in if e_fec E
         then go_spawn p (SendBlockRedData key sessionID (breq_BlockNumber packet) (breq_StartDataNumber packet)
                            (breq_EndDataNumber packet) (breq_FecIndex packet))
         else p)"

text \<open>The first segment of the queue that a data packet belongs to.\<close>

definition belongs_to :: "BlockDataPacket \<Rightarrow> Segment \<Rightarrow> bool" where
  "belongs_to packet g \<longleftrightarrow>
     bdata_BlockNumber packet = seg_BlockNumber g \<and>
     (if bdata_Redundant packet = FEC_SOURCE_DATA
      then startDataNumber g \<le> bdata_DataNumber packet \<and> bdata_DataNumber packet \<le> endDataNumber g
      else startRedDataNumber g \<le> bdata_DataNumber packet \<and> bdata_DataNumber packet \<le> endRedDataNumber g)"

fun find_segment :: "BlockDataPacket \<Rightarrow> Segment list \<Rightarrow> nat option" where
  "find_segment packet [] = None"
| "find_segment packet (g # gs) =
     (if belongs_to packet g then Some 0 else map_option Suc (find_segment packet gs))"

text \<open>A completed segment gives its session back to the semaphore, once.\<close>

definition release_session :: "Segment \<Rightarrow> 'st Mp2Session \<Rightarrow> (Segment \<times> 'st Mp2Session) result" where
  "release_session g s =
     (if Complete g \<and> \<not> FecFinish g
      then case sem s of
             None \<Rightarrow> Inl Blocked
           | Some (cap, ids) \<Rightarrow>
               bindE (chan_send cap (Some ids) (seg_SessionID g)) (\<lambda>ids.
               Inr (g\<lparr>FecFinish := True\<rparr>, s\<lparr>sem := Some (cap, ids)\<rparr>))
      else Inr (g, s))"

text \<open>
  The handler as one step.  The code holds no lock while it searches the queue; the search in small steps, beside reads of the
  application, is in \<open>Mp2_Race\<close>.
\<close>

definition handleBlockDataPacket ::
  "u32 \<Rightarrow> BlockDataPacket \<Rightarrow> 'st Mp2SessionManager \<Rightarrow> 'st Mp2SessionManager result" where
  "handleBlockDataPacket key packet p =
     bindE (get_mp2 p key) (\<lambda>s.
     case mp_recvBuffer p (ms_blockNumber s) of
       None \<Rightarrow> Inl NilDereference
     | Some b \<Rightarrow>
         (case find_segment packet (bb_buffer b) of
            None \<Rightarrow> Inr p
          | Some i \<Rightarrow>
              let g = bb_buffer b ! i in
              bindE (if bdata_Redundant packet = FEC_SOURCE_DATA
                     then bindE (PushData g (bdata_BlockNumber packet) (bdata_DataNumber packet) (bdata_Data packet)) (\<lambda>(_, g).
                          Inr (g, AddSendBuffer (bdata_Data packet) p,
                               b\<lparr>lastRecvBytes := lastRecvBytes b + of_nat (length (bdata_Data packet))\<rparr>))
                     else bindE (PushRedData g (bdata_BlockNumber packet) (bdata_DataNumber packet) (bdata_Data packet)) (\<lambda>(_, g).
                          Inr (g, p, b))) (\<lambda>(g, p, b).
              bindE (release_session g s) (\<lambda>(g, s).
              Inr (put_mp2 (p\<lparr>mp_recvBuffer := (mp_recvBuffer p)(ms_blockNumber s \<mapsto>
                     b\<lparr>bb_buffer := (bb_buffer b)[i := g]\<rparr>)\<rparr>) key s)))))"

definition handleBlockDataAckPacket :: "BlockDataAckPacket \<Rightarrow> 'st Mp2SessionManager \<Rightarrow> 'st Mp2SessionManager" where
  "handleBlockDataAckPacket packet p = p"

definition handleBlockFinPacket ::
  "u32 \<Rightarrow> BlockFinPacket \<Rightarrow> 'st Mp2SessionManager \<Rightarrow> 'st Mp2SessionManager result" where
  "handleBlockFinPacket key packet p =
     bindE (chan_send 1 (blockFinishFlag p key) True) (\<lambda>ch.
     Inr (p\<lparr>blockFinishFlag := (blockFinishFlag p)(key \<mapsto> ch)\<rparr>))"

definition handleControlPacket ::
  "u32 \<Rightarrow> ControlPacket \<Rightarrow> 'st Mp2SessionManager \<Rightarrow> 'st Mp2SessionManager result" where
  "handleControlPacket key packet p =
     bindE (get_mp2 p key) (\<lambda>s.
     Inr (put_mp2 p key (s\<lparr>controlRecvBuffer := controlRecvBuffer s @ [packet]\<rparr>)))"

definition handleNodeInfoPacket ::
  "'st env \<Rightarrow> u32 \<Rightarrow> (nat \<Rightarrow> nat) \<Rightarrow> u32 \<Rightarrow> NodeInfoPacket \<Rightarrow> u32 \<Rightarrow> 'st Mp2SessionManager \<Rightarrow>
   'st Mp2SessionManager result" where
  "handleNodeInfoPacket E mp2ID intn key packet sessionID p =
     bindE (Mp2SetNodeInfo (e_conf E) (ninfo_NodeInfos packet) p) (\<lambda>p.
     bindE (Mp2SendNodeInfo E mp2ID intn (ninfo_NodeInfos packet) p) (\<lambda>p.
     sendNodeInfoAckPacket E key sessionID (of_nat (length (ninfo_NodeInfos packet))) p))"

text \<open>The value is sent only while \<^verbatim>\<open>nodeInfoChan\<close> is empty.\<close>

definition handleNodeInfoAckPacket ::
  "NodeInfoAckPacket \<Rightarrow> u32 \<Rightarrow> 'st Mp2SessionManager \<Rightarrow> 'st Mp2SessionManager" where
  "handleNodeInfoAckPacket packet sessionID p =
     (let p = p\<lparr>nodeInfoFlag := AList.update sessionID True (nodeInfoFlag p)\<rparr>
      in if list_all snd (nodeInfoFlag p) \<and> length (nodeInfoChan p) = 0
         then p\<lparr>nodeInfoChan := [True]\<rparr> else p)"

section \<open>Dispatch\<close>

text \<open>
  \<^verbatim>\<open>parsePacket\<close>; \<open>rnd\<close> and \<open>intn\<close> are the random numbers of the connections that a node information
  packet leads to.
\<close>

definition parsePacket ::
  "'st env \<Rightarrow> u32 \<Rightarrow> (nat \<Rightarrow> nat) \<Rightarrow> u32 \<Rightarrow> u8 \<Rightarrow> bytes \<Rightarrow> u32 \<Rightarrow> 'st Mp2SessionManager \<Rightarrow>
   'st Mp2SessionManager result" where
  "parsePacket E rnd intn key packetType packet sessionID p =
     (if packetType = BLOCK_FIND_PACKET
      then bindE (ParseBlockFindPacket packet) (\<lambda>(packet, _). handleBlockFindPacket key packet p)
      else if packetType = BLOCK_INFO_PACKET
      then bindE (ParseBlockInfoPacket packet) (\<lambda>(packet, _). handleBlockInfoPacket E key packet sessionID p)
      else if packetType = BLOCK_REQUEST_PACKET
      then bindE (ParseBlockRequestPacket packet) (\<lambda>(packet, _). Inr (handleBlockRequestPacket E key packet sessionID p))
      else if packetType = BLOCK_DATA_PACKET
      then bindE (ParseBlockDataPacket packet) (\<lambda>(packet, _).
           bindE (get_mp2 p key) (\<lambda>s.
           bindE (chan_send 1 (Some (noTimeoutChan s)) True) (\<lambda>ch.
           handleBlockDataPacket key packet (put_mp2 p key (s\<lparr>noTimeoutChan := ch\<rparr>)))))
      else if packetType = BLOCK_DATA_ACK_PACKET
      then bindE (ParseBlockDataAckPacket packet) (\<lambda>(packet, _). Inr (handleBlockDataAckPacket packet p))
      else if packetType = BLOCK_FIN_PACKET
      then bindE (ParseBlockFinPacket packet) (\<lambda>(packet, _). handleBlockFinPacket key packet p)
      else if packetType = CONTROL_PACKET
      then bindE (ParseControlPacket packet) (\<lambda>(packet, _). handleControlPacket key packet p)
      else if packetType = NODE_INFO_PACKET
      then bindE (ParseNodeInfoPacket packet) (\<lambda>(packet, _). handleNodeInfoPacket E rnd intn key packet sessionID p)
      else if packetType = NODE_INFO_ACK_PACKET
      then bindE (ParseNodeInfoAckPacket packet) (\<lambda>(packet, _). Inr (handleNodeInfoAckPacket packet sessionID p))
      else Inl (Panic ''Mp2Session.parsePacket(): Unknown packet type''))"

text \<open>A read of \<^verbatim>\<open>buf[i:j]\<close> from a session.\<close>

definition read_session ::
  "'st Session \<Rightarrow> bytes \<Rightarrow> nat \<Rightarrow> nat \<Rightarrow> nat \<Rightarrow> (bytes \<times> 'st Session) result" where
  "read_session session buf i j n =
     bindE (go_slice buf i j) (\<lambda>part.
     case Session_ReadWithSize session part n of
       None \<Rightarrow> Inl Blocked
     | Some (_, part, session) \<Rightarrow> Inr (take i buf @ part @ drop j buf, session))"

text \<open>
  One round of \<^verbatim>\<open>sessionHandler\<close>: the result is \<open>False\<close> when the loop ends.  The second size is
  computed in 16 bits, but for a length below 3 the slice has panicked before.
\<close>

definition sessionHandler_round ::
  "'st env \<Rightarrow> u32 \<Rightarrow> (nat \<Rightarrow> nat) \<Rightarrow> u32 \<Rightarrow> u32 \<Rightarrow> 'st Mp2SessionManager \<Rightarrow> (bool \<times> 'st Mp2SessionManager) result" where
  "sessionHandler_round E rnd intn key sessionID p =
     bindE (get_mp2 p key) (\<lambda>s.
     case map_of (ms_sessionMap s) sessionID of
       None \<Rightarrow> Inl NilDereference
     | Some session \<Rightarrow>
         bindE (read_session session (zero_buffer (e_conf E)) 0 3 3) (\<lambda>(buf, session).
         bindE (packet_header buf) (\<lambda>(packetType, packetLength).
         if packetType = 0 \<and> packetLength = 0
         then Inr (False, put_mp2 p key (s\<lparr>ms_sessionMap := AList.update sessionID session (ms_sessionMap s)\<rparr>))
         else bindE (read_session session buf 3 (unat packetLength) (unat (packetLength - 3))) (\<lambda>(buf, session).
              bindE (parsePacket E rnd intn key packetType buf (SessionID session)
                       (put_mp2 p key (s\<lparr>ms_sessionMap := AList.update sessionID session (ms_sessionMap s)\<rparr>))) (\<lambda>p.
              Inr (True, p))))))"

section \<open>Requesting a block\<close>

definition owners_with_block :: "(u32 \<times> u32) list \<Rightarrow> u32 list" where
  "owners_with_block owners = map fst (filter (\<lambda>(_, status). status = PEER_HAS_BLOCK) owners)"

definition sendBlockRequest_start :: "u32 \<Rightarrow> 'st Mp2SessionManager \<Rightarrow> 'st Mp2SessionManager result" where
  "sendBlockRequest_start key p =
     bindE (get_mp2 p key) (\<lambda>s.
     let ids = owners_with_block (blockOwners s)
     in Inr (put_mp2 p key (s\<lparr>sem := Some (length ids, ids)\<rparr>)))"

text \<open>The range of data numbers and the size of the segment at an offset, in 32 bits.\<close>

definition segment_at :: "u32 \<Rightarrow> u32 \<Rightarrow> u32 \<times> u32 \<times> u32 \<times> bool" where
  "segment_at blockSize offset =
     (let sz = (if blockSize - offset \<ge> of_nat SEGMENT_SIZE then of_nat SEGMENT_SIZE else blockSize - offset);
          start = offset div of_nat PAYLOAD_SIZE;
          numData = of_nat (ceil_div (unat sz) PAYLOAD_SIZE)
      in (sz, start, start + numData - 1, offset + sz = blockSize))"

text \<open>
  One round of the loop of \<^verbatim>\<open>sendBlockRequest\<close>, for \<open>offset < blockSize\<close>: it takes a session from the
  semaphore, creates the segment and requests it; the result holds the next offset.
\<close>

definition sendBlockRequest_round ::
  "'st env \<Rightarrow> u32 \<Rightarrow> u32 \<Rightarrow> u32 \<Rightarrow> u32 \<Rightarrow> u32 \<Rightarrow> 'st Mp2SessionManager \<Rightarrow> (u32 \<times> 'st Mp2SessionManager) result" where
  "sendBlockRequest_round E key blockNumber blockSize offset idx p =
     bindE (get_mp2 p key) (\<lambda>s.
     bindE (chan_recv (map_option snd (sem s))) (\<lambda>(selectedSessionID, ids).
     let (sz, start, e, lastSegment) = segment_at blockSize offset;
         s = s\<lparr>sem := map_option (\<lambda>(cap, _). (cap, ids)) (sem s),
               blockOwners := AList.update selectedSessionID PEER_DOWNLOADING (blockOwners s)\<rparr>;
         segment = CreateSegment blockNumber selectedSessionID idx start e sz lastSegment
     in bindE (AddRecvBuffer segment (put_mp2 p key s)) (\<lambda>p.
        bindE (sendBlockRequestPacket E key selectedSessionID blockNumber start e 0 p) (\<lambda>p.
        Inr (offset + sz, p)))))"

text \<open>
  \<^verbatim>\<open>sendFecBlockRequest\<close>, for the mode with redundancy: one session in the semaphore; every segment
  is requested from all peers that have the block.
\<close>

definition sendFecBlockRequest_start :: "u32 \<Rightarrow> 'st Mp2SessionManager \<Rightarrow> 'st Mp2SessionManager result" where
  "sendFecBlockRequest_start key p =
     bindE (get_mp2 p key) (\<lambda>s.
     Inr (put_mp2 p key (s\<lparr>sem := Some (1, take 1 (owners_with_block (blockOwners s)))\<rparr>)))"

definition sendFecBlockRequest_round ::
  "'st env \<Rightarrow> u32 \<Rightarrow> u32 \<Rightarrow> u32 \<Rightarrow> nat \<Rightarrow> u32 \<Rightarrow> u32 \<Rightarrow> 'st Mp2SessionManager \<Rightarrow>
   (u32 \<times> u32 \<times> 'st Mp2SessionManager) result" where
  "sendFecBlockRequest_round E key blockNumber blockSize numPeers offset fecIdx p =
     bindE (get_mp2 p key) (\<lambda>s.
     bindE (chan_recv (map_option snd (sem s))) (\<lambda>(selectedSessionID, ids).
     let (sz, start, e, lastSegment) = segment_at blockSize offset;
         (symSz, numSrc, numEnc) = e_symbols E;
         s = s\<lparr>sem := map_option (\<lambda>(cap, _). (cap, ids)) (sem s)\<rparr>;
         segment = CreateSegmentWithRedundant blockNumber selectedSessionID fecIdx start e sz lastSegment symSz numSrc numEnc
     in bindE (AddRecvBuffer segment (put_mp2 p key s)) (\<lambda>p.
        bindE (foldE (\<lambda>sessionID (fecIdx, p).
                 bindE (sendBlockRequestPacket E key sessionID blockNumber start e (ucast fecIdx) p) (\<lambda>p.
                 Inr (fecIdx + 1, p)))
               (owners_with_block (blockOwners s)) (of_nat (numPeers * 10), p)) (\<lambda>(fecIdx, p).
        Inr (offset + sz, fecIdx, p)))))"

section \<open>Sending block data\<close>

text \<open>The bytes of data number \<open>n\<close> in the send buffer; offsets and sizes are 32 bit numbers.\<close>

definition data_bytes :: "bytes \<Rightarrow> u32 \<Rightarrow> bytes result" where
  "data_bytes buffer dataNumber =
     (let offset = dataNumber * of_nat PAYLOAD_SIZE;
          len = of_nat (length buffer);
          sz = (if offset + of_nat PAYLOAD_SIZE \<le> len then of_nat PAYLOAD_SIZE else len - offset)
      in bindE (go_slice buffer (unat offset) (unat (offset + sz))) (\<lambda>src.
         Inr (go_copy (replicate (unat sz) 0) src)))"

text \<open>
  The loop of \<^verbatim>\<open>sendBlockData\<close>.  The loop variable is a 32 bit number, so for the largest
  \<^verbatim>\<open>endDataNumber\<close> the condition is always true: \<open>None\<close> is a loop that does not end.
\<close>

partial_function (option) sendBlockData_loop ::
  "'st env \<Rightarrow> u32 \<Rightarrow> u32 \<Rightarrow> u32 \<Rightarrow> u32 \<Rightarrow> u32 \<Rightarrow> u32 \<Rightarrow> u32 \<Rightarrow> 'st Mp2SessionManager \<Rightarrow>
   'st Mp2SessionManager result option" where
  "sendBlockData_loop E key sessionID blockNumber numPeers peerIdx dataNumber e p =
     (if dataNumber \<le> e
      then if e_fec E \<and> numPeers = 0 then Some (Inl DivideByZero)
           else if e_fec E \<and> dataNumber mod numPeers \<noteq> peerIdx
           then sendBlockData_loop E key sessionID blockNumber numPeers peerIdx (dataNumber + 1) e p
           else case bindE (data_bytes (mp_sendBuffer p) dataNumber) (\<lambda>data.
                       sendBlockDataPacket E key sessionID blockNumber dataNumber FEC_SOURCE_DATA data p) of
                  Inl err \<Rightarrow> Some (Inl err)
                | Inr p \<Rightarrow> sendBlockData_loop E key sessionID blockNumber numPeers peerIdx (dataNumber + 1) e p
      else Some (Inr p))"

declare sendBlockData_loop.simps [code]

definition sendBlockData ::
  "'st env \<Rightarrow> u32 \<Rightarrow> u32 \<Rightarrow> u32 \<Rightarrow> u32 \<Rightarrow> u32 \<Rightarrow> u8 \<Rightarrow> 'st Mp2SessionManager \<Rightarrow>
   'st Mp2SessionManager result option" where
  "sendBlockData E key sessionID blockNumber start e fecIndex p =
     (let numPeers = ucast (fecIndex div 10);
          peerIdx = ucast (fecIndex - ucast (numPeers * 10 :: u32))
      in case get_mp2 p key of
           Inl err \<Rightarrow> Some (Inl err)
         | Inr s \<Rightarrow>
             if of_nat (length (mp_sendBuffer p)) < e * of_nat PAYLOAD_SIZE then Some (Inl Blocked)
             else let s = (if firstSegment s \<and> stopSendCond p > 0 then s\<lparr>firstSegment := False\<rparr> else s);
                      p = put_mp2 p key s
                  in if firstSegment s
                     then sendBlockData_loop E key sessionID blockNumber numPeers peerIdx start e p
                     else case mp_recvBuffer p (ms_blockNumber s) of
                            None \<Rightarrow> Some (Inl NilDereference)
                          | Some b \<Rightarrow>
                              if lastRecvBytes b \<ge> stopSendCond p then Some (Inr p)
                              else sendBlockData_loop E key sessionID blockNumber numPeers peerIdx start e p)"

section \<open>The timer\<close>

definition timer_start :: "u32 \<Rightarrow> 'st Mp2SessionManager \<Rightarrow> 'st Mp2SessionManager result" where
  "timer_start key p =
     bindE (get_mp2 p key) (\<lambda>s. Inr (p\<lparr>timeoutFlag := (timeoutFlag p)(ms_blockNumber s \<mapsto> False)\<rparr>))"

text \<open>The two cases of the \<^verbatim>\<open>select\<close>: data has arrived, or two seconds have passed.\<close>

definition timer_no_timeout :: "u32 \<Rightarrow> 'st Mp2SessionManager \<Rightarrow> 'st Mp2SessionManager result" where
  "timer_no_timeout key p =
     bindE (get_mp2 p key) (\<lambda>s.
     bindE (chan_recv (Some (noTimeoutChan s))) (\<lambda>(_, rest).
     Inr (put_mp2 (p\<lparr>timeoutFlag := (timeoutFlag p)(ms_blockNumber s \<mapsto> False)\<rparr>) key (s\<lparr>noTimeoutChan := rest\<rparr>))))"

text \<open>
  The result of a timeout: whether the timer goes on, whether the next timeout still counts as the first, and
  the state.  \<open>Inl Blocked\<close> also stands for the wait until all received bytes are read.
\<close>

definition timer_timeout ::
  "'st env \<Rightarrow> u32 \<Rightarrow> u32 \<Rightarrow> bool \<Rightarrow> 'st Mp2SessionManager \<Rightarrow> (bool \<times> bool \<times> 'st Mp2SessionManager) result" where
  "timer_timeout E rnd key firstTimeout p =
     bindE (get_mp2 p key) (\<lambda>s.
     case mp_recvBuffer p (ms_blockNumber s) of
       None \<Rightarrow> Inl NilDereference
     | Some b \<Rightarrow>
         if lastRecvBytes b = (case map_of (blockList p) (ms_blockNumber s) of None \<Rightarrow> 0 | Some sz \<Rightarrow> sz)
         then bindE (chan_send 1 (blockFinishFlag p key) True) (\<lambda>ch.
              bindE (foldE (\<lambda>sessionID p. sendBlockFinPacket E key sessionID p) (session_ids s)
                       (p\<lparr>blockFinishFlag := (blockFinishFlag p)(key \<mapsto> ch)\<rparr>)) (\<lambda>p.
              Inr (False, firstTimeout, p)))
         else if firstTimeout
         then if readBytes b < lastRecvBytes b then Inl Blocked
              else bindE (Mp2ConnectForPull E rnd (ms_blockNumber s)
                     (p\<lparr>mp_recvBuffer := (mp_recvBuffer p)(ms_blockNumber s \<mapsto> b\<lparr>bb_buffer := []\<rparr>),
                        timeoutFlag := (timeoutFlag p)(ms_blockNumber s \<mapsto> True)\<rparr>)) (\<lambda>p.
                   Inr (True, False, p))
         else Inr (True, firstTimeout, p))"

end
