(* ===== verification/Mp2_Transfer.thy ===== *)
theory Mp2_Transfer
  imports Mp2_Session
begin

text \<open>
  Reception of a block: the segments that \<^verbatim>\<open>sendBlockRequest\<close> asks for tile the block, and
  whatever the order in which requests, data packets and reads follow each other, the bytes that
  \<^verbatim>\<open>Mp2ReadBlock\<close> has returned are a prefix of the block.  The receiving side is a step relation; its
  invariant says which segments of the block are in the queue and what has arrived and been read of
  them.
\<close>

section \<open>Segments of a block\<close>

lemma word_eq_of_nat: "unat w = n \<Longrightarrow> w = of_nat n"
  by auto

abbreviation slots_per_segment :: nat where
  "slots_per_segment \<equiv> 2048"

lemma SEGMENT_slots: "SEGMENT_SIZE = slots_per_segment * PAYLOAD_SIZE"
  by (simp add: SEGMENT_SIZE_def PAYLOAD_SIZE_def)

definition seg_bytes :: "bytes \<Rightarrow> nat \<Rightarrow> bytes" where
  "seg_bytes B j = take SEGMENT_SIZE (drop (j * SEGMENT_SIZE) B)"

lemma length_seg_bytes: "length (seg_bytes B j) = min SEGMENT_SIZE (length B - j * SEGMENT_SIZE)"
  by (simp add: seg_bytes_def min.commute)

lemma seg_bytes_empty: "seg_bytes B j = [] \<longleftrightarrow> length B \<le> j * SEGMENT_SIZE"
  by (simp add: seg_bytes_def SEGMENT_SIZE_def)

lemma slot_seg_bytes:
  assumes "i < slots_per_segment" shows "slot (seg_bytes B j) i = slot B (j * slots_per_segment + i)"
proof -
  have "Suc i * PAYLOAD_SIZE \<le> SEGMENT_SIZE"
    unfolding SEGMENT_slots using assms by (intro mult_le_mono1) simp
  then have "min PAYLOAD_SIZE (SEGMENT_SIZE - i * PAYLOAD_SIZE) = PAYLOAD_SIZE" by simp
  then show ?thesis
    by (simp add: slot_def seg_bytes_def drop_take min.commute)
       (simp add: SEGMENT_slots algebra_simps)
qed

lemma nslots_seg_bytes:
  "i < nslots (seg_bytes B j) \<longleftrightarrow> i < slots_per_segment \<and> j * slots_per_segment + i < nslots B"
  by (auto simp: nslots_iff length_seg_bytes SEGMENT_slots PAYLOAD_SIZE_def)

lemma nslots_seg_bytes_le: "nslots (seg_bytes B j) \<le> slots_per_segment"
  using nslots_seg_bytes [of slots_per_segment B j] by (simp add: not_less [symmetric])

text \<open>The arithmetic of \<open>segment_at\<close> does not wrap around for a block whose size has 32 bits.\<close>

lemma segment_at_tile:
  assumes "j * SEGMENT_SIZE < length B" and "length B < 2 ^ 32"
  shows "segment_at (of_nat (length B)) (of_nat (j * SEGMENT_SIZE)) =
    (of_nat (length (seg_bytes B j)), of_nat (j * slots_per_segment),
     of_nat (j * slots_per_segment + nslots (seg_bytes B j) - 1), length B \<le> Suc j * SEGMENT_SIZE)"
proof -
  define off bs :: u32 where ob: "off = of_nat (j * SEGMENT_SIZE)" "bs = of_nat (length B)"
  have o: "unat off = j * SEGMENT_SIZE" and b: "unat bs = length B"
    unfolding ob using assms by (intro unat_of_nat_less; simp)+
  have S: "unat (of_nat SEGMENT_SIZE :: u32) = SEGMENT_SIZE" and P: "unat (of_nat PAYLOAD_SIZE :: u32) = PAYLOAD_SIZE"
    by (auto intro!: unat_of_nat_less simp: SEGMENT_SIZE_def PAYLOAD_SIZE_def)
  have rest: "unat (bs - off) = length B - j * SEGMENT_SIZE"
    using assms by (intro payload_length [of _ "j * SEGMENT_SIZE"]) (simp_all add: o b)
  define sz :: u32 where sz_def: "sz = (if of_nat SEGMENT_SIZE \<le> bs - off then of_nat SEGMENT_SIZE else bs - off)"
  have sz: "unat sz = length (seg_bytes B j)"
    by (simp add: sz_def word_le_nat_alt rest S length_seg_bytes min_def)
  have start: "off div of_nat PAYLOAD_SIZE = of_nat (j * slots_per_segment)"
  proof -
    have "unat (off div of_nat PAYLOAD_SIZE) = j * SEGMENT_SIZE div PAYLOAD_SIZE" by (simp add: unat_div o P)
    also have "\<dots> = j * slots_per_segment" by (simp add: SEGMENT_slots PAYLOAD_SIZE_def)
    finally show ?thesis by (rule word_eq_of_nat)
  qed
  have fin: "off + sz = bs \<longleftrightarrow> length B \<le> Suc j * SEGMENT_SIZE"
  proof -
    have "j * SEGMENT_SIZE + length (seg_bytes B j) \<le> length B" using assms by (simp add: length_seg_bytes)
    then have "unat (off + sz) = j * SEGMENT_SIZE + length (seg_bytes B j)"
      using assms(2) by (subst unat_plus_less) (simp_all add: o sz)
    then show ?thesis using assms(1) by (auto simp: word_unat_eq_iff b length_seg_bytes)
  qed
  have pos: "0 < nslots (seg_bytes B j)"
    using assms by (simp add: nslots_iff length_seg_bytes SEGMENT_SIZE_def)
  have "sz = of_nat (length (seg_bytes B j))" using sz by (rule word_eq_of_nat)
  moreover have "segment_at bs off = (sz, of_nat (j * slots_per_segment),
      of_nat (j * slots_per_segment) + of_nat (nslots (seg_bytes B j)) - 1, length B \<le> Suc j * SEGMENT_SIZE)"
    unfolding segment_at_def sz_def [symmetric] Let_def sz start fin nslots_def ..
  ultimately show ?thesis using pos unfolding ob [symmetric] by (simp add: of_nat_diff)
qed

section \<open>Frames\<close>

text \<open>What storing and reading leave alone.\<close>

definition same_range :: "Segment \<Rightarrow> Segment \<Rightarrow> bool" where
  "same_range g g' \<longleftrightarrow> seg_BlockNumber g' = seg_BlockNumber g \<and> startDataNumber g' = startDataNumber g \<and>
     Last g' = Last g \<and> FecFinish g' = FecFinish g \<and> seg_SessionID g' = seg_SessionID g"

lemma same_range_trans: "same_range g g' \<Longrightarrow> same_range g' g'' \<Longrightarrow> same_range g g''"
  by (simp add: same_range_def)

lemma advance_expected_frame: "advance_expected g = Inr g' \<Longrightarrow> same_range g g'"
proof (induction g arbitrary: g' rule: advance_expected.induct)
  case (1 g)
  from 1(2) obtain x where x: "go_index (recvDataSize g) (unat (expectedDataNumber g - startDataNumber g)) = Inr x"
    by (subst (asm) advance_expected.simps) (auto simp: bindE_eq_Inr_iff)
  let ?g1 = "if expectedDataNumber g = endDataNumber g then g\<lparr>Complete := True\<rparr> else g"
  let ?g2 = "?g1\<lparr>lastRecvDataOffset := lastRecvDataOffset ?g1 + x, expectedDataNumber := expectedDataNumber ?g1 + 1\<rparr>"
  have g2: "same_range g ?g2" by (simp add: same_range_def)
  have "g' = g \<or> g' = ?g2 \<or> same_range ?g2 g'"
    using 1(2) 1(1) [OF x _ refl refl, of g'] unfolding advance_expected.simps [of g] x
    by (simp add: Let_def split: if_splits)
  with g2 show ?case by (auto intro: same_range_trans simp del: if_split_asm) (simp add: same_range_def)
qed

lemma PushData_frame: "PushData g bn dn data = Inr (b, g') \<Longrightarrow> same_range g g'"
  by (auto simp: PushData_def bindE_eq_Inr_iff Let_def same_range_def split: if_splits dest!: advance_expected_frame)

lemma PopData_frame: "PopData g buf = Inr (n, c, buf', g') \<Longrightarrow> same_range g g' \<and> Complete g' = Complete g"
  by (auto simp: PopData_def bindE_eq_Inr_iff Let_def same_range_def split: if_splits)

section \<open>One segment in the queue\<close>

text \<open>\<open>A\<close> are the data numbers that have been stored; \<open>k\<close> bytes of segment \<open>j\<close> have been read.\<close>

definition seg_at :: "bytes \<Rightarrow> u32 \<Rightarrow> nat set \<Rightarrow> nat \<Rightarrow> nat \<Rightarrow> Segment \<Rightarrow> bool" where
  "seg_at B bn A j k g \<longleftrightarrow>
     seg_inv (seg_bytes B j) {i. i < nslots (seg_bytes B j) \<and> j * slots_per_segment + i \<in> A} k g \<and>
     seg_BlockNumber g = bn \<and> unat (startDataNumber g) = j * slots_per_segment \<and>
     (Last g \<longleftrightarrow> length B \<le> Suc j * SEGMENT_SIZE)"

lemma seg_at_nonempty: "seg_at B bn A j k g \<Longrightarrow> j * SEGMENT_SIZE < length B"
  unfolding seg_at_def seg_inv_def seg_body_def by (metis not_less seg_bytes_empty)

lemma seg_at_FecFinish [simp]: "seg_at B bn A j k (g\<lparr>FecFinish := f\<rparr>) = seg_at B bn A j k g"
  by (simp add: seg_at_def seg_inv_def seg_body_def)

lemma seg_at_other:
  "n div slots_per_segment \<noteq> j \<Longrightarrow> seg_at B bn (insert n A) j k g = seg_at B bn A j k g"
proof -
  assume "n div slots_per_segment \<noteq> j"
  then have "j * slots_per_segment + i \<noteq> n" if "i < nslots (seg_bytes B j)" for i
    using that nslots_seg_bytes_le [of B j] by auto
  then have "{i. i < nslots (seg_bytes B j) \<and> j * slots_per_segment + i \<in> insert n A} =
      {i. i < nslots (seg_bytes B j) \<and> j * slots_per_segment + i \<in> A}" by blast
  then show ?thesis by (simp only: seg_at_def)
qed

lemma seg_at_range:
  assumes "seg_at B bn A j k g"
  shows "Suc (unat (endDataNumber g)) = j * slots_per_segment + nslots (seg_bytes B j)"
  using assms by (auto simp: seg_at_def seg_inv_def seg_body_def)

definition is_block_data :: "bytes \<Rightarrow> u32 \<Rightarrow> nat \<Rightarrow> BlockDataPacket \<Rightarrow> bool" where
  "is_block_data B bn n packet \<longleftrightarrow> n < nslots B \<and> bdata_BlockNumber packet = bn \<and>
     bdata_DataNumber packet = of_nat n \<and> bdata_Redundant packet = FEC_SOURCE_DATA \<and> bdata_Data packet = slot B n"

lemma nslots_bound: "length B < 2 ^ 32 \<Longrightarrow> n < nslots B \<Longrightarrow> n < 2 ^ 32"
  by (simp add: nslots_iff PAYLOAD_SIZE_def)

lemma belongs_to_iff:
  assumes "seg_at B bn A j k g" and packet: "is_block_data B bn n packet" and B: "length B < 2 ^ 32"
  shows "belongs_to packet g \<longleftrightarrow> n div slots_per_segment = j"
proof -
  have n: "n < nslots B" "unat (of_nat n :: u32) = n"
    using packet nslots_bound [OF B] by (auto simp: is_block_data_def intro!: unat_of_nat_less)
  have "belongs_to packet g \<longleftrightarrow> j * slots_per_segment \<le> n \<and> n < j * slots_per_segment + nslots (seg_bytes B j)"
    using assms(1) packet n seg_at_range [OF assms(1)]
    by (auto simp: belongs_to_def is_block_data_def seg_at_def word_le_nat_alt)
  also have "\<dots> \<longleftrightarrow> n div slots_per_segment = j"
  proof
    assume "j * slots_per_segment \<le> n \<and> n < j * slots_per_segment + nslots (seg_bytes B j)"
    then obtain i where "n = j * slots_per_segment + i" "i < nslots (seg_bytes B j)" by (metis le_Suc_ex nat_add_left_cancel_less)
    then show "n div slots_per_segment = j" by (simp add: nslots_seg_bytes)
  next
    assume "n div slots_per_segment = j"
    then have "n = j * slots_per_segment + n mod slots_per_segment" by (metis div_mult_mod_eq)
    with n nslots_seg_bytes [of "n mod slots_per_segment" B j] show
      "j * slots_per_segment \<le> n \<and> n < j * slots_per_segment + nslots (seg_bytes B j)" by auto
  qed
  finally show ?thesis .
qed

lemma seg_at_push:
  assumes g: "seg_at B bn A j k g" and packet: "is_block_data B bn n packet" and j: "n div slots_per_segment = j"
    and B: "length B < 2 ^ 32"
  shows "\<exists>g'. PushData g (bdata_BlockNumber packet) (bdata_DataNumber packet) (bdata_Data packet) = Inr (True, g') \<and>
    seg_at B bn (insert n A) j k g' \<and> FecFinish g' = FecFinish g \<and> seg_SessionID g' = seg_SessionID g"
proof -
  let ?i = "n mod slots_per_segment" and ?S = "seg_bytes B j"
  have n: "n = j * slots_per_segment + ?i" using j by (metis div_mult_mod_eq)
  have i: "?i < nslots ?S" using packet n nslots_seg_bytes [of ?i B j] by (simp add: is_block_data_def)
  have "startDataNumber g = of_nat (j * slots_per_segment)" using g by (intro word_eq_of_nat) (simp add: seg_at_def)
  then have dn: "startDataNumber g + of_nat ?i = of_nat n" by (subst (2) n) (simp only: of_nat_add)
  have data: "slot ?S ?i = slot B n" using slot_seg_bytes [of ?i B j] n by simp
  have ins: "insert ?i {i. i < nslots ?S \<and> j * slots_per_segment + i \<in> A} =
      {i. i < nslots ?S \<and> j * slots_per_segment + i \<in> insert n A}"
    using i n by auto
  have inv: "seg_inv ?S {i. i < nslots ?S \<and> j * slots_per_segment + i \<in> A} k g" and bn: "seg_BlockNumber g = bn"
    using g by (simp_all add: seg_at_def)
  from seg_push_ok [OF inv i, unfolded dn data ins bn] obtain g' where
    g': "PushData g bn (of_nat n) (slot B n) = Inr (True, g')"
        "seg_inv ?S {i. i < nslots ?S \<and> j * slots_per_segment + i \<in> insert n A} k g'"
    by blast
  from PushData_frame [OF g'(1)] g g' packet show ?thesis
    by (auto simp: is_block_data_def seg_at_def same_range_def)
qed

lemma seg_at_new:
  assumes "j * SEGMENT_SIZE < length B" and B: "length B < 2 ^ 32" and "\<forall>a \<in> A. a < j * slots_per_segment"
    and "segment_at (of_nat (length B)) (of_nat (j * SEGMENT_SIZE)) = (sz, start, e, isLast)"
  shows "seg_at B bn A j 0 (CreateSegment bn sid idx start e sz isLast)"
proof -
  let ?S = "seg_bytes B j"
  have S: "?S \<noteq> []" "length ?S \<le> length B" using assms(1) by (auto simp: seg_bytes_empty length_seg_bytes)
  then have pos: "0 < nslots ?S" by (simp add: nslots_iff)
  then have "j * slots_per_segment + (nslots ?S - 1) < nslots B"
    using nslots_seg_bytes [of "nslots ?S - 1" B j] by simp
  then have lt: "j * slots_per_segment + nslots ?S - 1 < 2 ^ 32 - 1"
    using B pos by (simp add: nslots_iff PAYLOAD_SIZE_def)
  from assms(4) have eq: "sz = of_nat (length ?S)" "start = of_nat (j * slots_per_segment)"
    "e = of_nat (j * slots_per_segment + nslots ?S - 1)" "isLast \<longleftrightarrow> length B \<le> Suc j * SEGMENT_SIZE"
    unfolding segment_at_tile [OF assms(1) B] by simp_all
  have u: "unat sz = length ?S" "unat start = j * slots_per_segment" "unat e = j * slots_per_segment + nslots ?S - 1"
    unfolding eq using lt pos S B by (intro unat_of_nat_less; simp)+
  have "{i. i < nslots ?S \<and> j * slots_per_segment + i \<in> A} = {}" using assms(3) by fastforce
  moreover have "seg_inv ?S {} 0 (CreateSegment bn sid idx start e sz isLast)"
    using S pos lt by (intro seg_inv_create) (auto simp: u)
  ultimately show ?thesis using u eq(4) unfolding seg_at_def by (simp only:) (simp add: CreateSegment_def)
qed

lemma seg_at_pop:
  assumes g: "seg_at B bn A j k g" and buf: "length buf < 2 ^ 32"
  shows "\<exists>n buf' g'. PopData g buf = Inr (n, k + n = length (seg_bytes B j), buf', g') \<and>
    take n buf' = take n (drop k (seg_bytes B j)) \<and> k + n \<le> length (seg_bytes B j) \<and>
    (Complete g \<longrightarrow> n = min (length buf) (length (seg_bytes B j) - k)) \<and>
    seg_at B bn A j (k + n) g' \<and> Complete g' = Complete g \<and> FecFinish g' = FecFinish g \<and> seg_SessionID g' = seg_SessionID g"
proof -
  let ?S = "seg_bytes B j" and ?R = "{i. i < nslots (seg_bytes B j) \<and> j * slots_per_segment + i \<in> A}"
  have inv: "seg_inv ?S ?R k g" using g by (simp add: seg_at_def)
  then obtain m where body: "seg_body ?S ?R k m g" and m: "m \<notin> ?R" by (auto simp: seg_inv_def)
  then have R: "\<forall>i<m. i \<in> ?R" and k: "k \<le> length ?S" and c: "Complete g \<longleftrightarrow> m = nslots ?S"
    by (auto simp: seg_body_def)
  from seg_pop_ok [OF inv buf R m] obtain n buf' g' where
    pop: "PopData g buf = Inr (n, k + n = length ?S, buf', g')"
    and n: "n = min (length buf) (min (m * PAYLOAD_SIZE) (length ?S) - k)"
    and buf': "buf' = take n (drop k ?S) @ drop n buf" and inv': "seg_inv ?S ?R (k + n) g'" by blast
  have kn: "k + n \<le> length ?S" using n k by linarith
  then have "take n buf' = take n (drop k ?S)" by (simp add: buf')
  moreover have "Complete g \<longrightarrow> n = min (length buf) (length ?S - k)"
    using n c nslots_cover [of ?S] by (auto simp: min_def)
  moreover from PopData_frame [OF pop] g inv' have "seg_at B bn A j (k + n) g'"
    by (simp add: seg_at_def same_range_def)
  ultimately show ?thesis using pop kn PopData_frame [OF pop] by (auto simp: same_range_def)
qed

lemma seg_at_has_data:
  assumes g: "seg_at B bn A j k g" and "Complete g" and "k < length (seg_bytes B j)"
  shows "hasDataToRead g"
  using assms nslots_cover [of "seg_bytes B j"]
  by (auto simp: seg_at_def seg_inv_def seg_body_def hasDataToRead_def word_less_nat_alt)

lemma seg_at_all_read:
  assumes g: "seg_at B bn A j (length (seg_bytes B j)) g" shows "Complete g"
proof -
  let ?S = "seg_bytes B j" and ?R = "{i. i < nslots (seg_bytes B j) \<and> j * slots_per_segment + i \<in> A}"
  from g obtain m where body: "seg_body ?S ?R (length ?S) m g" by (auto simp: seg_at_def seg_inv_def)
  then have "length ?S \<le> m * PAYLOAD_SIZE" "Complete g \<longleftrightarrow> m = nslots ?S" by (auto simp: seg_body_def)
  moreover have "m \<le> nslots ?S" by (rule seg_bodyD [OF body])
  moreover have "nslots ?S \<le> m" if "length ?S \<le> m * PAYLOAD_SIZE" using that nslots_iff [of m ?S] by simp
  ultimately show ?thesis by simp
qed

section \<open>The receiving side\<close>

text \<open>
  A state is the offset up to which \<^verbatim>\<open>sendBlockRequest\<close> has asked for the block, the bytes that
  \<^verbatim>\<open>Mp2ReadBlock\<close> has returned, and the manager.  The block has the bytes \<open>B\<close>.  Steps of other
  goroutines leave alone the block's buffer, and the semaphore and block number of the session, and keep the
  sessions below in working order.
\<close>

definition sessions_ok :: "u32 set \<Rightarrow> 'st Mp2Session \<Rightarrow> bool" where
  "sessions_ok ids s \<longleftrightarrow> (\<forall>sid \<in> ids. \<exists>session. map_of (ms_sessionMap s) sid = Some session \<and> sess_inv session)"

definition same_block :: "u32 \<Rightarrow> u32 \<Rightarrow> 'st Mp2SessionManager \<Rightarrow> 'st Mp2SessionManager \<Rightarrow> bool" where
  "same_block key bn p p' \<longleftrightarrow> mp_recvBuffer p' bn = mp_recvBuffer p bn \<and>
     (\<forall>s. mp2sessionMap p key = Some s \<longrightarrow> (\<exists>s'. mp2sessionMap p' key = Some s' \<and> sem s' = sem s \<and>
        ms_blockNumber s' = ms_blockNumber s \<and> (\<forall>ids. sessions_ok ids s \<longrightarrow> sessions_ok ids s')))"

inductive block_step ::
  "'st env \<Rightarrow> u32 \<Rightarrow> u32 \<Rightarrow> bytes \<Rightarrow> u32 \<times> bytes \<times> 'st Mp2SessionManager \<Rightarrow> u32 \<times> bytes \<times> 'st Mp2SessionManager \<Rightarrow> bool"
  for E key bn B where
  request: "offset < of_nat (length B) \<Longrightarrow>
     sendBlockRequest_round E key bn (of_nat (length B)) offset idx p = Inr (offset', p') \<Longrightarrow>
     block_step E key bn B (offset, got, p) (offset', got, p')"
| data: "is_block_data B bn n packet \<Longrightarrow> handleBlockDataPacket key packet p = Inr p' \<Longrightarrow>
     block_step E key bn B (offset, got, p) (offset, got, p')"
| read: "length buf < 2 ^ 32 \<Longrightarrow> Mp2ReadBlock buf bn p = Inr (n, buf', p') \<Longrightarrow>
     block_step E key bn B (offset, got, p) (offset, got @ take n buf', p')"
| other: "same_block key bn p p' \<Longrightarrow> block_step E key bn B (offset, got, p) (offset, got, p')"

definition queue_at :: "bytes \<Rightarrow> u32 \<Rightarrow> nat set \<Rightarrow> nat \<Rightarrow> nat \<Rightarrow> Segment list \<Rightarrow> bool" where
  "queue_at B bn A i k gs \<longleftrightarrow>
     (\<forall>j<length gs. seg_at B bn A (i + j) (if j = 0 then k else 0) (gs ! j) \<and> (Complete (gs ! j) \<longleftrightarrow> FecFinish (gs ! j)))"

definition unfinished :: "Segment list \<Rightarrow> nat" where
  "unfinished gs = length (filter (Not \<circ> FecFinish) gs)"

text \<open>
  \<open>i\<close> segments have been read to their end and \<open>k\<close> bytes of the next one have been read; the queue holds the
  segments from \<open>i\<close> on that have been requested.  Each owner in \<open>Ow\<close> of the block is either in the semaphore or
  busy with a segment under way.
\<close>

definition receiving ::
  "u32 set \<Rightarrow> u32 \<Rightarrow> u32 \<Rightarrow> bytes \<Rightarrow> nat set \<Rightarrow> nat \<Rightarrow> nat \<Rightarrow> Segment list \<Rightarrow> u32 \<times> bytes \<times> 'st Mp2SessionManager \<Rightarrow> bool" where
  "receiving Ow key bn B A i k gs = (\<lambda>(offset, got, p). \<exists>s b cap ids.
     mp2sessionMap p key = Some s \<and> ms_blockNumber s = bn \<and> mp_recvBuffer p bn = Some b \<and> bb_buffer b = gs \<and>
     sem s = Some (cap, ids) \<and> length ids + unfinished gs = cap \<and> 0 < cap \<and> sessions_ok Ow s \<and>
     set ids \<subseteq> Ow \<and> seg_SessionID ` set gs \<subseteq> Ow \<and>
     unat offset = min ((i + length gs) * SEGMENT_SIZE) (length B) \<and> queue_at B bn A i k gs \<and>
     (\<forall>a \<in> A. a < (i + length gs) * slots_per_segment) \<and>
     got = take (i * SEGMENT_SIZE + k) B \<and> (if gs = [] then k = 0 else k < length (seg_bytes B i)))"

lemma receivingI:
  assumes "mp2sessionMap p key = Some s" and "ms_blockNumber s = bn" and "mp_recvBuffer p bn = Some b" and "bb_buffer b = gs"
    and "sem s = Some (cap, ids)" and "length ids + unfinished gs = cap" and "0 < cap" and "sessions_ok Ow s"
    and "set ids \<subseteq> Ow" and "seg_SessionID ` set gs \<subseteq> Ow"
    and "unat offset = min ((i + length gs) * SEGMENT_SIZE) (length B)" and "queue_at B bn A i k gs"
    and "\<forall>a \<in> A. a < (i + length gs) * slots_per_segment"
    and "got = take (i * SEGMENT_SIZE + k) B" and "if gs = [] then k = 0 else k < length (seg_bytes B i)"
  shows "receiving Ow key bn B A i k gs (offset, got, p)"
  unfolding receiving_def prod.case using assms by blast

lemma find_segment_Some: "find_segment packet gs = Some j \<Longrightarrow> j < length gs \<and> belongs_to packet (gs ! j)"
  by (induction gs arbitrary: j) (auto split: if_splits)

lemma find_segment_None: "find_segment packet gs = None \<longleftrightarrow> (\<forall>g \<in> set gs. \<not> belongs_to packet g)"
  by (induction gs) auto

lemma unfinished_Cons: "unfinished (g # gs) = (if FecFinish g then 0 else 1) + unfinished gs"
  by (simp add: unfinished_def)

lemma unfinished_update:
  assumes "j < length gs"
  shows "unfinished (gs[j := g]) + (if FecFinish (gs ! j) then 0 else 1) = unfinished gs + (if FecFinish g then 0 else 1)"
proof -
  have "unfinished gs = unfinished (take j gs @ gs ! j # drop (Suc j) gs)"
    using id_take_nth_drop [OF assms] by simp
  then show ?thesis unfolding upd_conv_take_nth_drop [OF assms] by (simp add: unfinished_def)
qed

lemma release_session_ok:
  assumes "sem s = Some (cap, ids)" and "FecFinish g \<longrightarrow> Complete g" and "\<not> FecFinish g \<longrightarrow> length ids < cap"
  shows "\<exists>s' ids'. release_session g s = Inr (g\<lparr>FecFinish := Complete g\<rparr>, s') \<and> sem s' = Some (cap, ids') \<and>
    ms_blockNumber s' = ms_blockNumber s \<and> ms_sessionMap s' = ms_sessionMap s \<and>
    length ids' = length ids + (if Complete g \<and> \<not> FecFinish g then 1 else 0) \<and> set ids' \<subseteq> insert (seg_SessionID g) (set ids)"
proof (cases "Complete g \<and> \<not> FecFinish g")
  case True
  then show ?thesis using assms by (simp add: release_session_def chan_send_def)
next
  case False
  then have "FecFinish g = Complete g" using assms(2) by blast
  then have "g\<lparr>FecFinish := Complete g\<rparr> = g" by simp
  then show ?thesis using assms(1) False unfolding release_session_def if_not_P [OF False] by auto
qed

lemma queue_at_update:
  assumes q: "queue_at B bn A i k gs" and j: "j < length gs" "n div slots_per_segment = i + j"
    and g: "seg_at B bn (insert n A) (i + j) (if j = 0 then k else 0) g" "Complete g \<longleftrightarrow> FecFinish g"
  shows "queue_at B bn (insert n A) i k (gs[j := g])"
  unfolding queue_at_def
proof (intro allI impI)
  fix l assume "l < length (gs[j := g])"
  then show "seg_at B bn (insert n A) (i + l) (if l = 0 then k else 0) (gs[j := g] ! l) \<and>
      (Complete (gs[j := g] ! l) \<longleftrightarrow> FecFinish (gs[j := g] ! l))"
    using q g j seg_at_other [of n "i + l" B bn A] by (cases "l = j") (auto simp: queue_at_def)
qed

lemma receiving_data:
  assumes inv: "receiving Ow key bn B A i k gs (offset, got, p)" and packet: "is_block_data B bn n packet"
    and B: "length B < 2 ^ 32"
  shows "\<exists>p' A' gs'. handleBlockDataPacket key packet p = Inr p' \<and> receiving Ow key bn B A' i k gs' (offset, got, p') \<and>
    A \<subseteq> A' \<and> length gs' = length gs \<and>
    (i \<le> n div slots_per_segment \<and> n div slots_per_segment < i + length gs \<longrightarrow> n \<in> A')"
proof -
  from inv obtain s b cap ids where st: "mp2sessionMap p key = Some s" "ms_blockNumber s = bn"
      "mp_recvBuffer p bn = Some b" "bb_buffer b = gs" "sem s = Some (cap, ids)" "length ids + unfinished gs = cap" "0 < cap"
      "sessions_ok Ow s" "set ids \<subseteq> Ow" "seg_SessionID ` set gs \<subseteq> Ow"
    and off: "unat offset = min ((i + length gs) * SEGMENT_SIZE) (length B)" and q: "queue_at B bn A i k gs"
    and A: "\<forall>a \<in> A. a < (i + length gs) * slots_per_segment" and got: "got = take (i * SEGMENT_SIZE + k) B"
      "if gs = [] then k = 0 else k < length (seg_bytes B i)" unfolding receiving_def by auto
  have at: "seg_at B bn A (i + j) (if j = 0 then k else 0) (gs ! j)" "Complete (gs ! j) \<longleftrightarrow> FecFinish (gs ! j)"
    if "j < length gs" for j using q that by (auto simp: queue_at_def)
  show ?thesis
  proof (cases "find_segment packet gs")
    case None
    then have "handleBlockDataPacket key packet p = Inr p"
      by (simp add: handleBlockDataPacket_def get_mp2_def st)
    moreover have "\<not> (i \<le> n div slots_per_segment \<and> n div slots_per_segment < i + length gs)"
    proof
      assume r: "i \<le> n div slots_per_segment \<and> n div slots_per_segment < i + length gs"
      let ?j = "n div slots_per_segment - i"
      have "?j < length gs" using r by linarith
      with belongs_to_iff [OF at(1) packet B, of ?j] None r show False by (auto simp: find_segment_None)
    qed
    ultimately show ?thesis using inv by blast
  next
    case (Some j)
    then have j: "j < length gs" "belongs_to packet (gs ! j)" by (auto dest: find_segment_Some)
    with belongs_to_iff [OF at(1) packet B] have nj: "n div slots_per_segment = i + j" by simp
    from seg_at_push [OF at(1) [OF j(1)] packet nj B] obtain g where
      push: "PushData (gs ! j) (bdata_BlockNumber packet) (bdata_DataNumber packet) (bdata_Data packet) = Inr (True, g)"
      and g: "seg_at B bn (insert n A) (i + j) (if j = 0 then k else 0) g" "FecFinish g = FecFinish (gs ! j)" "seg_SessionID g = seg_SessionID (gs ! j)" by blast
    have mono: "FecFinish g \<longrightarrow> Complete g"
    proof -
      have "Complete g" if "Complete (gs ! j)"
        using that at(1) [OF j(1)] g(1) seg_complete unfolding seg_at_def by blast
      then show ?thesis using at(2) [OF j(1)] g(2) by simp
    qed
    have room: "\<not> FecFinish g \<longrightarrow> length ids < cap"
      using st(6) unfinished_update [OF j(1), of "g\<lparr>FecFinish := True\<rparr>"] g(2) by auto
    from release_session_ok [OF st(5) mono room] obtain s' ids' where
      rel: "release_session g s = Inr (g\<lparr>FecFinish := Complete g\<rparr>, s')" "sem s' = Some (cap, ids')"
        "ms_blockNumber s' = bn" "length ids' = length ids + (if Complete g \<and> \<not> FecFinish g then 1 else 0)"
        "ms_sessionMap s' = ms_sessionMap s" "set ids' \<subseteq> insert (seg_SessionID g) (set ids)"
      unfolding st(2) by blast
    let ?g = "g\<lparr>FecFinish := Complete g\<rparr>" and ?gs = "gs[j := g\<lparr>FecFinish := Complete g\<rparr>]"
    let ?b = "b\<lparr>lastRecvBytes := lastRecvBytes b + of_nat (length (bdata_Data packet)), bb_buffer := ?gs\<rparr>"
    let ?p = "put_mp2 ((AddSendBuffer (bdata_Data packet) p)\<lparr>mp_recvBuffer := (mp_recvBuffer p)(bn \<mapsto> ?b)\<rparr>) key s'"
    have "handleBlockDataPacket key packet p = Inr ?p"
      using packet Some j(1) push rel
      by (simp add: handleBlockDataPacket_def get_mp2_def st is_block_data_def AddSendBuffer_def)
    moreover have "receiving Ow key bn B (insert n A) i k ?gs (offset, got, ?p)"
    proof -
      have "length ids' + unfinished ?gs = cap"
        using rel(4) st(6) g(2) mono unfinished_update [OF j(1), of ?g] by (auto split: if_splits)
      moreover have "queue_at B bn (insert n A) i k ?gs" using g(1) by (intro queue_at_update [OF q j(1) nj]) auto
      moreover have "n < (i + length gs) * slots_per_segment"
        using j(1) nj by (simp add: div_less_iff_less_mult [symmetric])
      moreover have "seg_SessionID g \<in> Ow" using st(10) j(1) g(3) by auto
      moreover have "seg_SessionID ` set ?gs \<subseteq> Ow"
        using st(10) \<open>seg_SessionID g \<in> Ow\<close> set_update_subset_insert [of gs j ?g] by force
      moreover have "sessions_ok Ow s'" using st(8) rel(5) by (simp add: sessions_ok_def)
      ultimately show ?thesis using rel off A got st(7,9) unfolding receiving_def by (auto simp: put_mp2_def)
    qed
    ultimately show ?thesis using j(1) by (metis insertI1 length_list_update subset_insertI)
  qed
qed

lemma seg_bytes_part:
  "k + n \<le> length (seg_bytes B i) \<Longrightarrow> take n (drop k (seg_bytes B i)) = take n (drop (i * SEGMENT_SIZE + k) B)"
  by (auto simp: seg_bytes_def drop_take min_def add.commute split: if_splits)

lemma seg_bytes_full:
  "i * SEGMENT_SIZE < length B \<Longrightarrow> take (i * SEGMENT_SIZE + length (seg_bytes B i)) B = take (Suc i * SEGMENT_SIZE) B"
  by (simp add: length_seg_bytes min_def add.commute)

lemma queue_at_Cons:
  "queue_at B bn A i k (g # gs) \<longleftrightarrow>
     seg_at B bn A i k g \<and> (Complete g \<longleftrightarrow> FecFinish g) \<and> queue_at B bn A (Suc i) 0 gs"
  unfolding queue_at_def length_Cons by (subst All_less_Suc2) auto

lemma receiving_read:
  assumes inv: "receiving Ow key bn B A i k (g # gs) (offset, got, p)" and buf: "length buf < 2 ^ 32"
    and data: "hasDataToRead g"
  shows "\<exists>n buf' p'. Mp2ReadBlock buf bn p = Inr (n, buf', p') \<and>
    (Complete g \<longrightarrow> n = min (length buf) (length (seg_bytes B i) - k)) \<and>
    (if k + n = length (seg_bytes B i) then receiving Ow key bn B A (Suc i) 0 gs (offset, got @ take n buf', p')
     else \<exists>g'. receiving Ow key bn B A i (k + n) (g' # gs) (offset, got @ take n buf', p'))"
proof -
  from inv obtain s b cap ids where st: "mp2sessionMap p key = Some s" "ms_blockNumber s = bn"
      "mp_recvBuffer p bn = Some b" "bb_buffer b = g # gs" "sem s = Some (cap, ids)" "length ids + unfinished (g # gs) = cap" "0 < cap"
      "sessions_ok Ow s" "set ids \<subseteq> Ow" "seg_SessionID ` set (g # gs) \<subseteq> Ow"
    and off: "unat offset = min ((i + length (g # gs)) * SEGMENT_SIZE) (length B)" and q: "queue_at B bn A i k (g # gs)"
    and A: "\<forall>a \<in> A. a < (i + length (g # gs)) * slots_per_segment" and got: "got = take (i * SEGMENT_SIZE + k) B"
    unfolding receiving_def by auto
  from q have g: "seg_at B bn A i k g" and fin: "Complete g \<longleftrightarrow> FecFinish g" and rest: "queue_at B bn A (Suc i) 0 gs"
    by (simp_all add: queue_at_Cons)
  from seg_at_pop [OF g buf] obtain n buf' g' where
    pop: "PopData g buf = Inr (n, k + n = length (seg_bytes B i), buf', g')"
    and buf': "take n buf' = take n (drop k (seg_bytes B i))" and kn: "k + n \<le> length (seg_bytes B i)"
    and n: "Complete g \<longrightarrow> n = min (length buf) (length (seg_bytes B i) - k)"
    and g': "seg_at B bn A i (k + n) g'" "Complete g' = Complete g" "FecFinish g' = FecFinish g"
      "seg_SessionID g' = seg_SessionID g" by blast
  have got': "got @ take n buf' = take (i * SEGMENT_SIZE + (k + n)) B"
    unfolding got buf' seg_bytes_part [OF kn] by (metis add.assoc take_add)
  show ?thesis
  proof (cases "k + n = length (seg_bytes B i)")
    case True
    then obtain p' where read: "Mp2ReadBlock buf bn p = Inr (n, buf', p')" "mp2sessionMap p' = mp2sessionMap p"
        "mp_recvBuffer p' bn = Some (b\<lparr>bb_buffer := gs, readBytes := readBytes b + of_nat n\<rparr>)"
      using data pop by (auto simp: Mp2ReadBlock_def st BlockBuffer_GetLength_def ReadSegment_def RemoveSegment_def)
    have "got @ take n buf' = take (Suc i * SEGMENT_SIZE) B"
      unfolding got' True by (rule seg_bytes_full [OF seg_at_nonempty [OF g]])
    moreover have "FecFinish g" using g'(1,2) fin True seg_at_all_read by metis
    moreover have "if gs = [] then True else 0 < length (seg_bytes B (Suc i))"
      using rest seg_at_nonempty [of B bn A "Suc i" 0 "gs ! 0"] by (auto simp: queue_at_def length_seg_bytes SEGMENT_SIZE_def)
    ultimately show ?thesis using read st off rest A True n unfolding receiving_def
      by (auto simp: unfinished_def split: if_splits)
  next
    case False
    then obtain p' where read: "Mp2ReadBlock buf bn p = Inr (n, buf', p')" "mp2sessionMap p' = mp2sessionMap p"
        "mp_recvBuffer p' bn = Some (b\<lparr>bb_buffer := g' # gs, readBytes := readBytes b + of_nat n\<rparr>)"
      using data pop by (auto simp: Mp2ReadBlock_def st BlockBuffer_GetLength_def ReadSegment_def)
    have "queue_at B bn A i (k + n) (g' # gs)" using g' fin rest by (simp add: queue_at_Cons)
    then have "receiving Ow key bn B A i (k + n) (g' # gs) (offset, got @ take n buf', p')"
      using st off A False got' g'(3,4) kn
      by (intro receivingI [OF read(2) [THEN fun_cong, THEN trans] _ read(3)]) (simp_all add: unfinished_Cons)
    with read(1) n False show ?thesis by auto
  qed
qed

lemma receiving_read_inv:
  assumes inv: "receiving Ow key bn B A i k gs (offset, got, p)" and buf: "length buf < 2 ^ 32"
    and read: "Mp2ReadBlock buf bn p = Inr (n, buf', p')"
  shows "\<exists>i k gs. receiving Ow key bn B A i k gs (offset, got @ take n buf', p')"
proof (cases gs)
  case Nil
  with inv read have "n = 0" "mp2sessionMap p' = mp2sessionMap p"
      "map_option bb_buffer (mp_recvBuffer p' bn) = map_option bb_buffer (mp_recvBuffer p bn)"
    by (auto simp: receiving_def Mp2ReadBlock_def BlockBuffer_GetLength_def split: if_splits)
  with inv have "receiving Ow key bn B A i k gs (offset, got @ take n buf', p')" by (auto simp: receiving_def)
  then show ?thesis by blast
next
  case (Cons g gs')
  with inv read have "hasDataToRead g"
    by (auto simp: receiving_def Mp2ReadBlock_def BlockBuffer_GetLength_def ReadSegment_def split: if_splits)
  with receiving_read [OF inv [unfolded Cons] buf] read show ?thesis by (auto split: if_splits)
qed

lemma Session_Write_inv:
  assumes "sess_inv s" shows "\<exists>s'. Session_Write conf verdicts s buf t = Inr (length buf, s') \<and> sess_inv s'"
  using Session_Write_loop_ok [OF assms, of conf "if t = 14 then verdicts else (\<lambda>_. [])" buf 0 0 0]
  unfolding Session_Write_def by auto

lemma mp2_sendPacket_same_block:
  assumes "mp2_sendPacket E key sid buf t p = Inr p'" shows "same_block key bn p p'"
proof -
  from assms obtain s session n session' where s: "mp2sessionMap p key = Some s" "map_of (ms_sessionMap s) sid = Some session"
    and w: "Session_Write (e_conf E) (e_verdicts E (sequenceNumber session)) session buf t = Inr (n, session')"
    and p': "p' = put_mp2 p key (s\<lparr>ms_sessionMap := AList.update sid session' (ms_sessionMap s)\<rparr>)"
    by (auto simp: mp2_sendPacket_def get_mp2_def bindE_eq_Inr_iff split: option.splits)
  have "sess_inv session'" if "sess_inv session" using Session_Write_inv [OF that] w by (metis prod.inject sum.inject(2))
  then have "sessions_ok ids (s\<lparr>ms_sessionMap := AList.update sid session' (ms_sessionMap s)\<rparr>)" if "sessions_ok ids s" for ids
    using that s(2) by (auto simp: sessions_ok_def update_conv')
  then show ?thesis using s(1) by (simp add: same_block_def p' put_mp2_def)
qed

lemma mp2_sendPacket_ok:
  assumes "mp2sessionMap p key = Some s" and "sessions_ok Ow s" and "sid \<in> Ow"
  shows "\<exists>p'. mp2_sendPacket E key sid buf t p = Inr p'"
proof -
  from assms(2,3) obtain session where s: "map_of (ms_sessionMap s) sid = Some session" "sess_inv session"
    by (auto simp: sessions_ok_def)
  from Session_Write_inv [OF s(2), of "e_conf E" "e_verdicts E (sequenceNumber session)" buf t] assms(1) s(1)
  show ?thesis by (auto simp: mp2_sendPacket_def get_mp2_def)
qed

lemma receiving_other:
  assumes "receiving Ow key bn B A i k gs (offset, got, p)" and "same_block key bn p p'"
  shows "receiving Ow key bn B A i k gs (offset, got, p')"
  using assms unfolding receiving_def same_block_def by fastforce

lemma queue_at_snoc:
  assumes "queue_at B bn A i k gs" and "seg_at B bn A (i + length gs) 0 g" and "gs = [] \<longrightarrow> k = 0"
    and "Complete g \<longleftrightarrow> FecFinish g"
  shows "queue_at B bn A i k (gs @ [g])"
  using assms unfolding queue_at_def by (auto simp: nth_append less_Suc_eq)

lemma receiving_request:
  assumes inv: "receiving Ow key bn B A i k gs (offset, got, p)" and B: "length B < 2 ^ 32"
    and off: "offset < of_nat (length B)"
    and round: "sendBlockRequest_round E key bn (of_nat (length B)) offset idx p = Inr (offset', p')"
  shows "\<exists>gs. receiving Ow key bn B A i k gs (offset', got, p') \<and> gs \<noteq> []"
proof -
  from inv obtain s b cap ids where st: "mp2sessionMap p key = Some s" "ms_blockNumber s = bn"
      "mp_recvBuffer p bn = Some b" "bb_buffer b = gs" "sem s = Some (cap, ids)" "length ids + unfinished gs = cap" "0 < cap"
      "sessions_ok Ow s" "set ids \<subseteq> Ow" "seg_SessionID ` set gs \<subseteq> Ow"
    and o: "unat offset = min ((i + length gs) * SEGMENT_SIZE) (length B)" and q: "queue_at B bn A i k gs"
    and A: "\<forall>a \<in> A. a < (i + length gs) * slots_per_segment" and got: "got = take (i * SEGMENT_SIZE + k) B"
      "if gs = [] then k = 0 else k < length (seg_bytes B i)" unfolding receiving_def by auto
  let ?j = "i + length gs"
  have len: "unat (of_nat (length B) :: u32) = length B" using B by (intro unat_of_nat_less) simp
  have lt: "?j * SEGMENT_SIZE < length B" using off o by (simp add: word_less_nat_alt len min_def split: if_splits)
  have o': "offset = of_nat (?j * SEGMENT_SIZE)" using o lt by (intro word_eq_of_nat) simp
  obtain sz start e isLast where at: "segment_at (of_nat (length B)) offset = (sz, start, e, isLast)"
    by (cases "segment_at (of_nat (length B)) offset") auto
  from round st obtain sid rest where ids: "ids = sid # rest"
    by (cases ids) (auto simp: sendBlockRequest_round_def get_mp2_def chan_recv_def)
  define s1 where s1_def: "s1 = s\<lparr>sem := Some (cap, rest), blockOwners := AList.update sid PEER_DOWNLOADING (blockOwners s)\<rparr>"
  define p1 where p1: "p1 = (put_mp2 p key s1)\<lparr>mp_recvBuffer := (mp_recvBuffer p)(bn \<mapsto>
        PushSegment b (CreateSegment bn sid idx start e sz isLast))\<rparr>"
  have s1: "sem s1 = Some (cap, rest)" "ms_blockNumber s1 = bn" "sessions_ok Ow s1"
    using st by (simp_all add: s1_def sessions_ok_def)
  have add: "AddRecvBuffer (CreateSegment bn sid idx start e sz isLast) (put_mp2 p key s1) = Inr p1"
    using st(3) by (simp add: AddRecvBuffer_def p1 put_mp2_def CreateSegment_def)
  have send: "sendBlockRequestPacket E key sid bn start e 0 p1 = Inr p'" and offset': "offset' = offset + sz"
    using round add
    by (simp_all add: sendBlockRequest_round_def get_mp2_def chan_recv_def bindE_eq_Inr_iff st ids at s1_def [symmetric])
  let ?g = "CreateSegment bn sid idx start e sz isLast"
  have g: "seg_at B bn A ?j 0 ?g" using A at unfolding o' by (intro seg_at_new [OF lt B]) auto
  have sz: "sz = of_nat (length (seg_bytes B ?j))"
    using at unfolding o' segment_at_tile [OF lt B] by simp
  have ub: "?j * SEGMENT_SIZE + length (seg_bytes B ?j) = min (Suc ?j * SEGMENT_SIZE) (length B)"
    using lt by (simp add: length_seg_bytes)
  have "unat offset' = min (Suc ?j * SEGMENT_SIZE) (length B)"
    unfolding offset' o' sz of_nat_add [symmetric] ub using B by (intro unat_of_nat_less) simp
  moreover have "queue_at B bn A i k (gs @ [?g])"
    using got(2) by (intro queue_at_snoc [OF q g]) (auto simp: CreateSegment_def split: if_splits)
  moreover have "length rest + unfinished (gs @ [?g]) = cap"
    using st(6) ids by (simp add: unfinished_def CreateSegment_def)
  moreover have "set rest \<subseteq> Ow" "seg_SessionID ` set (gs @ [?g]) \<subseteq> Ow" using st(9,10) ids by (auto simp: CreateSegment_def)
  moreover have "\<forall>a \<in> A. a < (i + length (gs @ [?g])) * slots_per_segment" using A by force
  ultimately have "receiving Ow key bn B A i k (gs @ [?g]) (offset', got, p1)"
    using st(4,7) s1 got seg_bytes_empty [of B i] lt unfolding receiving_def p1
    by (auto simp: put_mp2_def PushSegment_def split: if_splits)
  moreover have "same_block key bn p1 p'"
    using send mp2_sendPacket_same_block unfolding sendBlockRequestPacket_def by (auto simp: Let_def bindE_eq_Inr_iff)
  ultimately show ?thesis using receiving_other by blast
qed

text \<open>While a session is in the semaphore, the next segment can be requested.\<close>

lemma request_possible:
  assumes inv: "receiving Ow key bn B A i k [] (offset, got, p)"
  shows "\<exists>offset' p'. sendBlockRequest_round E key bn bs offset idx p = Inr (offset', p')"
proof -
  from inv obtain s b cap ids where st: "mp2sessionMap p key = Some s" "ms_blockNumber s = bn"
      "mp_recvBuffer p bn = Some b" "sem s = Some (cap, ids)" "length ids = cap" "0 < cap" "sessions_ok Ow s" "set ids \<subseteq> Ow"
    unfolding receiving_def by (auto simp: unfinished_def)
  then obtain sid rest where ids: "ids = sid # rest" by (cases ids) auto
  obtain sz start e isLast where at: "segment_at bs offset = (sz, start, e, isLast)"
    by (cases "segment_at bs offset") auto
  let ?s = "s\<lparr>sem := Some (cap, rest), blockOwners := AList.update sid PEER_DOWNLOADING (blockOwners s)\<rparr>"
  let ?p = "(put_mp2 p key ?s)\<lparr>mp_recvBuffer := (mp_recvBuffer p)(bn \<mapsto>
        PushSegment b (CreateSegment bn sid idx start e sz isLast))\<rparr>"
  have "mp2sessionMap ?p key = Some ?s" "sessions_ok Ow ?s" "sid \<in> Ow"
    using st(7,8) ids by (simp_all add: put_mp2_def sessions_ok_def)
  from mp2_sendPacket_ok [OF this, of E] obtain p' where
    "sendBlockRequestPacket E key sid bn start e 0 ?p = Inr p'"
    unfolding sendBlockRequestPacket_def Let_def breq.Write_enc [OF TrueI] by auto
  moreover have "AddRecvBuffer (CreateSegment bn sid idx start e sz isLast) (put_mp2 p key ?s) = Inr ?p"
    using st(3) by (simp add: AddRecvBuffer_def put_mp2_def CreateSegment_def)
  ultimately show ?thesis using st by (simp add: sendBlockRequest_round_def get_mp2_def chan_recv_def ids at)
qed

definition block_inv :: "u32 set \<Rightarrow> u32 \<Rightarrow> u32 \<Rightarrow> bytes \<Rightarrow> u32 \<times> bytes \<times> 'st Mp2SessionManager \<Rightarrow> bool" where
  "block_inv Ow key bn B st \<longleftrightarrow> (\<exists>A i k gs. receiving Ow key bn B A i k gs st)"

lemma block_step_inv:
  assumes "block_step E key bn B st st'" and "length B < 2 ^ 32" and "block_inv Ow key bn B st"
  shows "block_inv Ow key bn B st'"
  using assms
proof cases
  case (request offset idx p offset' p' got)
  from assms(3) request obtain A i k gs where "receiving Ow key bn B A i k gs (offset, got, p)" by (auto simp: block_inv_def)
  from receiving_request [OF this assms(2) request(3,4)] request show ?thesis unfolding block_inv_def by blast
next
  case (data n packet p p' offset got)
  from assms(3) data obtain A i k gs where "receiving Ow key bn B A i k gs (offset, got, p)" by (auto simp: block_inv_def)
  from receiving_data [OF this data(3) assms(2)] data show ?thesis unfolding block_inv_def by auto
next
  case (read buf p n buf' p' offset got)
  from assms(3) read obtain A i k gs where "receiving Ow key bn B A i k gs (offset, got, p)" by (auto simp: block_inv_def)
  from receiving_read_inv [OF this read(3,4)] read show ?thesis unfolding block_inv_def by blast
next
  case (other p p' offset got)
  from assms(3) other obtain A i k gs where "receiving Ow key bn B A i k gs (offset, got, p)" by (auto simp: block_inv_def)
  from receiving_other [OF this other(3)] other show ?thesis unfolding block_inv_def by blast
qed

lemma block_steps_inv:
  "(block_step E key bn B)\<^sup>*\<^sup>* st st' \<Longrightarrow> length B < 2 ^ 32 \<Longrightarrow> block_inv Ow key bn B st \<Longrightarrow> block_inv Ow key bn B st'"
  by (induction rule: rtranclp_induct) (auto intro: block_step_inv)

text \<open>
  The state in which the loop of \<^verbatim>\<open>sendBlockRequest\<close> begins: an empty buffer for the block, and the semaphore
  just made from the owners of the block, of which there is one.
\<close>

definition block_start :: "u32 \<Rightarrow> u32 \<Rightarrow> 'st Mp2SessionManager \<Rightarrow> bool" where
  "block_start key bn p \<longleftrightarrow> (\<exists>s ids.
     mp2sessionMap p key = Some s \<and> ms_blockNumber s = bn \<and> mp_recvBuffer p bn = Some CreateBlockBuffer \<and>
     sem s = Some (length ids, ids) \<and> ids \<noteq> [] \<and> sessions_ok (set ids) s)"

lemma block_start_inv: "block_start key bn p \<Longrightarrow> \<exists>Ow. receiving Ow key bn B {} 0 0 [] (0, [], p)"
  by (auto simp: block_start_def receiving_def queue_at_def unfinished_def CreateBlockBuffer_def)

section \<open>A block can be read to its end\<close>

lemma receiving_deliver:
  assumes "receiving Ow key bn B A i k gs (offset, got, p)" and "length B < 2 ^ 32" and "\<forall>n \<in> set ns. n < nslots B"
  shows "\<exists>p' A' gs'. (block_step E key bn B)\<^sup>*\<^sup>* (offset, got, p) (offset, got, p') \<and>
    receiving Ow key bn B A' i k gs' (offset, got, p') \<and> length gs' = length gs \<and> A \<subseteq> A' \<and>
    (\<forall>n \<in> set ns. i \<le> n div slots_per_segment \<and> n div slots_per_segment < i + length gs \<longrightarrow> n \<in> A')"
  using assms(1,3)
proof (induction ns arbitrary: p A gs)
  case (Cons n ns)
  define packet where "packet = \<lparr>bdata_Type = BLOCK_DATA_PACKET, bdata_Length = 0, bdata_BlockNumber = bn,
    bdata_DataNumber = of_nat n, bdata_SessionID = 0, bdata_Redundant = FEC_SOURCE_DATA, bdata_Data = slot B n\<rparr>"
  have packet: "is_block_data B bn n packet" using Cons.prems(2) by (simp add: packet_def is_block_data_def)
  from receiving_data [OF Cons.prems(1) packet assms(2)] obtain p1 A1 gs1 where
    1: "handleBlockDataPacket key packet p = Inr p1" "receiving Ow key bn B A1 i k gs1 (offset, got, p1)"
       "A \<subseteq> A1" "length gs1 = length gs"
       "i \<le> n div slots_per_segment \<and> n div slots_per_segment < i + length gs \<longrightarrow> n \<in> A1" by blast
  from Cons.IH [OF 1(2)] Cons.prems(2) obtain p2 A2 gs2 where
    2: "(block_step E key bn B)\<^sup>*\<^sup>* (offset, got, p1) (offset, got, p2)"
       "receiving Ow key bn B A2 i k gs2 (offset, got, p2)" "length gs2 = length gs1" "A1 \<subseteq> A2"
       "\<forall>n \<in> set ns. i \<le> n div slots_per_segment \<and> n div slots_per_segment < i + length gs1 \<longrightarrow> n \<in> A2" by auto
  have "(block_step E key bn B)\<^sup>*\<^sup>* (offset, got, p) (offset, got, p2)"
    using converse_rtranclp_into_rtranclp [OF block_step.data [OF packet 1(1)] 2(1)] .
  moreover have "\<forall>m \<in> set (n # ns). i \<le> m div slots_per_segment \<and> m div slots_per_segment < i + length gs \<longrightarrow> m \<in> A2"
    using 1(4,5) 2(4,5) by auto
  moreover have "length gs2 = length gs" "A \<subseteq> A2" using 1(3,4) 2(3,4) by auto
  ultimately show ?case using 2(2) by blast
qed auto

lemma queue_complete:
  assumes "queue_at B bn A i k gs" and "\<forall>n<nslots B. i \<le> n div slots_per_segment \<and> n div slots_per_segment < i + length gs \<longrightarrow> n \<in> A"
    and g: "g \<in> set gs"
  shows "Complete g"
proof -
  from g obtain j where j: "j < length gs" "g = gs ! j" by (auto simp: in_set_conv_nth)
  let ?S = "seg_bytes B (i + j)"
  have inv: "seg_inv ?S {l. l < nslots ?S \<and> (i + j) * slots_per_segment + l \<in> A} (if j = 0 then k else 0) g"
    using assms(1) j by (auto simp: queue_at_def seg_at_def)
  have "{l. l < nslots ?S \<and> (i + j) * slots_per_segment + l \<in> A} = {..<nslots ?S}"
  proof -
    have "(i + j) * slots_per_segment + l \<in> A" if "l < nslots ?S" for l
    proof -
      have l: "l < slots_per_segment" "(i + j) * slots_per_segment + l < nslots B"
        using that nslots_seg_bytes by blast+
      then have "((i + j) * slots_per_segment + l) div slots_per_segment = i + j" by simp
      with assms(2) l(2) j(1) show ?thesis by simp
    qed
    then show ?thesis by blast
  qed
  with seg_complete [OF inv] show ?thesis by simp
qed

lemma receiving_drain:
  assumes "receiving Ow key bn B A i k gs (offset, got, p)" and "length B < 2 ^ 32" and "\<forall>g \<in> set gs. Complete g"
  shows "\<exists>k' got' p'. (block_step E key bn B)\<^sup>*\<^sup>* (offset, got, p) (offset, got', p') \<and>
    receiving Ow key bn B A (i + length gs) k' [] (offset, got', p')"
  using assms(1,3)
proof (induction gs arbitrary: i k got p)
  case Nil
  then show ?case by auto
next
  case (Cons g gs)
  let ?S = "seg_bytes B i"
  have q: "queue_at B bn A i k (g # gs)" using Cons.prems(1) by (auto simp: receiving_def)
  then have g: "seg_at B bn A i k g" by (simp_all add: queue_at_Cons)
  define buf :: bytes where "buf = replicate (length ?S) 0"
  have buf: "length buf < 2 ^ 32" using assms(2) by (simp add: buf_def length_seg_bytes)
  have k: "k < length ?S" using Cons.prems(1) by (auto simp: receiving_def)
  have data: "hasDataToRead g" using seg_at_has_data [OF g] Cons.prems(2) k by simp
  from receiving_read [OF Cons.prems(1) buf data] Cons.prems(2) k obtain n buf' p' where
    read: "Mp2ReadBlock buf bn p = Inr (n, buf', p')" "k + n = length ?S"
      "receiving Ow key bn B A (Suc i) 0 gs (offset, got @ take n buf', p')"
    by (auto simp: buf_def split: if_splits)
  from Cons.IH [OF read(3)] Cons.prems(2) obtain k2 got2 p2 where
    "(block_step E key bn B)\<^sup>*\<^sup>* (offset, got @ take n buf', p') (offset, got2, p2)"
    "receiving Ow key bn B A (i + length (g # gs)) k2 [] (offset, got2, p2)" by auto
  with block_step.read [OF buf read(1)] show ?case by (meson converse_rtranclp_into_rtranclp)
qed

lemma receiving_empty_queue:
  assumes "receiving Ow key bn B A i k gs (offset, got, p)" and B: "length B < 2 ^ 32"
  shows "\<exists>A' k' got' p'. (block_step E key bn B)\<^sup>*\<^sup>* (offset, got, p) (offset, got', p') \<and>
    receiving Ow key bn B A' (i + length gs) k' [] (offset, got', p')"
proof -
  from receiving_deliver [OF assms, of "[0..<nslots B]" E] obtain p1 A1 gs1 where
    1: "(block_step E key bn B)\<^sup>*\<^sup>* (offset, got, p) (offset, got, p1)" "receiving Ow key bn B A1 i k gs1 (offset, got, p1)"
       "length gs1 = length gs"
       "\<forall>n \<in> set [0..<nslots B]. i \<le> n div slots_per_segment \<and> n div slots_per_segment < i + length gs \<longrightarrow> n \<in> A1"
    by auto
  have "queue_at B bn A1 i k gs1" using 1(2) by (auto simp: receiving_def)
  from queue_complete [OF this] 1(3,4) have "\<forall>g \<in> set gs1. Complete g" by simp
  from receiving_drain [OF 1(2) B this, of E] obtain k2 got2 p2 where
    "(block_step E key bn B)\<^sup>*\<^sup>* (offset, got, p1) (offset, got2, p2)"
    "receiving Ow key bn B A1 (i + length gs) k2 [] (offset, got2, p2)" unfolding 1(3) by blast
  with rtranclp_trans [OF 1(1)] show ?thesis by blast
qed

text \<open>From every state of a reception there is a continuation that reads the whole block.\<close>

lemma receiving_completes:
  assumes "receiving Ow key bn B A i k gs (offset, got, p)" and B: "length B < 2 ^ 32"
  shows "\<exists>offset' p'. (block_step E key bn B)\<^sup>*\<^sup>* (offset, got, p) (offset', B, p')"
  using assms(1)
proof (induction "length B - unat offset" arbitrary: A i k gs offset got p rule: less_induct)
  case less
  from receiving_empty_queue [OF less.prems B, of E] obtain A1 k1 got1 p1 where
    1: "(block_step E key bn B)\<^sup>*\<^sup>* (offset, got, p) (offset, got1, p1)"
       "receiving Ow key bn B A1 (i + length gs) k1 [] (offset, got1, p1)" by blast
  have off: "unat offset = min ((i + length gs) * SEGMENT_SIZE) (length B)" and k1: "k1 = 0"
    and got1: "got1 = take ((i + length gs) * SEGMENT_SIZE) B"
    using 1(2) by (auto simp: receiving_def)
  have len: "unat (of_nat (length B) :: u32) = length B" using B by (intro unat_of_nat_less) simp
  show ?case
  proof (cases "unat offset < length B")
    case False
    then have "got1 = B" using off got1 by simp
    then show ?thesis using 1(1) by blast
  next
    case True
    then have lt: "offset < of_nat (length B)" by (simp add: word_less_nat_alt len)
    from request_possible [OF 1(2), of E] obtain offset2 p2 where
      2: "sendBlockRequest_round E key bn (of_nat (length B)) offset 0 p1 = Inr (offset2, p2)" by blast
    from receiving_request [OF 1(2) B lt 2] obtain gs2 where
      3: "receiving Ow key bn B A1 (i + length gs) k1 gs2 (offset2, got1, p2)" and "gs2 \<noteq> []" by blast
    then have "unat offset < unat offset2"
      using off True by (cases gs2) (auto simp: receiving_def min_def SEGMENT_SIZE_def split: if_splits)
    then have "length B - unat offset2 < length B - unat offset" using True by (rule diff_less_mono2)
    from less.hyps [OF this 3] obtain offset3 p3 where
      "(block_step E key bn B)\<^sup>*\<^sup>* (offset2, got1, p2) (offset3, B, p3)" by blast
    with 1(1) block_step.request [OF lt 2] show ?thesis by (meson rtranclp_trans converse_rtranclp_into_rtranclp)
  qed
qed

end
