(* ===== verification/Mp2_Serving.thy ===== *)
theory Mp2_Serving
  imports Mp2_Transfer
begin

text \<open>
  The sending side of a block transfer and the way of its packets: \<^verbatim>\<open>sendBlockData\<close> sends the slots of the
  send buffer that a request names, the session handler of the peer cuts the packets out of the byte stream
  and hands them to their handlers.  Also the cutting of control data, and the table of nodes.
\<close>

section \<open>Sending block data\<close>

lemma data_bytes_slot:
  assumes "n * PAYLOAD_SIZE \<le> length buf" and "length buf + PAYLOAD_SIZE < 2 ^ 32"
  shows "data_bytes buf (of_nat n) = Inr (slot buf n)"
proof -
  define off len :: u32 where ol: "off = of_nat (n * PAYLOAD_SIZE)" "len = of_nat (length buf)"
  have o: "unat off = n * PAYLOAD_SIZE" and l: "unat len = length buf"
    unfolding ol using assms by (intro unat_of_nat_less; simp)+
  have P: "unat (of_nat PAYLOAD_SIZE :: u32) = PAYLOAD_SIZE"
    using assms(2) by (intro unat_of_nat_less) simp
  have oP: "unat (off + of_nat PAYLOAD_SIZE) = n * PAYLOAD_SIZE + PAYLOAD_SIZE"
    using assms by (subst unat_plus_less) (simp_all add: o P)
  define sz where sz_def: "sz = (if off + of_nat PAYLOAD_SIZE \<le> len then of_nat PAYLOAD_SIZE else len - off)"
  have "unat (len - off) = length buf - n * PAYLOAD_SIZE"
    using assms(1) by (intro payload_length [of _ "n * PAYLOAD_SIZE"]) (simp_all add: o l)
  then have sz: "unat sz = length (slot buf n)"
    by (simp add: sz_def word_le_nat_alt oP l P length_slot)
  have e: "n * PAYLOAD_SIZE + length (slot buf n) \<le> length buf" using assms(1) by (simp add: length_slot)
  then have end_: "unat (off + sz) = n * PAYLOAD_SIZE + length (slot buf n)"
    using assms(2) by (subst unat_plus_less) (simp_all add: o sz)
  have src: "take (length (slot buf n)) (drop (n * PAYLOAD_SIZE) buf) = slot buf n"
    by (simp add: slot_def min_def)
  have off: "of_nat n * of_nat PAYLOAD_SIZE = off" by (simp add: ol)
  show ?thesis
    unfolding data_bytes_def off ol(2) [symmetric] sz_def [symmetric] Let_def end_ o sz
    using e by (simp add: src)
qed

lemma mp2_sendPacket_sendBuffer: "mp2_sendPacket E key sid buf t p = Inr p' \<Longrightarrow> mp_sendBuffer p' = mp_sendBuffer p"
  by (auto simp: mp2_sendPacket_def get_mp2_def put_mp2_def bindE_eq_Inr_iff split: option.splits)

lemma sendBlockDataPacket_sendBuffer:
  "sendBlockDataPacket E key sid bn dn red data p = Inr p' \<Longrightarrow> mp_sendBuffer p' = mp_sendBuffer p"
  by (auto simp: sendBlockDataPacket_def bindE_eq_Inr_iff dest: mp2_sendPacket_sendBuffer)

definition send_slot :: "'st env \<Rightarrow> u32 \<Rightarrow> u32 \<Rightarrow> u32 \<Rightarrow> bytes \<Rightarrow> nat \<Rightarrow> 'st Mp2SessionManager \<Rightarrow> 'st Mp2SessionManager result" where
  "send_slot E key sid bn B n p = sendBlockDataPacket E key sid bn (of_nat n) FEC_SOURCE_DATA (slot B n) p"

lemma sendBlockData_loop_slots:
  assumes "\<not> e_fec E" and "unat e * PAYLOAD_SIZE \<le> length B" and "length B + PAYLOAD_SIZE < 2 ^ 32"
    and "mp_sendBuffer p = B" and "n \<le> Suc (unat e)"
  shows "sendBlockData_loop E key sid bn numPeers peerIdx (of_nat n) e p =
    Some (foldE (send_slot E key sid bn B) [n..<Suc (unat e)] p)"
  using assms(4,5)
proof (induction "Suc (unat e) - n" arbitrary: n p)
  case 0
  have "unat e < 2 ^ 32 - 1" using assms(2,3) by (simp add: PAYLOAD_SIZE_def)
  then have "unat (of_nat n :: u32) = Suc (unat e)" using 0 by (intro unat_of_nat_less [THEN trans]) simp_all
  then have "\<not> of_nat n \<le> e" by (simp add: word_le_nat_alt)
  then show ?case using 0 by (subst sendBlockData_loop.simps) simp
next
  case (Suc d)
  then have n: "n \<le> unat e" by simp
  have un: "unat (of_nat n :: u32) = n" using n unat_bound [of e] by (intro unat_of_nat_less) simp
  have "n * PAYLOAD_SIZE \<le> length B" using mult_le_mono1 [OF n, of PAYLOAD_SIZE] assms(2) by (rule order_trans)
  from data_bytes_slot [OF this assms(3)] have data: "data_bytes B (of_nat n) = Inr (slot B n)" .
  have list: "[n..<Suc (unat e)] = n # [Suc n..<Suc (unat e)]" using n by (simp add: upt_rec)
  have next_: "of_nat n + 1 = (of_nat (Suc n) :: u32)" by simp
  have le: "(of_nat n :: u32) \<le> e" using n by (simp add: word_le_nat_alt un)
  show ?case
  proof (cases "send_slot E key sid bn B n p")
    case (Inl err)
    then show ?thesis unfolding list using assms(1) Suc.prems data le
      by (subst sendBlockData_loop.simps) (simp add: send_slot_def)
  next
    case (Inr p')
    then have "mp_sendBuffer p' = B"
      using Suc.prems by (simp add: send_slot_def sendBlockDataPacket_sendBuffer)
    with Suc.hyps(1) [of "Suc n" p'] Suc.hyps(2) n have
      "sendBlockData_loop E key sid bn numPeers peerIdx (of_nat (Suc n)) e p' =
       Some (foldE (send_slot E key sid bn B) [Suc n..<Suc (unat e)] p')" by simp
    then show ?thesis unfolding list using assms(1) Suc.prems data le Inr
      by (subst sendBlockData_loop.simps) (simp add: send_slot_def next_ del: of_nat_Suc)
  qed
qed

lemma sendBlockData_slots:
  assumes "\<not> e_fec E" and "unat e * PAYLOAD_SIZE \<le> length (mp_sendBuffer p)"
    and "length (mp_sendBuffer p) + PAYLOAD_SIZE < 2 ^ 32" and "start \<le> e"
    and s: "mp2sessionMap p key = Some s" "firstSegment s" and "stopSendCond p = 0"
  shows "sendBlockData E key sid bn start e fecIndex p =
    Some (foldE (send_slot E key sid bn (mp_sendBuffer p)) [unat start..<Suc (unat e)] p)"
proof -
  have "unat (e * of_nat PAYLOAD_SIZE) = unat e * PAYLOAD_SIZE"
  proof -
    have "e * of_nat PAYLOAD_SIZE = of_nat (unat e * PAYLOAD_SIZE)" by simp
    then show ?thesis using assms(2,3) by (simp only:) (intro unat_of_nat_less, simp)
  qed
  moreover have "unat (of_nat (length (mp_sendBuffer p)) :: u32) = length (mp_sendBuffer p)"
    using assms(3) by (intro unat_of_nat_less) simp
  ultimately have wait: "\<not> of_nat (length (mp_sendBuffer p)) < e * of_nat PAYLOAD_SIZE"
    using assms(2) by (simp add: word_less_nat_alt)
  have same: "put_mp2 p key s = p" using s(1) by (simp add: put_mp2_def fun_upd_idem)
  have start: "of_nat (unat start) = start" by simp
  have "unat start \<le> Suc (unat e)" using assms(4) by (simp add: word_le_nat_alt)
  from sendBlockData_loop_slots [OF assms(1,2,3) refl this, of key sid bn] start
  show ?thesis using wait s same assms(7) by (simp add: sendBlockData_def get_mp2_def Let_def del: of_nat_unat)
qed

section \<open>Cutting packets out of the stream\<close>

lemma Session_ReadWithSize_ok:
  assumes "readBuffer (recvBuffer s) = part @ rest" and "length part = length buf" and "n \<le> length part" and "part \<noteq> []"
  shows "Session_ReadWithSize s buf n =
    Some (length part, part, s\<lparr>recvBuffer := (recvBuffer s)\<lparr>readBuffer := rest\<rparr>\<rparr>)"
  using assms by (auto simp: Session_ReadWithSize_def RecvBuffer_GetLength_def RecvBuffer_Read_def Let_def)

lemma read_session_ok:
  assumes "readBuffer (recvBuffer s) = part @ rest" and "i \<le> j" and "j \<le> length buf" and "length part = j - i"
  shows "read_session s buf i j (j - i) =
    Inr (take i buf @ part @ drop j buf, s\<lparr>recvBuffer := (recvBuffer s)\<lparr>readBuffer := rest\<rparr>\<rparr>)"
proof (cases "part = []")
  case True
  then show ?thesis using assms
    by (auto simp: read_session_def Session_ReadWithSize_def RecvBuffer_GetLength_def RecvBuffer_Read_def go_copy_def)
next
  case False
  then show ?thesis using assms
    by (simp add: read_session_def Session_ReadWithSize_ok [OF assms(1)])
qed

lemma packet_header_ok: "take 3 buf = t # WriteUint16 [] l \<Longrightarrow> packet_header buf = Inr (t, l)"
  using ReadUint16_WriteUint16 [of l "[]"] by (simp add: packet_header_def)

text \<open>One round handles the packet at the head of the stream and leaves the rest of the stream.\<close>

definition consumed :: "'st Session \<Rightarrow> bytes \<Rightarrow> u32 \<Rightarrow> 'st Mp2Session \<Rightarrow> 'st Mp2Session" where
  "consumed session rest sid s =
     s\<lparr>ms_sessionMap := AList.update sid (session\<lparr>recvBuffer := (recvBuffer session)\<lparr>readBuffer := rest\<rparr>\<rparr>) (ms_sessionMap s)\<rparr>"

lemma sessionHandler_round_ok:
  assumes s: "mp2sessionMap p key = Some s" "map_of (ms_sessionMap s) sid = Some session"
    and stream: "readBuffer (recvBuffer session) = bs @ rest"
    and header: "take 3 bs = t # WriteUint16 [] l" and len: "length bs = unat l" "unat l \<le> unat (PACKET_SIZE (e_conf E))"
    and t: "t \<noteq> 0"
  shows "sessionHandler_round E rnd intn key sid p =
    bindE (parsePacket E rnd intn key t (bs @ replicate (unat (PACKET_SIZE (e_conf E)) - length bs) 0)
      (SessionID session) (put_mp2 p key (consumed session rest sid s))) (\<lambda>p. Inr (True, p))"
proof -
  let ?N = "unat (PACKET_SIZE (e_conf E))"
  let ?buf = "take 3 bs @ replicate (?N - 3) (0 :: u8)"
  let ?mid = "session\<lparr>recvBuffer := (recvBuffer session)\<lparr>readBuffer := drop 3 bs @ rest\<rparr>\<rparr>"
  have "length (take 3 bs) = 3" unfolding header by (simp add: WriteUint16_def WriteBytes_def)
  then have three: "3 \<le> length bs" by simp
  have first: "read_session session (zero_buffer (e_conf E)) 0 3 3 = Inr (?buf, ?mid)"
    using read_session_ok [of session "take 3 bs" "drop 3 bs @ rest" 0 3 "zero_buffer (e_conf E)"] stream three len
    by (simp add: zero_buffer_def append_assoc [symmetric] del: append_assoc)
  have hdr: "packet_header ?buf = Inr (t, l)" using three by (intro packet_header_ok) (simp add: header [symmetric])
  have size: "unat (l - 3) = unat l - 3" using three len by (intro payload_length) simp_all
  have second: "read_session ?mid ?buf 3 (unat l) (unat (l - 3)) =
      Inr (bs @ replicate (?N - length bs) 0, session\<lparr>recvBuffer := (recvBuffer session)\<lparr>readBuffer := rest\<rparr>\<rparr>)"
    using read_session_ok [of ?mid "drop 3 bs" rest 3 "unat l" ?buf] three len unfolding size
    by (simp add: append_assoc [symmetric] del: append_assoc)
  show ?thesis
    using s t first second by (simp add: sessionHandler_round_def get_mp2_def hdr consumed_def)
qed

lemma length_BlockDataPacket_enc: "length (BlockDataPacket_enc packet) = 16 + length (bdata_Data packet)"
  by (simp add: BlockDataPacket_enc_def)

text \<open>The packet that \<open>send_slot\<close> puts on the wire.\<close>

lemma slot_packet:
  assumes "n < nslots B"
  shows "\<exists>packet. CreateBlockDataPacket bn (of_nat n) sid FEC_SOURCE_DATA (slot B n) = Inr packet \<and>
    BlockDataPacket_valid packet \<and> bdata_Type packet = BLOCK_DATA_PACKET \<and> is_block_data B bn n packet \<and>
    BlockDataPacket_Write packet [] = Inr (BlockDataPacket_enc packet)"
proof -
  have "length (slot B n) \<le> PAYLOAD_SIZE" by (simp add: length_slot)
  from CreateBlockDataPacket_ok [OF this, of bn "of_nat n" sid FEC_SOURCE_DATA] assms bdata.Write_enc
  show ?thesis by (auto simp: is_block_data_def)
qed

lemma data_packet_round:
  assumes s: "mp2sessionMap p key = Some s" "map_of (ms_sessionMap s) sid = Some session" "noTimeoutChan s = []"
    and valid: "BlockDataPacket_valid packet" "bdata_Type packet = BLOCK_DATA_PACKET"
    and stream: "readBuffer (recvBuffer session) = BlockDataPacket_enc packet @ rest"
    and size: "16 + length (bdata_Data packet) \<le> unat (PACKET_SIZE (e_conf E))"
  shows "sessionHandler_round E rnd intn key sid p =
    bindE (handleBlockDataPacket key packet
      (put_mp2 p key ((consumed session rest sid s)\<lparr>noTimeoutChan := [True]\<rparr>))) (\<lambda>p. Inr (True, p))"
proof -
  let ?pad = "replicate (unat (PACKET_SIZE (e_conf E)) - length (BlockDataPacket_enc packet)) (0 :: u8)"
  have len: "length (BlockDataPacket_enc packet) = unat (bdata_Length packet)"
    using valid by (simp add: length_BlockDataPacket_enc BlockDataPacket_valid_def)
  have "unat (bdata_Length packet) \<le> unat (PACKET_SIZE (e_conf E))"
    using valid(1) size by (simp add: BlockDataPacket_valid_def)
  from sessionHandler_round_ok [OF s(1,2) stream _ len this, of BLOCK_DATA_PACKET]
    bdata.take_3_enc [OF valid(1), of "[]"] valid(2)
  have "sessionHandler_round E rnd intn key sid p =
      bindE (parsePacket E rnd intn key BLOCK_DATA_PACKET (BlockDataPacket_enc packet @ ?pad) (SessionID session)
        (put_mp2 p key (consumed session rest sid s))) (\<lambda>p. Inr (True, p))"
    by (simp add: packet_type_defs)
  moreover have "parsePacket E rnd intn key BLOCK_DATA_PACKET (BlockDataPacket_enc packet @ ?pad) (SessionID session)
        (put_mp2 p key (consumed session rest sid s)) =
      handleBlockDataPacket key packet (put_mp2 p key ((consumed session rest sid s)\<lparr>noTimeoutChan := [True]\<rparr>))"
    using bdata.Parse_enc [OF valid(1), of ?pad] s(3)
    by (simp add: parsePacket_def packet_type_defs get_mp2_def put_mp2_def chan_send_def consumed_def)
  ultimately show ?thesis by simp
qed

section \<open>Control data\<close>

definition send_control :: "'st env \<Rightarrow> u32 \<Rightarrow> bytes \<Rightarrow> 'st Mp2SessionManager \<Rightarrow> 'st Mp2SessionManager result" where
  "send_control E key data p =
     bindE (get_mp2 p key) (\<lambda>s. foldE (\<lambda>sid. sendControlPacket E key sid data) (session_ids s) p)"

lemma WriteControl_loop_chunks:
  assumes "length buf + PAYLOAD_SIZE < 2 ^ 32" and "i \<le> length buf"
  shows "WriteControl_loop E key buf (of_nat i) p = foldE (send_control E key) (chunks PAYLOAD_SIZE (drop i buf)) p"
  using assms(2)
proof (induction "length buf - i" arbitrary: i p rule: less_induct)
  case less
  define len off :: u32 where d: "len = of_nat (length buf)" "off = of_nat i"
  have l: "unat len = length buf" and of: "unat off = i" and P: "unat (of_nat PAYLOAD_SIZE :: u32) = PAYLOAD_SIZE"
    unfolding d using assms(1) less.prems by (intro unat_of_nat_less; simp)+
  show ?case
  proof (cases "i < length buf")
    case False
    then show ?thesis using less.prems by (subst WriteControl_loop.simps) simp
  next
    case True
    define sz where sz_def: "sz = (if off + of_nat PAYLOAD_SIZE \<le> len then of_nat PAYLOAD_SIZE else len - off)"
    let ?n = "min PAYLOAD_SIZE (length buf - i)"
    have oP: "unat (off + of_nat PAYLOAD_SIZE) = i + PAYLOAD_SIZE"
      using assms(1) True by (subst unat_plus_less) (simp_all add: of P)
    have "unat (len - off) = length buf - i" using True by (intro payload_length [of _ i]) (simp_all add: of l)
    then have sz: "unat sz = ?n" by (simp add: sz_def word_le_nat_alt oP l P)
    have on: "unat (off + sz) = i + ?n" using assms(1) True by (subst unat_plus_less) (simp_all add: of sz)
    then have off': "off + sz = of_nat (i + ?n)" by (rule word_eq_of_nat)
    have pos: "0 < ?n" using True by (simp add: PAYLOAD_SIZE_def)
    have cs: "chunks PAYLOAD_SIZE (drop i buf) = take ?n (drop i buf) # chunks PAYLOAD_SIZE (drop (i + ?n) buf)"
      using True by (subst chunks_step) (auto simp: PAYLOAD_SIZE_def min_def add.commute)
    have lt: "off < len" using True by (simp add: word_less_nat_alt of l)
    have "WriteControl_loop E key buf off p =
        bindE (send_control E key (take ?n (drop i buf)) p) (WriteControl_loop E key buf (of_nat (i + ?n)))"
      using True unfolding off' [symmetric]
      by (subst WriteControl_loop.simps)
         (simp add: lt d(1) [symmetric] sz_def [symmetric] Let_def on of send_control_def)
    moreover have "WriteControl_loop E key buf (of_nat (i + ?n)) p' =
        foldE (send_control E key) (chunks PAYLOAD_SIZE (drop (i + ?n) buf)) p'" for p'
      using pos True by (intro less.hyps) linarith+
    ultimately show ?thesis unfolding d(2) cs by (simp del: of_nat_add cong: bindE_cong)
  qed
qed

section \<open>The table of nodes\<close>

lemma Int2ip_inject: "Int2ip m = Int2ip n \<longleftrightarrow> m = n"
  by (metis Ip2int_Int2ip sum.inject(2))

lemma FormatInt_unsigned: "ParseInt16 (FormatInt n) = int (min n 32767)"
proof (cases "FormatInt n")
  case (Cons c cs)
  then have "c \<in> set (FormatInt n)" by simp
  moreover have "digit_value (CHR ''-'') = None" "digit_value (CHR ''+'') = None" by code_simp+
  ultimately have "c \<noteq> CHR ''-''" "c \<noteq> CHR ''+''" using FormatInt_no by blast+
  moreover have "parse_digits (c # cs) = Some n" using parse_digits_FormatInt [of n] Cons by simp
  ultimately show ?thesis by (simp add: ParseInt16_def Cons)
qed simp

text \<open>The port that a node compares with, for its own address.\<close>

definition known_port :: "u16 \<Rightarrow> u16" where
  "known_port port = of_nat (min (unat port) 32767)"

lemma is_my_node_address:
  "is_my_node (node_address a) b = Inr (NodeIP b = NodeIP a \<and> Port b = known_port (Port a))"
proof -
  have "Split (CHR '':'') (node_address a) = [Int2ip (NodeIP a), FormatInt (unat (Port a))]"
    by (simp add: node_address_def Split_append Int2ip_no_colon Split_no FormatInt_no [OF no_digit_colon])
  then show ?thesis by (simp add: is_my_node_def FormatInt_unsigned Int2ip_inject known_port_def)
qed

lemma find_my_index_single:
  "find_my_index [node_address me] nodes =
     Inr (fold (\<lambda>(i, b) m. if NodeIP b = NodeIP me \<and> Port b = known_port (Port me) then i else m) (enumerate 0 nodes) 0)"
proof -
  have "foldE (\<lambda>(i, b) m. bindE (find_my_nic [node_address me] b) (\<lambda>x. Inr (if x then i else m))) xs m =
      Inr (fold (\<lambda>(i, b) m. if NodeIP b = NodeIP me \<and> Port b = known_port (Port me) then i else m) xs m)" for xs m
    by (induction xs arbitrary: m) (auto simp: is_my_node_address)
  then show ?thesis by (simp add: find_my_index_def)
qed

lemma fold_no_match:
  "\<forall>(i, b) \<in> set xs. \<not> P b \<Longrightarrow> fold (\<lambda>(i, b) m. if P b then i else m) xs m = m"
  by (induction xs arbitrary: m) auto

lemma fold_one_match:
  assumes "m < length nodes" and "P (nodes ! m)" and "\<forall>i<length nodes. i \<noteq> m \<longrightarrow> \<not> P (nodes ! i)"
  shows "fold (\<lambda>(i, b) k. if P b then i else k) (enumerate 0 nodes) 0 = m"
proof -
  have split: "nodes = take m nodes @ nodes ! m # drop (Suc m) nodes" by (rule id_take_nth_drop [OF assms(1)])
  have "\<forall>(i, b) \<in> set (enumerate 0 (take m nodes)). \<not> P b" "\<forall>(i, b) \<in> set (enumerate (Suc m) (drop (Suc m) nodes)). \<not> P b"
    using assms(1,3) by (auto simp: in_set_enumerate_eq)
  with assms(1,2) show ?thesis by (subst split) (simp add: enumerate_append_eq fold_no_match min_def)
qed

lemma foldE_indices:
  "set is \<subseteq> {..<length xs} \<Longrightarrow>
   foldE (\<lambda>i acc. bindE (go_index xs i) (\<lambda>x. Inr (acc @ [f x]))) is acc = Inr (acc @ map (\<lambda>i. f (xs ! i)) is)"
  by (induction "is" arbitrary: acc) auto

lemma others_eq:
  "m < length xs \<Longrightarrow> map (\<lambda>(i, x). f x) (filter (\<lambda>(i, x). i \<noteq> m) (enumerate 0 xs)) = map f (take m xs @ drop (Suc m) xs)"
proof -
  assume m: "m < length xs"
  have keep: "filter (\<lambda>(i, x). i \<noteq> m) (enumerate n ys) = enumerate n ys" if "m < n \<or> n + length ys \<le> m" for n ys
    using that by (intro filter_True) (auto simp: in_set_enumerate_eq)
  have vals: "map (\<lambda>(i, x). f x) (enumerate n ys) = map f ys" for n ys
    by (induction ys arbitrary: n) auto
  show ?thesis using m
    by (subst id_take_nth_drop [OF m]) (simp add: enumerate_append_eq keep vals min_def)
qed

lemma Mp2SetNodeInfo_at:
  assumes idx: "find_my_index (NIC_ADDRS conf) nodes = Inr m" and m: "m < length nodes"
    and children: "unat (OffsetOfChild (nodes ! m)) + unat (NumOfChilds (nodes ! m)) \<le> length nodes" and "length nodes < 256"
  shows "Mp2SetNodeInfo conf nodes p = Inr (p\<lparr>
    childAddr := childAddr p @ map node_address
      (take (unat (NumOfChilds (nodes ! m))) (drop (unat (OffsetOfChild (nodes ! m))) nodes)),
    allAddr := allAddr p @ map node_address (take m nodes @ drop (Suc m) nodes)\<rparr>)"
proof -
  let ?o = "unat (OffsetOfChild (nodes ! m))" and ?n = "unat (NumOfChilds (nodes ! m))"
  have "unat (OffsetOfChild (nodes ! m) + NumOfChilds (nodes ! m)) = ?o + ?n"
    using children assms(4) by (subst unat_plus_less) simp_all
  moreover have "map (\<lambda>i. node_address (nodes ! i)) [?o..<?o + ?n] = map node_address (take ?n (drop ?o nodes))"
    using children by (intro nth_equalityI) auto
  moreover have "set [?o..<?o + ?n] \<subseteq> {..<length nodes}" using children by auto
  ultimately have "foldE (\<lambda>i addrs. bindE (go_index nodes i) (\<lambda>node. Inr (addrs @ [node_address node])))
      [?o..<unat (OffsetOfChild (nodes ! m) + NumOfChilds (nodes ! m))] (childAddr p) =
      Inr (childAddr p @ map node_address (take ?n (drop ?o nodes)))"
    by (simp add: foldE_indices)
  then show ?thesis using m idx by (simp add: Mp2SetNodeInfo_def others_eq)
qed

lemma Mp2SetNodeInfo_ok:
  assumes nic: "NIC_ADDRS conf = [node_address me]" and m: "m < length nodes"
    and match: "NodeIP (nodes ! m) = NodeIP me" "Port (nodes ! m) = known_port (Port me)"
    and uniq: "\<forall>i<length nodes. i \<noteq> m \<longrightarrow> \<not> (NodeIP (nodes ! i) = NodeIP me \<and> Port (nodes ! i) = known_port (Port me))"
    and children: "unat (OffsetOfChild (nodes ! m)) + unat (NumOfChilds (nodes ! m)) \<le> length nodes" and "length nodes < 256"
  shows "Mp2SetNodeInfo conf nodes p = Inr (p\<lparr>
    childAddr := childAddr p @ map node_address
      (take (unat (NumOfChilds (nodes ! m))) (drop (unat (OffsetOfChild (nodes ! m))) nodes)),
    allAddr := allAddr p @ map node_address (take m nodes @ drop (Suc m) nodes)\<rparr>)"
proof (rule Mp2SetNodeInfo_at [OF _ m children assms(7)])
  show "find_my_index (NIC_ADDRS conf) nodes = Inr m"
    unfolding nic find_my_index_single
    using fold_one_match [OF m, of "\<lambda>b. NodeIP b = NodeIP me \<and> Port b = known_port (Port me)"] match uniq by auto
qed

section \<open>Empty data\<close>

text \<open>An empty datum for the slot that a segment waits for is stored, and the segment still waits for it.\<close>

lemma empty_datum_ignored:
  assumes inv: "seg_inv B R k g" and dn: "unat dn = unat (startDataNumber g) + i" and R: "\<forall>j<i. j \<in> R" "i \<notin> R"
    and i: "i < nslots B"
  shows "\<exists>g'. PushData g (seg_BlockNumber g) dn [] = Inr (True, g') \<and> seg_inv B R k g'"
proof -
  from inv obtain m where body: "seg_body B R k m g" and "m \<notin> R" by (auto simp: seg_inv_def)
  moreover have "\<forall>j<m. j \<in> R" using body unfolding seg_body_def by blast
  ultimately have m: "m = i" using R by (metis linorder_neqE_nat)
  let ?g = "g\<lparr>recvDataSize := (recvDataSize g)[i := 0], numDataNumber := numDataNumber g + 1\<rparr>"
  have f: "length B = unat (seg_size g)" "length (seg_recvBuffer g) = length B" "length (recvDataSize g) = nslots B"
    "recvDataSize g ! i = 0" "unat (expectedDataNumber g) = unat (startDataNumber g) + i"
    "Suc (unat (endDataNumber g)) = unat (startDataNumber g) + nslots B"
    using body R(2) i unfolding m seg_body_def by auto
  have same: "(recvDataSize g)[i := 0] = recvDataSize g" using f(4) by (metis list_update_id)
  have body': "seg_body B R k i ?g" using body unfolding m same by (auto simp: seg_body_def)
  have idx: "unat (dn - startDataNumber g) = i" by (rule payload_length [OF dn refl])
  have "(dn - startDataNumber g) * of_nat PAYLOAD_SIZE = of_nat (i * PAYLOAD_SIZE)"
    using word_eq_of_nat [OF idx] by simp
  moreover have "i * PAYLOAD_SIZE < length B" using i by (simp add: nslots_iff)
  moreover have "length B < 2 ^ 32" using f(1) unat_bound [of "seg_size g"] by simp
  ultimately have off: "unat ((dn - startDataNumber g) * of_nat PAYLOAD_SIZE) = i * PAYLOAD_SIZE" "i * PAYLOAD_SIZE \<le> length B"
    by (simp_all only:) (intro unat_of_nat_less, simp_all)
  have range: "startDataNumber g \<le> dn" "dn \<le> endDataNumber g" "dn = expectedDataNumber g"
    using dn f i by (auto simp: word_le_nat_alt word_unat_eq_iff)
  have "advance_expected ?g = Inr ?g" by (rule advance_expected_stop [OF body' i R(2)])
  then have "PushData g (seg_BlockNumber g) dn [] = Inr (True, ?g)"
    using range off f i by (simp add: PushData_def idx [unfolded range(3)] Let_def)
  moreover have "seg_inv B R k ?g" using body' R(2) unfolding seg_inv_def by blast
  ultimately show ?thesis by blast
qed

end
