(* ===== verification/Mp2_Race.thy ===== *)
theory Mp2_Race
  imports Mp2_Transfer
begin

text \<open>
  The search of \<^verbatim>\<open>handleBlockDataPacket\<close> for the segment of a data packet, in small steps.  The loop reads the queue of the block without a
  lock: once for the length at the top of the loop, once for every comparison, once for the segment that it takes.
  Between any two of these \<^verbatim>\<open>Mp2ReadBlock\<close> of the application may remove the segment at the front.  Shown: without
  interference the search is \<open>find_segment\<close> of \<open>Mp2_Session\<close>; with it an index may be beyond the end of the queue.
\<close>

section \<open>Steps of the search\<close>

text \<open>The comparisons of one round, in the order of evaluation; \<open>&&\<close> stops at the first that fails.\<close>

definition compares :: "BlockDataPacket \<Rightarrow> nat \<Rightarrow> Segment \<Rightarrow> bool" where
  "compares packet c g =
     (if c = 0 then bdata_BlockNumber packet = seg_BlockNumber g
      else if bdata_Redundant packet = FEC_SOURCE_DATA
      then if c = 1 then startDataNumber g \<le> bdata_DataNumber packet else bdata_DataNumber packet \<le> endDataNumber g
      else if c = 1 then startRedDataNumber g \<le> bdata_DataNumber packet else bdata_DataNumber packet \<le> endRedDataNumber g)"

datatype search_pc = Test nat | Compare nat nat | Take nat | Found Segment | NotFound

definition search_next :: "BlockDataPacket \<Rightarrow> Segment list \<Rightarrow> search_pc \<Rightarrow> search_pc result" where
  "search_next packet buffer pc =
     (case pc of
        Test i \<Rightarrow> Inr (if i < length buffer then Compare i 0 else NotFound)
      | Compare i c \<Rightarrow> bindE (go_index buffer i) (\<lambda>g.
          Inr (if compares packet c g then if c < 2 then Compare i (c + 1) else Take i else Test (i + 1)))
      | Take i \<Rightarrow> bindE (go_index buffer i) (\<lambda>g. Inr (Found g))
      | Found g \<Rightarrow> Inr (Found g)
      | NotFound \<Rightarrow> Inr NotFound)"

text \<open>The search beside the other steps of a reception.\<close>

inductive search_step ::
  "'st env \<Rightarrow> u32 \<Rightarrow> u32 \<Rightarrow> bytes \<Rightarrow> BlockDataPacket \<Rightarrow> (u32 \<times> bytes \<times> 'st Mp2SessionManager) \<times> search_pc \<Rightarrow>
   (u32 \<times> bytes \<times> 'st Mp2SessionManager) \<times> search_pc \<Rightarrow> bool"
  for E key bn B packet where
  search: "mp_recvBuffer p bn = Some b \<Longrightarrow> search_next packet (bb_buffer b) pc = Inr pc' \<Longrightarrow>
     search_step E key bn B packet ((offset, got, p), pc) ((offset, got, p), pc')"
| reception: "block_step E key bn B st st' \<Longrightarrow> search_step E key bn B packet (st, pc) (st', pc)"

section \<open>Without interference\<close>

definition searches :: "BlockDataPacket \<Rightarrow> Segment list \<Rightarrow> search_pc \<Rightarrow> search_pc \<Rightarrow> bool" where
  "searches packet buffer pc pc' \<longleftrightarrow> search_next packet buffer pc = Inr pc'"

lemma belongs_to_compares: "belongs_to packet g \<longleftrightarrow> compares packet 0 g \<and> compares packet 1 g \<and> compares packet 2 g"
  by (simp add: belongs_to_def compares_def)

lemma search_round:
  assumes i: "i < length buffer"
  shows "(searches packet buffer)\<^sup>*\<^sup>* (Compare i 0) (if belongs_to packet (buffer ! i) then Found (buffer ! i) else Test (Suc i))"
proof -
  let ?s = "searches packet buffer" and ?g = "buffer ! i"
  have c0: "?s (Compare i 0) (if compares packet 0 ?g then Compare i 1 else Test (Suc i))"
    and c1: "?s (Compare i 1) (if compares packet 1 ?g then Compare i 2 else Test (Suc i))"
    and c2: "?s (Compare i 2) (if compares packet 2 ?g then Take i else Test (Suc i))"
    and t: "?s (Take i) (Found ?g)" using i by (simp_all add: searches_def search_next_def)
  consider "\<not> compares packet 0 ?g" | "compares packet 0 ?g" "\<not> compares packet 1 ?g"
    | "compares packet 0 ?g" "compares packet 1 ?g" "\<not> compares packet 2 ?g" | "belongs_to packet ?g"
    by (auto simp: belongs_to_compares)
  then show ?thesis
  proof cases
    case 1
    then show ?thesis using c0 by (simp add: belongs_to_compares r_into_rtranclp)
  next
    case 2
    then have "?s (Compare i 0) (Compare i 1)" "?s (Compare i 1) (Test (Suc i))" using c0 c1 by simp_all
    then show ?thesis using 2 by (simp add: belongs_to_compares del: One_nat_def)
  next
    case 3
    then have "?s (Compare i 0) (Compare i 1)" "?s (Compare i 1) (Compare i 2)" "?s (Compare i 2) (Test (Suc i))"
      using c0 c1 c2 by simp_all
    then show ?thesis using 3 by (simp add: belongs_to_compares del: One_nat_def)
  next
    case 4
    then have "?s (Compare i 0) (Compare i 1)" "?s (Compare i 1) (Compare i 2)" "?s (Compare i 2) (Take i)"
      using c0 c1 c2 by (simp_all add: belongs_to_compares)
    then show ?thesis using 4 t by simp
  qed
qed

lemma search_reaches:
  assumes "\<forall>j<i. \<not> belongs_to packet (buffer ! j)" and "i \<le> length buffer"
  shows "(searches packet buffer)\<^sup>*\<^sup>* (Test 0) (Test i)"
  using assms
proof (induction i)
  case (Suc i)
  then have i: "i < length buffer" and IH: "(searches packet buffer)\<^sup>*\<^sup>* (Test 0) (Test i)" by auto
  have "searches packet buffer (Test i) (Compare i 0)" using i by (simp add: searches_def search_next_def)
  moreover have "(searches packet buffer)\<^sup>*\<^sup>* (Compare i 0) (Test (Suc i))"
    using search_round [OF i, of packet] Suc.prems(1) by simp
  ultimately show ?case using IH by (meson converse_rtranclp_into_rtranclp rtranclp_trans)
qed simp

lemma find_segment_first: "find_segment packet buffer = Some i \<Longrightarrow> i < length buffer \<and> belongs_to packet (buffer ! i) \<and> (\<forall>j<i. \<not> belongs_to packet (buffer ! j))"
proof (induction buffer arbitrary: i)
  case (Cons g gs)
  then show ?case by (auto split: if_splits simp: less_Suc_eq_0_disj)
qed simp

lemma search_alone:
  "(searches packet buffer)\<^sup>*\<^sup>* (Test 0)
     (case find_segment packet buffer of None \<Rightarrow> NotFound | Some i \<Rightarrow> Found (buffer ! i))"
proof (cases "find_segment packet buffer")
  case None
  then have "(searches packet buffer)\<^sup>*\<^sup>* (Test 0) (Test (length buffer))"
    by (intro search_reaches) (auto simp: find_segment_None)
  moreover have "searches packet buffer (Test (length buffer)) NotFound" by (simp add: searches_def search_next_def)
  ultimately show ?thesis using None by simp
next
  case (Some i)
  note i = find_segment_first [OF Some]
  have "(searches packet buffer)\<^sup>*\<^sup>* (Test 0) (Test i)" using i by (intro search_reaches) auto
  moreover have "searches packet buffer (Test i) (Compare i 0)" using i by (simp add: searches_def search_next_def)
  moreover have "(searches packet buffer)\<^sup>*\<^sup>* (Compare i 0) (Found (buffer ! i))" using search_round [of i buffer packet] i by simp
  ultimately have "(searches packet buffer)\<^sup>*\<^sup>* (Test 0) (Found (buffer ! i))"
    by (meson rtranclp.rtrancl_into_rtrancl rtranclp_trans)
  then show ?thesis using Some by simp
qed

lemma searches_step:
  assumes "(searches packet (bb_buffer b))\<^sup>*\<^sup>* pc pc'" and "mp_recvBuffer p bn = Some b"
  shows "(search_step E key bn B packet)\<^sup>*\<^sup>* ((offset, got, p), pc) ((offset, got, p), pc')"
  using assms(1)
proof (induction rule: rtranclp_induct)
  case (step pc1 pc2)
  from search_step.search [OF assms(2) step(2) [unfolded searches_def]] step(3) show ?case
    by (rule rtranclp.rtrancl_into_rtrancl [rotated])
qed simp

text \<open>A read in the state of a reception returns or waits.\<close>

lemma receiving_read_total:
  assumes inv: "receiving Ow key bn B A i k gs (offset, got, p)" and buf: "length buf < 2 ^ 32"
  shows "Mp2ReadBlock buf bn p = Inl Blocked \<or> (\<exists>r. Mp2ReadBlock buf bn p = Inr r)"
proof (cases gs)
  case Nil
  with inv obtain b where "mp_recvBuffer p bn = Some b" "bb_buffer b = []" by (auto simp: receiving_def)
  then show ?thesis by (cases "mp_goodbye p") (simp_all add: Mp2ReadBlock_def BlockBuffer_GetLength_def)
next
  case (Cons g gs')
  with inv have "Mp2ReadBlock buf bn p = Inl Blocked" if "\<not> hasDataToRead g"
    using that by (auto simp: receiving_def Mp2ReadBlock_def BlockBuffer_GetLength_def ReadSegment_def)
  with receiving_read [OF inv [unfolded Cons] buf] show ?thesis by blast
qed

section \<open>With a read in between\<close>

text \<open>The read of the front segment to its end, in the state of a reception.\<close>

lemma receiving_pop_front:
  assumes inv: "receiving Ow key bn B A i k (g # gs) (offset, got, p)" and B: "length B < 2 ^ 32" and g: "Complete g"
  shows "\<exists>got' p' b. block_step E key bn B (offset, got, p) (offset, got', p') \<and> mp_recvBuffer p' bn = Some b \<and> bb_buffer b = gs"
proof -
  let ?S = "seg_bytes B i"
  define buf :: bytes where "buf = replicate (length ?S) 0"
  have buf: "length buf < 2 ^ 32" using B by (simp add: buf_def length_seg_bytes)
  have at: "seg_at B bn A i k g" using inv by (auto simp: receiving_def queue_at_Cons)
  have k: "k < length ?S" using inv by (auto simp: receiving_def)
  have data: "hasDataToRead g" using seg_at_has_data [OF at] g k by simp
  from receiving_read [OF inv buf data] g k obtain n buf' p' where
    read: "Mp2ReadBlock buf bn p = Inr (n, buf', p')" "receiving Ow key bn B A (Suc i) 0 gs (offset, got @ take n buf', p')"
    by (auto simp: buf_def split: if_splits)
  from read(2) obtain b where "mp_recvBuffer p' bn = Some b" "bb_buffer b = gs" by (auto simp: receiving_def)
  with block_step.read [OF buf read(1)] show ?thesis by blast
qed

lemma search_overtaken:
  assumes inv: "receiving Ow key bn B A i k gs (offset, got, p)" and B: "length B < 2 ^ 32"
    and gs: "gs \<noteq> []" "Complete (hd gs)" "\<forall>g \<in> set (butlast gs). \<not> belongs_to packet g"
  shows "\<exists>got' p' b pc. (search_step E key bn B packet)\<^sup>*\<^sup>* ((offset, got, p), Test 0) ((offset, got', p'), pc) \<and>
    mp_recvBuffer p' bn = Some b \<and> search_next packet (bb_buffer b) pc = Inl IndexOutOfRange"
proof -
  let ?l = "length gs - 1"
  have l: "?l < length gs" using gs(1) by simp
  have "\<forall>j < ?l. \<not> belongs_to packet (gs ! j)" using gs(3) by (metis length_butlast nth_butlast nth_mem)
  then have "(searches packet gs)\<^sup>*\<^sup>* (Test 0) (Test ?l)" by (intro search_reaches) simp_all
  moreover have "searches packet gs (Test ?l) (Compare ?l 0)" using l by (simp add: searches_def search_next_def)
  ultimately have s: "(searches packet gs)\<^sup>*\<^sup>* (Test 0) (Compare ?l 0)" by (rule rtranclp.rtrancl_into_rtrancl)
  obtain b where "mp_recvBuffer p bn = Some b" "bb_buffer b = gs" using inv by (auto simp: receiving_def)
  with s have run: "(search_step E key bn B packet)\<^sup>*\<^sup>* ((offset, got, p), Test 0) ((offset, got, p), Compare ?l 0)"
    using searches_step [of packet b] by blast
  obtain g gs' where c: "gs = g # gs'" using gs(1) by (cases gs) auto
  from receiving_pop_front [OF inv [unfolded c] B, of E] gs(2) c obtain got' p' b' where
    pop: "block_step E key bn B (offset, got, p) (offset, got', p')" "mp_recvBuffer p' bn = Some b'" "bb_buffer b' = gs'" by auto
  have "search_next packet (bb_buffer b') (Compare ?l 0) = Inl IndexOutOfRange"
    by (simp add: search_next_def pop(3) c go_index_def)
  moreover have "(search_step E key bn B packet)\<^sup>*\<^sup>* ((offset, got, p), Test 0) ((offset, got', p'), Compare ?l 0)"
    using run search_step.reception [OF pop(1)] by (rule rtranclp.rtrancl_into_rtrancl)
  ultimately show ?thesis using pop(2) by blast
qed

end
