(* ===== verification/Mp2_Properties.thy ===== *)
theory Mp2_Properties
  imports Mp2_Serving Mp2_Race Session_Network
begin

text \<open>
  Properties of the block layer: reception of a block, the serving of requests, control data, and the
  table of nodes.
\<close>

section \<open>A concrete receiver\<close>

definition demo_env :: "bytes env" where
  "demo_env = \<lparr>e_conf = default_Conf, e_fec = False, e_symbols = (0, 0, 0), e_quic = pipe,
     e_dial = (\<lambda>_ _. Inl EOF), e_verdicts = (\<lambda>_ _. [])\<rparr>"

definition demo_mp2session :: "bytes Mp2Session" where
  "demo_mp2session = (CreateMp2Session None)\<lparr>ms_sessionMap := [(5, demo_session)], blockOwners := [(5, PEER_HAS_BLOCK)],
     ms_blockNumber := 7, ms_key := 1\<rparr>"

definition demo_manager :: "bytes Mp2SessionManager" where
  "demo_manager = (CreateMp2SessionManager default_Conf 1)\<lparr>mp2sessionMap := [1 \<mapsto> demo_mp2session],
     mp_recvBuffer := [7 \<mapsto> CreateBlockBuffer], blockList := [(7, 3)]\<rparr>"

definition demo_receiver :: "bytes Mp2SessionManager" where
  "demo_receiver = put_mp2 demo_manager 1 (demo_mp2session\<lparr>sem := Some (1, [5])\<rparr>)"

lemma demo_sessions: "sessions_ok {5} demo_mp2session"
  by (simp add: sessions_ok_def demo_mp2session_def demo_session_def sess_inv_def sched_inv_def)

lemma demo_receiver_start: "sendBlockRequest_start 1 demo_manager = Inr demo_receiver" "block_start 1 7 demo_receiver"
proof -
  show "sendBlockRequest_start 1 demo_manager = Inr demo_receiver"
    by (simp add: sendBlockRequest_start_def demo_receiver_def demo_manager_def get_mp2_def put_mp2_def
        owners_with_block_def demo_mp2session_def Let_def)
  have "sessions_ok {5} (demo_mp2session\<lparr>sem := Some (1, [5])\<rparr>)"
    using demo_sessions by (simp add: sessions_ok_def)
  then show "block_start 1 7 demo_receiver"
    unfolding block_start_def
    by (intro exI [of _ "demo_mp2session\<lparr>sem := Some (1, [5])\<rparr>"] exI [of _ "[5]"])
       (simp add: demo_receiver_def demo_manager_def put_mp2_def, simp add: demo_mp2session_def)
qed

lemma demo_block: "\<exists>offset p. (block_step demo_env 1 7 [1, 2, 3])\<^sup>*\<^sup>* (0, [], demo_receiver) (offset, [1, 2, 3], p)"
proof -
  from block_start_inv [OF demo_receiver_start(2), of "[1, 2, 3]"] obtain Ow where
    "receiving Ow 1 7 [1, 2, 3] {} 0 0 [] (0, [], demo_receiver)" by blast
  from receiving_completes [OF this, of demo_env] show ?thesis by simp
qed

section \<open>Receiving a block\<close>

text \<open>C12. However requests for segments, arriving data packets of the block (in any order, repeated or for segments
  that are not in the queue), reads and steps of other goroutines follow each other, the bytes that
  \<^verbatim>\<open>Mp2ReadBlock\<close> has returned are a prefix of the block.  This is the reception from the parent, before a
  timeout of the timer empties the queue, with each run of the handler and each read as one step.\<close>

theorem block_reads_in_order:
  assumes "block_start key bn p" and "length B < 2 ^ 32"
    and "(block_step E key bn B)\<^sup>*\<^sup>* (0, [], p) (offset, got, p')"
  shows "prefix got B"
proof -
  from block_start_inv [OF assms(1), of B] obtain Ow where "block_inv Ow key bn B (0, [], p)"
    unfolding block_inv_def by blast
  from block_steps_inv [OF assms(3,2) this] show ?thesis by (auto simp: block_inv_def receiving_def take_is_prefix)
qed

theorem block_reads_in_order_witness:
  "\<exists>offset p. (block_step demo_env 1 7 [1, 2, 3])\<^sup>*\<^sup>* (0, [], demo_receiver) (offset, [1, 2, 3], p) \<and>
     prefix [1, 2, 3] [1, 2, 3 :: u8]"
proof -
  from demo_block obtain offset p where
    run: "(block_step demo_env 1 7 [1, 2, 3])\<^sup>*\<^sup>* (0, [], demo_receiver) (offset, [1, 2, 3], p)" by blast
  from block_reads_in_order [OF demo_receiver_start(2) _ run] run show ?thesis by auto
qed

text \<open>C13. Every reception of a block can be continued until the whole block has been read: a session for the
  next request comes free, the data completes the segments, and the reads drain them, with each run of the handler
  and each read as one step.\<close>

theorem block_can_be_completed:
  assumes "block_start key bn p" and "length B < 2 ^ 32"
    and "(block_step E key bn B)\<^sup>*\<^sup>* (0, [], p) (offset, got, p')"
  shows "\<exists>offset' p''. (block_step E key bn B)\<^sup>*\<^sup>* (offset, got, p') (offset', B, p'')"
proof -
  from block_start_inv [OF assms(1), of B] obtain Ow where "block_inv Ow key bn B (0, [], p)"
    unfolding block_inv_def by blast
  from block_steps_inv [OF assms(3,2) this] obtain A i k gs where
    "receiving Ow key bn B A i k gs (offset, got, p')" by (auto simp: block_inv_def)
  from receiving_completes [OF this assms(2)] show ?thesis .
qed

theorem block_can_be_completed_witness:
  "\<exists>offset p. (block_step demo_env 1 7 [1, 2, 3])\<^sup>*\<^sup>* (0, [], demo_receiver) (offset, [1, 2, 3], p)"
  using block_can_be_completed [OF demo_receiver_start(2) _ rtranclp.rtrancl_refl, of "[1, 2, 3]" demo_env] by simp

text \<open>C14. The handler of block data is safe when nothing runs beside it, and only then.  At any time of a reception the handler, as one
  step, returns for every data packet of the block, without a panic and without blocking on the semaphore, and its search takes
  the segment that \<open>find_segment\<close> gives; a read returns or waits for data, it does not panic.  But the search holds no lock: when
  the segment at the front of the queue is complete and the packet belongs to none before the last one, there is an
  interleaving of the search with \<^verbatim>\<open>Mp2ReadBlock\<close> after which the search indexes the queue beyond its end and panics.\<close>

theorem block_search_needs_a_lock:
  assumes "block_start key bn p" and "length B < 2 ^ 32"
    and "(block_step E key bn B)\<^sup>*\<^sup>* (0, [], p) (offset, got, p')"
    and "is_block_data B bn n packet" and "length buf < 2 ^ 32"
  shows "(\<exists>p''. handleBlockDataPacket key packet p' = Inr p'') \<and>
    (Mp2ReadBlock buf bn p' = Inl Blocked \<or> (\<exists>r. Mp2ReadBlock buf bn p' = Inr r)) \<and>
    (\<exists>b. mp_recvBuffer p' bn = Some b \<and>
       (searches packet (bb_buffer b))\<^sup>*\<^sup>* (Test 0)
         (case find_segment packet (bb_buffer b) of None \<Rightarrow> NotFound | Some i \<Rightarrow> Found (bb_buffer b ! i)) \<and>
       (bb_buffer b \<noteq> [] \<and> Complete (hd (bb_buffer b)) \<and> (\<forall>g \<in> set (butlast (bb_buffer b)). \<not> belongs_to packet g) \<longrightarrow>
          (\<exists>got' p'' b' pc. (search_step E key bn B packet)\<^sup>*\<^sup>* ((offset, got, p'), Test 0) ((offset, got', p''), pc) \<and>
             mp_recvBuffer p'' bn = Some b' \<and> search_next packet (bb_buffer b') pc = Inl IndexOutOfRange)))"
proof -
  from block_start_inv [OF assms(1), of B] obtain Ow where "block_inv Ow key bn B (0, [], p)"
    unfolding block_inv_def by blast
  from block_steps_inv [OF assms(3,2) this] obtain A i k gs where
    inv: "receiving Ow key bn B A i k gs (offset, got, p')" by (auto simp: block_inv_def)
  obtain b where b: "mp_recvBuffer p' bn = Some b" "bb_buffer b = gs" using inv by (auto simp: receiving_def)
  have "\<exists>p''. handleBlockDataPacket key packet p' = Inr p''" using receiving_data [OF inv assms(4,2)] by blast
  with search_overtaken [OF inv assms(2), of packet E] search_alone [of packet gs] receiving_read_total [OF inv assms(5)] b
  show ?thesis unfolding b(2) [symmetric] by (intro conjI exI [of _ b]) simp_all
qed

lemma demo_front:
  "\<exists>offset p b. (block_step demo_env 1 7 [1, 2, 3])\<^sup>*\<^sup>* (0, [], demo_receiver) (offset, [], p) \<and>
     mp_recvBuffer p 7 = Some b \<and> length (bb_buffer b) = 1 \<and> Complete (hd (bb_buffer b))"
proof -
  let ?B = "[1, 2, 3] :: bytes"
  from block_start_inv [OF demo_receiver_start(2), of ?B] obtain Ow where r0: "receiving Ow 1 7 ?B {} 0 0 [] (0, [], demo_receiver)" by blast
  from request_possible [OF r0, of demo_env "of_nat (length ?B)" 0] obtain offset p1 where
    rq: "sendBlockRequest_round demo_env 1 7 (of_nat (length ?B)) 0 0 demo_receiver = Inr (offset, p1)" by blast
  from receiving_request [OF r0 _ _ rq] obtain gs where r1: "receiving Ow 1 7 ?B {} 0 0 gs (offset, [], p1)" "gs \<noteq> []" by auto
  have s1: "block_step demo_env 1 7 ?B (0, [], demo_receiver) (offset, [], p1)" using rq by (intro block_step.request) simp_all
  from receiving_deliver [OF r1(1), of "[0..<nslots ?B]" demo_env] obtain p2 A gs2 where
    2: "(block_step demo_env 1 7 ?B)\<^sup>*\<^sup>* (offset, [], p1) (offset, [], p2)" "receiving Ow 1 7 ?B A 0 0 gs2 (offset, [], p2)"
       "length gs2 = length gs" "\<forall>n<nslots ?B. n div slots_per_segment < length gs2 \<longrightarrow> n \<in> A" by auto
  have q: "queue_at ?B 7 A 0 0 gs2" using 2(2) by (auto simp: receiving_def)
  have ne: "gs2 \<noteq> []" using 2(3) r1(2) by auto
  have "length gs2 = 1"
  proof -
    have "length gs2 - 1 < length gs2" using ne by simp
    with q have "(length gs2 - 1) * SEGMENT_SIZE < length ?B" unfolding queue_at_def by (metis add_0 seg_at_nonempty)
    then have "length gs2 \<le> 1" by (cases "length gs2 - 1") (simp_all add: SEGMENT_SIZE_def)
    then show ?thesis using ne by (cases gs2) simp_all
  qed
  moreover have "Complete (hd gs2)" using 2(4) ne by (intro queue_complete [OF q]) simp_all
  moreover obtain b where "mp_recvBuffer p2 7 = Some b" "bb_buffer b = gs2" using 2(2) by (auto simp: receiving_def)
  ultimately show ?thesis using converse_rtranclp_into_rtranclp [OF s1 2(1)] by blast
qed

theorem block_search_needs_a_lock_witness:
  "\<exists>packet st p b pc. (block_step demo_env 1 7 [1, 2, 3])\<^sup>*\<^sup>* (0, [], demo_receiver) st \<and>
     (search_step demo_env 1 7 [1, 2, 3] packet)\<^sup>*\<^sup>* (st, Test 0) (p, pc) \<and>
     mp_recvBuffer (snd (snd p)) 7 = Some b \<and> search_next packet (bb_buffer b) pc = Inl IndexOutOfRange"
proof -
  let ?packet = "\<lparr>bdata_Type = BLOCK_DATA_PACKET, bdata_Length = 19, bdata_BlockNumber = 7,
      bdata_DataNumber = 0, bdata_SessionID = 5, bdata_Redundant = FEC_SOURCE_DATA, bdata_Data = [1, 2, 3]\<rparr>"
  have packet: "is_block_data [1, 2, 3] 7 0 ?packet"
    by (simp add: is_block_data_def nslots_iff slot_def PAYLOAD_SIZE_def)
  from demo_front obtain offset p b where
    run: "(block_step demo_env 1 7 [1, 2, 3])\<^sup>*\<^sup>* (0, [], demo_receiver) (offset, [], p)"
    and b: "mp_recvBuffer p 7 = Some b" "length (bb_buffer b) = 1" "Complete (hd (bb_buffer b))" by blast
  have "bb_buffer b \<noteq> []" "butlast (bb_buffer b) = []" using b(2) by (cases "bb_buffer b"; simp)+
  with block_search_needs_a_lock [OF demo_receiver_start(2) _ run packet, of "[]"] b obtain got' p'' b' pc where
    "(search_step demo_env 1 7 [1, 2, 3] ?packet)\<^sup>*\<^sup>* ((offset, [], p), Test 0) ((offset, got', p''), pc)"
    "mp_recvBuffer p'' 7 = Some b'" "search_next ?packet (bb_buffer b') pc = Inl IndexOutOfRange" by auto
  with run show ?thesis
    by (intro exI [of _ ?packet] exI [of _ "(offset, [], p)"] exI [of _ "(offset, got', p'')"] exI [of _ b'] exI [of _ pc]) simp
qed

text \<open>C15. The segments that \<^verbatim>\<open>sendBlockRequest\<close> asks for tile the block: the computation in 32 bits gives, for
  every segment, its size, its first and last data number and whether it is the last one, and the segments together
  are the block.\<close>

theorem segments_tile_the_block:
  assumes "j * SEGMENT_SIZE < length B" and "length B < 2 ^ 32"
  shows "segment_at (of_nat (length B)) (of_nat (j * SEGMENT_SIZE)) =
      (of_nat (length (seg_bytes B j)), of_nat (j * 2048),
       of_nat (j * 2048 + nslots (seg_bytes B j) - 1), length B \<le> Suc j * SEGMENT_SIZE) \<and>
    concat (map (seg_bytes B) [0..<ceil_div (length B) SEGMENT_SIZE]) = B"
proof -
  have "concat (map (seg_bytes B) [0..<m]) = take (m * SEGMENT_SIZE) B" for m
    by (induction m) (simp_all add: seg_bytes_def take_add [symmetric] add.commute)
  moreover have "length B \<le> ceil_div (length B) SEGMENT_SIZE * SEGMENT_SIZE"
    by (simp add: ceil_div_def SEGMENT_SIZE_def)
  ultimately show ?thesis using segment_at_tile [OF assms] by simp
qed

theorem segments_tile_the_block_witness:
  "segment_at 3000000 2097152 = (902848, 2048, 2929, True)"
proof -
  let ?B = "replicate 3000000 (0 :: u8)"
  have "1 * SEGMENT_SIZE < length ?B" "length ?B < 2 ^ 32" by (simp_all only: length_replicate SEGMENT_SIZE_def) simp_all
  from segments_tile_the_block [OF this] show ?thesis
    by (simp add: length_seg_bytes nslots_def ceil_div_def PAYLOAD_SIZE_def SEGMENT_SIZE_def)
qed

text \<open>C16. A segment refines a store of slots: if every slot of its bytes arrives, in any order and with repetitions, no
  step faults, the segment is complete, and reading it gives its bytes.\<close>

theorem segment_refines_slot_store:
  assumes "B \<noteq> []" and "length B < 2 ^ 32" and "unat start + nslots B < 2 ^ 32" and "set is = {..<nslots B}"
    and "length buf = length B"
  shows "\<exists>g g'. foldE (\<lambda>i g. seg_push g i (slot B i)) is
      (CreateSegment bn sid idx start (start + of_nat (nslots B) - 1) (of_nat (length B)) isLast) = Inr g \<and>
    Complete g \<and> PopData g buf = Inr (length B, True, B, g')"
proof (rule segment.complete_read [OF _ assms(4,5,2)])
  have pos: "0 < nslots B" using assms(1) by (simp add: nslots_iff)
  have "unat (start + of_nat (nslots B) - 1) = unat start + nslots B - 1"
  proof -
    have "start + of_nat (nslots B) - 1 = of_nat (unat start + nslots B - 1)"
      using pos by (simp add: of_nat_diff)
    then show ?thesis using assms(3) by (simp only:) (intro unat_of_nat_less, simp)
  qed
  moreover have "unat (of_nat (length B) :: u32) = length B" using assms(2) by (intro unat_of_nat_less) simp
  ultimately show "seg_inv B {} 0 (CreateSegment bn sid idx start (start + of_nat (nslots B) - 1) (of_nat (length B)) isLast)"
    using assms(1,3) pos by (intro seg_inv_create) simp_all
qed

theorem segment_refines_slot_store_witness:
  "\<exists>g g'. foldE (\<lambda>i g. seg_push g i (slot [1, 2, 3] i)) [0, 0] (CreateSegment 7 5 0 4 4 3 True) = Inr g \<and>
     Complete g \<and> PopData g [0, 0, 0] = Inr (3, True, [1, 2, 3], g')"
proof -
  have n: "nslots [1, 2, 3 :: u8] = 1" by (simp add: nslots_def ceil_div_def PAYLOAD_SIZE_def)
  then have "set [0, 0] = {..<nslots [1, 2, 3 :: u8]}" by auto
  from segment_refines_slot_store [OF _ _ _ this, of 4 "[0, 0, 0]" 7 5 0 True] show ?thesis
    by (simp add: n numeral_3_eq_3)
qed

section \<open>Serving a block\<close>





text \<open>C18. A slot of a block survives the wire: the bytes that the sender writes for it, at the head of the stream of the
  receiving session, are cut out by one round of the session handler, which hands the packet with this slot to the
  handler of block data and leaves the rest of the stream.\<close>

theorem block_data_reaches_handler:
  assumes "n < nslots B" and "mp2sessionMap p key = Some s" and "map_of (ms_sessionMap s) sid = Some session"
    and "noTimeoutChan s = []" and "1040 \<le> unat (PACKET_SIZE (e_conf E))"
  shows "\<exists>packet b. bindE (CreateBlockDataPacket bn (of_nat n) sid' FEC_SOURCE_DATA (slot B n)) (\<lambda>packet.
        BlockDataPacket_Write packet []) = Inr b \<and> is_block_data B bn n packet \<and>
    (readBuffer (recvBuffer session) = b @ rest \<longrightarrow>
      sessionHandler_round E rnd intn key sid p =
      bindE (handleBlockDataPacket key packet
        (put_mp2 p key ((consumed session rest sid s)\<lparr>noTimeoutChan := [True]\<rparr>))) (\<lambda>p. Inr (True, p)))"
proof -
  from slot_packet [OF assms(1), of bn sid'] obtain packet where
    packet: "CreateBlockDataPacket bn (of_nat n) sid' FEC_SOURCE_DATA (slot B n) = Inr packet"
      "BlockDataPacket_valid packet" "bdata_Type packet = BLOCK_DATA_PACKET" "is_block_data B bn n packet"
      "BlockDataPacket_Write packet [] = Inr (BlockDataPacket_enc packet)" by blast
  have "16 + length (bdata_Data packet) \<le> unat (PACKET_SIZE (e_conf E))"
    using packet(4) assms(5) by (simp add: is_block_data_def length_slot PAYLOAD_SIZE_def)
  from data_packet_round [OF assms(2,3,4) packet(2,3) _ this, of rest rnd intn] packet show ?thesis by auto
qed

definition demo_stream_session :: "bytes Session" where
  "demo_stream_session = demo_session\<lparr>recvBuffer := CreateRecvBuffer\<lparr>readBuffer :=
     [BLOCK_DATA_PACKET, 0, 19, 0, 0, 0, 7, 0, 0, 0, 0, 0, 0, 0, 5, FEC_SOURCE_DATA, 1, 2, 3]\<rparr>\<rparr>"

theorem block_data_reaches_handler_witness:
  "\<exists>packet. is_block_data [1, 2, 3] 7 0 packet \<and>
     sessionHandler_round demo_env 9 (\<lambda>_. 0) 1 5 (put_mp2 demo_receiver 1 (demo_mp2session\<lparr>ms_sessionMap := [(5, demo_stream_session)]\<rparr>)) =
     bindE (handleBlockDataPacket 1 packet (put_mp2 (put_mp2 demo_receiver 1 (demo_mp2session\<lparr>ms_sessionMap := [(5, demo_stream_session)]\<rparr>)) 1
       ((consumed demo_stream_session [] 5 (demo_mp2session\<lparr>ms_sessionMap := [(5, demo_stream_session)]\<rparr>))\<lparr>noTimeoutChan := [True]\<rparr>)))
     (\<lambda>p. Inr (True, p))"
proof -
  let ?s = "demo_mp2session\<lparr>ms_sessionMap := [(5, demo_stream_session)]\<rparr>"
  have n: "0 < nslots [1, 2, 3 :: u8]" by (simp add: nslots_iff)
  have s: "mp2sessionMap (put_mp2 demo_receiver 1 ?s) 1 = Some ?s" "map_of (ms_sessionMap ?s) 5 = Some demo_stream_session"
    "noTimeoutChan ?s = []" "1040 \<le> unat (PACKET_SIZE (e_conf demo_env))"
    by (simp_all add: put_mp2_def demo_mp2session_def CreateMp2Session_def demo_env_def default_Conf_def)
  have bytes: "bindE (CreateBlockDataPacket 7 (of_nat 0) 5 FEC_SOURCE_DATA (slot [1, 2, 3] 0)) (\<lambda>packet. BlockDataPacket_Write packet []) =
      Inr [BLOCK_DATA_PACKET, 0, 19, 0, 0, 0, 7, 0, 0, 0, 0, 0, 0, 0, 5, FEC_SOURCE_DATA, 1, 2, 3]"
  proof -
    have "slot [1, 2, 3 :: u8] 0 = [1, 2, 3]" by (simp add: slot_def PAYLOAD_SIZE_def)
    then show ?thesis
      by (simp add: CreateBlockDataPacket_def BlockDataPacket_Write_def BLOCK_DATA_PACKET_HEADER_LEN_def
          PAYLOAD_SIZE_def WriteByte_def WriteUint16_def WriteUint32_def WriteBytes_def)
  qed
  from block_data_reaches_handler [OF n s, of 7 5 "[]" 9 "\<lambda>_. 0", unfolded bytes] show ?thesis
    by (auto simp: demo_stream_session_def)
qed

text \<open>C22. The wait in \<^verbatim>\<open>sendBlockData\<close> is one slot too short.  When the send buffer ends just before the last data
  number of a request, the data is not waited for: an empty packet is sent in its place, and a receiver
  that waits for this slot does not get on with it.\<close>

theorem last_slot_sent_too_early:
  assumes "\<not> e_fec E" and "length (mp_sendBuffer p) = unat e * PAYLOAD_SIZE" and "unat e * PAYLOAD_SIZE + PAYLOAD_SIZE < 2 ^ 32"
    and "mp2sessionMap p key = Some s" and "firstSegment s" and "stopSendCond p = 0"
    and "seg_inv B R k g" and "unat e = unat (startDataNumber g) + i" and "\<forall>j<i. j \<in> R" and "i \<notin> R" and "i < nslots B"
  shows "sendBlockData E key sid bn e e fecIndex p = Some (sendBlockDataPacket E key sid bn e FEC_SOURCE_DATA [] p) \<and>
    (\<exists>g'. PushData g (seg_BlockNumber g) e [] = Inr (True, g') \<and> seg_inv B R k g' \<and> \<not> Complete g')"
proof -
  have "slot (mp_sendBuffer p) (unat e) = []" by (simp add: slot_def assms(2))
  then have "sendBlockData E key sid bn e e fecIndex p = Some (sendBlockDataPacket E key sid bn e FEC_SOURCE_DATA [] p)"
    using sendBlockData_slots [OF assms(1) _ _ order.refl assms(4-6), of e sid bn fecIndex] assms(2,3)
    by (simp add: send_slot_def bindE_def split: sum.splits)
  moreover obtain g' where "PushData g (seg_BlockNumber g) e [] = Inr (True, g')" "seg_inv B R k g'"
    using empty_datum_ignored [OF assms(7-11)] by blast
  moreover have "\<not> Complete g'" using seg_complete [OF calculation(3)] assms(10,11) by auto
  ultimately show ?thesis by blast
qed

theorem last_slot_sent_too_early_witness:
  "sendBlockData demo_env 1 5 7 1 1 0 (demo_manager\<lparr>mp_sendBuffer := replicate PAYLOAD_SIZE 1\<rparr>) =
     Some (sendBlockDataPacket demo_env 1 5 7 1 FEC_SOURCE_DATA [] (demo_manager\<lparr>mp_sendBuffer := replicate PAYLOAD_SIZE 1\<rparr>)) \<and>
   (\<exists>g. PushData (CreateSegment 7 5 0 1 1 3 True) 7 1 [] = Inr (True, g) \<and> \<not> Complete g)"
proof -
  let ?p = "demo_manager\<lparr>mp_sendBuffer := replicate PAYLOAD_SIZE 1\<rparr>" and ?g = "CreateSegment 7 5 0 1 1 3 True"
  have n: "nslots [1, 2, 3 :: u8] = 1" by (simp add: nslots_def ceil_div_def PAYLOAD_SIZE_def)
  have p: "mp2sessionMap ?p 1 = Some demo_mp2session" "firstSegment demo_mp2session" "stopSendCond ?p = 0"
    by (simp_all add: demo_manager_def demo_mp2session_def CreateMp2Session_def CreateMp2SessionManager_def)
  have g: "seg_inv [1, 2, 3] {} 0 ?g" by (rule seg_inv_create) (simp_all add: n)
  have "unat (1 :: u32) = unat (startDataNumber ?g) + 0" "seg_BlockNumber ?g = 7" by (simp_all add: CreateSegment_def)
  with last_slot_sent_too_early [OF _ _ _ p g, of demo_env 1 0 5 7 0] show ?thesis
    by (auto simp: n demo_env_def PAYLOAD_SIZE_def)
qed

section \<open>Control data\<close>

text \<open>C19. \<^verbatim>\<open>WriteControl\<close> returns, and does the same as sending, one after the other, the chunks of at most 1024 bytes of
  its argument to every session.\<close>

theorem write_control_sends_chunks:
  assumes "length buf + PAYLOAD_SIZE < 2 ^ 32"
  shows "WriteControl E key buf p = foldE (\<lambda>data p. bindE (get_mp2 p key) (\<lambda>s.
      foldE (\<lambda>sid. sendControlPacket E key sid data) (session_ids s) p)) (chunks PAYLOAD_SIZE buf) p"
  using WriteControl_loop_chunks [OF assms, of 0 E key p] by (simp add: WriteControl_def send_control_def [abs_def])

theorem write_control_sends_chunks_witness:
  "WriteControl demo_env 1 [1, 2, 3] demo_manager = sendControlPacket demo_env 1 5 [1, 2, 3] demo_manager"
proof -
  have "get_mp2 demo_manager 1 = Inr demo_mp2session" "session_ids demo_mp2session = [5]"
    by (simp_all add: get_mp2_def demo_manager_def session_ids_def demo_mp2session_def)
  with write_control_sends_chunks [of "[1, 2, 3]" demo_env 1 demo_manager] show ?thesis
    by (simp add: PAYLOAD_SIZE_def chunks_step bindE_def split: sum.splits)
qed

section \<open>The table of nodes\<close>

text \<open>C20. A node that is in the table once, under the address of its only interface and a port below
  32768, takes from the table the addresses of its children, and of all nodes but itself.\<close>

theorem set_node_info_finds_children:
  assumes "m < length nodes" and "NIC_ADDRS conf = [node_address (nodes ! m)]" and "unat (Port (nodes ! m)) < 32768"
    and "\<forall>i<length nodes. i \<noteq> m \<longrightarrow> NodeIP (nodes ! i) \<noteq> NodeIP (nodes ! m) \<or> Port (nodes ! i) \<noteq> Port (nodes ! m)"
    and "unat (OffsetOfChild (nodes ! m)) + unat (NumOfChilds (nodes ! m)) \<le> length nodes" and "length nodes < 256"
  shows "Mp2SetNodeInfo conf nodes p = Inr (p\<lparr>
    childAddr := childAddr p @ map node_address
      (take (unat (NumOfChilds (nodes ! m))) (drop (unat (OffsetOfChild (nodes ! m))) nodes)),
    allAddr := allAddr p @ map node_address (take m nodes @ drop (Suc m) nodes)\<rparr>)"
proof -
  have "known_port (Port (nodes ! m)) = Port (nodes ! m)" using assms(3) by (simp add: known_port_def)
  then show ?thesis using assms by (intro Mp2SetNodeInfo_ok) auto
qed

definition demo_nodes :: "NodeInfo list" where
  "demo_nodes = [\<lparr>NodeIP = 167772161, Port = 5000, NumOfChilds = 1, OffsetOfChild = 1\<rparr>,
     \<lparr>NodeIP = 167772162, Port = 5001, NumOfChilds = 0, OffsetOfChild = 0\<rparr>]"

lemma demo_addresses:
  "node_address (demo_nodes ! 0) = ''10.0.0.1:5000''" "node_address (demo_nodes ! 1) = ''10.0.0.2:5001''"
  "node_address \<lparr>NodeIP = 167772163, Port = 40000, NumOfChilds = 0, OffsetOfChild = 0\<rparr> = ''10.0.0.3:40000''"
proof -
  have ports: "FormatInt 5000 = ''5000''" "FormatInt 5001 = ''5001''" "FormatInt 40000 = ''40000''"
    by (simp_all add: FormatInt.simps digit_def, code_simp+)
  have "Int2ip 167772161 = ''10.0.0.1''" "Int2ip 167772162 = ''10.0.0.2''" "Int2ip 167772163 = ''10.0.0.3''" by code_simp+
  then show "node_address (demo_nodes ! 0) = ''10.0.0.1:5000''" "node_address (demo_nodes ! 1) = ''10.0.0.2:5001''"
    "node_address \<lparr>NodeIP = 167772163, Port = 40000, NumOfChilds = 0, OffsetOfChild = 0\<rparr> = ''10.0.0.3:40000''"
    by (simp_all add: node_address_def demo_nodes_def ports)
qed

theorem set_node_info_finds_children_witness:
  "Mp2SetNodeInfo (default_Conf\<lparr>NIC_ADDRS := [''10.0.0.1:5000'']\<rparr>) demo_nodes demo_manager =
     Inr (demo_manager\<lparr>childAddr := [''10.0.0.2:5001''], allAddr := [''10.0.0.2:5001'']\<rparr>)"
proof -
  have list: "drop (Suc 0) demo_nodes = [demo_nodes ! 1]" "length demo_nodes = 2" by (simp_all add: demo_nodes_def)
  have ch: "unat (NumOfChilds (demo_nodes ! 0)) = 1" "unat (OffsetOfChild (demo_nodes ! 0)) = 1" by (simp_all add: demo_nodes_def)
  have "childAddr demo_manager = []" "allAddr demo_manager = []" by (simp_all add: demo_manager_def CreateMp2SessionManager_def)
  moreover have "\<forall>i<length demo_nodes. i \<noteq> 0 \<longrightarrow> NodeIP (demo_nodes ! i) \<noteq> NodeIP (demo_nodes ! 0) \<or> Port (demo_nodes ! i) \<noteq> Port (demo_nodes ! 0)"
    by (auto simp: demo_nodes_def less_Suc_eq)
  moreover have "unat (Port (demo_nodes ! 0)) < 32768" by (simp add: demo_nodes_def)
  ultimately show ?thesis
    using set_node_info_finds_children [of 0 demo_nodes "default_Conf\<lparr>NIC_ADDRS := [''10.0.0.1:5000'']\<rparr>" demo_manager]
    by (simp add: demo_addresses [unfolded One_nat_def] list ch)
qed

text \<open>C21. A node whose port is above 32767 does not find itself in the table: the port is parsed as a signed number
  of 16 bits.  It then takes the children of the first node of the table for its own.\<close>

theorem high_port_takes_root_children:
  assumes "m < length nodes" and "NIC_ADDRS conf = [node_address (nodes ! m)]" and "32767 < unat (Port (nodes ! m))"
    and "\<forall>i<length nodes. NodeIP (nodes ! i) = NodeIP (nodes ! m) \<longrightarrow> unat (Port (nodes ! i)) \<noteq> 32767"
    and "unat (OffsetOfChild (nodes ! 0)) + unat (NumOfChilds (nodes ! 0)) \<le> length nodes" and "length nodes < 256"
  shows "Mp2SetNodeInfo conf nodes p = Inr (p\<lparr>
    childAddr := childAddr p @ map node_address
      (take (unat (NumOfChilds (nodes ! 0))) (drop (unat (OffsetOfChild (nodes ! 0))) nodes)),
    allAddr := allAddr p @ map node_address (drop (Suc 0) nodes)\<rparr>)"
proof -
  have port: "unat (known_port (Port (nodes ! m))) = 32767" using assms(3) by (simp add: known_port_def)
  have none: "\<forall>(i, b) \<in> set (enumerate 0 nodes). \<not> (NodeIP b = NodeIP (nodes ! m) \<and> Port b = known_port (Port (nodes ! m)))"
    using assms(4) port by (auto simp: in_set_enumerate_eq)
  have "find_my_index (NIC_ADDRS conf) nodes = Inr 0"
    unfolding assms(2) find_my_index_single by (subst fold_no_match [OF none]) simp
  moreover have "0 < length nodes" using assms(1) by (cases nodes) simp_all
  ultimately show ?thesis using Mp2SetNodeInfo_at [OF _ _ assms(5,6), of conf p] by simp
qed

theorem high_port_takes_root_children_witness:
  "Mp2SetNodeInfo (default_Conf\<lparr>NIC_ADDRS := [''10.0.0.3:40000'']\<rparr>)
     (demo_nodes @ [\<lparr>NodeIP = 167772163, Port = 40000, NumOfChilds = 0, OffsetOfChild = 0\<rparr>]) demo_manager =
   Inr (demo_manager\<lparr>childAddr := [''10.0.0.2:5001''], allAddr := [''10.0.0.2:5001'', ''10.0.0.3:40000'']\<rparr>)"
proof -
  let ?n = "demo_nodes @ [\<lparr>NodeIP = 167772163, Port = 40000, NumOfChilds = 0, OffsetOfChild = 0\<rparr>]"
  have addr: "node_address (?n ! 2) = ''10.0.0.3:40000''" "map node_address (drop (Suc 0) ?n) = [''10.0.0.2:5001'', ''10.0.0.3:40000'']"
    "map node_address (take 1 (drop 1 ?n)) = [''10.0.0.2:5001'']"
    using demo_addresses by (simp_all add: demo_nodes_def)
  have f: "length ?n = 3" "unat (NumOfChilds (?n ! 0)) = 1" "unat (OffsetOfChild (?n ! 0)) = 1" "unat (Port (?n ! 2)) = 40000"
    by (simp_all add: demo_nodes_def)
  have "childAddr demo_manager = []" "allAddr demo_manager = []" by (simp_all add: demo_manager_def CreateMp2SessionManager_def)
  moreover have "\<forall>i<length ?n. NodeIP (?n ! i) = NodeIP (?n ! 2) \<longrightarrow> unat (Port (?n ! i)) \<noteq> 32767"
    by (auto simp: demo_nodes_def less_Suc_eq)
  ultimately show ?thesis
    using high_port_takes_root_children [of 2 ?n "default_Conf\<lparr>NIC_ADDRS := [''10.0.0.3:40000'']\<rparr>" demo_manager]
    by (simp add: addr [unfolded One_nat_def] f del: drop_append take_append nth_append map_append length_append)
qed

end
