(* ===== verification/Quic_Varint.thy ===== *)
theory Quic_Varint
  imports Util_Codec
begin

unbundle bit_operations_syntax

text \<open>
  Variable-length integers of QUIC (\<^verbatim>\<open>enhanced-quic/quicvarint/varint.go\<close>): numbers below \<open>2 ^ 62\<close> in one, two,
  four or eight bytes, with the length in the two upper bits of the first byte.  A panic is a fault.
  Shown: writing and reading back is the identity, the length is the number of bytes
  written, and a number in a longer encoding than needed is still read back.
\<close>

definition maxVarInt1 :: u64 where "maxVarInt1 = 63"
definition maxVarInt2 :: u64 where "maxVarInt2 = 16383"
definition maxVarInt4 :: u64 where "maxVarInt4 = 1073741823"
definition maxVarInt8 :: u64 where "maxVarInt8 = 4611686018427387903"

lemmas maxVarInt_defs = maxVarInt1_def maxVarInt2_def maxVarInt4_def maxVarInt8_def

definition varint_Read :: "u64 reader" where
  "varint_Read r =
     bindE (ReadByte r) (\<lambda>(firstByte, r).
     let len = push_bit (unat (drop_bit 6 (firstByte AND 0xC0))) (1 :: nat);
         b1 = firstByte AND (0xFF - 0xC0)
     in if len = 1 then Inr (ucast b1, r)
        else bindE (ReadByte r) (\<lambda>(b2, r).
        if len = 2 then Inr (ucast b2 + push_bit 8 (ucast b1), r)
        else bindE (ReadByte r) (\<lambda>(b3, r).
        bindE (ReadByte r) (\<lambda>(b4, r).
        if len = 4 then Inr (ucast b4 + push_bit 8 (ucast b3) + push_bit 16 (ucast b2) + push_bit 24 (ucast b1), r)
        else bindE (ReadByte r) (\<lambda>(b5, r).
        bindE (ReadByte r) (\<lambda>(b6, r).
        bindE (ReadByte r) (\<lambda>(b7, r).
        bindE (ReadByte r) (\<lambda>(b8, r).
        Inr (ucast b8 + push_bit 8 (ucast b7) + push_bit 16 (ucast b6) + push_bit 24 (ucast b5) + push_bit 32 (ucast b4) +
             push_bit 40 (ucast b3) + push_bit 48 (ucast b2) + push_bit 56 (ucast b1), r)))))))))"

definition varint_Write :: "bytes \<Rightarrow> u64 \<Rightarrow> bytes result" where
  "varint_Write w i =
     (if i \<le> maxVarInt1 then Inr (WriteByte w (ucast i))
      else if i \<le> maxVarInt2 then Inr (WriteBytes w [ucast (drop_bit 8 i) OR 0x40, ucast i])
      else if i \<le> maxVarInt4
      then Inr (WriteBytes w [ucast (drop_bit 24 i) OR 0x80, ucast (drop_bit 16 i), ucast (drop_bit 8 i), ucast i])
      else if i \<le> maxVarInt8
      then Inr (WriteBytes w [ucast (drop_bit 56 i) OR 0xC0, ucast (drop_bit 48 i), ucast (drop_bit 40 i),
             ucast (drop_bit 32 i), ucast (drop_bit 24 i), ucast (drop_bit 16 i), ucast (drop_bit 8 i), ucast i])
      else Inl (Panic ''doesn't fit into 62 bits''))"

definition varint_Len :: "u64 \<Rightarrow> nat result" where
  "varint_Len i =
     (if i \<le> maxVarInt1 then Inr 1 else if i \<le> maxVarInt2 then Inr 2 else if i \<le> maxVarInt4 then Inr 4
      else if i \<le> maxVarInt8 then Inr 8 else Inl (Panic ''value doesn't fit into 62 bits''))"

definition varint_WriteWithLen :: "bytes \<Rightarrow> u64 \<Rightarrow> nat \<Rightarrow> bytes result" where
  "varint_WriteWithLen w i len =
     (if len \<notin> {1, 2, 4, 8} then Inl (Panic ''invalid varint length'')
      else bindE (varint_Len i) (\<lambda>l.
           if l = len then varint_Write w i
           else if l > len then Inl (Panic ''cannot encode'')
           else let w = (if len = 2 then WriteByte w 0x40 else if len = 4 then WriteByte w 0x80 else WriteByte w 0xC0);
                    w = WriteBytes w (replicate (len - l - 1) 0)
                in Inr (WriteBytes w (map (\<lambda>j. ucast (drop_bit (8 * (l - 1 - j)) i)) [0..<l]))))"

section \<open>Values\<close>

text \<open>The number that bytes stand for, most significant first.\<close>

fun be_value :: "nat \<Rightarrow> bytes \<Rightarrow> nat" where
  "be_value acc [] = acc"
| "be_value acc (b # bs) = be_value (256 * acc + unat b) bs"

lemma unat_byte: "unat (ucast (drop_bit k (i :: u64)) :: u8) = unat i div 2 ^ k mod 256"
  by (simp add: unsigned_ucast_eq unat_drop_bit_eq) (simp add: drop_bit_eq_div take_bit_eq_mod)

lemma unat_byte0: "unat (ucast (i :: u64) :: u8) = unat i mod 256"
  by (simp add: unsigned_ucast_eq take_bit_eq_mod)

lemma ucast_of_unat: "ucast (b :: u8) = (of_nat (unat b) :: u64)"
  by simp

text \<open>The byte with the length bits.\<close>

lemma or_tag:
  fixes x :: u8
  assumes "unat x < 64" and "t = 0 \<or> t = 0x40 \<or> t = 0x80 \<or> t = (0xC0 :: u8)"
  shows "(x OR t) AND 0x3F = x" and "(x OR t) AND 0xC0 = t"
proof -
  have x: "x AND 0x3F = x"
  proof -
    have "take_bit 6 x = x" using assms(1) by (simp add: word_unat_eq_iff unsigned_take_bit_eq) (simp add: take_bit_eq_mod)
    moreover have "(0x3F :: u8) = mask 6" by (simp add: mask_eq_exp_minus_1)
    ultimately show ?thesis by (simp add: take_bit_eq_mask)
  qed
  have "(0x3F :: u8) AND 0xC0 = 0" by simp
  then have "x AND 0xC0 = 0" using x by (metis and.assoc and_zero_eq)
  with x assms(2) show "(x OR t) AND 0x3F = x" "(x OR t) AND 0xC0 = t"
    by (auto simp: bit.conj_disj_distrib2)
qed

lemma tag_length:
  "push_bit (unat (drop_bit 6 (0 :: u8))) 1 = (1 :: nat)" "push_bit (unat (drop_bit 6 (0x40 :: u8))) 1 = (2 :: nat)"
  "push_bit (unat (drop_bit 6 (0x80 :: u8))) 1 = (4 :: nat)" "push_bit (unat (drop_bit 6 (0xC0 :: u8))) 1 = (8 :: nat)"
  by simp_all

text \<open>Reading a tagged first byte and the bytes behind it.\<close>

lemma varint_Read_tagged:
  assumes "unat b1 < 64"
  shows "varint_Read (b1 # r) = Inr (of_nat (be_value 0 [b1]), r)"
    and "varint_Read ((b1 OR 0x40) # b2 # r) = Inr (of_nat (be_value 0 [b1, b2]), r)"
    and "varint_Read ((b1 OR 0x80) # b2 # b3 # b4 # r) = Inr (of_nat (be_value 0 [b1, b2, b3, b4]), r)"
    and "varint_Read ((b1 OR 0xC0) # b2 # b3 # b4 # b5 # b6 # b7 # b8 # r) =
      Inr (of_nat (be_value 0 [b1, b2, b3, b4, b5, b6, b7, b8]), r)"
proof -
  have m: "0xFF - 0xC0 = (0x3F :: u8)" by simp
  note t = or_tag [OF assms]
  have t0: "b1 AND 0x3F = b1" "b1 AND 0xC0 = 0" using t [of 0] by simp_all
  have t1: "(b1 OR 0x40) AND 0x3F = b1" "(b1 OR 0x40) AND 0xC0 = 0x40"
    and t2: "(b1 OR 0x80) AND 0x3F = b1" "(b1 OR 0x80) AND 0xC0 = 0x80"
    and t3: "(b1 OR 0xC0) AND 0x3F = b1" "(b1 OR 0xC0) AND 0xC0 = 0xC0" by (rule t; simp)+
  note unf = varint_Read_def ReadByte_Cons bindE_Inr prod.case m Let_def
  show "varint_Read (b1 # r) = Inr (of_nat (be_value 0 [b1]), r)"
    unfolding unf t0 tag_length by simp
  show "varint_Read ((b1 OR 0x40) # b2 # r) = Inr (of_nat (be_value 0 [b1, b2]), r)"
    unfolding unf t1 tag_length by (simp add: push_bit_eq_mult)
  show "varint_Read ((b1 OR 0x80) # b2 # b3 # b4 # r) = Inr (of_nat (be_value 0 [b1, b2, b3, b4]), r)"
    unfolding unf t2 tag_length by (simp add: push_bit_eq_mult algebra_simps)
  show "varint_Read ((b1 OR 0xC0) # b2 # b3 # b4 # b5 # b6 # b7 # b8 # r) =
      Inr (of_nat (be_value 0 [b1, b2, b3, b4, b5, b6, b7, b8]), r)"
    unfolding unf t3 tag_length by (simp add: push_bit_eq_mult algebra_simps)
qed

section \<open>Round trips\<close>

definition be_bytes :: "nat \<Rightarrow> u64 \<Rightarrow> bytes" where
  "be_bytes l i = map (\<lambda>j. ucast (drop_bit (8 * (l - 1 - j)) i)) [0..<l]"

lemma be_bytes_0 [simp]: "be_bytes 0 i = []"
  by (simp add: be_bytes_def)

lemma be_bytes_Suc: "be_bytes (Suc l) i = ucast (drop_bit (8 * l) i) # be_bytes l i"
  by (simp add: be_bytes_def upt_conv_Cons map_Suc_upt [symmetric] del: upt_Suc)

lemma length_be_bytes [simp]: "length (be_bytes l i) = l"
  by (simp add: be_bytes_def)

lemma be_value_be_bytes: "be_value acc (be_bytes l i) = acc * 256 ^ l + unat i mod 256 ^ l"
proof (induction l arbitrary: acc)
  case (Suc l)
  have "(2 :: nat) ^ (8 * l) = 256 ^ l" by (simp add: power_mult)
  then have "be_value acc (be_bytes (Suc l) i) =
      (256 * acc + unat i div 256 ^ l mod 256) * 256 ^ l + unat i mod 256 ^ l"
    by (simp add: be_bytes_Suc unat_byte Suc.IH)
  moreover have "unat i mod 256 ^ Suc l = 256 ^ l * (unat i div 256 ^ l mod 256) + unat i mod 256 ^ l"
    by (simp add: mod_mult2_eq mult.commute [of 256])
  ultimately show ?case by (simp add: algebra_simps)
qed simp

lemma be_bytes_expand:
  "be_bytes 1 i = [ucast i]" "be_bytes 2 i = [ucast (drop_bit 8 i), ucast i]"
  "be_bytes 4 i = [ucast (drop_bit 24 i), ucast (drop_bit 16 i), ucast (drop_bit 8 i), ucast i]"
  "be_bytes 8 i = [ucast (drop_bit 56 i), ucast (drop_bit 48 i), ucast (drop_bit 40 i), ucast (drop_bit 32 i),
     ucast (drop_bit 24 i), ucast (drop_bit 16 i), ucast (drop_bit 8 i), ucast i]"
  by (simp_all add: be_bytes_def upt_rec)

text \<open>The length bits for an encoding in \<open>l\<close> bytes, and the encoding.\<close>

definition varint_tag :: "nat \<Rightarrow> u8" where
  "varint_tag l = (if l = 1 then 0 else if l = 2 then 0x40 else if l = 4 then 0x80 else 0xC0)"

definition tagged :: "nat \<Rightarrow> bytes \<Rightarrow> bytes" where
  "tagged l bs = (hd bs OR varint_tag l) # tl bs"

definition varint_valid :: "u64 \<Rightarrow> bool" where
  "varint_valid i \<longleftrightarrow> i \<le> maxVarInt8"

definition varint_size :: "u64 \<Rightarrow> nat" where
  "varint_size i = (if i \<le> maxVarInt1 then 1 else if i \<le> maxVarInt2 then 2 else if i \<le> maxVarInt4 then 4 else 8)"

definition varint_enc :: "u64 \<Rightarrow> bytes" where
  "varint_enc i = tagged (varint_size i) (be_bytes (varint_size i) i)"

lemma varint_size_cases: "varint_size i \<in> {1, 2, 4, 8}"
  by (simp add: varint_size_def)

lemma length_varint_enc [simp]: "length (varint_enc i) = varint_size i"
  using varint_size_cases [of i] by (auto simp: varint_enc_def tagged_def)

lemma varint_Len_ok: "varint_valid i \<Longrightarrow> varint_Len i = Inr (varint_size i)"
  by (simp add: varint_Len_def varint_size_def varint_valid_def)

lemma varint_Write_ok: "varint_valid i \<Longrightarrow> varint_Write w i = Inr (w @ varint_enc i)"
  by (auto simp: varint_Write_def varint_valid_def varint_enc_def varint_size_def tagged_def varint_tag_def
      be_bytes_expand WriteByte_def WriteBytes_def simp del: One_nat_def)

text \<open>A number below \<open>64 * 256 ^ (l - 1)\<close> is read back from \<open>l\<close> tagged bytes.\<close>

lemma varint_Read_be_bytes:
  assumes l: "l \<in> {1, 2, 4, 8}" and i: "unat i < 64 * 256 ^ (l - 1)"
  shows "varint_Read (tagged l (be_bytes l i) @ r) = Inr (i, r)"
proof -
  have first: "unat (ucast (drop_bit (8 * (l - 1)) i) :: u8) < 64"
  proof -
    have "(2 :: nat) ^ (8 * (l - 1)) = 256 ^ (l - 1)" by (simp add: power_mult)
    moreover have "unat i div 256 ^ (l - 1) < 64" using i by (simp add: less_mult_imp_div_less)
    ultimately show ?thesis by (simp add: unat_byte)
  qed
  have "unat i < 256 ^ l" using i l by (auto simp: power_eq_if)
  then have val: "of_nat (be_value 0 (be_bytes l i)) = i" by (simp add: be_value_be_bytes)
  from l consider "l = 1" | "l = 2" | "l = 4" | "l = 8" by auto
  then show ?thesis
  proof cases
    case 1
    then show ?thesis using varint_Read_tagged(1) [of "ucast i" r] first val
      by (simp add: be_bytes_expand(1) [unfolded One_nat_def] tagged_def varint_tag_def)
  next
    case 2
    then show ?thesis using varint_Read_tagged(2) [OF first, of "ucast i" r] val
      by (simp add: be_bytes_expand(2) tagged_def varint_tag_def)
  next
    case 3
    then show ?thesis using varint_Read_tagged(3) [OF first, of "ucast (drop_bit 16 i)" "ucast (drop_bit 8 i)" "ucast i" r] val
      by (simp add: be_bytes_expand(3) tagged_def varint_tag_def del: be_value.simps)
  next
    case 4
    then show ?thesis using val varint_Read_tagged(4) [OF first, of "ucast (drop_bit 48 i)" "ucast (drop_bit 40 i)"
        "ucast (drop_bit 32 i)" "ucast (drop_bit 24 i)" "ucast (drop_bit 16 i)" "ucast (drop_bit 8 i)" "ucast i" r]
      by (simp add: be_bytes_expand(4) tagged_def varint_tag_def del: be_value.simps)
  qed
qed

lemma varint_size_fits: "varint_valid i \<Longrightarrow> unat i < 64 * 256 ^ (varint_size i - 1)"
  by (auto simp: varint_size_def varint_valid_def maxVarInt_defs word_le_nat_alt)

lemma varint_Read_enc [simp, codec]: "varint_valid i \<Longrightarrow> varint_Read (varint_enc i @ r) = Inr (i, r)"
  unfolding varint_enc_def by (rule varint_Read_be_bytes [OF varint_size_cases varint_size_fits])

text \<open>An encoding that is longer than needed.\<close>

lemma be_bytes_padded:
  assumes "l < len" and "unat i < 256 ^ l"
  shows "be_bytes len i = replicate (len - l) 0 @ be_bytes l i"
  using assms(1)
proof (induction len)
  case (Suc len)
  have "(256 :: nat) ^ l \<le> 256 ^ len" using Suc.prems by (intro power_increasing) simp_all
  then have "unat i < 256 ^ len" using assms(2) by (rule order_less_le_trans [rotated])
  then have "unat (ucast (drop_bit (8 * len) i) :: u8) = 0" by (simp add: unat_byte power_mult)
  then have z: "ucast (drop_bit (8 * len) i) = (0 :: u8)" by (simp add: word_unat_eq_iff)
  show ?case
  proof (cases "l = len")
    case False
    then show ?thesis using Suc z by (simp add: be_bytes_Suc Suc_diff_le)
  qed (simp add: be_bytes_Suc z)
qed simp

lemma varint_WriteWithLen_ok:
  assumes "len \<in> {1, 2, 4, 8}" and "varint_valid i" and "varint_size i \<le> len"
  shows "varint_WriteWithLen w i len = Inr (w @ tagged len (be_bytes len i))"
proof (cases "varint_size i = len")
  case True
  then show ?thesis using assms
    by (auto simp: varint_WriteWithLen_def varint_Len_ok varint_Write_ok varint_enc_def)
next
  case False
  let ?l = "varint_size i"
  have l: "?l < len" using assms(3) False by simp
  have "64 * 256 ^ (?l - 1) \<le> (256 :: nat) ^ ?l" using varint_size_cases [of i] by auto
  then have pad: "be_bytes len i = replicate (len - ?l) 0 @ be_bytes ?l i"
    using varint_size_fits [OF assms(2)] by (intro be_bytes_padded [OF l]) simp
  have "tagged len (be_bytes len i) = varint_tag len # replicate (len - ?l - 1) 0 @ be_bytes ?l i"
    using l by (cases "len - ?l") (simp_all add: pad tagged_def)
  then show ?thesis using assms(1,2) l varint_size_cases [of i]
    by (auto simp: varint_WriteWithLen_def varint_Len_ok be_bytes_def WriteByte_def WriteBytes_def varint_tag_def Let_def)
qed

end
