(* ===== verification/Quic_Packet_Number.thy ===== *)
theory Quic_Packet_Number
  imports Quic_Varint
begin

unbundle bit_operations_syntax

text \<open>
  Packet numbers (\<^verbatim>\<open>enhanced-quic/internal/protocol/packet_number.go\<close>).  A packet number is a signed number of 64 bits
  below \<open>2 ^ 62\<close>, so the sums here do not overflow and it is modelled as an \<open>int\<close>.  On the wire only its
  lowest bytes appear; the receiver completes them from the last packet number it has seen.  Shown: it finds the
  packet number whenever that is less than half of the range away, and the sender chooses a length for which it is.
\<close>

type_synonym PacketNumber = int

definition InvalidPacketNumber :: PacketNumber where
  "InvalidPacketNumber = -1"

definition pn_delta :: "PacketNumber \<Rightarrow> PacketNumber \<Rightarrow> PacketNumber" where
  "pn_delta a b = (if a < b then b - a else a - b)"

definition closestTo :: "PacketNumber \<Rightarrow> PacketNumber \<Rightarrow> PacketNumber \<Rightarrow> PacketNumber" where
  "closestTo target a b = (if pn_delta target a < pn_delta target b then a else b)"

definition epochDelta :: "u8 \<Rightarrow> PacketNumber" where
  "epochDelta len = (if len = 1 then push_bit 8 1 else if len = 2 then push_bit 16 1
     else if len = 3 then push_bit 24 1 else if len = 4 then push_bit 32 1 else 0)"

definition DecodePacketNumber :: "u8 \<Rightarrow> PacketNumber \<Rightarrow> PacketNumber \<Rightarrow> PacketNumber" where
  "DecodePacketNumber packetNumberLength lastPacketNumber wirePacketNumber =
     (let d = epochDelta packetNumberLength;
          epoch = lastPacketNumber AND NOT (d - 1);
          prevEpochBegin = (if epoch > d then epoch - d else 0);
          nextEpochBegin = epoch + d
      in closestTo (lastPacketNumber + 1) (epoch + wirePacketNumber)
           (closestTo (lastPacketNumber + 1) (prevEpochBegin + wirePacketNumber) (nextEpochBegin + wirePacketNumber)))"

definition GetPacketNumberLengthForHeader :: "PacketNumber \<Rightarrow> PacketNumber \<Rightarrow> u8" where
  "GetPacketNumberLengthForHeader packetNumber leastUnacked =
     (let diff = (word_of_int (packetNumber - leastUnacked) :: u64)
      in if diff < push_bit 15 1 then 2 else if diff < push_bit 23 1 then 3 else 4)"

section \<open>Decoding\<close>

lemma epoch_eq:
  fixes x :: int
  shows "x AND NOT (2 ^ n - 1) = x - x mod 2 ^ n"
proof -
  have "x = (x AND NOT (mask n)) OR (x AND mask n)" by (simp add: bit.conj_disj_distrib [symmetric])
  also have "\<dots> = (x AND NOT (mask n)) + (x AND mask n)"
    by (rule disjunctive_add [symmetric]) (simp add: bit_simps)
  finally have "x AND NOT (mask n) = x - take_bit n x" by (simp add: take_bit_eq_mask)
  then show ?thesis by (simp add: mask_eq_exp_minus_1 take_bit_eq_mod)
qed

lemma pn_delta_abs: "pn_delta a b = \<bar>a - b\<bar>"
  by (simp add: pn_delta_def)

lemma closestTo_in: "closestTo t a b = a \<or> closestTo t a b = b"
  by (simp add: closestTo_def)

lemma closestTo_le: "pn_delta t (closestTo t a b) \<le> pn_delta t a" "pn_delta t (closestTo t a b) \<le> pn_delta t b"
  by (simp_all add: closestTo_def)

lemma multiples_apart:
  fixes x y d :: int
  assumes "d dvd x - y" and "x \<noteq> y" shows "d \<le> \<bar>x - y\<bar>"
  using assms by (intro zdvd_imp_le) simp_all

text \<open>The closest candidate is the packet number if no other one is as close as half of the range.\<close>

lemma closest_candidate:
  assumes "pn \<in> {a, b, c}" and "\<forall>x \<in> {a, b, c}. d dvd x - pn" and "2 * \<bar>t - pn\<bar> < d"
  shows "closestTo t a (closestTo t b c) = pn"
proof -
  let ?r = "closestTo t a (closestTo t b c)"
  have "?r \<in> {a, b, c}" using closestTo_in by (metis insert_iff)
  then have "d dvd ?r - pn" using assms(2) by blast
  have "pn_delta t ?r \<le> pn_delta t pn" using assms(1) closestTo_le by (metis empty_iff insert_iff order_trans)
  then have r: "t - ?r \<le> \<bar>t - pn\<bar>" "?r - t \<le> \<bar>t - pn\<bar>" by (simp_all add: pn_delta_abs abs_le_iff)
  define m where "m = \<bar>t - pn\<bar>"
  have "t - pn \<le> m" "pn - t \<le> m" "2 * m < d" using assms(3) by (simp_all add: m_def)
  then have "\<bar>?r - pn\<bar> < d" using r unfolding m_def [symmetric] abs_less_iff by (intro conjI) linarith+
  then show ?thesis using multiples_apart [OF \<open>d dvd ?r - pn\<close>] by (cases "?r = pn") simp_all
qed

lemma epochDelta_cases: "len \<in> {1, 2, 3, 4} \<Longrightarrow> epochDelta len = 2 ^ (8 * unat len)"
  by (auto simp: epochDelta_def push_bit_eq_mult)

lemma DecodePacketNumber_ok:
  assumes len: "len \<in> {1, 2, 3, 4}" and "0 \<le> pn" and lastpn: "-1 \<le> lastpn"
    and window: "2 * \<bar>lastpn + 1 - pn\<bar> < 2 ^ (8 * unat len)"
  shows "DecodePacketNumber len lastpn (pn mod 2 ^ (8 * unat len)) = pn"
proof -
  define d :: int where "d = 2 ^ (8 * unat len)"
  have d: "0 < d" by (simp add: d_def)
  let ?w = "pn mod d" and ?epoch = "lastpn - lastpn mod d"
  let ?prev = "if ?epoch > d then ?epoch - d else 0"
  have delta: "epochDelta len = d" using len by (simp add: epochDelta_cases d_def)
  have e: "d dvd ?epoch" by (simp add: dvd_minus_mod)
  have w: "d dvd x + ?w - pn" if "d dvd x" for x
  proof -
    have "x + ?w - pn = x - (pn - pn mod d)" by simp
    then show ?thesis using that dvd_diff dvd_minus_mod by metis
  qed
  have prev: "d dvd ?prev" using e by (auto intro: dvd_diff)
  have range: "0 \<le> ?w" "?w < d" "0 \<le> lastpn mod d" "lastpn mod d < d" using d by simp_all
  obtain q where q: "?epoch = d * q" using e unfolding dvd_def by blast
  obtain k where k: "pn - ?w = d * k" using dvd_minus_mod [of d pn] unfolding dvd_def by blast
  have k0: "0 \<le> k"
  proof (rule ccontr)
    assume "\<not> 0 \<le> k"
    then have "d * k \<le> d * (-1)" using d by (intro mult_left_mono) simp_all
    then show False using k assms(2) range(2) by simp
  qed
  define m where "m = \<bar>lastpn + 1 - pn\<bar>"
  have win: "lastpn + 1 - pn \<le> m" "pn - (lastpn + 1) \<le> m" "2 * m < d"
    using window by (simp_all add: m_def d_def)
  have "d * k < d * q + 2 * d" "d * q - 2 * d < d * k" using win k [symmetric] q [symmetric] range by linarith+
  then have "d * k < d * (q + 2)" "d * (q - 2) < d * k" by (simp_all add: distrib_left right_diff_distrib)
  then have "k < q + 2" "q - 2 < k" using d by (simp_all add: mult_less_cancel_left)
  then consider "k = q" | "k = q + 1" | "k = q - 1" by linarith
  then have "pn \<in> {?epoch + ?w, ?prev + ?w, ?epoch + d + ?w}"
  proof cases
    case 3
    then have "d \<le> ?epoch" using q k0 d by (simp add: mult_le_cancel_left1 le_diff_eq)
    then have "?prev = ?epoch - d" by simp
    moreover have "d * k = d * q - d" using 3 by (simp add: right_diff_distrib)
    then have "pn = ?epoch - d + ?w" using k q by linarith
    ultimately show ?thesis by simp
  qed (use k q in \<open>simp_all add: algebra_simps\<close>)
  moreover have "\<forall>x \<in> {?epoch + ?w, ?prev + ?w, ?epoch + d + ?w}. d dvd x - pn"
    using w [OF e] w [OF prev] w [of "?epoch + d"] e by auto
  ultimately have "closestTo (lastpn + 1) (?epoch + ?w) (closestTo (lastpn + 1) (?prev + ?w) (?epoch + d + ?w)) = pn"
    using window by (intro closest_candidate) (simp_all only: d_def)
  moreover have "lastpn AND NOT (d - 1) = ?epoch" unfolding d_def by (rule epoch_eq)
  ultimately show ?thesis unfolding DecodePacketNumber_def delta d_def [symmetric] Let_def by (simp only:)
qed

section \<open>Choice of the length\<close>

lemma header_length_fits:
  assumes "leastUnacked \<le> pn" and "pn - leastUnacked < 2 ^ 31"
  shows "GetPacketNumberLengthForHeader pn leastUnacked \<in> {2, 3, 4} \<and>
    2 * (pn - leastUnacked) < 2 ^ (8 * unat (GetPacketNumberLengthForHeader pn leastUnacked))"
proof -
  define k where "k = nat (pn - leastUnacked)"
  have k: "pn - leastUnacked = int k" "k < 2 ^ 31" using assms by (simp_all add: k_def nat_less_iff)
  have w: "word_of_int (int k) = (of_nat k :: u64)" by simp
  have u: "unat (of_nat k :: u64) = k" using k(2) by (intro unat_of_nat_less) simp
  have p: "unat (push_bit 15 1 :: u64) = 2 ^ 15" "unat (push_bit 23 1 :: u64) = 2 ^ 23" by simp_all
  have lt: "of_nat k < (push_bit 15 1 :: u64) \<longleftrightarrow> k < 2 ^ 15" "of_nat k < (push_bit 23 1 :: u64) \<longleftrightarrow> k < 2 ^ 23"
    unfolding word_less_nat_alt u p by (rule refl)+
  show ?thesis unfolding GetPacketNumberLengthForHeader_def k w Let_def lt using k(2) by auto
qed

end
