(* ===== verification/Quic_Control_Frames.thy ===== *)
theory Quic_Control_Frames
  imports Quic_Packet_Number Packet_Codec
begin

unbundle bit_operations_syntax

text \<open>
  The frames of QUIC without payload of their own size (\<^verbatim>\<open>enhanced-quic/internal/wire/*_frame.go\<close>), each with
  the parse function, \<^verbatim>\<open>Write\<close> and \<^verbatim>\<open>Length\<close>.  The contract is the locale \<open>frame_codec\<close>: what is written is read back,
  the length is the number of bytes written, and the first byte tells the frame parser the type.
  A \<^verbatim>\<open>StreamID\<close>, \<^verbatim>\<open>StreamNum\<close> or \<^verbatim>\<open>ByteCount\<close> is a signed number of 64 bits, modelled as an \<open>int\<close>;
  \<open>uint64\<close> and \<open>int64\<close> are the conversions of the language.
\<close>

section \<open>Numbers on the wire\<close>

type_synonym StreamID = int
type_synonym StreamNum = int
type_synonym ByteCount = int

definition uint64 :: "int \<Rightarrow> u64" where
  "uint64 x = word_of_int x"

definition int64 :: "u64 \<Rightarrow> int" where
  "int64 w = sint w"

definition wire_number :: "int \<Rightarrow> bool" where
  "wire_number x \<longleftrightarrow> 0 \<le> x \<and> x < 2 ^ 62"

lemma uint_uint64: "wire_number x \<Longrightarrow> uint (uint64 x) = x"
  by (simp add: uint64_def wire_number_def uint_word_of_int)

lemma int64_uint64 [simp, codec]: "wire_number x \<Longrightarrow> int64 (uint64 x) = x"
proof -
  assume "wire_number x"
  then have "signed_take_bit 63 x = x" by (intro signed_take_bit_int_eq_self) (simp_all add: wire_number_def)
  with \<open>wire_number x\<close> show ?thesis by (simp add: int64_def sint_uint uint_uint64)
qed

lemma varint_valid_uint64 [simp, codec]: "wire_number x \<Longrightarrow> varint_valid (uint64 x)"
  by (simp add: varint_valid_def maxVarInt8_def word_le_def uint_uint64) (simp add: wire_number_def)

lemma varint_valid_of_nat [simp, codec]: "n < 2 ^ 62 \<Longrightarrow> varint_valid (of_nat n)"
  by (simp add: varint_valid_def maxVarInt8_def word_le_nat_alt unat_of_nat_less)

lemma varint_valid_32 [simp, codec]: "varint_valid (ucast (w :: u32))"
proof -
  have "unat (ucast w :: u64) = unat w" by (simp add: unsigned_ucast_eq take_bit_nat_eq_self_iff unat_bound [of w, THEN order_less_trans])
  then show ?thesis using unat_bound [of w] by (simp add: varint_valid_def maxVarInt8_def word_le_nat_alt)
qed

lemma int64_wire: "varint_valid w \<Longrightarrow> wire_number (int64 w)"
proof -
  assume "varint_valid w"
  then have "uint w < 2 ^ 62" by (simp add: varint_valid_def maxVarInt8_def word_le_def)
  then have "signed_take_bit 63 (uint w) = uint w" by (intro signed_take_bit_int_eq_self) (simp_all add: order_trans [of _ 0])
  then have "sint w = uint w" by (simp add: sint_uint)
  with \<open>uint w < 2 ^ 62\<close> show ?thesis by (simp add: int64_def wire_number_def)
qed

text \<open>A sequence of writes that each append to the buffer.\<close>

declare varint_Write_ok [codec] varint_Len_ok [codec]

section \<open>Contract\<close>

locale frame_codec = packet_codec +
  fixes flen :: "'a \<Rightarrow> nat result" and ftypes :: "u8 set"
  assumes flen_enc: "valid p \<Longrightarrow> flen p = Inr (length (enc p))"
    and enc_type: "valid p \<Longrightarrow> enc p \<noteq> [] \<and> hd (enc p) \<in> ftypes"
begin

lemma enc_starts: "valid p \<Longrightarrow> \<exists>t bs. enc p = t # bs \<and> t \<in> ftypes"
  using enc_type [of p] by (cases "enc p") auto

text \<open>\<^verbatim>\<open>Length\<close> says how much \<^verbatim>\<open>Write\<close> writes.\<close>

lemma write_length: "valid p \<Longrightarrow> bindE (Write p b) (\<lambda>b'. Inr (length b' - length b)) = flen p"
  by (simp add: Write_enc flen_enc)

end

section \<open>Empty frames\<close>

datatype PingFrame = PingFrame

definition parsePingFrame :: "PingFrame reader" where
  "parsePingFrame r = bindE (ReadByte r) (\<lambda>(_, r). Inr (PingFrame, r))"

definition PingFrame_Write :: "PingFrame \<Rightarrow> bytes \<Rightarrow> bytes result" where
  "PingFrame_Write f b = Inr (WriteByte b 0x1)"

definition PingFrame_Length :: "PingFrame \<Rightarrow> nat result" where
  "PingFrame_Length f = Inr 1"

datatype HandshakeDoneFrame = HandshakeDoneFrame

definition parseHandshakeDoneFrame :: "HandshakeDoneFrame reader" where
  "parseHandshakeDoneFrame r = bindE (ReadByte r) (\<lambda>(_, r). Inr (HandshakeDoneFrame, r))"

definition HandshakeDoneFrame_Write :: "HandshakeDoneFrame \<Rightarrow> bytes \<Rightarrow> bytes result" where
  "HandshakeDoneFrame_Write f b = Inr (WriteByte b 0x1e)"

definition HandshakeDoneFrame_Length :: "HandshakeDoneFrame \<Rightarrow> nat result" where
  "HandshakeDoneFrame_Length f = Inr 1"

section \<open>Frames of numbers\<close>

record DataBlockedFrame =
  db_MaximumData :: ByteCount

definition parseDataBlockedFrame :: "DataBlockedFrame reader" where
  "parseDataBlockedFrame r =
     bindE (ReadByte r) (\<lambda>(_, r).
     bindE (varint_Read r) (\<lambda>(offset, r).
     Inr (\<lparr>db_MaximumData = int64 offset\<rparr>, r)))"

definition DataBlockedFrame_Write :: "DataBlockedFrame \<Rightarrow> bytes \<Rightarrow> bytes result" where
  "DataBlockedFrame_Write f b = varint_Write (WriteByte b 0x14) (uint64 (db_MaximumData f))"

definition DataBlockedFrame_Length :: "DataBlockedFrame \<Rightarrow> nat result" where
  "DataBlockedFrame_Length f = bindE (varint_Len (uint64 (db_MaximumData f))) (\<lambda>l. Inr (1 + l))"

record StreamDataBlockedFrame =
  sdb_StreamID :: StreamID
  sdb_MaximumStreamData :: ByteCount

definition parseStreamDataBlockedFrame :: "StreamDataBlockedFrame reader" where
  "parseStreamDataBlockedFrame r =
     bindE (ReadByte r) (\<lambda>(_, r).
     bindE (varint_Read r) (\<lambda>(sid, r).
     bindE (varint_Read r) (\<lambda>(offset, r).
     Inr (\<lparr>sdb_StreamID = int64 sid, sdb_MaximumStreamData = int64 offset\<rparr>, r))))"

definition StreamDataBlockedFrame_Write :: "StreamDataBlockedFrame \<Rightarrow> bytes \<Rightarrow> bytes result" where
  "StreamDataBlockedFrame_Write f b =
     bindE (varint_Write (WriteByte b 0x15) (uint64 (sdb_StreamID f))) (\<lambda>b.
     varint_Write b (uint64 (sdb_MaximumStreamData f)))"

definition StreamDataBlockedFrame_Length :: "StreamDataBlockedFrame \<Rightarrow> nat result" where
  "StreamDataBlockedFrame_Length f =
     bindE (varint_Len (uint64 (sdb_StreamID f))) (\<lambda>l1.
     bindE (varint_Len (uint64 (sdb_MaximumStreamData f))) (\<lambda>l2. Inr (1 + l1 + l2)))"

record MaxDataFrame =
  md_MaximumData :: ByteCount

definition parseMaxDataFrame :: "MaxDataFrame reader" where
  "parseMaxDataFrame r =
     bindE (ReadByte r) (\<lambda>(_, r).
     bindE (varint_Read r) (\<lambda>(byteOffset, r).
     Inr (\<lparr>md_MaximumData = int64 byteOffset\<rparr>, r)))"

definition MaxDataFrame_Write :: "MaxDataFrame \<Rightarrow> bytes \<Rightarrow> bytes result" where
  "MaxDataFrame_Write f b = varint_Write (WriteByte b 0x10) (uint64 (md_MaximumData f))"

definition MaxDataFrame_Length :: "MaxDataFrame \<Rightarrow> nat result" where
  "MaxDataFrame_Length f = bindE (varint_Len (uint64 (md_MaximumData f))) (\<lambda>l. Inr (1 + l))"

record MaxStreamDataFrame =
  msd_StreamID :: StreamID
  msd_MaximumStreamData :: ByteCount

definition parseMaxStreamDataFrame :: "MaxStreamDataFrame reader" where
  "parseMaxStreamDataFrame r =
     bindE (ReadByte r) (\<lambda>(_, r).
     bindE (varint_Read r) (\<lambda>(sid, r).
     bindE (varint_Read r) (\<lambda>(offset, r).
     Inr (\<lparr>msd_StreamID = int64 sid, msd_MaximumStreamData = int64 offset\<rparr>, r))))"

definition MaxStreamDataFrame_Write :: "MaxStreamDataFrame \<Rightarrow> bytes \<Rightarrow> bytes result" where
  "MaxStreamDataFrame_Write f b =
     bindE (varint_Write (WriteByte b 0x11) (uint64 (msd_StreamID f))) (\<lambda>b.
     varint_Write b (uint64 (msd_MaximumStreamData f)))"

definition MaxStreamDataFrame_Length :: "MaxStreamDataFrame \<Rightarrow> nat result" where
  "MaxStreamDataFrame_Length f =
     bindE (varint_Len (uint64 (msd_StreamID f))) (\<lambda>l1.
     bindE (varint_Len (uint64 (msd_MaximumStreamData f))) (\<lambda>l2. Inr (1 + l1 + l2)))"

text \<open>An error code is an unsigned number of 64 bits.\<close>

record StopSendingFrame =
  ss_StreamID :: StreamID
  ss_ErrorCode :: u64

definition parseStopSendingFrame :: "StopSendingFrame reader" where
  "parseStopSendingFrame r =
     bindE (ReadByte r) (\<lambda>(_, r).
     bindE (varint_Read r) (\<lambda>(streamID, r).
     bindE (varint_Read r) (\<lambda>(errorCode, r).
     Inr (\<lparr>ss_StreamID = int64 streamID, ss_ErrorCode = errorCode\<rparr>, r))))"

definition StopSendingFrame_Length :: "StopSendingFrame \<Rightarrow> nat result" where
  "StopSendingFrame_Length f =
     bindE (varint_Len (uint64 (ss_StreamID f))) (\<lambda>l1.
     bindE (varint_Len (ss_ErrorCode f)) (\<lambda>l2. Inr (1 + l1 + l2)))"

definition StopSendingFrame_Write :: "StopSendingFrame \<Rightarrow> bytes \<Rightarrow> bytes result" where
  "StopSendingFrame_Write f b =
     bindE (varint_Write (WriteByte b 0x5) (uint64 (ss_StreamID f))) (\<lambda>b.
     varint_Write b (ss_ErrorCode f))"

record ResetStreamFrame =
  rs_StreamID :: StreamID
  rs_ErrorCode :: u64
  rs_FinalSize :: ByteCount

definition parseResetStreamFrame :: "ResetStreamFrame reader" where
  "parseResetStreamFrame r =
     bindE (ReadByte r) (\<lambda>(_, r).
     bindE (varint_Read r) (\<lambda>(sid, r).
     bindE (varint_Read r) (\<lambda>(errorCode, r).
     bindE (varint_Read r) (\<lambda>(bo, r).
     Inr (\<lparr>rs_StreamID = int64 sid, rs_ErrorCode = errorCode, rs_FinalSize = int64 bo\<rparr>, r)))))"

definition ResetStreamFrame_Write :: "ResetStreamFrame \<Rightarrow> bytes \<Rightarrow> bytes result" where
  "ResetStreamFrame_Write f b =
     bindE (varint_Write (WriteByte b 0x4) (uint64 (rs_StreamID f))) (\<lambda>b.
     bindE (varint_Write b (rs_ErrorCode f)) (\<lambda>b.
     varint_Write b (uint64 (rs_FinalSize f))))"

definition ResetStreamFrame_Length :: "ResetStreamFrame \<Rightarrow> nat result" where
  "ResetStreamFrame_Length f =
     bindE (varint_Len (uint64 (rs_StreamID f))) (\<lambda>l1.
     bindE (varint_Len (rs_ErrorCode f)) (\<lambda>l2.
     bindE (varint_Len (uint64 (rs_FinalSize f))) (\<lambda>l3. Inr (1 + l1 + l2 + l3))))"

record RetireConnectionIDFrame =
  rc_SequenceNumber :: u64

definition parseRetireConnectionIDFrame :: "RetireConnectionIDFrame reader" where
  "parseRetireConnectionIDFrame r =
     bindE (ReadByte r) (\<lambda>(_, r).
     bindE (varint_Read r) (\<lambda>(seq, r).
     Inr (\<lparr>rc_SequenceNumber = seq\<rparr>, r)))"

definition RetireConnectionIDFrame_Write :: "RetireConnectionIDFrame \<Rightarrow> bytes \<Rightarrow> bytes result" where
  "RetireConnectionIDFrame_Write f b = varint_Write (WriteByte b 0x19) (rc_SequenceNumber f)"

definition RetireConnectionIDFrame_Length :: "RetireConnectionIDFrame \<Rightarrow> nat result" where
  "RetireConnectionIDFrame_Length f = bindE (varint_Len (rc_SequenceNumber f)) (\<lambda>l. Inr (1 + l))"

section \<open>Stream limits\<close>

datatype StreamType = StreamTypeUni | StreamTypeBidi

definition MaxStreamCount :: StreamNum where
  "MaxStreamCount = push_bit 60 1"

record StreamsBlockedFrame =
  sb_Type :: StreamType
  sb_StreamLimit :: StreamNum

text \<open>A type byte other than the two leaves the zero value \<open>StreamTypeUni\<close>.\<close>

definition parseStreamsBlockedFrame :: "StreamsBlockedFrame reader" where
  "parseStreamsBlockedFrame r =
     bindE (ReadByte r) (\<lambda>(typeByte, r).
     let ty = (if typeByte = 0x16 then StreamTypeBidi else if typeByte = 0x17 then StreamTypeUni else StreamTypeUni) in
     bindE (varint_Read r) (\<lambda>(streamLimit, r).
     if int64 streamLimit > MaxStreamCount then Inl (Err ''exceeds the maximum stream count'')
     else Inr (\<lparr>sb_Type = ty, sb_StreamLimit = int64 streamLimit\<rparr>, r)))"

definition StreamsBlockedFrame_Write :: "StreamsBlockedFrame \<Rightarrow> bytes \<Rightarrow> bytes result" where
  "StreamsBlockedFrame_Write f b =
     (let b = (case sb_Type f of StreamTypeBidi \<Rightarrow> WriteByte b 0x16 | StreamTypeUni \<Rightarrow> WriteByte b 0x17)
      in varint_Write b (uint64 (sb_StreamLimit f)))"

definition StreamsBlockedFrame_Length :: "StreamsBlockedFrame \<Rightarrow> nat result" where
  "StreamsBlockedFrame_Length f = bindE (varint_Len (uint64 (sb_StreamLimit f))) (\<lambda>l. Inr (1 + l))"

record MaxStreamsFrame =
  ms_Type :: StreamType
  ms_MaxStreamNum :: StreamNum

definition parseMaxStreamsFrame :: "MaxStreamsFrame reader" where
  "parseMaxStreamsFrame r =
     bindE (ReadByte r) (\<lambda>(typeByte, r).
     let ty = (if typeByte = 0x12 then StreamTypeBidi else if typeByte = 0x13 then StreamTypeUni else StreamTypeUni) in
     bindE (varint_Read r) (\<lambda>(streamID, r).
     if int64 streamID > MaxStreamCount then Inl (Err ''exceeds the maximum stream count'')
     else Inr (\<lparr>ms_Type = ty, ms_MaxStreamNum = int64 streamID\<rparr>, r)))"

definition MaxStreamsFrame_Write :: "MaxStreamsFrame \<Rightarrow> bytes \<Rightarrow> bytes result" where
  "MaxStreamsFrame_Write f b =
     (let b = (case ms_Type f of StreamTypeBidi \<Rightarrow> WriteByte b 0x12 | StreamTypeUni \<Rightarrow> WriteByte b 0x13)
      in varint_Write b (uint64 (ms_MaxStreamNum f)))"

definition MaxStreamsFrame_Length :: "MaxStreamsFrame \<Rightarrow> nat result" where
  "MaxStreamsFrame_Length f = bindE (varint_Len (uint64 (ms_MaxStreamNum f))) (\<lambda>l. Inr (1 + l))"

section \<open>Frames with bytes\<close>

text \<open>\<^verbatim>\<open>ErrUnexpectedEOF\<close> becomes \<^verbatim>\<open>EOF\<close>.\<close>

definition ReadFull_EOF :: "nat \<Rightarrow> bytes reader" where
  "ReadFull_EOF n r = (case ReadFull n r of Inl e \<Rightarrow> (if e = UnexpectedEOF then Inl EOF else Inl e) | Inr x \<Rightarrow> Inr x)"

lemma ReadFull_EOF_append [simp, codec]: "length xs = n \<Longrightarrow> ReadFull_EOF n (xs @ r) = Inr (xs, r)"
  by (simp add: ReadFull_EOF_def)

record PathChallengeFrame =
  pc_Data :: bytes

definition parsePathChallengeFrame :: "PathChallengeFrame reader" where
  "parsePathChallengeFrame r =
     bindE (ReadByte r) (\<lambda>(_, r).
     bindE (ReadFull_EOF 8 r) (\<lambda>(d, r).
     Inr (\<lparr>pc_Data = d\<rparr>, r)))"

definition PathChallengeFrame_Write :: "PathChallengeFrame \<Rightarrow> bytes \<Rightarrow> bytes result" where
  "PathChallengeFrame_Write f b = Inr (WriteBytes (WriteByte b 0x1a) (pc_Data f))"

definition PathChallengeFrame_Length :: "PathChallengeFrame \<Rightarrow> nat result" where
  "PathChallengeFrame_Length f = Inr (1 + 8)"

record PathResponseFrame =
  pr_Data :: bytes

definition parsePathResponseFrame :: "PathResponseFrame reader" where
  "parsePathResponseFrame r =
     bindE (ReadByte r) (\<lambda>(_, r).
     bindE (ReadFull_EOF 8 r) (\<lambda>(d, r).
     Inr (\<lparr>pr_Data = d\<rparr>, r)))"

definition PathResponseFrame_Write :: "PathResponseFrame \<Rightarrow> bytes \<Rightarrow> bytes result" where
  "PathResponseFrame_Write f b = Inr (WriteBytes (WriteByte b 0x1b) (pr_Data f))"

definition PathResponseFrame_Length :: "PathResponseFrame \<Rightarrow> nat result" where
  "PathResponseFrame_Length f = Inr (1 + 8)"

record NewTokenFrame =
  nt_Token :: bytes

definition parseNewTokenFrame :: "NewTokenFrame reader" where
  "parseNewTokenFrame r =
     bindE (ReadByte r) (\<lambda>(_, r).
     bindE (varint_Read r) (\<lambda>(tokenLen, r).
     if length r < unat tokenLen then Inl EOF
     else if tokenLen = 0 then Inl (Err ''token must not be empty'')
     else bindE (ReadFull (unat tokenLen) r) (\<lambda>(token, r).
     Inr (\<lparr>nt_Token = token\<rparr>, r))))"

definition NewTokenFrame_Write :: "NewTokenFrame \<Rightarrow> bytes \<Rightarrow> bytes result" where
  "NewTokenFrame_Write f b =
     bindE (varint_Write (WriteByte b 0x7) (of_nat (length (nt_Token f)))) (\<lambda>b.
     Inr (WriteBytes b (nt_Token f)))"

definition NewTokenFrame_Length :: "NewTokenFrame \<Rightarrow> nat result" where
  "NewTokenFrame_Length f =
     bindE (varint_Len (of_nat (length (nt_Token f)))) (\<lambda>l. Inr (1 + l + length (nt_Token f)))"

definition MaxConnIDLen :: nat where
  "MaxConnIDLen = 20"

definition ReadConnectionID :: "nat \<Rightarrow> bytes reader" where
  "ReadConnectionID len r = (if len = 0 then Inr ([], r) else ReadFull_EOF len r)"

lemma ReadConnectionID_append [simp, codec]: "length xs = n \<Longrightarrow> ReadConnectionID n (xs @ r) = Inr (xs, r)"
  by (auto simp: ReadConnectionID_def)

record NewConnectionIDFrame =
  nc_SequenceNumber :: u64
  nc_RetirePriorTo :: u64
  nc_ConnectionID :: bytes
  nc_StatelessResetToken :: bytes

definition parseNewConnectionIDFrame :: "NewConnectionIDFrame reader" where
  "parseNewConnectionIDFrame r =
     bindE (ReadByte r) (\<lambda>(_, r).
     bindE (varint_Read r) (\<lambda>(seq, r).
     bindE (varint_Read r) (\<lambda>(ret, r).
     if ret > seq then Inl (Err ''Retire Prior To value larger than Sequence Number'')
     else bindE (ReadByte r) (\<lambda>(connIDLen, r).
     if unat connIDLen > MaxConnIDLen then Inl (Err ''invalid connection ID length'')
     else bindE (ReadConnectionID (unat connIDLen) r) (\<lambda>(connID, r).
     bindE (ReadFull_EOF 16 r) (\<lambda>(token, r).
     Inr (\<lparr>nc_SequenceNumber = seq, nc_RetirePriorTo = ret, nc_ConnectionID = connID, nc_StatelessResetToken = token\<rparr>, r)))))))"

definition NewConnectionIDFrame_Write :: "NewConnectionIDFrame \<Rightarrow> bytes \<Rightarrow> bytes result" where
  "NewConnectionIDFrame_Write f b =
     bindE (varint_Write (WriteByte b 0x18) (nc_SequenceNumber f)) (\<lambda>b.
     bindE (varint_Write b (nc_RetirePriorTo f)) (\<lambda>b.
     let connIDLen = length (nc_ConnectionID f) in
     if connIDLen > MaxConnIDLen then Inl (Err ''invalid connection ID length'')
     else Inr (WriteBytes (WriteBytes (WriteByte b (of_nat connIDLen)) (nc_ConnectionID f)) (nc_StatelessResetToken f))))"

definition NewConnectionIDFrame_Length :: "NewConnectionIDFrame \<Rightarrow> nat result" where
  "NewConnectionIDFrame_Length f =
     bindE (varint_Len (nc_SequenceNumber f)) (\<lambda>l1.
     bindE (varint_Len (nc_RetirePriorTo f)) (\<lambda>l2.
     Inr (1 + l1 + l2 + 1 + length (nc_ConnectionID f) + 16)))"

text \<open>A reason phrase is the sequence of its bytes.\<close>

record ConnectionCloseFrame =
  cc_IsApplicationError :: bool
  cc_ErrorCode :: u64
  cc_FrameType :: u64
  cc_ReasonPhrase :: bytes

definition parseConnectionCloseFrame :: "ConnectionCloseFrame reader" where
  "parseConnectionCloseFrame r =
     bindE (ReadByte r) (\<lambda>(typeByte, r).
     let app = (typeByte = 0x1d) in
     bindE (varint_Read r) (\<lambda>(ec, r).
     bindE (if \<not> app then varint_Read r else Inr (0, r)) (\<lambda>(ft, r).
     bindE (varint_Read r) (\<lambda>(reasonPhraseLen, r).
     if int64 reasonPhraseLen > int (length r) then Inl EOF
     else bindE (ReadFull (unat reasonPhraseLen) r) (\<lambda>(reasonPhrase, r).
     Inr (\<lparr>cc_IsApplicationError = app, cc_ErrorCode = ec, cc_FrameType = ft, cc_ReasonPhrase = reasonPhrase\<rparr>, r))))))"

definition ConnectionCloseFrame_Length :: "ConnectionCloseFrame \<Rightarrow> nat result" where
  "ConnectionCloseFrame_Length f =
     bindE (varint_Len (cc_ErrorCode f)) (\<lambda>l1.
     bindE (varint_Len (of_nat (length (cc_ReasonPhrase f)))) (\<lambda>l2.
     let len = 1 + l1 + l2 + length (cc_ReasonPhrase f) in
     if \<not> cc_IsApplicationError f then bindE (varint_Len (cc_FrameType f)) (\<lambda>l3. Inr (len + l3)) else Inr len))"

definition ConnectionCloseFrame_Write :: "ConnectionCloseFrame \<Rightarrow> bytes \<Rightarrow> bytes result" where
  "ConnectionCloseFrame_Write f b =
     (let b = (if cc_IsApplicationError f then WriteByte b 0x1d else WriteByte b 0x1c) in
      bindE (varint_Write b (cc_ErrorCode f)) (\<lambda>b.
      bindE (if \<not> cc_IsApplicationError f then varint_Write b (cc_FrameType f) else Inr b) (\<lambda>b.
      bindE (varint_Write b (of_nat (length (cc_ReasonPhrase f)))) (\<lambda>b.
      Inr (WriteBytes b (cc_ReasonPhrase f))))))"

section \<open>Encodings\<close>

text \<open>The frames the code is meant to send, and their encodings.\<close>

abbreviation vnum :: "int \<Rightarrow> bytes" where
  "vnum x \<equiv> varint_enc (uint64 x)"

definition ping_valid :: "PingFrame \<Rightarrow> bool" where
  "ping_valid f \<longleftrightarrow> True"

definition ping_enc :: "PingFrame \<Rightarrow> bytes" where
  "ping_enc f = [0x1]"

definition handshake_done_valid :: "HandshakeDoneFrame \<Rightarrow> bool" where
  "handshake_done_valid f \<longleftrightarrow> True"

definition handshake_done_enc :: "HandshakeDoneFrame \<Rightarrow> bytes" where
  "handshake_done_enc f = [0x1e]"

definition data_blocked_valid :: "DataBlockedFrame \<Rightarrow> bool" where
  "data_blocked_valid f \<longleftrightarrow> wire_number (db_MaximumData f)"

definition data_blocked_enc :: "DataBlockedFrame \<Rightarrow> bytes" where
  "data_blocked_enc f = 0x14 # vnum (db_MaximumData f)"

definition stream_data_blocked_valid :: "StreamDataBlockedFrame \<Rightarrow> bool" where
  "stream_data_blocked_valid f \<longleftrightarrow> wire_number (sdb_StreamID f) \<and> wire_number (sdb_MaximumStreamData f)"

definition stream_data_blocked_enc :: "StreamDataBlockedFrame \<Rightarrow> bytes" where
  "stream_data_blocked_enc f = 0x15 # vnum (sdb_StreamID f) @ vnum (sdb_MaximumStreamData f)"

definition max_data_valid :: "MaxDataFrame \<Rightarrow> bool" where
  "max_data_valid f \<longleftrightarrow> wire_number (md_MaximumData f)"

definition max_data_enc :: "MaxDataFrame \<Rightarrow> bytes" where
  "max_data_enc f = 0x10 # vnum (md_MaximumData f)"

definition max_stream_data_valid :: "MaxStreamDataFrame \<Rightarrow> bool" where
  "max_stream_data_valid f \<longleftrightarrow> wire_number (msd_StreamID f) \<and> wire_number (msd_MaximumStreamData f)"

definition max_stream_data_enc :: "MaxStreamDataFrame \<Rightarrow> bytes" where
  "max_stream_data_enc f = 0x11 # vnum (msd_StreamID f) @ vnum (msd_MaximumStreamData f)"

definition stop_sending_valid :: "StopSendingFrame \<Rightarrow> bool" where
  "stop_sending_valid f \<longleftrightarrow> wire_number (ss_StreamID f) \<and> varint_valid (ss_ErrorCode f)"

definition stop_sending_enc :: "StopSendingFrame \<Rightarrow> bytes" where
  "stop_sending_enc f = 0x5 # vnum (ss_StreamID f) @ varint_enc (ss_ErrorCode f)"

definition reset_stream_valid :: "ResetStreamFrame \<Rightarrow> bool" where
  "reset_stream_valid f \<longleftrightarrow> wire_number (rs_StreamID f) \<and> varint_valid (rs_ErrorCode f) \<and> wire_number (rs_FinalSize f)"

definition reset_stream_enc :: "ResetStreamFrame \<Rightarrow> bytes" where
  "reset_stream_enc f = 0x4 # vnum (rs_StreamID f) @ varint_enc (rs_ErrorCode f) @ vnum (rs_FinalSize f)"

definition retire_connection_id_valid :: "RetireConnectionIDFrame \<Rightarrow> bool" where
  "retire_connection_id_valid f \<longleftrightarrow> varint_valid (rc_SequenceNumber f)"

definition retire_connection_id_enc :: "RetireConnectionIDFrame \<Rightarrow> bytes" where
  "retire_connection_id_enc f = 0x19 # varint_enc (rc_SequenceNumber f)"

definition streams_blocked_valid :: "StreamsBlockedFrame \<Rightarrow> bool" where
  "streams_blocked_valid f \<longleftrightarrow> 0 \<le> sb_StreamLimit f \<and> sb_StreamLimit f \<le> MaxStreamCount"

definition streams_blocked_enc :: "StreamsBlockedFrame \<Rightarrow> bytes" where
  "streams_blocked_enc f = (if sb_Type f = StreamTypeBidi then 0x16 else 0x17) # vnum (sb_StreamLimit f)"

definition max_streams_valid :: "MaxStreamsFrame \<Rightarrow> bool" where
  "max_streams_valid f \<longleftrightarrow> 0 \<le> ms_MaxStreamNum f \<and> ms_MaxStreamNum f \<le> MaxStreamCount"

definition max_streams_enc :: "MaxStreamsFrame \<Rightarrow> bytes" where
  "max_streams_enc f = (if ms_Type f = StreamTypeBidi then 0x12 else 0x13) # vnum (ms_MaxStreamNum f)"

definition path_challenge_valid :: "PathChallengeFrame \<Rightarrow> bool" where
  "path_challenge_valid f \<longleftrightarrow> length (pc_Data f) = 8"

definition path_challenge_enc :: "PathChallengeFrame \<Rightarrow> bytes" where
  "path_challenge_enc f = 0x1a # pc_Data f"

definition path_response_valid :: "PathResponseFrame \<Rightarrow> bool" where
  "path_response_valid f \<longleftrightarrow> length (pr_Data f) = 8"

definition path_response_enc :: "PathResponseFrame \<Rightarrow> bytes" where
  "path_response_enc f = 0x1b # pr_Data f"

definition new_token_valid :: "NewTokenFrame \<Rightarrow> bool" where
  "new_token_valid f \<longleftrightarrow> nt_Token f \<noteq> [] \<and> length (nt_Token f) < 2 ^ 62"

definition new_token_enc :: "NewTokenFrame \<Rightarrow> bytes" where
  "new_token_enc f = 0x7 # varint_enc (of_nat (length (nt_Token f))) @ nt_Token f"

definition new_connection_id_valid :: "NewConnectionIDFrame \<Rightarrow> bool" where
  "new_connection_id_valid f \<longleftrightarrow> varint_valid (nc_SequenceNumber f) \<and> nc_RetirePriorTo f \<le> nc_SequenceNumber f \<and>
     length (nc_ConnectionID f) \<le> MaxConnIDLen \<and> length (nc_StatelessResetToken f) = 16"

definition new_connection_id_enc :: "NewConnectionIDFrame \<Rightarrow> bytes" where
  "new_connection_id_enc f = 0x18 # varint_enc (nc_SequenceNumber f) @ varint_enc (nc_RetirePriorTo f) @
     of_nat (length (nc_ConnectionID f)) # nc_ConnectionID f @ nc_StatelessResetToken f"

definition connection_close_valid :: "ConnectionCloseFrame \<Rightarrow> bool" where
  "connection_close_valid f \<longleftrightarrow> varint_valid (cc_ErrorCode f) \<and> varint_valid (cc_FrameType f) \<and>
     (cc_IsApplicationError f \<longrightarrow> cc_FrameType f = 0) \<and> length (cc_ReasonPhrase f) < 2 ^ 62"

definition connection_close_enc :: "ConnectionCloseFrame \<Rightarrow> bytes" where
  "connection_close_enc f = (if cc_IsApplicationError f then 0x1d else 0x1c) # varint_enc (cc_ErrorCode f) @
     (if cc_IsApplicationError f then [] else varint_enc (cc_FrameType f)) @
     varint_enc (of_nat (length (cc_ReasonPhrase f))) @ cc_ReasonPhrase f"

lemma empty_frame: "PingFrame = p" "HandshakeDoneFrame = h"
proof -
  show "PingFrame = p" by (cases p) simp
  show "HandshakeDoneFrame = h" by (cases h) simp
qed

lemma not_bidi [simp]: "t \<noteq> StreamTypeBidi \<longleftrightarrow> t = StreamTypeUni"
  by (cases t) simp_all

lemma limit_wire: "0 \<le> x \<Longrightarrow> x \<le> MaxStreamCount \<Longrightarrow> wire_number x"
  by (simp add: MaxStreamCount_def wire_number_def)

lemma unat_length [simp, codec]: "n < 2 ^ 62 \<Longrightarrow> unat (of_nat n :: u64) = n"
  by (simp add: unat_of_nat_less)

lemma of_nat_0_iff_64: "n < 2 ^ 62 \<Longrightarrow> (of_nat n :: u64) = 0 \<longleftrightarrow> n = 0"
  using unat_length [of n] by (cases "n = 0") (auto simp: word_unat_eq_iff)

lemma int64_of_nat [simp, codec]: "n < 2 ^ 62 \<Longrightarrow> int64 (of_nat n) = int n"
  using int64_uint64 [of "int n"] by (simp add: uint64_def wire_number_def)

lemma unat_conn_id: "n \<le> MaxConnIDLen \<Longrightarrow> unat (of_nat n :: u8) = n"
  by (simp add: MaxConnIDLen_def unat_of_nat_less)

interpretation ping: frame_codec parsePingFrame PingFrame_Write ping_enc ping_valid PingFrame_Length "{0x1}"
  by unfold_locales (auto simp: parsePingFrame_def PingFrame_Write_def PingFrame_Length_def ping_enc_def ping_valid_def codec empty_frame)

interpretation handshake_done: frame_codec parseHandshakeDoneFrame HandshakeDoneFrame_Write handshake_done_enc handshake_done_valid HandshakeDoneFrame_Length "{0x1e}"
  by unfold_locales (auto simp: parseHandshakeDoneFrame_def HandshakeDoneFrame_Write_def HandshakeDoneFrame_Length_def handshake_done_enc_def handshake_done_valid_def codec empty_frame)

interpretation data_blocked: frame_codec parseDataBlockedFrame DataBlockedFrame_Write data_blocked_enc data_blocked_valid DataBlockedFrame_Length "{0x14}"
  by unfold_locales (auto simp: parseDataBlockedFrame_def DataBlockedFrame_Write_def DataBlockedFrame_Length_def data_blocked_enc_def data_blocked_valid_def codec)

interpretation stream_data_blocked: frame_codec parseStreamDataBlockedFrame StreamDataBlockedFrame_Write stream_data_blocked_enc stream_data_blocked_valid StreamDataBlockedFrame_Length "{0x15}"
  by unfold_locales (auto simp: parseStreamDataBlockedFrame_def StreamDataBlockedFrame_Write_def StreamDataBlockedFrame_Length_def stream_data_blocked_enc_def stream_data_blocked_valid_def codec)

interpretation max_data: frame_codec parseMaxDataFrame MaxDataFrame_Write max_data_enc max_data_valid MaxDataFrame_Length "{0x10}"
  by unfold_locales (auto simp: parseMaxDataFrame_def MaxDataFrame_Write_def MaxDataFrame_Length_def max_data_enc_def max_data_valid_def codec)

interpretation max_stream_data: frame_codec parseMaxStreamDataFrame MaxStreamDataFrame_Write max_stream_data_enc max_stream_data_valid MaxStreamDataFrame_Length "{0x11}"
  by unfold_locales (auto simp: parseMaxStreamDataFrame_def MaxStreamDataFrame_Write_def MaxStreamDataFrame_Length_def max_stream_data_enc_def max_stream_data_valid_def codec)

interpretation stop_sending: frame_codec parseStopSendingFrame StopSendingFrame_Write stop_sending_enc stop_sending_valid StopSendingFrame_Length "{0x5}"
  by unfold_locales (auto simp: parseStopSendingFrame_def StopSendingFrame_Write_def StopSendingFrame_Length_def stop_sending_enc_def stop_sending_valid_def codec)

interpretation reset_stream: frame_codec parseResetStreamFrame ResetStreamFrame_Write reset_stream_enc reset_stream_valid ResetStreamFrame_Length "{0x4}"
  by unfold_locales (auto simp: parseResetStreamFrame_def ResetStreamFrame_Write_def ResetStreamFrame_Length_def reset_stream_enc_def reset_stream_valid_def codec)

interpretation retire_connection_id: frame_codec parseRetireConnectionIDFrame RetireConnectionIDFrame_Write retire_connection_id_enc retire_connection_id_valid RetireConnectionIDFrame_Length "{0x19}"
  by unfold_locales (auto simp: parseRetireConnectionIDFrame_def RetireConnectionIDFrame_Write_def RetireConnectionIDFrame_Length_def retire_connection_id_enc_def retire_connection_id_valid_def codec)

interpretation streams_blocked: frame_codec parseStreamsBlockedFrame StreamsBlockedFrame_Write streams_blocked_enc streams_blocked_valid StreamsBlockedFrame_Length "{0x16, 0x17}"
  by unfold_locales (auto simp: parseStreamsBlockedFrame_def StreamsBlockedFrame_Write_def StreamsBlockedFrame_Length_def streams_blocked_enc_def streams_blocked_valid_def codec limit_wire not_less split: StreamType.splits intro!: StreamsBlockedFrame.equality)

interpretation max_streams: frame_codec parseMaxStreamsFrame MaxStreamsFrame_Write max_streams_enc max_streams_valid MaxStreamsFrame_Length "{0x12, 0x13}"
  by unfold_locales (auto simp: parseMaxStreamsFrame_def MaxStreamsFrame_Write_def MaxStreamsFrame_Length_def max_streams_enc_def max_streams_valid_def codec limit_wire not_less split: StreamType.splits intro!: MaxStreamsFrame.equality)

interpretation path_challenge: frame_codec parsePathChallengeFrame PathChallengeFrame_Write path_challenge_enc path_challenge_valid PathChallengeFrame_Length "{0x1a}"
  by unfold_locales (auto simp: parsePathChallengeFrame_def PathChallengeFrame_Write_def PathChallengeFrame_Length_def path_challenge_enc_def path_challenge_valid_def codec)

interpretation path_response: frame_codec parsePathResponseFrame PathResponseFrame_Write path_response_enc path_response_valid PathResponseFrame_Length "{0x1b}"
  by unfold_locales (auto simp: parsePathResponseFrame_def PathResponseFrame_Write_def PathResponseFrame_Length_def path_response_enc_def path_response_valid_def codec)

interpretation new_token: frame_codec parseNewTokenFrame NewTokenFrame_Write new_token_enc new_token_valid NewTokenFrame_Length "{0x7}"
  by unfold_locales (auto simp: parseNewTokenFrame_def NewTokenFrame_Write_def NewTokenFrame_Length_def new_token_enc_def new_token_valid_def codec of_nat_0_iff_64)

interpretation new_connection_id: frame_codec parseNewConnectionIDFrame NewConnectionIDFrame_Write new_connection_id_enc new_connection_id_valid NewConnectionIDFrame_Length "{0x18}"
  by unfold_locales (auto simp: parseNewConnectionIDFrame_def NewConnectionIDFrame_Write_def NewConnectionIDFrame_Length_def new_connection_id_enc_def new_connection_id_valid_def codec unat_conn_id varint_valid_def not_less)

interpretation connection_close: frame_codec parseConnectionCloseFrame ConnectionCloseFrame_Write connection_close_enc connection_close_valid ConnectionCloseFrame_Length "{0x1c, 0x1d}"
  by unfold_locales (auto simp: parseConnectionCloseFrame_def ConnectionCloseFrame_Write_def ConnectionCloseFrame_Length_def connection_close_enc_def connection_close_valid_def codec)

end
