(* ===== verification/Quic_Data_Frames.thy ===== *)
theory Quic_Data_Frames
  imports Quic_Control_Frames
begin

unbundle bit_operations_syntax

text \<open>
  The frames that carry data (\<^verbatim>\<open>enhanced-quic/internal/wire/{stream,crypto,datagram,fec,fec_response}_frame.go\<close>).  The
  buffers of stream frames come from a pool; what is left of the pool here is the capacity of a buffer, beyond which
  a slice expression panics.  Shown, besides the contract \<open>frame_codec\<close>: a frame that is split keeps all its
  bytes, at the right offsets, and the part split off fits into the space it was made for.
\<close>

definition MaxByteCount :: ByteCount where
  "MaxByteCount = push_bit 62 1 - 1"

definition MaxPacketBufferSize :: nat where
  "MaxPacketBufferSize = 1452"

definition MinStreamFrameBufferSize :: nat where
  "MinStreamFrameBufferSize = 128"

section \<open>Stream frames\<close>

record StreamFrame =
  sf_StreamID :: StreamID
  sf_Offset :: ByteCount
  sf_Data :: bytes
  sf_Fin :: bool
  sf_DataLenPresent :: bool

definition sf_DataLen :: "StreamFrame \<Rightarrow> nat" where
  "sf_DataLen f = length (sf_Data f)"

definition parseStreamFrame :: "StreamFrame reader" where
  "parseStreamFrame r =
     bindE (ReadByte r) (\<lambda>(typeByte, r).
     let hasOffset = typeByte AND 0x4 > 0; fin = typeByte AND 0x1 > 0; hasDataLen = typeByte AND 0x2 > 0 in
     bindE (varint_Read r) (\<lambda>(streamID, r).
     bindE (if hasOffset then varint_Read r else Inr (0, r)) (\<lambda>(offset, r).
     bindE (if hasDataLen then varint_Read r else Inr (of_nat (length r), r)) (\<lambda>(dataLen, r).
     if \<not> unat dataLen < MinStreamFrameBufferSize \<and> unat dataLen > MaxPacketBufferSize then Inl EOF
     else bindE (if dataLen \<noteq> 0 then ReadFull (unat dataLen) r else Inr ([], r)) (\<lambda>(d, r).
     let frame = \<lparr>sf_StreamID = int64 streamID, sf_Offset = int64 offset, sf_Data = d, sf_Fin = fin,
                  sf_DataLenPresent = hasDataLen\<rparr> in
     if sf_Offset frame + int (sf_DataLen frame) > MaxByteCount then Inl (Err ''stream data overflows maximum offset'')
     else Inr (frame, r))))))"

definition StreamFrame_Write :: "StreamFrame \<Rightarrow> bytes \<Rightarrow> bytes result" where
  "StreamFrame_Write f b =
     (if length (sf_Data f) = 0 \<and> \<not> sf_Fin f then Inl (Err ''StreamFrame: attempting to write empty frame without FIN'')
      else let typeByte = 0x8;
               typeByte = (if sf_Fin f then typeByte XOR 0x1 else typeByte);
               hasOffset = sf_Offset f \<noteq> 0;
               typeByte = (if sf_DataLenPresent f then typeByte XOR 0x2 else typeByte);
               typeByte = (if hasOffset then typeByte XOR 0x4 else typeByte)
      in bindE (varint_Write (WriteByte b typeByte) (uint64 (sf_StreamID f))) (\<lambda>b.
         bindE (if hasOffset then varint_Write b (uint64 (sf_Offset f)) else Inr b) (\<lambda>b.
         bindE (if sf_DataLenPresent f then varint_Write b (of_nat (sf_DataLen f)) else Inr b) (\<lambda>b.
         Inr (WriteBytes b (sf_Data f))))))"

definition StreamFrame_Length :: "StreamFrame \<Rightarrow> nat result" where
  "StreamFrame_Length f =
     bindE (varint_Len (uint64 (sf_StreamID f))) (\<lambda>l1.
     bindE (if sf_Offset f \<noteq> 0 then varint_Len (uint64 (sf_Offset f)) else Inr 0) (\<lambda>l2.
     bindE (if sf_DataLenPresent f then varint_Len (of_nat (sf_DataLen f)) else Inr 0) (\<lambda>l3.
     Inr (1 + l1 + l2 + l3 + sf_DataLen f))))"

definition StreamFrame_MaxDataLen :: "StreamFrame \<Rightarrow> nat \<Rightarrow> nat result" where
  "StreamFrame_MaxDataLen f maxSize =
     bindE (varint_Len (uint64 (sf_StreamID f))) (\<lambda>l1.
     bindE (if sf_Offset f \<noteq> 0 then varint_Len (uint64 (sf_Offset f)) else Inr 0) (\<lambda>l2.
     let headerLen = 1 + l1 + l2 + (if sf_DataLenPresent f then 1 else 0) in
     if headerLen > maxSize then Inr 0
     else let maxDataLen = maxSize - headerLen in
          if sf_DataLenPresent f
          then bindE (varint_Len (of_nat maxDataLen)) (\<lambda>l. Inr (if l \<noteq> 1 then maxDataLen - 1 else maxDataLen))
          else Inr maxDataLen))"

text \<open>
  The part split off, whether splitting was required, and the frame that is left.  The data that is left moves
  into a buffer of the pool.
\<close>

definition StreamFrame_MaybeSplitOffFrame ::
  "StreamFrame \<Rightarrow> nat \<Rightarrow> (StreamFrame option \<times> bool \<times> StreamFrame) result" where
  "StreamFrame_MaybeSplitOffFrame f maxSize =
     bindE (StreamFrame_Length f) (\<lambda>len.
     if maxSize \<ge> len then Inr (None, False, f)
     else bindE (StreamFrame_MaxDataLen f maxSize) (\<lambda>n.
     if n = 0 then Inr (None, True, f)
     else if n > length (sf_Data f) \<or> length (sf_Data f) - n > MaxPacketBufferSize then Inl SliceOutOfRange
     else let new = \<lparr>sf_StreamID = sf_StreamID f, sf_Offset = sf_Offset f, sf_Data = take n (sf_Data f), sf_Fin = False,
                     sf_DataLenPresent = sf_DataLenPresent f\<rparr>
          in Inr (Some new, True, f\<lparr>sf_Data := drop n (sf_Data f), sf_Offset := sf_Offset f + int n\<rparr>)))"

section \<open>Crypto frames\<close>

record CryptoFrame =
  cf_Offset :: ByteCount
  cf_Data :: bytes

definition parseCryptoFrame :: "CryptoFrame reader" where
  "parseCryptoFrame r =
     bindE (ReadByte r) (\<lambda>(_, r).
     bindE (varint_Read r) (\<lambda>(offset, r).
     bindE (varint_Read r) (\<lambda>(dataLen, r).
     if unat dataLen > length r then Inl EOF
     else bindE (if dataLen \<noteq> 0 then ReadFull (unat dataLen) r else Inr ([], r)) (\<lambda>(d, r).
     Inr (\<lparr>cf_Offset = int64 offset, cf_Data = d\<rparr>, r)))))"

definition CryptoFrame_Write :: "CryptoFrame \<Rightarrow> bytes \<Rightarrow> bytes result" where
  "CryptoFrame_Write f b =
     bindE (varint_Write (WriteByte b 0x6) (uint64 (cf_Offset f))) (\<lambda>b.
     bindE (varint_Write b (of_nat (length (cf_Data f)))) (\<lambda>b.
     Inr (WriteBytes b (cf_Data f))))"

definition CryptoFrame_Length :: "CryptoFrame \<Rightarrow> nat result" where
  "CryptoFrame_Length f =
     bindE (varint_Len (uint64 (cf_Offset f))) (\<lambda>l1.
     bindE (varint_Len (of_nat (length (cf_Data f)))) (\<lambda>l2. Inr (1 + l1 + l2 + length (cf_Data f))))"

definition CryptoFrame_MaxDataLen :: "CryptoFrame \<Rightarrow> nat \<Rightarrow> nat result" where
  "CryptoFrame_MaxDataLen f maxSize =
     bindE (varint_Len (uint64 (cf_Offset f))) (\<lambda>l1.
     let headerLen = 1 + l1 + 1 in
     if headerLen > maxSize then Inr 0
     else let maxDataLen = maxSize - headerLen in
          bindE (varint_Len (of_nat maxDataLen)) (\<lambda>l. Inr (if l \<noteq> 1 then maxDataLen - 1 else maxDataLen)))"

definition CryptoFrame_MaybeSplitOffFrame ::
  "CryptoFrame \<Rightarrow> nat \<Rightarrow> (CryptoFrame option \<times> bool \<times> CryptoFrame) result" where
  "CryptoFrame_MaybeSplitOffFrame f maxSize =
     bindE (CryptoFrame_Length f) (\<lambda>len.
     if len \<le> maxSize then Inr (None, False, f)
     else bindE (CryptoFrame_MaxDataLen f maxSize) (\<lambda>n.
     if n = 0 then Inr (None, True, f)
     else if n > length (cf_Data f) then Inl (Panic ''makeslice: len out of range'')
     else Inr (Some \<lparr>cf_Offset = cf_Offset f, cf_Data = take n (cf_Data f)\<rparr>, True,
               f\<lparr>cf_Data := drop n (cf_Data f), cf_Offset := cf_Offset f + int n\<rparr>)))"

section \<open>Datagram frames\<close>

record DatagramFrame =
  dg_DataLenPresent :: bool
  dg_Data :: bytes

definition parseDatagramFrame :: "DatagramFrame reader" where
  "parseDatagramFrame r =
     bindE (ReadByte r) (\<lambda>(typeByte, r).
     let present = typeByte AND 0x1 > 0 in
     bindE (if present
            then bindE (varint_Read r) (\<lambda>(len, r). if unat len > length r then Inl EOF else Inr (unat len, r))
            else Inr (length r, r)) (\<lambda>(len, r).
     bindE (ReadFull len r) (\<lambda>(d, r).
     Inr (\<lparr>dg_DataLenPresent = present, dg_Data = d\<rparr>, r))))"

definition DatagramFrame_Write :: "DatagramFrame \<Rightarrow> bytes \<Rightarrow> bytes result" where
  "DatagramFrame_Write f b =
     (let typeByte = (if dg_DataLenPresent f then 0x30 XOR 0x1 else 0x30); b = WriteByte b typeByte in
      bindE (if dg_DataLenPresent f then varint_Write b (of_nat (length (dg_Data f))) else Inr b) (\<lambda>b.
      Inr (WriteBytes b (dg_Data f))))"

definition DatagramFrame_MaxDataLen :: "DatagramFrame \<Rightarrow> nat \<Rightarrow> nat result" where
  "DatagramFrame_MaxDataLen f maxSize =
     (let headerLen = 1 + (if dg_DataLenPresent f then 1 else 0) in
      if headerLen > maxSize then Inr 0
      else let maxDataLen = maxSize - headerLen in
           if dg_DataLenPresent f
           then bindE (varint_Len (of_nat maxDataLen)) (\<lambda>l. Inr (if l \<noteq> 1 then maxDataLen - 1 else maxDataLen))
           else Inr maxDataLen)"

definition DatagramFrame_Length :: "DatagramFrame \<Rightarrow> nat result" where
  "DatagramFrame_Length f =
     bindE (if dg_DataLenPresent f then varint_Len (of_nat (length (dg_Data f))) else Inr 0) (\<lambda>l.
     Inr (1 + length (dg_Data f) + l))"

section \<open>Frames of the error correction\<close>

record FecFrame =
  ff_StreamID :: StreamID
  ff_StreamOffset :: ByteCount
  ff_SymbolSize :: u32
  ff_NumOfSymbols :: u32
  ff_FecDataOffset :: ByteCount
  ff_FecDataLength :: u32
  ff_FecTotalLength :: u32
  ff_FecData :: bytes
  ff_Fin :: bool

definition parseFecFrame :: "FecFrame reader" where
  "parseFecFrame r =
     bindE (ReadByte r) (\<lambda>(typeByte, r).
     let fin = typeByte AND 0x1 > 0 in
     bindE (varint_Read r) (\<lambda>(streamID, r).
     bindE (varint_Read r) (\<lambda>(offset, r).
     bindE (varint_Read r) (\<lambda>(symbolSize, r).
     bindE (varint_Read r) (\<lambda>(numOfSymbols, r).
     bindE (varint_Read r) (\<lambda>(fecDataOffset, r).
     bindE (varint_Read r) (\<lambda>(temp, r).
     let fecDataLength = (ucast temp :: u32) in
     bindE (varint_Read r) (\<lambda>(fecTotalLength, r).
     bindE (if fecDataLength \<noteq> 0 then ReadFull (unat fecDataLength) r else Inr ([], r)) (\<lambda>(d, r).
     let frame = \<lparr>ff_StreamID = int64 streamID, ff_StreamOffset = int64 offset, ff_SymbolSize = ucast symbolSize,
                  ff_NumOfSymbols = ucast numOfSymbols, ff_FecDataOffset = int64 fecDataOffset,
                  ff_FecDataLength = fecDataLength, ff_FecTotalLength = ucast fecTotalLength, ff_FecData = d, ff_Fin = fin\<rparr> in
     if ff_FecDataOffset frame + int (length (ff_FecData frame)) > MaxByteCount
     then Inl (Err ''fec reundant data overflows maximum offset'')
     else Inr (frame, r))))))))))"

definition FecFrame_Write :: "FecFrame \<Rightarrow> bytes \<Rightarrow> bytes result" where
  "FecFrame_Write f b =
     (if length (ff_FecData f) = 0 \<and> \<not> ff_Fin f then Inl (Err ''FECFrame: attempting to write empty frame without FIN'')
      else bindE (varint_Write (WriteByte b 0x20) (uint64 (ff_StreamID f))) (\<lambda>b.
           bindE (varint_Write b (uint64 (ff_StreamOffset f))) (\<lambda>b.
           bindE (varint_Write b (ucast (ff_SymbolSize f))) (\<lambda>b.
           bindE (varint_Write b (ucast (ff_NumOfSymbols f))) (\<lambda>b.
           bindE (varint_Write b (uint64 (ff_FecDataOffset f))) (\<lambda>b.
           bindE (varint_Write b (ucast (ff_FecDataLength f))) (\<lambda>b.
           bindE (varint_Write b (ucast (ff_FecTotalLength f))) (\<lambda>b.
           Inr (WriteBytes b (ff_FecData f))))))))))"

definition FecFrame_Length :: "FecFrame \<Rightarrow> nat result" where
  "FecFrame_Length f =
     bindE (varint_Len (uint64 (ff_StreamID f))) (\<lambda>l1.
     bindE (varint_Len (uint64 (ff_StreamOffset f))) (\<lambda>l2.
     bindE (varint_Len (uint64 (ff_FecDataOffset f))) (\<lambda>l3.
     bindE (varint_Len (ucast (ff_SymbolSize f))) (\<lambda>l4.
     bindE (varint_Len (ucast (ff_NumOfSymbols f))) (\<lambda>l5.
     bindE (varint_Len (ucast (ff_FecDataLength f))) (\<lambda>l6.
     bindE (varint_Len (ucast (ff_FecTotalLength f))) (\<lambda>l7.
     Inr (1 + l1 + l2 + l3 + l4 + l5 + l6 + l7 + length (ff_FecData f)))))))))"

record FecRespFrame =
  fr_StreamID :: StreamID
  fr_StreamOffset :: ByteCount
  fr_PacketLossRate :: u32

definition parseFecRespFrame :: "FecRespFrame reader" where
  "parseFecRespFrame r =
     bindE (ReadByte r) (\<lambda>(_, r).
     bindE (varint_Read r) (\<lambda>(streamID, r).
     bindE (varint_Read r) (\<lambda>(offset, r).
     Inr (\<lparr>fr_StreamID = int64 streamID, fr_StreamOffset = int64 offset, fr_PacketLossRate = 0\<rparr>, r))))"

definition FecRespFrame_Write :: "FecRespFrame \<Rightarrow> bytes \<Rightarrow> bytes result" where
  "FecRespFrame_Write f b =
     bindE (varint_Write (WriteByte b 0x20) (uint64 (fr_StreamID f))) (\<lambda>b.
     bindE (varint_Write b (uint64 (fr_StreamOffset f))) (\<lambda>b.
     varint_Write b (ucast (fr_PacketLossRate f))))"

section \<open>Encodings\<close>

definition stream_type :: "StreamFrame \<Rightarrow> u8" where
  "stream_type f = 0x8 + (if sf_Fin f then 1 else 0) + (if sf_DataLenPresent f then 2 else 0) + (if sf_Offset f \<noteq> 0 then 4 else 0)"

definition stream_enc :: "StreamFrame \<Rightarrow> bytes" where
  "stream_enc f = stream_type f # vnum (sf_StreamID f) @ (if sf_Offset f \<noteq> 0 then vnum (sf_Offset f) else []) @
     (if sf_DataLenPresent f then varint_enc (of_nat (length (sf_Data f))) else []) @ sf_Data f"

definition stream_ok :: "StreamFrame \<Rightarrow> bool" where
  "stream_ok f \<longleftrightarrow> wire_number (sf_StreamID f) \<and> 0 \<le> sf_Offset f \<and> sf_Offset f + int (length (sf_Data f)) \<le> MaxByteCount \<and>
     (sf_Data f \<noteq> [] \<or> sf_Fin f) \<and> length (sf_Data f) \<le> MaxPacketBufferSize"

definition stream_valid :: "StreamFrame \<Rightarrow> bool" where
  "stream_valid f \<longleftrightarrow> stream_ok f \<and> sf_DataLenPresent f"

definition crypto_valid :: "CryptoFrame \<Rightarrow> bool" where
  "crypto_valid f \<longleftrightarrow> wire_number (cf_Offset f) \<and> length (cf_Data f) < 2 ^ 62"

definition crypto_enc :: "CryptoFrame \<Rightarrow> bytes" where
  "crypto_enc f = 0x6 # vnum (cf_Offset f) @ varint_enc (of_nat (length (cf_Data f))) @ cf_Data f"

definition datagram_valid :: "DatagramFrame \<Rightarrow> bool" where
  "datagram_valid f \<longleftrightarrow> dg_DataLenPresent f \<and> length (dg_Data f) < 2 ^ 62"

definition datagram_enc :: "DatagramFrame \<Rightarrow> bytes" where
  "datagram_enc f = (if dg_DataLenPresent f then 0x31 # varint_enc (of_nat (length (dg_Data f))) else [0x30]) @ dg_Data f"

definition fec_valid :: "FecFrame \<Rightarrow> bool" where
  "fec_valid f \<longleftrightarrow> wire_number (ff_StreamID f) \<and> wire_number (ff_StreamOffset f) \<and> 0 \<le> ff_FecDataOffset f \<and>
     ff_FecDataOffset f + int (length (ff_FecData f)) \<le> MaxByteCount \<and> ff_FecData f \<noteq> [] \<and> \<not> ff_Fin f \<and>
     length (ff_FecData f) = unat (ff_FecDataLength f)"

definition fec_enc :: "FecFrame \<Rightarrow> bytes" where
  "fec_enc f = 0x20 # vnum (ff_StreamID f) @ vnum (ff_StreamOffset f) @ varint_enc (ucast (ff_SymbolSize f)) @
     varint_enc (ucast (ff_NumOfSymbols f)) @ vnum (ff_FecDataOffset f) @ varint_enc (ucast (ff_FecDataLength f)) @
     varint_enc (ucast (ff_FecTotalLength f)) @ ff_FecData f"

lemma ReadFull_all [simp]: "ReadFull (length xs) xs = Inr (xs, [])"
  using ReadFull_append [of xs "length xs" "[]"] by simp

lemma wire_offset: "0 \<le> x \<Longrightarrow> x + int n \<le> MaxByteCount \<Longrightarrow> wire_number x"
  by (simp add: MaxByteCount_def wire_number_def)

interpretation crypto: frame_codec parseCryptoFrame CryptoFrame_Write crypto_enc crypto_valid CryptoFrame_Length "{0x6}"
  by unfold_locales (auto simp: parseCryptoFrame_def CryptoFrame_Write_def CryptoFrame_Length_def crypto_enc_def crypto_valid_def
      codec of_nat_0_iff_64)

interpretation datagram: frame_codec parseDatagramFrame DatagramFrame_Write datagram_enc datagram_valid
  DatagramFrame_Length "{0x31}"
  by unfold_locales (auto simp: parseDatagramFrame_def DatagramFrame_Write_def DatagramFrame_Length_def datagram_enc_def
      datagram_valid_def codec intro!: DatagramFrame.equality)

lemma ucast_32_64 [simp]: "ucast (ucast (w :: u32) :: u64) = w"
  by (rule bit_word_eqI) (auto simp: bit_simps dest: bit_imp_le_length)

lemma unat_ucast_32_64 [simp]: "unat (ucast (w :: u32) :: u64) = unat w"
  using unat_bound [of w] by (simp add: unsigned_ucast_eq take_bit_nat_eq_self_iff)

text \<open>Frames as they may be sent: a FEC frame with its end flag, or empty with it, a datagram without a length.\<close>

definition fec_ok :: "FecFrame \<Rightarrow> bool" where
  "fec_ok f \<longleftrightarrow> wire_number (ff_StreamID f) \<and> wire_number (ff_StreamOffset f) \<and> 0 \<le> ff_FecDataOffset f \<and>
     ff_FecDataOffset f + int (length (ff_FecData f)) \<le> MaxByteCount \<and> (ff_FecData f \<noteq> [] \<or> ff_Fin f) \<and>
     length (ff_FecData f) = unat (ff_FecDataLength f)"

definition datagram_ok :: "DatagramFrame \<Rightarrow> bool" where
  "datagram_ok f \<longleftrightarrow> length (dg_Data f) < 2 ^ 62"

lemma fec_ok_write:
  assumes "fec_ok f"
  shows "FecFrame_Write f b = Inr (b @ fec_enc f)" and "FecFrame_Length f = Inr (length (fec_enc f))"
    and "parseFecFrame (fec_enc f @ r) = Inr (f\<lparr>ff_Fin := False\<rparr>, r)"
proof -
  define d where "d = ff_FecData f"
  have num: "wire_number (ff_StreamID f)" "wire_number (ff_StreamOffset f)" "wire_number (ff_FecDataOffset f)"
    and d: "\<not> MaxByteCount < ff_FecDataOffset f + int (length d)" "d \<noteq> [] \<or> ff_Fin f" "length d = unat (ff_FecDataLength f)"
    using assms wire_offset [of "ff_FecDataOffset f" "length (ff_FecData f)"] by (auto simp: fec_ok_def d_def)
  show "FecFrame_Write f b = Inr (b @ fec_enc f)"
    using num d(2) by (auto simp: FecFrame_Write_def fec_enc_def d_def codec)
  show "FecFrame_Length f = Inr (length (fec_enc f))"
    using num by (simp add: FecFrame_Length_def fec_enc_def codec)
  show "parseFecFrame (fec_enc f @ r) = Inr (f\<lparr>ff_Fin := False\<rparr>, r)"
  proof (cases "d = []")
    case True
    then have "ff_FecDataLength f = 0" "ff_FecData f = []" using d(3) by (simp_all add: d_def unat_eq_0)
    moreover have "varint_valid 0" by (simp add: varint_valid_def)
    ultimately show ?thesis using num d(1) True unfolding parseFecFrame_def fec_enc_def by (simp add: Let_def)
  next
    case False
    then have "ff_FecDataLength f \<noteq> 0" using d(3) by auto
    moreover have "ReadFull (unat (ff_FecDataLength f)) (d @ r) = Inr (d, r)" using d(3) by (intro ReadFull_append)
    ultimately show ?thesis using num d(1) unfolding parseFecFrame_def fec_enc_def d_def [symmetric] by (simp add: Let_def d_def)
  qed
qed

lemma datagram_ok_write:
  assumes "datagram_ok f"
  shows "DatagramFrame_Write f b = Inr (b @ datagram_enc f)" and "datagram_enc f \<noteq> []" and "hd (datagram_enc f) \<in> {0x30, 0x31}"
    and "dg_DataLenPresent f \<or> r = [] \<Longrightarrow> parseDatagramFrame (datagram_enc f @ r) = Inr (f, r)"
  using assms by (auto simp: parseDatagramFrame_def DatagramFrame_Write_def datagram_enc_def datagram_ok_def codec
      intro!: DatagramFrame.equality)

interpretation fec: frame_codec parseFecFrame FecFrame_Write fec_enc fec_valid FecFrame_Length "{0x20}"
proof
  fix f :: FecFrame and b r :: bytes
  assume "fec_valid f"
  then have ok: "fec_ok f" "f\<lparr>ff_Fin := False\<rparr> = f" by (auto simp: fec_valid_def fec_ok_def)
  from fec_ok_write [OF ok(1)] ok(2) show "FecFrame_Write f b = Inr (b @ fec_enc f)" "FecFrame_Length f = Inr (length (fec_enc f))"
    "parseFecFrame (fec_enc f @ r) = Inr (f, r)" by simp_all
  show "fec_enc f \<noteq> [] \<and> hd (fec_enc f) \<in> {0x20}" by (simp add: fec_enc_def)
qed

text \<open>The flags in the first byte of a stream frame.\<close>

lemma stream_type_flags:
  "stream_type f AND 0x4 > 0 \<longleftrightarrow> sf_Offset f \<noteq> 0" "stream_type f AND 0x1 > 0 \<longleftrightarrow> sf_Fin f"
  "stream_type f AND 0x2 > 0 \<longleftrightarrow> sf_DataLenPresent f" "stream_type f AND 0xf8 = 0x8"
  by (simp_all add: stream_type_def)

lemma stream_length_small: "n \<le> MaxPacketBufferSize \<Longrightarrow> n < 2 ^ 62"
  by (simp add: MaxPacketBufferSize_def)

lemma parseStreamFrame_enc:
  assumes ok: "stream_ok f" and r: "\<not> sf_DataLenPresent f \<longrightarrow> r = []"
  shows "parseStreamFrame (stream_enc f @ r) = Inr (f, r)"
proof -
  have len: "length (sf_Data f) < 2 ^ 62" "length (sf_Data f) \<le> MaxPacketBufferSize"
    using ok stream_length_small by (auto simp: stream_ok_def)
  note num = wire_offset [of "sf_Offset f" "length (sf_Data f)"]
  have int0: "int64 0 = 0" using int64_of_nat [of 0] by simp
  show ?thesis
    using ok r len num unfolding parseStreamFrame_def stream_enc_def
    by (auto simp: stream_type_flags stream_ok_def Let_def int0 of_nat_0_iff_64 sf_DataLen_def intro!: StreamFrame.equality)
qed

interpretation stream: frame_codec parseStreamFrame StreamFrame_Write stream_enc stream_valid StreamFrame_Length
  "{t. t AND 0xf8 = 0x8}"
proof
  fix f :: StreamFrame and b r :: bytes
  assume v: "stream_valid f"
  have len: "length (sf_Data f) < 2 ^ 62" using v stream_length_small by (auto simp: stream_valid_def stream_ok_def)
  have num: "wire_number (sf_Offset f)" using v by (auto simp: stream_valid_def stream_ok_def wire_offset)
  show "parseStreamFrame (stream_enc f @ r) = Inr (f, r)" using v by (intro parseStreamFrame_enc) (simp_all add: stream_valid_def)
  show "StreamFrame_Write f b = Inr (b @ stream_enc f)"
    using v len num by (auto simp: StreamFrame_Write_def stream_enc_def stream_valid_def stream_ok_def stream_type_def Let_def sf_DataLen_def codec)
  show "StreamFrame_Length f = Inr (length (stream_enc f))"
    using v len num by (auto simp: StreamFrame_Length_def stream_enc_def stream_valid_def stream_ok_def sf_DataLen_def codec)
  show "stream_enc f \<noteq> [] \<and> hd (stream_enc f) \<in> {t. t AND 0xf8 = 0x8}" by (simp add: stream_enc_def stream_type_flags)
qed

section \<open>Splitting\<close>

text \<open>The space for data next to a header, with a length field whose size depends on the data.\<close>

definition data_space :: "nat \<Rightarrow> nat" where
  "data_space m = (if varint_size (of_nat m) \<noteq> 1 then m - 1 else m)"

lemma varint_size_nat:
  "n < 2 ^ 62 \<Longrightarrow> varint_size (of_nat n) = (if n \<le> 63 then 1 else if n \<le> 16383 then 2 else if n \<le> 1073741823 then 4 else 8)"
  by (simp add: varint_size_def maxVarInt_defs word_le_nat_alt unat_of_nat_less)

lemma data_space_Len:
  "m < 2 ^ 62 \<Longrightarrow> bindE (varint_Len (of_nat m)) (\<lambda>l. Inr (if l \<noteq> 1 then m - 1 else m)) = Inr (data_space m)"
  by (simp add: varint_Len_ok data_space_def)

lemma data_space_fits:
  assumes "m \<le> 16383" and "n \<le> data_space m"
  shows "varint_size (of_nat n) + n \<le> m + 1"
proof -
  have "n < 2 ^ 62" "m < 2 ^ 62" using assms by (auto simp: data_space_def split: if_splits)
  then show ?thesis using assms by (auto simp: data_space_def varint_size_nat split: if_splits)
qed

lemma data_space_maximal:
  assumes "m \<le> 16383" and "m + 1 < varint_size (of_nat n) + n" and "n < 2 ^ 62"
  shows "data_space m < n"
proof -
  have "m < 2 ^ 62" using assms(1) by simp
  then show ?thesis using assms by (auto simp: data_space_def varint_size_nat split: if_splits)
qed

text \<open>A header of \<open>h\<close> bytes, one of them reserved for the length.\<close>

definition split_at :: "nat \<Rightarrow> nat \<Rightarrow> nat" where
  "split_at maxSize h = (if h > maxSize then 0 else data_space (maxSize - h))"

lemma split_at_ok:
  assumes "maxSize \<le> 16383" and "len < 2 ^ 62" and "1 \<le> h" and "split_at maxSize h = n" and "n \<noteq> 0"
  shows "h - 1 + varint_size (of_nat n) + n \<le> maxSize"
    and "maxSize < h - 1 + varint_size (of_nat len) + len \<Longrightarrow> n < len"
proof -
  have h: "h \<le> maxSize" "n = data_space (maxSize - h)" using assms(4,5) by (auto simp: split_at_def split: if_splits)
  then show "h - 1 + varint_size (of_nat n) + n \<le> maxSize"
    using assms(1,3) data_space_fits [of "maxSize - h" n] by linarith
  assume "maxSize < h - 1 + varint_size (of_nat len) + len"
  then have "maxSize - h + 1 < varint_size (of_nat len) + len" using h assms(3) by linarith
  then show "n < len" using h assms(1,2) data_space_maximal [of "maxSize - h" len] by simp
qed

lemma split_at_maximal:
  assumes "maxSize \<le> 16383" and "1 \<le> h" and "split_at maxSize h < k" and "k < 2 ^ 62"
  shows "maxSize < h - 1 + varint_size (of_nat k) + k"
proof (cases "h > maxSize")
  case True
  then show ?thesis using assms(2,3) by (simp add: varint_size_nat [OF assms(4)])
next
  case False
  have "data_space m < k \<Longrightarrow> m + 1 < varint_size (of_nat k) + k" if "m \<le> 16383" for m
    using that varint_size_nat [of m] by (auto simp: data_space_def varint_size_nat [OF assms(4)] split: if_splits)
  from this [of "maxSize - h"] False assms(1-3) show ?thesis by (simp add: split_at_def) linarith
qed

lemma split_at_Len:
  "maxSize \<le> 16383 \<Longrightarrow> h \<le> maxSize \<Longrightarrow>
   bindE (varint_Len (of_nat (maxSize - h))) (\<lambda>l. Inr (if l \<noteq> 1 then maxSize - h - 1 else maxSize - h)) = Inr (split_at maxSize h)"
  using data_space_Len [of "maxSize - h"] by (simp add: split_at_def del: of_nat_diff)

lemma crypto_split:
  assumes v: "crypto_valid f" and m: "maxSize \<le> 16383"
  shows "\<exists>new required f'. CryptoFrame_MaybeSplitOffFrame f maxSize = Inr (new, required, f') \<and>
    (required \<longleftrightarrow> maxSize < length (crypto_enc f)) \<and>
    (case new of None \<Rightarrow> f' = f
     | Some g \<Rightarrow> required \<and> cf_Offset g = cf_Offset f \<and> cf_Data g @ cf_Data f' = cf_Data f \<and> cf_Data g \<noteq> [] \<and> cf_Data f' \<noteq> [] \<and>
         cf_Offset f' = cf_Offset f + int (length (cf_Data g)) \<and> length (crypto_enc g) \<le> maxSize)"
proof -
  define h where "h = 1 + varint_size (uint64 (cf_Offset f)) + 1"
  define len where "len = length (cf_Data f)"
  define n where "n = split_at maxSize h"
  have len: "len < 2 ^ 62" and num: "wire_number (cf_Offset f)" using v by (simp_all add: crypto_valid_def len_def)
  have L: "length (crypto_enc f) = h - 1 + varint_size (of_nat len) + len" by (simp add: crypto_enc_def h_def len_def)
  have M: "CryptoFrame_MaxDataLen f maxSize = Inr n"
    unfolding CryptoFrame_MaxDataLen_def varint_Len_ok [OF varint_valid_uint64 [OF num]] bindE_Inr Let_def h_def [symmetric]
    using split_at_Len [OF m, of h] by (auto simp: n_def split_at_def simp del: of_nat_diff)
  have n: "h - 1 + varint_size (of_nat n) + n \<le> maxSize" "maxSize < length (crypto_enc f) \<Longrightarrow> n < len" if "n \<noteq> 0"
    using split_at_ok [OF m len _ n_def [symmetric] that] by (simp_all add: h_def L)
  show ?thesis
  proof (cases "maxSize < length (crypto_enc f) \<and> n \<noteq> 0")
    case True
    then have "n < len" using n by simp
    with True n(1) show ?thesis
      unfolding CryptoFrame_MaybeSplitOffFrame_def crypto.flen_enc [OF v] M
      by (auto simp: crypto_enc_def len_def h_def)
  next
    case False
    then show ?thesis unfolding CryptoFrame_MaybeSplitOffFrame_def crypto.flen_enc [OF v] M by auto
  qed
qed

text \<open>The first \<open>k\<close> bytes of a frame, as a frame of their own.\<close>

definition stream_piece :: "StreamFrame \<Rightarrow> nat \<Rightarrow> StreamFrame" where
  "stream_piece f k = f\<lparr>sf_Data := take k (sf_Data f), sf_Fin := False\<rparr>"

lemma stream_split:
  assumes ok: "stream_ok f" and m: "maxSize \<le> 16383"
  shows "\<exists>new required f'. StreamFrame_MaybeSplitOffFrame f maxSize = Inr (new, required, f') \<and>
    (required \<longleftrightarrow> maxSize < length (stream_enc f)) \<and>
    (case new of None \<Rightarrow> f' = f \<and>
         (required \<longrightarrow> (\<forall>k. 0 < k \<and> k \<le> length (sf_Data f) \<longrightarrow> maxSize < length (stream_enc (stream_piece f k))))
     | Some g \<Rightarrow> required \<and> g = stream_piece f (length (sf_Data g)) \<and>
         (\<forall>k. length (sf_Data g) < k \<and> k \<le> length (sf_Data f) \<longrightarrow> maxSize < length (stream_enc (stream_piece f k))) \<and> stream_ok g \<and> stream_ok f' \<and> \<not> sf_Fin g \<and> (sf_Fin f' \<longleftrightarrow> sf_Fin f) \<and>
         sf_Offset g = sf_Offset f \<and> sf_Data g @ sf_Data f' = sf_Data f \<and> sf_Data g \<noteq> [] \<and> sf_Data f' \<noteq> [] \<and>
         sf_Offset f' = sf_Offset f + int (length (sf_Data g)) \<and> length (stream_enc g) \<le> maxSize)"
proof -
  define h where "h = 1 + varint_size (uint64 (sf_StreamID f)) + (if sf_Offset f \<noteq> 0 then varint_size (uint64 (sf_Offset f)) else 0)"
  define len where "len = length (sf_Data f)"
  define n where "n = (if sf_DataLenPresent f then split_at maxSize (h + 1) else maxSize - h)"
  have len: "len < 2 ^ 62" "len \<le> MaxPacketBufferSize" using ok stream_length_small by (auto simp: stream_ok_def len_def)
  have num: "wire_number (sf_StreamID f)" "wire_number (sf_Offset f)" using ok by (auto simp: stream_ok_def wire_offset)
  have L: "length (stream_enc f) = h + (if sf_DataLenPresent f then varint_size (of_nat len) else 0) + len"
    by (simp add: stream_enc_def h_def len_def)
  have len_f: "StreamFrame_Length f = Inr (length (stream_enc f))"
    unfolding L using num len(1) by (simp add: StreamFrame_Length_def varint_Len_ok sf_DataLen_def h_def len_def)
  have offset: "(if sf_Offset f \<noteq> 0 then varint_Len (uint64 (sf_Offset f)) else Inr 0) =
      Inr (if sf_Offset f \<noteq> 0 then varint_size (uint64 (sf_Offset f)) else 0)" using num by (simp add: varint_Len_ok)
  have M: "StreamFrame_MaxDataLen f maxSize = Inr n"
    unfolding StreamFrame_MaxDataLen_def varint_Len_ok [OF varint_valid_uint64 [OF num(1)]] offset bindE_Inr Let_def h_def [symmetric]
    using split_at_Len [OF m, of "h + 1"] by (auto simp: n_def split_at_def simp del: of_nat_diff)
  have n: "h + (if sf_DataLenPresent f then varint_size (of_nat n) else 0) + n \<le> maxSize"
      "maxSize < length (stream_enc f) \<Longrightarrow> n < len" if "n \<noteq> 0"
    using split_at_ok [OF m len(1), of "h + 1" n] that by (auto simp: n_def L split: if_splits)
  have longer: "maxSize < length (stream_enc (stream_piece f k))" if "n < k" "k \<le> length (sf_Data f)" for k
  proof -
    have "length (stream_enc (stream_piece f k)) = h + (if sf_DataLenPresent f then varint_size (of_nat k) else 0) + k"
      using that by (simp add: stream_enc_def stream_piece_def h_def min_def)
    moreover have "k < 2 ^ 62" using that len(1) by (simp add: len_def)
    ultimately show ?thesis using that(1) split_at_maximal [OF m, of "h + 1" k] by (simp add: n_def split: if_splits)
  qed
  show ?thesis
  proof (cases "maxSize < length (stream_enc f) \<and> n \<noteq> 0")
    case True
    then have "n < len" using n by simp
    let ?g = "stream_piece f n" and ?f = "f\<lparr>sf_Data := drop n (sf_Data f), sf_Offset := sf_Offset f + int n\<rparr>"
    have "StreamFrame_MaybeSplitOffFrame f maxSize = Inr (Some ?g, True, ?f)"
      unfolding StreamFrame_MaybeSplitOffFrame_def len_f M using True \<open>n < len\<close> len
      by (auto simp: stream_piece_def len_def Let_def)
    moreover have "length (sf_Data ?g) = n" using \<open>n < len\<close> by (simp add: stream_piece_def len_def)
    moreover have "stream_ok ?g" "stream_ok ?f" using True \<open>n < len\<close> ok by (auto simp: stream_ok_def stream_piece_def len_def)
    moreover have "length (stream_enc ?g) \<le> maxSize"
      using True n(1) \<open>n < len\<close> by (auto simp: stream_enc_def stream_piece_def len_def h_def min_def)
    ultimately show ?thesis using True \<open>n < len\<close> longer
      by (intro exI [of _ "Some ?g"] exI [of _ True] exI [of _ ?f]) (auto simp: stream_piece_def len_def)
  next
    case False
    then show ?thesis unfolding StreamFrame_MaybeSplitOffFrame_def len_f M using longer by auto
  qed
qed

section \<open>What is not sent or not read\<close>

text \<open>The receiver of a FEC frame never sees the end flag, and does not read the loss rate of a response.\<close>

lemma fec_fin_lost:
  assumes "fec_valid (f\<lparr>ff_Fin := False\<rparr>)"
  shows "bindE (FecFrame_Write f []) (\<lambda>b. parseFecFrame b) = Inr (f\<lparr>ff_Fin := False\<rparr>, [])"
proof -
  have "FecFrame_Write f [] = FecFrame_Write (f\<lparr>ff_Fin := False\<rparr>) []"
    using assms by (auto simp: FecFrame_Write_def fec_valid_def)
  then show ?thesis using fec.write_then_parse [OF assms, of "[]"] by simp
qed

lemma fec_resp_rate_unread:
  assumes "wire_number (fr_StreamID f)" and "wire_number (fr_StreamOffset f)"
  shows "bindE (FecRespFrame_Write f []) parseFecRespFrame =
    Inr (f\<lparr>fr_PacketLossRate := 0\<rparr>, varint_enc (ucast (fr_PacketLossRate f)))"
  using assms by (simp add: FecRespFrame_Write_def parseFecRespFrame_def codec)

end
