(* ===== verification/Quic_Received_History.thy ===== *)
theory Quic_Received_History
  imports Quic_Packet_Number
begin

text \<open>
  The history of received packet numbers (\<^verbatim>\<open>enhanced-quic/internal/ackhandler/received_packet_history.go\<close>): a
  list of intervals from which the ranges of an ACK frame are made.  The linked list of intervals is a list here,
  front first; its loops run from the back.  The contract is the locale \<open>packet_set\<close>: the history
  is a set of packet numbers, and the intervals are those of the set, ordered and with gaps between them.
\<close>

record PacketInterval =
  pi_Start :: PacketNumber
  pi_End :: PacketNumber

record AckRange =
  Smallest :: PacketNumber
  Largest :: PacketNumber

definition AckRange_Len :: "AckRange \<Rightarrow> PacketNumber" where
  "AckRange_Len r = Largest r - Smallest r + 1"

record receivedPacketHistory =
  ranges :: "PacketInterval list"
  deletedBelow :: PacketNumber

definition newReceivedPacketHistory :: receivedPacketHistory where
  "newReceivedPacketHistory = \<lparr>ranges = [], deletedBelow = 0\<rparr>"

definition MaxNumAckRanges :: nat where
  "MaxNumAckRanges = 32"

text \<open>The loop of \<^verbatim>\<open>addToRanges\<close>, on the intervals from the back.\<close>

fun add_from_back :: "PacketNumber \<Rightarrow> PacketInterval list \<Rightarrow> bool \<times> PacketInterval list" where
  "add_from_back p [] = (True, [\<lparr>pi_Start = p, pi_End = p\<rparr>])"
| "add_from_back p (el # els) =
     (if p \<ge> pi_Start el \<and> p \<le> pi_End el then (False, el # els)
      else if pi_End el = p - 1 then (True, el\<lparr>pi_End := p\<rparr> # els)
      else if pi_Start el = p + 1
      then let el = el\<lparr>pi_Start := p\<rparr> in
           (case els of
              prev # els' \<Rightarrow>
                if pi_End prev + 1 = pi_Start el then (True, prev\<lparr>pi_End := pi_End el\<rparr> # els') else (True, el # els)
            | [] \<Rightarrow> (True, [el]))
      else if p > pi_End el then (True, \<lparr>pi_Start = p, pi_End = p\<rparr> # el # els)
      else let (isNew, els) = add_from_back p els in (isNew, el # els))"

definition addToRanges :: "receivedPacketHistory \<Rightarrow> PacketNumber \<Rightarrow> bool \<times> receivedPacketHistory" where
  "addToRanges h p =
     (if length (ranges h) = 0 then (True, h\<lparr>ranges := ranges h @ [\<lparr>pi_Start = p, pi_End = p\<rparr>]\<rparr>)
      else let (isNew, els) = add_from_back p (rev (ranges h)) in (isNew, h\<lparr>ranges := rev els\<rparr>))"

text \<open>Removing the front while there are too many.\<close>

fun delete_front :: "PacketInterval list \<Rightarrow> PacketInterval list" where
  "delete_front els =
     (case els of [] \<Rightarrow> [] | _ # els' \<Rightarrow> if length els > MaxNumAckRanges then delete_front els' else els)"

declare delete_front.simps [simp del]

definition maybeDeleteOldRanges :: "receivedPacketHistory \<Rightarrow> receivedPacketHistory" where
  "maybeDeleteOldRanges h = h\<lparr>ranges := delete_front (ranges h)\<rparr>"

definition history_ReceivedPacket :: "receivedPacketHistory \<Rightarrow> PacketNumber \<Rightarrow> bool \<times> receivedPacketHistory" where
  "history_ReceivedPacket h p =
     (if p < deletedBelow h then (False, h)
      else let (isNew, h) = addToRanges h p in (isNew, maybeDeleteOldRanges h))"

fun delete_below :: "PacketNumber \<Rightarrow> PacketInterval list \<Rightarrow> PacketInterval list" where
  "delete_below p [] = []"
| "delete_below p (el # els) =
     (if pi_End el < p then delete_below p els
      else if p > pi_Start el \<and> p \<le> pi_End el then el\<lparr>pi_Start := p\<rparr> # els
      else el # els)"

definition DeleteBelow :: "receivedPacketHistory \<Rightarrow> PacketNumber \<Rightarrow> receivedPacketHistory" where
  "DeleteBelow h p =
     (if p < deletedBelow h then h else h\<lparr>deletedBelow := p, ranges := delete_below p (ranges h)\<rparr>)"

text \<open>
  \<open>GetAckRanges\<close>; the argument is the global list \<^verbatim>\<open>fec.FecRecoveredPacketList\<close>, which the code sets to nil
  afterwards.  Packets recovered by error correction are added without the two limits of \<open>ReceivedPacket\<close>.
\<close>

definition GetAckRanges :: "receivedPacketHistory \<Rightarrow> PacketNumber list \<Rightarrow> AckRange list \<times> receivedPacketHistory" where
  "GetAckRanges h recovered =
     (let h = fold (\<lambda>pn h. snd (addToRanges h pn)) recovered h
      in (map (\<lambda>el. \<lparr>Smallest = pi_Start el, Largest = pi_End el\<rparr>) (rev (ranges h)), h))"

definition GetHighestAckRange :: "receivedPacketHistory \<Rightarrow> AckRange" where
  "GetHighestAckRange h =
     (case rev (ranges h) of [] \<Rightarrow> \<lparr>Smallest = 0, Largest = 0\<rparr>
      | r # _ \<Rightarrow> \<lparr>Smallest = pi_Start r, Largest = pi_End r\<rparr>)"

fun duplicate_from_back :: "PacketNumber \<Rightarrow> PacketInterval list \<Rightarrow> bool" where
  "duplicate_from_back p [] = False"
| "duplicate_from_back p (el # els) =
     (if p > pi_End el then False else if p \<le> pi_End el \<and> p \<ge> pi_Start el then True
      else duplicate_from_back p els)"

definition history_IsPotentiallyDuplicate :: "receivedPacketHistory \<Rightarrow> PacketNumber \<Rightarrow> bool" where
  "history_IsPotentiallyDuplicate h p \<longleftrightarrow> p < deletedBelow h \<or> duplicate_from_back p (rev (ranges h))"

section \<open>Sets of packet numbers\<close>

definition interval_set :: "PacketInterval \<Rightarrow> PacketNumber set" where
  "interval_set el = {pi_Start el..pi_End el}"

definition packets :: "PacketInterval list \<Rightarrow> PacketNumber set" where
  "packets els = (\<Union>el \<in> set els. interval_set el)"

lemma packets_simps [simp]:
  "packets [] = {}" "packets (el # els) = interval_set el \<union> packets els"
  "packets (els @ els') = packets els \<union> packets els'" "packets (rev els) = packets els"
  by (auto simp: packets_def)

text \<open>Intervals from the back: none is empty, and between two of them at least one number is missing.\<close>

fun descending :: "PacketInterval list \<Rightarrow> bool" where
  "descending [] = True"
| "descending (el # els) =
     (pi_Start el \<le> pi_End el \<and> (\<forall>x \<in> packets els. x + 1 < pi_Start el) \<and> descending els)"

lemma add_from_back_ok:
  assumes "descending els" and "add_from_back p els = (isNew, els')"
  shows "descending els' \<and> packets els' = insert p (packets els) \<and> (isNew \<longleftrightarrow> p \<notin> packets els)"
  using assms
proof (induction p els arbitrary: isNew els' rule: add_from_back.induct)
  case (1 p)
  then show ?case by (auto simp: interval_set_def)
next
  case (2 p el els)
  have d: "pi_Start el \<le> pi_End el" "\<forall>x \<in> packets els. x + 1 < pi_Start el" "descending els"
    using 2(2) by simp_all
  consider (inside) "p \<in> interval_set el" | (after) "pi_End el = p - 1" | (before) "pi_Start el = p + 1"
    | (beyond) "pi_End el < p - 1" | (below) "p < pi_Start el - 1"
    by (fastforce simp: interval_set_def)
  then show ?case
  proof cases
    case inside
    then show ?thesis using 2(2,3) by (auto simp: interval_set_def)
  next
    case after
    then have "els' = el\<lparr>pi_End := p\<rparr> # els" "isNew" using 2(3) d(1) by (auto split: if_splits)
    moreover have "interval_set (el\<lparr>pi_End := p\<rparr>) = insert p (interval_set el)"
      using after d(1) by (auto simp: interval_set_def)
    moreover have "p \<notin> interval_set el \<union> packets els" using after d by (auto simp: interval_set_def)
    ultimately show ?thesis using d after by auto
  next
    case before
    then have p: "p \<notin> interval_set el" "\<forall>x \<in> packets els. x < p" using d by (auto simp: interval_set_def)
    have el: "interval_set (el\<lparr>pi_Start := p\<rparr>) = insert p (interval_set el)"
      using before d(1) by (auto simp: interval_set_def)
    show ?thesis
    proof (cases "\<exists>prev els1. els = prev # els1 \<and> pi_End prev + 1 = p")
      case True
      then obtain prev els1 where prev: "els = prev # els1" "pi_End prev + 1 = p" by blast
      then have "els' = prev\<lparr>pi_End := pi_End el\<rparr> # els1" "isNew" using before 2(3) d(1) by (auto split: if_splits)
      moreover have "interval_set (prev\<lparr>pi_End := pi_End el\<rparr>) = insert p (interval_set el \<union> interval_set prev)"
      proof -
        have "pi_Start prev \<le> p - 1" "p + 1 \<le> pi_End el" "pi_End prev = p - 1" using before prev d(1,3) by simp_all
        then show ?thesis unfolding interval_set_def before by auto
      qed
      ultimately show ?thesis using d p prev before by auto
    next
      case False
      then have "els' = el\<lparr>pi_Start := p\<rparr> # els" "isNew"
        using before 2(3) d(1) by (auto simp: Let_def split: if_splits list.splits)
      moreover have "x + 1 < p" if x: "x \<in> packets els" for x
      proof (cases els)
        case (Cons prev els1)
        then have "x \<le> pi_End prev" using x d(3) by (fastforce simp: interval_set_def)
        moreover have "pi_End prev < p" using p(2) Cons d(3) by (auto simp: interval_set_def)
        ultimately show ?thesis using False Cons by auto
      qed (use x in simp)
      ultimately show ?thesis using d el p before by auto
    qed
  next
    case beyond
    then have "els' = \<lparr>pi_Start = p, pi_End = p\<rparr> # el # els" "isNew" using 2(3) d(1) by (auto split: if_splits)
    moreover have "p \<notin> packets (el # els)" using beyond d by (auto simp: interval_set_def)
    moreover have "\<forall>x \<in> packets (el # els). x + 1 < p" using beyond d by (auto simp: interval_set_def)
    ultimately show ?thesis using 2(2) by (auto simp: interval_set_def)
  next
    case below
    obtain els1 where e: "add_from_back p els = (isNew, els1)" "els' = el # els1"
      using below 2(3) d(1) by (auto split: if_splits prod.splits)
    from 2(1) [OF _ _ _ _ d(3) e(1)] below d(1) have
      "descending els1" "packets els1 = insert p (packets els)" "isNew \<longleftrightarrow> p \<notin> packets els" by auto
    then show ?thesis using below d e(2) by (auto simp: interval_set_def)
  qed
qed

lemma descending_append:
  "descending (xs @ ys) \<longleftrightarrow> descending xs \<and> descending ys \<and> (\<forall>x \<in> packets xs. \<forall>y \<in> packets ys. y + 1 < x)"
proof (induction xs)
  case (Cons el xs)
  have "(\<forall>x \<in> interval_set el. \<forall>y \<in> packets ys. y + 1 < x) \<longleftrightarrow> (\<forall>y \<in> packets ys. y + 1 < pi_Start el)"
    if "pi_Start el \<le> pi_End el" using that by (fastforce simp: interval_set_def)
  with Cons show ?case by (auto simp: ball_Un)
qed simp

text \<open>The intervals at the back are those of the packets above some number.\<close>

lemma descending_take:
  "descending els \<Longrightarrow> descending (take n els) \<and> (\<exists>c. packets (take n els) = {x \<in> packets els. c \<le> x})"
proof (induction els arbitrary: n)
  case (Cons el els)
  show ?case
  proof (cases n)
    case 0
    have "packets (take n (el # els)) = {x \<in> packets (el # els). pi_End el + 1 \<le> x}"
      using 0 Cons.prems by (fastforce simp: interval_set_def)
    then show ?thesis using 0 by auto
  next
    case (Suc m)
    from Cons.IH [of m] Cons.prems obtain c where c: "descending (take m els)" "packets (take m els) = {x \<in> packets els. c \<le> x}"
      by auto
    then have "packets (take n (el # els)) = {x \<in> packets (el # els). min c (pi_Start el) \<le> x}"
      using Suc Cons.prems by (fastforce simp: interval_set_def)
    moreover have "descending (take n (el # els))" using c Suc Cons.prems by auto
    ultimately show ?thesis by blast
  qed
qed auto

section \<open>Contract\<close>

text \<open>
  A set of received packet numbers with a lower limit.  Receiving may forget the smallest packets, and does not
  while there is room.
\<close>

locale packet_set =
  fixes receive :: "'h \<Rightarrow> PacketNumber \<Rightarrow> bool \<times> 'h"
    and delete :: "'h \<Rightarrow> PacketNumber \<Rightarrow> 'h"
    and seen :: "'h \<Rightarrow> PacketNumber \<Rightarrow> bool"
    and abs_set :: "'h \<Rightarrow> PacketNumber set"
    and limit :: "'h \<Rightarrow> PacketNumber"
    and room :: "'h \<Rightarrow> bool"
    and inv :: "'h \<Rightarrow> bool"
  assumes receive_inv: "inv h \<Longrightarrow> inv (snd (receive h p)) \<and> limit (snd (receive h p)) = limit h"
    and receive_new: "inv h \<Longrightarrow> fst (receive h p) \<longleftrightarrow> \<not> seen h p"
    and receive_abs: "inv h \<Longrightarrow> limit h \<le> p \<Longrightarrow> \<exists>c. abs_set (snd (receive h p)) = {x \<in> insert p (abs_set h). c \<le> x}"
    and receive_room: "inv h \<Longrightarrow> limit h \<le> p \<Longrightarrow> room h \<Longrightarrow> abs_set (snd (receive h p)) = insert p (abs_set h)"
    and receive_some: "inv h \<Longrightarrow> limit h \<le> p \<Longrightarrow> abs_set (snd (receive h p)) \<noteq> {}"
    and receive_old: "p < limit h \<Longrightarrow> snd (receive h p) = h"
    and delete_inv: "inv h \<Longrightarrow> inv (delete h p) \<and> limit (delete h p) = max p (limit h) \<and>
      abs_set (delete h p) = {x \<in> abs_set h. max p (limit h) \<le> x}"
    and seen_iff: "inv h \<Longrightarrow> seen h p \<longleftrightarrow> p < limit h \<or> p \<in> abs_set h"
    and abs_limit: "inv h \<Longrightarrow> x \<in> abs_set h \<Longrightarrow> limit h \<le> x"
begin

text \<open>Nothing is in the set that was not received.\<close>

lemma received_sound:
  "inv h \<Longrightarrow> inv (fold (\<lambda>p h. snd (receive h p)) ps h) \<and> limit (fold (\<lambda>p h. snd (receive h p)) ps h) = limit h \<and>
   abs_set (fold (\<lambda>p h. snd (receive h p)) ps h) \<subseteq> abs_set h \<union> {p \<in> set ps. limit h \<le> p}"
proof (induction ps arbitrary: h)
  case (Cons p ps)
  let ?h = "snd (receive h p)"
  have inv: "inv ?h" "limit ?h = limit h" using receive_inv [OF Cons.prems] by simp_all
  have "abs_set ?h \<subseteq> abs_set h \<union> {q \<in> {p}. limit h \<le> q}"
  proof (cases "limit h \<le> p")
    case True
    then show ?thesis using receive_abs [OF Cons.prems True] by auto
  next
    case False
    then show ?thesis using receive_old [of p h] by auto
  qed
  then show ?case using Cons.IH [OF inv(1)] inv(2) by auto
qed simp

text \<open>While there is room, the set is exact, and a packet is new exactly when it was not received before.\<close>

lemma received_exact:
  assumes "inv h" and "\<forall>n<length ps. room (fold (\<lambda>p h. snd (receive h p)) (take n ps) h)"
  shows "abs_set (fold (\<lambda>p h. snd (receive h p)) ps h) = abs_set h \<union> {p \<in> set ps. limit h \<le> p}"
  using assms
proof (induction ps arbitrary: h)
  case (Cons p ps)
  let ?h = "snd (receive h p)"
  have inv: "inv ?h" "limit ?h = limit h" using receive_inv [OF Cons.prems(1)] by simp_all
  have "room h" using Cons.prems(2) by (auto dest: spec [of _ 0])
  have "abs_set ?h = abs_set h \<union> {q \<in> {p}. limit h \<le> q}"
  proof (cases "limit h \<le> p")
    case True
    then show ?thesis using receive_room [OF Cons.prems(1) True \<open>room h\<close>] by auto
  next
    case False
    then show ?thesis using receive_old [of p h] by auto
  qed
  moreover have "\<forall>n<length ps. room (fold (\<lambda>p h. snd (receive h p)) (take n ps) ?h)"
  proof (intro allI impI)
    fix n assume "n < length ps"
    with Cons.prems(2) [rule_format, of "Suc n"] show "room (fold (\<lambda>p h. snd (receive h p)) (take n ps) ?h)" by simp
  qed
  ultimately show ?case using Cons.IH [OF inv(1)] inv(2) by auto
qed simp

end

section \<open>The history keeps the contract\<close>

definition history_inv :: "receivedPacketHistory \<Rightarrow> bool" where
  "history_inv h \<longleftrightarrow> descending (rev (ranges h)) \<and> (\<forall>x \<in> packets (ranges h). deletedBelow h \<le> x)"

lemma addToRanges_ok:
  assumes "descending (rev (ranges h))" and "addToRanges h p = (isNew, h')"
  shows "descending (rev (ranges h')) \<and> packets (ranges h') = insert p (packets (ranges h)) \<and>
    (isNew \<longleftrightarrow> p \<notin> packets (ranges h)) \<and> deletedBelow h' = deletedBelow h \<and>
    length (ranges h') \<le> Suc (length (ranges h))"
proof (cases "ranges h = []")
  case True
  then show ?thesis using assms by (auto simp: addToRanges_def interval_set_def)
next
  case False
  then obtain els where els: "add_from_back p (rev (ranges h)) = (isNew, els)" "h' = h\<lparr>ranges := rev els\<rparr>"
    using assms(2) by (auto simp: addToRanges_def split: prod.splits)
  have "length els \<le> Suc (length xs)" if "add_from_back p xs = (b, els)" for p xs b els
    using that by (induction p xs arbitrary: b els rule: add_from_back.induct) (auto simp: Let_def split: if_splits list.splits prod.splits)
  from this [OF els(1)] add_from_back_ok [OF assms(1) els(1)] els(2) show ?thesis by simp
qed

lemma delete_front_drop: "\<exists>k. delete_front els = drop k els \<and> (length els \<le> MaxNumAckRanges \<longrightarrow> k = 0)"
proof (induction els)
  case (Cons el els)
  then obtain k where "delete_front els = drop k els" by blast
  then have "delete_front (el # els) = drop (if length (el # els) > MaxNumAckRanges then Suc k else 0) (el # els)"
    by (subst delete_front.simps) simp
  then show ?case by fastforce
qed (simp add: delete_front.simps)

lemma length_delete_front: "length (delete_front els) \<le> MaxNumAckRanges"
proof (induction els)
  case (Cons el els)
  then show ?case by (subst delete_front.simps) simp
qed (simp add: delete_front.simps)

lemma delete_front_some: "els \<noteq> [] \<Longrightarrow> delete_front els \<noteq> []"
proof (induction els)
  case (Cons el els)
  then show ?case by (cases els; subst delete_front.simps) (simp_all add: MaxNumAckRanges_def)
qed simp

lemma descending_some: "descending els \<Longrightarrow> els \<noteq> [] \<Longrightarrow> packets els \<noteq> {}"
  by (cases els) (auto simp: interval_set_def)

lemma maybeDeleteOldRanges_ok:
  assumes "descending (rev (ranges h))"
  shows "descending (rev (ranges (maybeDeleteOldRanges h))) \<and>
    (\<exists>c. packets (ranges (maybeDeleteOldRanges h)) = {x \<in> packets (ranges h). c \<le> x}) \<and>
    (length (ranges h) \<le> MaxNumAckRanges \<longrightarrow> maybeDeleteOldRanges h = h) \<and>
    (packets (ranges h) \<noteq> {} \<longrightarrow> packets (ranges (maybeDeleteOldRanges h)) \<noteq> {}) \<and>
    deletedBelow (maybeDeleteOldRanges h) = deletedBelow h"
proof -
  obtain k where k: "delete_front (ranges h) = drop k (ranges h)" "length (ranges h) \<le> MaxNumAckRanges \<longrightarrow> k = 0"
    using delete_front_drop by blast
  let ?els = "take (length (ranges h) - k) (rev (ranges h))"
  have rev: "rev (drop k (ranges h)) = ?els" by (simp add: rev_drop)
  then have "packets (drop k (ranges h)) = packets ?els" by (metis packets_simps(4))
  moreover have "packets ?els \<noteq> {}" if "packets (ranges h) \<noteq> {}"
  proof -
    have "?els \<noteq> []" using that delete_front_some [of "ranges h"] k(1) rev by (metis packets_simps(1) rev_is_Nil_conv)
    then show ?thesis using descending_some descending_take [OF assms] by blast
  qed
  ultimately show ?thesis using descending_take [OF assms, of "length (ranges h) - k"] k rev
    by (simp add: maybeDeleteOldRanges_def)
qed

lemma delete_below_ok:
  "descending (rev els) \<Longrightarrow>
   descending (rev (delete_below p els)) \<and> packets (delete_below p els) = {x \<in> packets els. p \<le> x}"
proof (induction p els rule: delete_below.induct)
  case (2 p el els)
  have d: "pi_Start el \<le> pi_End el" "descending (rev els)" "\<forall>x \<in> packets els. \<forall>y \<in> interval_set el. y + 1 < x"
    using 2(2) by (auto simp: descending_append)
  then have above: "\<forall>x \<in> packets els. pi_End el + 1 < x" by (auto simp: interval_set_def)
  show ?case
  proof (cases "pi_End el < p")
    case True
    then have "{x \<in> interval_set el. p \<le> x} = {}" by (auto simp: interval_set_def)
    with True 2(1) [OF True d(2)] show ?thesis by auto
  next
    case False
    let ?el = "if p > pi_Start el then el\<lparr>pi_Start := p\<rparr> else el"
    have el: "interval_set ?el = {x \<in> interval_set el. p \<le> x}" by (auto simp: interval_set_def)
    have els: "{x \<in> packets els. p \<le> x} = packets els" using above False by fastforce
    have eq: "delete_below p (el # els) = ?el # els" using False by simp
    have "packets (?el # els) = {x \<in> packets (el # els). p \<le> x}" using el els by (simp add: Collect_disj_eq conj_disj_distribR)
    moreover have "descending [?el]" using False d(1) by simp
    then have "descending (rev els @ [?el])" unfolding descending_append using d(2,3) el by simp
    ultimately show ?thesis unfolding eq by simp
  qed
qed simp

lemma duplicate_from_back_iff: "descending els \<Longrightarrow> duplicate_from_back p els \<longleftrightarrow> p \<in> packets els"
proof (induction els)
  case (Cons el els)
  then have "\<forall>x \<in> packets els. x + 1 < pi_Start el" "pi_Start el \<le> pi_End el" by simp_all
  then have "p \<notin> packets els" if "pi_Start el \<le> p" using that by fastforce
  with Cons show ?case by (auto simp: interval_set_def)
qed simp

lemma history_ReceivedPacket_ok:
  assumes "history_inv h" and "deletedBelow h \<le> p"
  shows "history_inv (snd (history_ReceivedPacket h p)) \<and> deletedBelow (snd (history_ReceivedPacket h p)) = deletedBelow h \<and>
    (fst (history_ReceivedPacket h p) \<longleftrightarrow> p \<notin> packets (ranges h)) \<and>
    (\<exists>c. packets (ranges (snd (history_ReceivedPacket h p))) = {x \<in> insert p (packets (ranges h)). c \<le> x}) \<and>
    packets (ranges (snd (history_ReceivedPacket h p))) \<noteq> {} \<and>
    (length (ranges h) < MaxNumAckRanges \<longrightarrow>
      packets (ranges (snd (history_ReceivedPacket h p))) = insert p (packets (ranges h)))"
proof -
  obtain b h1 where add: "addToRanges h p = (b, h1)" by fastforce
  from assms(1) have d: "descending (rev (ranges h))" by (simp add: history_inv_def)
  note h1 = addToRanges_ok [OF d add]
  then have d1: "descending (rev (ranges h1))" by blast
  note h2 = maybeDeleteOldRanges_ok [OF d1]
  then obtain c where "packets (ranges (maybeDeleteOldRanges h1)) = {x \<in> packets (ranges h1). c \<le> x}" by blast
  moreover have "history_ReceivedPacket h p = (b, maybeDeleteOldRanges h1)"
    using assms(2) add by (simp add: history_ReceivedPacket_def)
  moreover have "\<forall>x \<in> insert p (packets (ranges h)). deletedBelow h \<le> x" using assms by (simp add: history_inv_def)
  moreover have "length (ranges h) < MaxNumAckRanges \<longrightarrow> maybeDeleteOldRanges h1 = h1" using h1 h2 by linarith
  ultimately show ?thesis using h1 h2 by (auto simp: history_inv_def)
qed

text \<open>The same for a history with packets below the limit, which error correction may add.\<close>

lemma history_ReceivedPacket_ordered:
  assumes "descending (rev (ranges h))"
  shows "descending (rev (ranges (snd (history_ReceivedPacket h p))))"
    and "deletedBelow (snd (history_ReceivedPacket h p)) = deletedBelow h"
    and "packets (ranges (snd (history_ReceivedPacket h p))) \<subseteq> insert p (packets (ranges h))"
    and "fst (history_ReceivedPacket h p) \<longleftrightarrow> \<not> history_IsPotentiallyDuplicate h p"
    and "history_IsPotentiallyDuplicate h p \<longleftrightarrow> p < deletedBelow h \<or> p \<in> packets (ranges h)"
proof -
  obtain b h1 where add: "addToRanges h p = (b, h1)" by fastforce
  note h1 = addToRanges_ok [OF assms add]
  then have "descending (rev (ranges h1))" by blast
  note h2 = maybeDeleteOldRanges_ok [OF this]
  show dup: "history_IsPotentiallyDuplicate h p \<longleftrightarrow> p < deletedBelow h \<or> p \<in> packets (ranges h)"
    using assms by (simp add: history_IsPotentiallyDuplicate_def duplicate_from_back_iff)
  show "descending (rev (ranges (snd (history_ReceivedPacket h p))))" "deletedBelow (snd (history_ReceivedPacket h p)) = deletedBelow h"
    "packets (ranges (snd (history_ReceivedPacket h p))) \<subseteq> insert p (packets (ranges h))"
    "fst (history_ReceivedPacket h p) \<longleftrightarrow> \<not> history_IsPotentiallyDuplicate h p"
    using assms h1 h2 dup add by (auto simp: history_ReceivedPacket_def)
qed

interpretation hist: packet_set history_ReceivedPacket DeleteBelow history_IsPotentiallyDuplicate
  "\<lambda>h. packets (ranges h)" deletedBelow "\<lambda>h. length (ranges h) < MaxNumAckRanges" history_inv
proof
  fix h :: receivedPacketHistory and p x :: PacketNumber
  have old: "history_ReceivedPacket h p = (False, h)" if "p < deletedBelow h"
    using that by (simp add: history_ReceivedPacket_def)
  show "snd (history_ReceivedPacket h p) = h" if "p < deletedBelow h" using old [OF that] by simp
  show dup: "history_IsPotentiallyDuplicate h p \<longleftrightarrow> p < deletedBelow h \<or> p \<in> packets (ranges h)" if "history_inv h"
    using that by (simp add: history_IsPotentiallyDuplicate_def duplicate_from_back_iff history_inv_def)
  assume inv: "history_inv h"
  show "history_inv (snd (history_ReceivedPacket h p)) \<and> deletedBelow (snd (history_ReceivedPacket h p)) = deletedBelow h"
    using history_ReceivedPacket_ok [OF inv, of p] old inv by (cases "deletedBelow h \<le> p") simp_all
  show "fst (history_ReceivedPacket h p) \<longleftrightarrow> \<not> history_IsPotentiallyDuplicate h p"
    using history_ReceivedPacket_ok [OF inv, of p] old dup [OF inv] by (cases "deletedBelow h \<le> p") simp_all
  show "history_inv (DeleteBelow h p) \<and> deletedBelow (DeleteBelow h p) = max p (deletedBelow h) \<and>
    packets (ranges (DeleteBelow h p)) = {x \<in> packets (ranges h). max p (deletedBelow h) \<le> x}"
    using inv delete_below_ok [of "ranges h" p] by (auto simp: DeleteBelow_def history_inv_def)
  show "deletedBelow h \<le> x" if "x \<in> packets (ranges h)" using that inv by (simp add: history_inv_def)
  assume p: "deletedBelow h \<le> p"
  show "\<exists>c. packets (ranges (snd (history_ReceivedPacket h p))) = {x \<in> insert p (packets (ranges h)). c \<le> x}"
    using history_ReceivedPacket_ok [OF inv p] by blast
  show "packets (ranges (snd (history_ReceivedPacket h p))) \<noteq> {}" using history_ReceivedPacket_ok [OF inv p] by blast
  show "packets (ranges (snd (history_ReceivedPacket h p))) = insert p (packets (ranges h))"
    if "length (ranges h) < MaxNumAckRanges"
    using history_ReceivedPacket_ok [OF inv p] that by blast
qed

lemma new_history_inv [simp]: "history_inv newReceivedPacketHistory" "packets (ranges newReceivedPacketHistory) = {}"
  "deletedBelow newReceivedPacketHistory = 0"
  by (simp_all add: newReceivedPacketHistory_def history_inv_def)

section \<open>The ranges of an ACK frame\<close>

text \<open>What \<^verbatim>\<open>validateAckRanges\<close> of the ACK frame demands: descending, not empty, and with a gap between two ranges.\<close>

fun ack_ranges_ok :: "AckRange list \<Rightarrow> bool" where
  "ack_ranges_ok (r # r' # rs) \<longleftrightarrow> Smallest r \<le> Largest r \<and> Largest r' + 1 < Smallest r \<and> ack_ranges_ok (r' # rs)"
| "ack_ranges_ok [r] \<longleftrightarrow> Smallest r \<le> Largest r"
| "ack_ranges_ok [] \<longleftrightarrow> True"

definition acked :: "AckRange list \<Rightarrow> PacketNumber set" where
  "acked rs = (\<Union>r \<in> set rs. {Smallest r..Largest r})"

definition to_range :: "PacketInterval \<Rightarrow> AckRange" where
  "to_range el = \<lparr>Smallest = pi_Start el, Largest = pi_End el\<rparr>"

lemma to_range_ok: "descending els \<Longrightarrow> ack_ranges_ok (map to_range els)"
proof (induction els rule: induct_list012)
  case (3 el el' els)
  then have "pi_End el' \<in> packets (el' # els)" by (auto simp: interval_set_def)
  with 3 show ?case by (auto simp: to_range_def)
qed (auto simp: to_range_def)

lemma acked_to_range: "acked (map to_range els) = packets els"
  by (simp add: acked_def packets_def interval_set_def to_range_def)

lemma recovered_ok:
  "descending (rev (ranges h)) \<Longrightarrow>
   descending (rev (ranges (fold (\<lambda>pn h. snd (addToRanges h pn)) ps h))) \<and>
   packets (ranges (fold (\<lambda>pn h. snd (addToRanges h pn)) ps h)) = packets (ranges h) \<union> set ps \<and>
   deletedBelow (fold (\<lambda>pn h. snd (addToRanges h pn)) ps h) = deletedBelow h"
proof (induction ps arbitrary: h)
  case (Cons p ps)
  obtain b h1 where add: "addToRanges h p = (b, h1)" by fastforce
  from addToRanges_ok [OF Cons.prems add] Cons.IH [of h1] add show ?case by auto
qed simp

lemma GetAckRanges_ordered:
  assumes "descending (rev (ranges h))"
  shows "ack_ranges_ok (fst (GetAckRanges h ps)) \<and> acked (fst (GetAckRanges h ps)) = packets (ranges h) \<union> set ps \<and>
    packets (ranges (snd (GetAckRanges h ps))) = packets (ranges h) \<union> set ps \<and>
    deletedBelow (snd (GetAckRanges h ps)) = deletedBelow h \<and> descending (rev (ranges (snd (GetAckRanges h ps))))"
proof -
  let ?h = "fold (\<lambda>pn h. snd (addToRanges h pn)) ps h"
  have "GetAckRanges h ps = (map to_range (rev (ranges ?h)), ?h)"
    by (simp add: GetAckRanges_def to_range_def Let_def)
  moreover have "descending (rev (ranges ?h))" "packets (ranges ?h) = packets (ranges h) \<union> set ps" "deletedBelow ?h = deletedBelow h"
    using recovered_ok [OF assms, of ps] by simp_all
  ultimately show ?thesis by (auto simp: to_range_ok acked_to_range)
qed

end
