(* ===== verification/Quic_Ack_Frame.thy ===== *)
theory Quic_Ack_Frame
  imports Quic_Received_History Quic_Control_Frames
begin

unbundle bit_operations_syntax

text \<open>
  The ACK frame (\<^verbatim>\<open>enhanced-quic/internal/wire/ack_frame.go\<close>): ranges of packet numbers from the largest to the smallest,
  written as gaps and lengths.  A \<^verbatim>\<open>time.Duration\<close> is a number of nanoseconds.  Shown: what is written is read
  back, apart from ranges beyond the size limit, the remainder of the delay and the ECN counts; the ranges of a
  received packet history always fit; the binary search for a packet number is membership.
\<close>

section \<open>Searching\<close>

text \<open>\<^verbatim>\<open>sort.Search\<close> of the standard library.\<close>

function sort_Search_loop :: "(nat \<Rightarrow> bool) \<Rightarrow> nat \<Rightarrow> nat \<Rightarrow> nat" where
  "sort_Search_loop f i j =
     (if i < j then let h = (i + j) div 2 in if \<not> f h then sort_Search_loop f (h + 1) j else sort_Search_loop f i h else i)"
  by pat_completeness auto
termination
  by (relation "measure (\<lambda>(f, i, j). j - i)") auto

declare sort_Search_loop.simps [simp del]

lemma sort_Search_done: "\<not> i < j \<Longrightarrow> sort_Search_loop f i j = i"
  by (simp add: sort_Search_loop.simps [of f i j])

lemma sort_Search_right:
  "i < j \<Longrightarrow> \<not> f ((i + j) div 2) \<Longrightarrow> sort_Search_loop f i j = sort_Search_loop f ((i + j) div 2 + 1) j"
  by (simp add: sort_Search_loop.simps [of f i j] Let_def)

lemma sort_Search_left:
  "i < j \<Longrightarrow> f ((i + j) div 2) \<Longrightarrow> sort_Search_loop f i j = sort_Search_loop f i ((i + j) div 2)"
  by (simp add: sort_Search_loop.simps [of f i j] Let_def)

definition sort_Search :: "nat \<Rightarrow> (nat \<Rightarrow> bool) \<Rightarrow> nat" where
  "sort_Search n f = sort_Search_loop f 0 n"

lemma sort_Search_loop_ok:
  assumes "\<forall>a b. a \<le> b \<and> b < n \<and> f a \<longrightarrow> f b" and "i \<le> j" and "j \<le> n"
    and "\<forall>k<i. \<not> f k" and "\<forall>k. j \<le> k \<and> k < n \<longrightarrow> f k"
  shows "sort_Search_loop f i j \<le> j \<and> (\<forall>k < sort_Search_loop f i j. \<not> f k) \<and> (\<forall>k. sort_Search_loop f i j \<le> k \<and> k < n \<longrightarrow> f k)"
  using assms
proof (induction f i j rule: sort_Search_loop.induct)
  case (1 f i j)
  define h where "h = (i + j) div 2"
  note mono = 1(3) and low = 1(6) and high = 1(7)
  show ?case
  proof (cases "i < j")
    case True
    then have h: "i \<le> h" "h < j" by (simp_all add: h_def)
    show ?thesis
    proof (cases "f h")
      case fh: True
      then have up: "\<forall>k. h \<le> k \<and> k < n \<longrightarrow> f k" using mono by blast
      have "sort_Search_loop f i j = sort_Search_loop f i h"
        using sort_Search_left [of i j f] True fh unfolding h_def by blast
      moreover have "h \<le> n" using h 1(5) by simp
      note 1(2) [OF True h_def _ mono h(1) this low up]
      ultimately show ?thesis using fh h(2) by (metis le_trans less_imp_le)
    next
      case fh: False
      have "h < n" using h 1(5) by simp
      then have down: "\<forall>k < h + 1. \<not> f k" using mono fh by (metis less_Suc_eq_le Suc_eq_plus1)
      have "sort_Search_loop f i j = sort_Search_loop f (h + 1) j"
        using sort_Search_right [of i j f] True fh unfolding h_def by blast
      moreover have "h + 1 \<le> j" using h by simp
      note 1(1) [OF True h_def fh mono this 1(5) down high]
      ultimately show ?thesis by metis
    qed
  next
    case False
    then have "i = j" using 1(4) by simp
    then show ?thesis using low high sort_Search_done [OF False, of f] by simp
  qed
qed

lemma sort_Search_ok:
  assumes "\<forall>a b. a \<le> b \<and> b < n \<and> f a \<longrightarrow> f b"
  shows "sort_Search n f \<le> n" and "k < sort_Search n f \<Longrightarrow> \<not> f k" and "sort_Search n f \<le> k \<Longrightarrow> k < n \<Longrightarrow> f k"
proof -
  have "sort_Search n f \<le> n \<and> (\<forall>k < sort_Search n f. \<not> f k) \<and> (\<forall>k. sort_Search n f \<le> k \<and> k < n \<longrightarrow> f k)"
    unfolding sort_Search_def by (rule sort_Search_loop_ok [OF assms]) auto
  then show "sort_Search n f \<le> n" and "k < sort_Search n f \<Longrightarrow> \<not> f k" and "sort_Search n f \<le> k \<Longrightarrow> k < n \<Longrightarrow> f k" by blast+
qed

section \<open>The frame\<close>

record AckFrame =
  AckRanges :: "AckRange list"
  DelayTime :: int
  ECT0 :: u64
  ECT1 :: u64
  ECNCE :: u64

definition MaxAckFrameSize :: nat where
  "MaxAckFrameSize = 1000"

definition AckDelayExponent :: nat where
  "AckDelayExponent = 3"

definition InfDuration :: int where
  "InfDuration = 9223372036854775807"

definition validateAckRanges :: "AckFrame \<Rightarrow> bool" where
  "validateAckRanges f =
     (if length (AckRanges f) = 0 then False
      else if list_ex (\<lambda>r. Smallest r > Largest r) (AckRanges f) then False
      else \<not> list_ex (\<lambda>i. let ackRange = AckRanges f ! i; lastAckRange = AckRanges f ! (i - 1) in
             Smallest lastAckRange \<le> Smallest ackRange \<or> Smallest lastAckRange \<le> Largest ackRange + 1) [1..<length (AckRanges f)])"

definition LargestAcked :: "AckFrame \<Rightarrow> PacketNumber result" where
  "LargestAcked f = bindE (go_index (AckRanges f) 0) (\<lambda>r. Inr (Largest r))"

definition LowestAcked :: "AckFrame \<Rightarrow> PacketNumber result" where
  "LowestAcked f = bindE (go_index_int (AckRanges f) (int (length (AckRanges f)) - 1)) (\<lambda>r. Inr (Smallest r))"

definition HasMissingRanges :: "AckFrame \<Rightarrow> bool" where
  "HasMissingRanges f \<longleftrightarrow> length (AckRanges f) > 1"

definition AcksPacket :: "AckFrame \<Rightarrow> PacketNumber \<Rightarrow> bool result" where
  "AcksPacket f p =
     bindE (LowestAcked f) (\<lambda>lowest. bindE (LargestAcked f) (\<lambda>largest.
     if p < lowest \<or> p > largest then Inr False
     else let i = sort_Search (length (AckRanges f)) (\<lambda>i. p \<ge> Smallest (AckRanges f ! i))
          in bindE (go_index (AckRanges f) i) (\<lambda>r. Inr (p \<le> Largest r))))"

text \<open>Division truncates towards zero.\<close>

definition encodeAckDelay :: "int \<Rightarrow> u64" where
  "encodeAckDelay delay =
     (let d = 1000 * push_bit AckDelayExponent 1 in uint64 (if delay \<ge> 0 then delay div d else - (- delay div d)))"

text \<open>The loop of \<^verbatim>\<open>parseAckFrame\<close> over the further ranges.\<close>

fun parse_ranges :: "nat \<Rightarrow> PacketNumber \<Rightarrow> AckRange list \<Rightarrow> AckRange list reader" where
  "parse_ranges 0 smallest rs r = Inr (rs, r)"
| "parse_ranges (Suc n) smallest rs r =
     bindE (varint_Read r) (\<lambda>(g, r).
     let gap = int64 g in
     if smallest < gap + 2 then Inl (Err ''AckFrame: ACK frame contains invalid ACK ranges'')
     else let largest = smallest - gap - 2 in
     bindE (varint_Read r) (\<lambda>(ab, r).
     let ackBlock = int64 ab in
     if ackBlock > largest then Inl (Err ''AckFrame: ACK frame contains invalid ACK ranges'')
     else let smallest = largest - ackBlock in
     parse_ranges n smallest (rs @ [\<lparr>Smallest = smallest, Largest = largest\<rparr>]) r))"

definition parseAckFrame :: "nat \<Rightarrow> AckFrame reader" where
  "parseAckFrame ackDelayExponent r =
     bindE (ReadByte r) (\<lambda>(typeByte, r).
     let ecn = typeByte AND 0x1 > 0 in
     bindE (varint_Read r) (\<lambda>(la, r).
     let largestAcked = int64 la in
     bindE (varint_Read r) (\<lambda>(delay, r).
     let delayTime = int64 (push_bit ackDelayExponent delay * 1000);
         delayTime = (if delayTime < 0 then InfDuration else delayTime) in
     bindE (varint_Read r) (\<lambda>(numBlocks, r).
     bindE (varint_Read r) (\<lambda>(ab, r).
     let ackBlock = int64 ab in
     if ackBlock > largestAcked then Inl (Err ''invalid first ACK range'')
     else let smallest = largestAcked - ackBlock in
     bindE (parse_ranges (unat numBlocks) smallest [\<lparr>Smallest = smallest, Largest = largestAcked\<rparr>] r) (\<lambda>(rs, r).
     let frame = \<lparr>AckRanges = rs, DelayTime = delayTime, ECT0 = 0, ECT1 = 0, ECNCE = 0\<rparr> in
     if \<not> validateAckRanges frame then Inl (Err ''AckFrame: ACK frame contains invalid ACK ranges'')
     else if ecn
     then bindE (varint_Read r) (\<lambda>(_, r). bindE (varint_Read r) (\<lambda>(_, r). bindE (varint_Read r) (\<lambda>(_, r). Inr (frame, r))))
     else Inr (frame, r)))))))"

definition encodeAckRange :: "AckFrame \<Rightarrow> nat \<Rightarrow> (u64 \<times> u64) result" where
  "encodeAckRange f i =
     bindE (go_index (AckRanges f) i) (\<lambda>cur.
     if i = 0 then Inr (0, uint64 (Largest cur - Smallest cur))
     else bindE (go_index (AckRanges f) (i - 1)) (\<lambda>prev.
     Inr (uint64 (Smallest prev - Largest cur - 2), uint64 (Largest cur - Smallest cur))))"

fun encodable_loop :: "AckFrame \<Rightarrow> nat list \<Rightarrow> nat \<Rightarrow> nat result" where
  "encodable_loop f [] len = Inr (length (AckRanges f))"
| "encodable_loop f (i # is) len =
     bindE (encodeAckRange f i) (\<lambda>(gap, l).
     bindE (varint_Len gap) (\<lambda>l1. bindE (varint_Len l) (\<lambda>l2.
     let rangeLen = l1 + l2 in
     if len + rangeLen > MaxAckFrameSize then Inr (i - 1) else encodable_loop f is (len + rangeLen))))"

definition numEncodableAckRanges :: "AckFrame \<Rightarrow> nat result" where
  "numEncodableAckRanges f =
     bindE (LargestAcked f) (\<lambda>la. bindE (varint_Len (uint64 la)) (\<lambda>l1. bindE (varint_Len (encodeAckDelay (DelayTime f))) (\<lambda>l2.
     encodable_loop f [1..<length (AckRanges f)] (1 + l1 + l2 + 2))))"

definition hasECN :: "AckFrame \<Rightarrow> bool" where
  "hasECN f \<longleftrightarrow> ECT0 f > 0 \<or> ECT1 f > 0 \<or> ECNCE f > 0"

definition AckFrame_Write :: "AckFrame \<Rightarrow> bytes \<Rightarrow> bytes result" where
  "AckFrame_Write f b =
     (let b = (if hasECN f then WriteByte b 0x3 else WriteByte b 0x2) in
      bindE (LargestAcked f) (\<lambda>la.
      bindE (varint_Write b (uint64 la)) (\<lambda>b.
      bindE (varint_Write b (encodeAckDelay (DelayTime f))) (\<lambda>b.
      bindE (numEncodableAckRanges f) (\<lambda>numRanges.
      bindE (varint_Write b (uint64 (int numRanges - 1))) (\<lambda>b.
      bindE (encodeAckRange f 0) (\<lambda>(_, firstRange).
      bindE (varint_Write b firstRange) (\<lambda>b.
      bindE (foldE (\<lambda>i b. bindE (encodeAckRange f i) (\<lambda>(gap, len).
               bindE (varint_Write b gap) (\<lambda>b. varint_Write b len))) [1..<numRanges] b) (\<lambda>b.
      if hasECN f
      then bindE (varint_Write b (ECT0 f)) (\<lambda>b. bindE (varint_Write b (ECT1 f)) (\<lambda>b. varint_Write b (ECNCE f)))
      else Inr b)))))))))"

definition AckFrame_Length :: "AckFrame \<Rightarrow> nat result" where
  "AckFrame_Length f =
     bindE (LargestAcked f) (\<lambda>largestAcked.
     bindE (numEncodableAckRanges f) (\<lambda>numRanges.
     bindE (varint_Len (uint64 largestAcked)) (\<lambda>l1. bindE (varint_Len (encodeAckDelay (DelayTime f))) (\<lambda>l2.
     bindE (varint_Len (uint64 (int numRanges - 1))) (\<lambda>l3.
     bindE (go_index (AckRanges f) 0) (\<lambda>first.
     bindE (varint_Len (uint64 (largestAcked - Smallest first))) (\<lambda>l4.
     bindE (foldE (\<lambda>i n. bindE (encodeAckRange f i) (\<lambda>(gap, len).
              bindE (varint_Len gap) (\<lambda>l5. bindE (varint_Len len) (\<lambda>l6. Inr (n + l5 + l6))))) [1..<numRanges]
              (1 + l1 + l2 + l3 + l4)) (\<lambda>n.
     if hasECN f
     then bindE (varint_Len (ECT0 f)) (\<lambda>l7. bindE (varint_Len (ECT1 f)) (\<lambda>l8. bindE (varint_Len (ECNCE f)) (\<lambda>l9.
            Inr (n + l7 + l8 + l9))))
     else Inr n))))))))"

section \<open>Ranges\<close>

lemma ack_ranges_ok_nth:
  "ack_ranges_ok rs \<longleftrightarrow> (\<forall>r \<in> set rs. Smallest r \<le> Largest r) \<and>
     (\<forall>i. 0 < i \<and> i < length rs \<longrightarrow> Largest (rs ! i) + 1 < Smallest (rs ! (i - 1)))"
proof (induction rs rule: ack_ranges_ok.induct)
  case (1 r r' rs)
  have "(\<forall>i. 0 < i \<and> i < length (r # r' # rs) \<longrightarrow> Largest ((r # r' # rs) ! i) + 1 < Smallest ((r # r' # rs) ! (i - 1))) \<longleftrightarrow>
    Largest r' + 1 < Smallest r \<and> (\<forall>i. 0 < i \<and> i < length (r' # rs) \<longrightarrow> Largest ((r' # rs) ! i) + 1 < Smallest ((r' # rs) ! (i - 1)))"
    (is "(\<forall>i. ?P i) \<longleftrightarrow> ?A \<and> (\<forall>i. ?Q i)")
  proof
    assume all: "\<forall>i. ?P i"
    have "?Q i" for i using spec [OF all, of "Suc i"] by (cases i) auto
    moreover have ?A using spec [OF all, of 1] by simp
    ultimately show "?A \<and> (\<forall>i. ?Q i)" by blast
  next
    assume all: "?A \<and> (\<forall>i. ?Q i)"
    show "\<forall>i. ?P i"
    proof
      fix i show "?P i"
      proof (cases i)
        case (Suc j)
        then show ?thesis using all spec [OF conjunct2 [OF all], of j] by (cases j) auto
      qed simp
    qed
  qed
  with 1 show ?case by auto
qed auto

lemma ack_ranges_sorted:
  assumes "ack_ranges_ok rs" and "i < j" and "j < length rs"
  shows "Largest (rs ! j) + 1 < Smallest (rs ! i)"
  using assms(2,3)
proof (induction j)
  case (Suc j)
  have step: "Largest (rs ! Suc j) + 1 < Smallest (rs ! j)" using assms(1) Suc.prems by (auto simp: ack_ranges_ok_nth)
  show ?case
  proof (cases "i = j")
    case False
    moreover have "Smallest (rs ! j) \<le> Largest (rs ! j)" using assms(1) Suc.prems by (simp add: ack_ranges_ok_nth)
    ultimately show ?thesis using Suc step by simp
  qed (use step in simp)
qed simp

lemma validateAckRanges_iff: "validateAckRanges f \<longleftrightarrow> AckRanges f \<noteq> [] \<and> ack_ranges_ok (AckRanges f)"
proof -
  define rs where "rs = AckRanges f"
  let ?each = "\<forall>r \<in> set rs. Smallest r \<le> Largest r"
  let ?gap = "\<lambda>i. Largest (rs ! i) + 1 < Smallest (rs ! (i - 1))"
  have "validateAckRanges f \<longleftrightarrow> rs \<noteq> [] \<and> ?each \<and>
      (\<forall>i \<in> set [1..<length rs]. Smallest (rs ! i) < Smallest (rs ! (i - 1)) \<and> ?gap i)"
    unfolding validateAckRanges_def Let_def list_ex_iff rs_def [symmetric] not_le [symmetric]
    by (simp only: if_bool_eq_conj length_0_conv) blast
  also have "\<dots> \<longleftrightarrow> rs \<noteq> [] \<and> ?each \<and> (\<forall>i \<in> set [1..<length rs]. ?gap i)"
  proof -
    have "Smallest (rs ! i) < Smallest (rs ! (i - 1))" if ?each "?gap i" "i \<in> set [1..<length rs]" for i
    proof -
      have "rs ! i \<in> set rs" using that(3) by simp
      then have "Smallest (rs ! i) \<le> Largest (rs ! i)" using that(1) by blast
      then show ?thesis using that(2) by linarith
    qed
    then show ?thesis by blast
  qed
  also have "\<dots> \<longleftrightarrow> rs \<noteq> [] \<and> ack_ranges_ok rs" unfolding ack_ranges_ok_nth by auto
  finally show ?thesis by (simp add: rs_def)
qed

lemma AcksPacket_ok:
  assumes "AckRanges f \<noteq> []" and "ack_ranges_ok (AckRanges f)"
  shows "AcksPacket f p = Inr (p \<in> acked (AckRanges f))"
proof -
  define rs where "rs = AckRanges f"
  define n where "n = length rs"
  have ok: "ack_ranges_ok rs" and n: "0 < n" using assms by (simp_all add: rs_def n_def)
  have r: "Smallest (rs ! i) \<le> Largest (rs ! i)" if "i < n" for i using ok that by (simp add: ack_ranges_ok_nth n_def)
  have sorted: "Largest (rs ! j) < Smallest (rs ! i)" if "i < j" "j < n" for i j
    using ack_ranges_sorted [OF ok that(1)] that(2) by (simp add: n_def)
  define i where "i = sort_Search n (\<lambda>i. p \<ge> Smallest (rs ! i))"
  have mono: "\<forall>a b. a \<le> b \<and> b < n \<and> p \<ge> Smallest (rs ! a) \<longrightarrow> p \<ge> Smallest (rs ! b)"
  proof (intro allI impI)
    fix a b assume ab: "a \<le> b \<and> b < n \<and> p \<ge> Smallest (rs ! a)"
    then show "p \<ge> Smallest (rs ! b)" using sorted [of a b] r [of b] by (cases "a = b") auto
  qed
  note search = sort_Search_ok [OF mono, folded i_def]
  have mem: "p \<in> acked rs \<longleftrightarrow> (\<exists>k<n. Smallest (rs ! k) \<le> p \<and> p \<le> Largest (rs ! k))"
    by (auto simp: acked_def n_def in_set_conv_nth) (metis nth_mem)
  have lowest: "LowestAcked f = Inr (Smallest (rs ! (n - 1)))"
  proof -
    have "nat (int n - 1) = n - 1" using n by simp
    then show ?thesis using n by (simp add: LowestAcked_def rs_def n_def go_index_int_def)
  qed
  have largest: "LargestAcked f = Inr (Largest (rs ! 0))" using n by (simp add: LargestAcked_def rs_def n_def)
  show ?thesis
  proof (cases "p < Smallest (rs ! (n - 1)) \<or> p > Largest (rs ! 0)")
    case True
    have "\<not> (Smallest (rs ! k) \<le> p \<and> p \<le> Largest (rs ! k))" if "k < n" for k
    proof -
      have "Largest (rs ! k) \<le> Largest (rs ! 0)" using sorted [of 0 k] r [of 0] that n by (cases "k = 0") auto
      moreover have "k = n - 1 \<or> k < n - 1" using that by linarith
      then have "Smallest (rs ! (n - 1)) \<le> Smallest (rs ! k)" using sorted [of k "n - 1"] r [of "n - 1"] n by auto
      ultimately show ?thesis using True by linarith
    qed
    then show ?thesis using True mem by (auto simp: AcksPacket_def lowest largest rs_def [symmetric])
  next
    case False
    then have "i < n" using search(1) search(2) [of "n - 1"] n by (cases "i = n") auto
    have "(p \<le> Largest (rs ! i)) \<longleftrightarrow> p \<in> acked rs"
    proof
      assume "p \<le> Largest (rs ! i)"
      then show "p \<in> acked rs" using mem search(3) [of i] \<open>i < n\<close> by auto
    next
      assume "p \<in> acked rs"
      then obtain k where k: "k < n" "Smallest (rs ! k) \<le> p" "p \<le> Largest (rs ! k)" using mem by blast
      then have "i \<le> k" using search(2) [of k] by force
      then show "p \<le> Largest (rs ! i)" using k sorted [of i k] search(3) [of i] \<open>i < n\<close> r [of i] by (cases "i = k") auto
    qed
    then show ?thesis using False \<open>i < n\<close>
      by (simp add: AcksPacket_def lowest largest rs_def [symmetric] n_def [symmetric] i_def [symmetric])
  qed
qed

section \<open>Writing and reading\<close>

definition ack_wire :: "AckRange list \<Rightarrow> bool" where
  "ack_wire rs \<longleftrightarrow> rs \<noteq> [] \<and> ack_ranges_ok rs \<and> (\<forall>r \<in> set rs. 0 \<le> Smallest r \<and> Largest r < 2 ^ 62)"

fun ranges_enc :: "PacketNumber \<Rightarrow> AckRange list \<Rightarrow> bytes" where
  "ranges_enc s [] = []"
| "ranges_enc s (r # rs) = vnum (s - Largest r - 2) @ vnum (Largest r - Smallest r) @ ranges_enc (Smallest r) rs"

lemma encodeAckRange_ok:
  assumes "ack_wire (AckRanges f)" and "i < length (AckRanges f)"
  defines "prev \<equiv> AckRanges f ! (i - 1)" and "cur \<equiv> AckRanges f ! i"
  shows "encodeAckRange f i = Inr (if i = 0 then 0 else uint64 (Smallest prev - Largest cur - 2), uint64 (Largest cur - Smallest cur)) \<and>
    wire_number (Largest cur - Smallest cur) \<and> (i \<noteq> 0 \<longrightarrow> wire_number (Smallest prev - Largest cur - 2))"
proof -
  have cur: "0 \<le> Smallest cur" "Smallest cur \<le> Largest cur" "Largest cur < 2 ^ 62"
    using assms(1,2) by (simp_all add: ack_wire_def ack_ranges_ok_nth cur_def)
  have prev: "Largest cur + 1 < Smallest prev" "Smallest prev \<le> Largest prev" "Largest prev < 2 ^ 62" if "i \<noteq> 0"
    using assms(1,2) that by (auto simp: ack_wire_def ack_ranges_ok_nth cur_def prev_def)
  show ?thesis using assms(2) cur prev by (auto simp: encodeAckRange_def wire_number_def cur_def prev_def)
qed

lemma varint_size_le: "1 \<le> varint_size i" "varint_size i \<le> 8"
  by (simp_all add: varint_size_def)

lemma ranges_enc_step:
  "i < k \<Longrightarrow> k \<le> length rs \<Longrightarrow>
   ranges_enc (Smallest (rs ! (i - 1))) (take (k - i) (drop i rs)) =
     vnum (Smallest (rs ! (i - 1)) - Largest (rs ! i) - 2) @ vnum (Largest (rs ! i) - Smallest (rs ! i)) @
     ranges_enc (Smallest (rs ! (Suc i - 1))) (take (k - Suc i) (drop (Suc i) rs))"
proof -
  assume *: "i < k" "k \<le> length rs"
  then have "take (k - i) (drop i rs) = rs ! i # take (k - Suc i) (drop (Suc i) rs)"
    by (simp add: Cons_nth_drop_Suc [symmetric] Suc_diff_Suc [symmetric])
  then show ?thesis by simp
qed

lemma encodable_loop_ok:
  assumes "ack_wire (AckRanges f)" and "1 \<le> i" and "i \<le> length (AckRanges f)" and "len \<le> MaxAckFrameSize"
  shows "\<exists>k. encodable_loop f [i..<length (AckRanges f)] len = Inr k \<and> i - 1 \<le> k \<and> k \<le> length (AckRanges f) \<and>
    (len + 16 \<le> MaxAckFrameSize \<longrightarrow> i \<le> k) \<and> (len + 16 * (length (AckRanges f) - i) \<le> MaxAckFrameSize \<longrightarrow> k = length (AckRanges f)) \<and>
    len + length (ranges_enc (Smallest (AckRanges f ! (i - 1))) (take (k - i) (drop i (AckRanges f)))) \<le> MaxAckFrameSize"
  using assms(2-)
proof (induction "length (AckRanges f) - i" arbitrary: i len)
  case 0
  then show ?case by simp
next
  case (Suc d)
  let ?rs = "AckRanges f"
  have i: "i < length ?rs" using Suc.hyps(2) by simp
  define gap where "gap = uint64 (Smallest (?rs ! (i - 1)) - Largest (?rs ! i) - 2)"
  define l where "l = uint64 (Largest (?rs ! i) - Smallest (?rs ! i))"
  have e: "encodeAckRange f i = Inr (gap, l)" "varint_valid gap" "varint_valid l"
    using encodeAckRange_ok [OF assms(1) i] Suc.prems(1) by (simp_all add: gap_def l_def)
  define len' where "len' = len + (varint_size gap + varint_size l)"
  have len': "len' \<le> len + 16" using varint_size_le [of gap] varint_size_le [of l] by (simp add: len'_def)
  have loop: "encodable_loop f [i..<length ?rs] len =
      (if len' > MaxAckFrameSize then Inr (i - 1) else encodable_loop f [Suc i..<length ?rs] len')"
    using i e by (simp add: upt_conv_Cons varint_Len_ok len'_def)
  show ?case
  proof (cases "len' > MaxAckFrameSize")
    case True
    then show ?thesis using loop len' i Suc.prems by (auto simp: Suc.hyps(2) [symmetric])
  next
    case False
    obtain k where k: "encodable_loop f [Suc i..<length ?rs] len' = Inr k" "Suc i - 1 \<le> k" "k \<le> length ?rs"
      "len' + 16 * (length ?rs - Suc i) \<le> MaxAckFrameSize \<longrightarrow> k = length ?rs"
      "len' + length (ranges_enc (Smallest (?rs ! (Suc i - 1))) (take (k - Suc i) (drop (Suc i) ?rs))) \<le> MaxAckFrameSize"
      using Suc.hyps(1) [of "Suc i" len'] Suc.hyps(2) i False by fastforce
    have "len + length (ranges_enc (Smallest (?rs ! (i - 1))) (take (k - i) (drop i ?rs))) \<le> MaxAckFrameSize"
    proof (cases "i < k")
      case True
      show ?thesis using k(5) unfolding ranges_enc_step [OF True k(3)] by (simp add: len'_def gap_def l_def)
    qed (use Suc.prems in simp)
    moreover have "len' + 16 * (length ?rs - Suc i) \<le> MaxAckFrameSize" if "len + 16 * (length ?rs - i) \<le> MaxAckFrameSize"
      using that len' i by linarith
    ultimately show ?thesis using k loop False by auto
  qed
qed

lemma write_ranges:
  assumes "ack_wire (AckRanges f)" and "1 \<le> i" and "i \<le> k" and "k \<le> length (AckRanges f)"
  shows "foldE (\<lambda>i b. bindE (encodeAckRange f i) (\<lambda>(gap, len). bindE (varint_Write b gap) (\<lambda>b. varint_Write b len))) [i..<k] b =
    Inr (b @ ranges_enc (Smallest (AckRanges f ! (i - 1))) (take (k - i) (drop i (AckRanges f))))"
  using assms(2-)
proof (induction "k - i" arbitrary: i b)
  case (Suc d)
  then have i: "i < length (AckRanges f)" "i < k" by simp_all
  show ?case
    using Suc.hyps(1) [of "Suc i"] Suc.hyps(2) Suc.prems encodeAckRange_ok [OF assms(1) i(1)] ranges_enc_step [OF i(2) assms(4)]
    by (simp add: upt_conv_Cons [OF i(2)] varint_Write_ok)
qed simp

lemma length_ranges:
  assumes "ack_wire (AckRanges f)" and "1 \<le> i" and "i \<le> k" and "k \<le> length (AckRanges f)"
  shows "foldE (\<lambda>i n. bindE (encodeAckRange f i) (\<lambda>(gap, len).
      bindE (varint_Len gap) (\<lambda>l5. bindE (varint_Len len) (\<lambda>l6. Inr (n + l5 + l6))))) [i..<k] n =
    Inr (n + length (ranges_enc (Smallest (AckRanges f ! (i - 1))) (take (k - i) (drop i (AckRanges f)))))"
  using assms(2-)
proof (induction "k - i" arbitrary: i n)
  case (Suc d)
  then have i: "i < length (AckRanges f)" "i < k" by simp_all
  show ?case
    using Suc.hyps(1) [of "Suc i"] Suc.hyps(2) Suc.prems encodeAckRange_ok [OF assms(1) i(1)] ranges_enc_step [OF i(2) assms(4)]
    by (simp add: upt_conv_Cons [OF i(2)] varint_Len_ok)
qed simp

lemma parse_ranges_enc:
  assumes "ack_ranges_ok (x # rs)" and "Largest x < 2 ^ 62" and "\<forall>r \<in> set rs. 0 \<le> Smallest r"
  shows "parse_ranges (length rs) (Smallest x) acc (ranges_enc (Smallest x) rs @ r) = Inr (acc @ rs, r)"
  using assms
proof (induction rs arbitrary: x acc)
  case (Cons y rs)
  then have y: "0 \<le> Smallest y" "Smallest y \<le> Largest y" "Largest y + 1 < Smallest x" "Smallest x \<le> Largest x" "ack_ranges_ok (y # rs)"
    by (cases rs; simp)+
  then have "wire_number (Smallest x - Largest y - 2)" "wire_number (Largest y - Smallest y)"
    using Cons.prems(2) by (simp_all add: wire_number_def)
  with Cons y show ?case by simp
qed simp

definition ack_valid :: "AckFrame \<Rightarrow> bool" where
  "ack_valid f \<longleftrightarrow> ack_wire (AckRanges f) \<and> 0 \<le> DelayTime f \<and> DelayTime f < 2 ^ 63 \<and>
     varint_valid (ECT0 f) \<and> varint_valid (ECT1 f) \<and> varint_valid (ECNCE f) \<and> length (AckRanges f) < 2 ^ 62"

text \<open>The encoding of the first \<open>n\<close> ranges.\<close>

definition ack_enc :: "AckFrame \<Rightarrow> nat \<Rightarrow> bytes" where
  "ack_enc f n = (if hasECN f then 0x3 else 0x2) # vnum (Largest (AckRanges f ! 0)) @ vnum (DelayTime f div 8000) @
     vnum (int n - 1) @ vnum (Largest (AckRanges f ! 0) - Smallest (AckRanges f ! 0)) @
     ranges_enc (Smallest (AckRanges f ! 0)) (take (n - 1) (drop 1 (AckRanges f))) @
     (if hasECN f then varint_enc (ECT0 f) @ varint_enc (ECT1 f) @ varint_enc (ECNCE f) else [])"

lemma encodeAckDelay_ok:
  assumes "0 \<le> d" and "d < 2 ^ 63"
  shows "encodeAckDelay d = uint64 (d div 8000)" and "wire_number (d div 8000)"
proof -
  show "encodeAckDelay d = uint64 (d div 8000)" using assms by (simp add: encodeAckDelay_def AckDelayExponent_def Let_def)
  have "d = d div 8000 * 8000 + d mod 8000" "0 \<le> d mod 8000" "d < 9223372036854775808" using assms by simp_all
  then have "0 \<le> d div 8000" "d div 8000 < 4611686018427387904" using assms(1) by linarith+
  then show "wire_number (d div 8000)" by (simp add: wire_number_def)
qed

lemma int64_uint64_pos:
  assumes "0 \<le> x" and "x < 2 ^ 63"
  shows "int64 (uint64 x) = x"
proof -
  have "signed_take_bit 63 x = x" using assms by (intro signed_take_bit_int_eq_self) simp_all
  moreover have "uint (uint64 x) = x" using assms by (simp add: uint64_def uint_word_of_int)
  ultimately show ?thesis by (simp add: int64_def sint_uint)
qed

lemma delay_decoded:
  assumes "0 \<le> d" and "d < 2 ^ 63"
  shows "int64 (push_bit 3 (uint64 (d div 8000)) * 1000) = d div 8000 * 8000"
proof -
  have "push_bit 3 (uint64 (d div 8000)) * 1000 = uint64 (d div 8000 * 8000)"
    by (simp add: uint64_def push_bit_eq_mult)
  moreover have "0 \<le> d div 8000 * 8000" "d div 8000 * 8000 < 2 ^ 63" using assms by (simp, linarith)
  ultimately show ?thesis by (simp only: int64_uint64_pos)
qed

lemma ack_wire_first:
  assumes "ack_wire rs"
  shows "0 < length rs" and "wire_number (Largest (rs ! 0))" and "wire_number (Largest (rs ! 0) - Smallest (rs ! 0))"
proof -
  show ne: "0 < length rs" using assms by (simp add: ack_wire_def)
  then have "rs ! 0 \<in> set rs" by (rule nth_mem)
  then have "0 \<le> Smallest (rs ! 0)" "Smallest (rs ! 0) \<le> Largest (rs ! 0)" "Largest (rs ! 0) < 2 ^ 62"
    using assms unfolding ack_wire_def ack_ranges_ok_nth by blast+
  then show "wire_number (Largest (rs ! 0))" and "wire_number (Largest (rs ! 0) - Smallest (rs ! 0))"
    by (simp_all add: wire_number_def)
qed

lemma LargestAcked_ok: "0 < length (AckRanges f) \<Longrightarrow> LargestAcked f = Inr (Largest (AckRanges f ! 0))"
  by (simp add: LargestAcked_def)

lemma numEncodable_ok:
  assumes "ack_valid f"
  shows "\<exists>n. numEncodableAckRanges f = Inr n \<and> 1 \<le> n \<and> n \<le> length (AckRanges f) \<and>
    (length (AckRanges f) \<le> 62 \<longrightarrow> n = length (AckRanges f)) \<and>
    varint_size (uint64 (Largest (AckRanges f ! 0))) + varint_size (uint64 (DelayTime f div 8000)) + 3 +
      length (ranges_enc (Smallest (AckRanges f ! 0)) (take (n - 1) (drop 1 (AckRanges f)))) \<le> MaxAckFrameSize"
proof -
  define la where "la = uint64 (Largest (AckRanges f ! 0))"
  define dl where "dl = uint64 (DelayTime f div 8000)"
  define len where "len = varint_size la + varint_size dl + 3"
  have w: "ack_wire (AckRanges f)" using assms by (simp add: ack_valid_def)
  note first = ack_wire_first [OF w]
  then have ne: "1 \<le> length (AckRanges f)" by linarith
  have "numEncodableAckRanges f = encodable_loop f [1..<length (AckRanges f)] len"
  proof -
    have d: "encodeAckDelay (DelayTime f) = dl" "varint_valid dl" "varint_valid la"
      using assms first(2) encodeAckDelay_ok [of "DelayTime f"] by (simp_all add: ack_valid_def dl_def la_def)
    have "1 + varint_size la + varint_size dl + 2 = len" by (simp add: len_def)
    then show ?thesis
      unfolding numEncodableAckRanges_def LargestAcked_ok [OF first(1)] la_def [symmetric] bindE_Inr d(1)
        varint_Len_ok [OF d(2)] varint_Len_ok [OF d(3)] by (simp only:)
  qed
  moreover have len: "len \<le> 19" using varint_size_le [of la] varint_size_le [of dl] by (simp add: len_def)
  ultimately show ?thesis
    using encodable_loop_ok [OF w order_refl ne, of len] by (auto simp: MaxAckFrameSize_def len_def la_def dl_def)
qed

lemma ack_wire_take: "ack_wire rs \<Longrightarrow> 1 \<le> n \<Longrightarrow> ack_wire (take n rs)"
  by (auto simp: ack_wire_def ack_ranges_ok_nth dest: in_set_takeD)

lemma parseAckFrame_enc:
  assumes v: "ack_valid f" and n: "1 \<le> n" "n \<le> length (AckRanges f)"
  shows "parseAckFrame AckDelayExponent (ack_enc f n @ r) =
    Inr (\<lparr>AckRanges = take n (AckRanges f), DelayTime = DelayTime f div 8000 * 8000, ECT0 = 0, ECT1 = 0, ECNCE = 0\<rparr>, r)"
proof -
  obtain x rs where rs: "take n (AckRanges f) = x # rs" using n by (cases "take n (AckRanges f)") auto
  then have f0: "AckRanges f ! 0 = x" using n by (metis nth_Cons_0 nth_take less_le_trans zero_less_one)
  have tl: "take (n - 1) (drop 1 (AckRanges f)) = rs" using rs by (metis drop_take list.sel(3) drop0 drop_Suc One_nat_def)
  have "length (x # rs) = n" using n unfolding rs [symmetric] by simp
  then have len: "length rs = n - 1" by simp
  have w: "ack_wire (x # rs)" using ack_wire_take [OF _ n(1)] v rs by (metis ack_valid_def)
  then have ok: "ack_ranges_ok (x # rs)" and x: "0 \<le> Smallest x" "Smallest x \<le> Largest x" "Largest x < 2 ^ 62"
    and low: "\<forall>r \<in> set rs. 0 \<le> Smallest r" by (auto simp: ack_wire_def ack_ranges_ok_nth)
  have num: "wire_number (Largest x)" "wire_number (Largest x - Smallest x)" using x by (simp_all add: wire_number_def)
  have cnt: "uint64 (int n - 1) = of_nat (n - 1)" using n by (simp add: uint64_def)
  have cnt_ok: "n - 1 < 2 ^ 62" using n v by (auto simp: ack_valid_def)
  note d = delay_decoded [of "DelayTime f"] encodeAckDelay_ok [of "DelayTime f"]
  have valid: "validateAckRanges \<lparr>AckRanges = x # rs, DelayTime = d, ECT0 = 0, ECT1 = 0, ECNCE = 0\<rparr>" for d
    using ok by (simp add: validateAckRanges_iff)
  note pr = parse_ranges_enc [OF ok x(3) low, of "[x]"]
  have xs: "\<lparr>Smallest = Smallest x, Largest = Largest x\<rparr> = x" and pos: "\<not> DelayTime f div 8000 < 0"
    using v by (simp_all add: ack_valid_def not_less pos_imp_zdiv_nonneg_iff)
  show ?thesis
    using v d num cnt_ok pr valid len x pos
    unfolding parseAckFrame_def ack_enc_def f0 tl cnt rs
    by (simp add: ack_valid_def AckDelayExponent_def Let_def xs)
qed


lemma AckFrame_Write_ok:
  assumes v: "ack_valid f" and n: "numEncodableAckRanges f = Inr n" "1 \<le> n" "n \<le> length (AckRanges f)"
  shows "AckFrame_Write f b = Inr (b @ ack_enc f n)" and "AckFrame_Length f = Inr (length (ack_enc f n))"
proof -
  have w: "ack_wire (AckRanges f)" and ecn: "varint_valid (ECT0 f)" "varint_valid (ECT1 f)" "varint_valid (ECNCE f)"
    using v by (simp_all add: ack_valid_def)
  note first = ack_wire_first [OF w]
  have d: "encodeAckDelay (DelayTime f) = uint64 (DelayTime f div 8000)" "wire_number (DelayTime f div 8000)"
    using encodeAckDelay_ok [of "DelayTime f"] v by (simp_all add: ack_valid_def)
  have cnt: "wire_number (int n - 1)" using v n by (auto simp: ack_valid_def wire_number_def)
  note step = LargestAcked_ok [OF first(1)] n(1) d first(2,3) cnt ecn encodeAckRange_ok [OF w first(1)]
  show "AckFrame_Write f b = Inr (b @ ack_enc f n)"
    using step write_ranges [OF w order_refl n(2,3)]
    by (simp add: AckFrame_Write_def ack_enc_def codec Let_def)
  show "AckFrame_Length f = Inr (length (ack_enc f n))"
    using step length_ranges [OF w order_refl n(2,3)] first(1)
    by (simp add: AckFrame_Length_def ack_enc_def codec)
qed

text \<open>
  The ranges beyond the limit, the remainder of the delay modulo eight microseconds and the ECN counts are lost; up to
  62 ranges are always sent.
\<close>

lemma ack_round_trip:
  assumes "ack_valid f"
  shows "\<exists>n. 1 \<le> n \<and> n \<le> length (AckRanges f) \<and> (length (AckRanges f) \<le> 62 \<longrightarrow> n = length (AckRanges f)) \<and>
    AckFrame_Write f b = Inr (b @ ack_enc f n) \<and> AckFrame_Length f = Inr (length (ack_enc f n)) \<and>
    parseAckFrame AckDelayExponent (ack_enc f n @ r) =
      Inr (\<lparr>AckRanges = take n (AckRanges f), DelayTime = DelayTime f div 8000 * 8000, ECT0 = 0, ECT1 = 0, ECNCE = 0\<rparr>, r)"
  using numEncodable_ok [OF assms] AckFrame_Write_ok [OF assms] parseAckFrame_enc [OF assms] by metis

text \<open>The number of ranges that are sent, and the frame that is read from them.\<close>

definition ranges_sent :: "AckFrame \<Rightarrow> nat" where
  "ranges_sent f = (case numEncodableAckRanges f of Inl e \<Rightarrow> 0 | Inr n \<Rightarrow> n)"

definition ack_image :: "AckFrame \<Rightarrow> AckFrame" where
  "ack_image f = \<lparr>AckRanges = take (ranges_sent f) (AckRanges f), DelayTime = DelayTime f div 8000 * 8000, ECT0 = 0, ECT1 = 0, ECNCE = 0\<rparr>"

lemma ack_valid_write:
  assumes "ack_valid f"
  shows "AckFrame_Write f b = Inr (b @ ack_enc f (ranges_sent f))"
    and "parseAckFrame AckDelayExponent (ack_enc f (ranges_sent f) @ r) = Inr (ack_image f, r)"
    and "1 \<le> ranges_sent f" and "length (AckRanges f) \<le> 62 \<longrightarrow> ranges_sent f = length (AckRanges f)"
proof -
  obtain n where n: "numEncodableAckRanges f = Inr n" "1 \<le> n" "n \<le> length (AckRanges f)"
    "length (AckRanges f) \<le> 62 \<longrightarrow> n = length (AckRanges f)" using numEncodable_ok [OF assms] by metis
  then have s: "ranges_sent f = n" by (simp add: ranges_sent_def)
  show "AckFrame_Write f b = Inr (b @ ack_enc f (ranges_sent f))" unfolding s by (rule AckFrame_Write_ok [OF assms n(1-3)])
  show "parseAckFrame AckDelayExponent (ack_enc f (ranges_sent f) @ r) = Inr (ack_image f, r)"
    unfolding ack_image_def s by (rule parseAckFrame_enc [OF assms n(2,3)])
  show "1 \<le> ranges_sent f" "length (AckRanges f) \<le> 62 \<longrightarrow> ranges_sent f = length (AckRanges f)" using n s by simp_all
qed

lemma ack_enc_type: "ack_enc f n \<noteq> [] \<and> hd (ack_enc f n) \<in> {0x2, 0x3}"
  by (simp add: ack_enc_def)

text \<open>The frames that are read back unchanged keep the contract of the other frames.\<close>

definition ack_exact :: "AckFrame \<Rightarrow> bool" where
  "ack_exact f \<longleftrightarrow> ack_valid f \<and> length (AckRanges f) \<le> 62 \<and> DelayTime f mod 8000 = 0 \<and> ECT0 f = 0 \<and> ECT1 f = 0 \<and> ECNCE f = 0"

interpretation ack: frame_codec "parseAckFrame AckDelayExponent" AckFrame_Write "\<lambda>f. ack_enc f (length (AckRanges f))" ack_exact
  AckFrame_Length "{0x2, 0x3}"
proof
  fix f :: AckFrame and b r :: bytes
  assume e: "ack_exact f"
  then have v: "ack_valid f" and len: "length (AckRanges f) \<le> 62" and t: "DelayTime f div 8000 * 8000 = DelayTime f"
    by (auto simp: ack_exact_def)
  obtain n where n: "n = length (AckRanges f)" "AckFrame_Write f b = Inr (b @ ack_enc f n)" "AckFrame_Length f = Inr (length (ack_enc f n))"
    "parseAckFrame AckDelayExponent (ack_enc f n @ r) =
      Inr (\<lparr>AckRanges = take n (AckRanges f), DelayTime = DelayTime f div 8000 * 8000, ECT0 = 0, ECT1 = 0, ECNCE = 0\<rparr>, r)"
    using ack_round_trip [OF v, of b r] len by blast
  from n show "AckFrame_Write f b = Inr (b @ ack_enc f (length (AckRanges f)))"
    "AckFrame_Length f = Inr (length (ack_enc f (length (AckRanges f))))" by simp_all
  from n t e show "parseAckFrame AckDelayExponent (ack_enc f (length (AckRanges f)) @ r) = Inr (f, r)"
    by (auto simp: ack_exact_def intro!: AckFrame.equality)
  show "ack_enc f (length (AckRanges f)) \<noteq> [] \<and> hd (ack_enc f (length (AckRanges f))) \<in> {0x2, 0x3}" by (simp add: ack_enc_def)
qed

end
