(* ===== verification/Quic_Ack_Tracker.thy ===== *)
theory Quic_Ack_Tracker
  imports Quic_Ack_Frame
begin

text \<open>
  When packets are acknowledged (\<^verbatim>\<open>enhanced-quic/internal/ackhandler/received_packet_tracker.go\<close> and
  \<^verbatim>\<open>received_packet_handler.go\<close>).  A \<^verbatim>\<open>time.Time\<close> is the number of nanoseconds since its zero value.  Shown: an
  acknowledgement that is owed is queued or has a timer, and the ACK frame covers what the history has; only received packets are
  acknowledged; a late packet can leave an ACK frame queued that has no ranges.
\<close>

type_synonym Time = int

definition IsZero :: "Time \<Rightarrow> bool" where
  "IsZero t \<longleftrightarrow> t = 0"

text \<open>\<^verbatim>\<open>t.Sub(u)\<close> saturates at the ends of a \<^verbatim>\<open>Duration\<close>.\<close>

definition time_Sub :: "Time \<Rightarrow> Time \<Rightarrow> int" where
  "time_Sub t u = max (- (2 ^ 63)) (min (2 ^ 63 - 1) (t - u))"

datatype ECN = ECN_Non | ECN_ECT1 | ECN_ECT0 | ECN_CE

definition packetsBeforeAck :: nat where
  "packetsBeforeAck = 2"

text \<open>25 milliseconds.\<close>

definition MaxAckDelay :: int where
  "MaxAckDelay = 25 * 1000000"

record receivedPacketTracker =
  largestObserved :: PacketNumber
  ignoreBelow :: PacketNumber
  largestObservedReceivedTime :: Time
  ect0 :: u64
  ect1 :: u64
  ecnce :: u64
  packetHistory :: receivedPacketHistory
  maxAckDelay :: int
  hasNewAck :: bool
  ackQueued :: bool
  ackElicitingSinceLastAck :: nat
  ackAlarm :: Time
  lastAck :: "AckFrame option"

definition newReceivedPacketTracker :: receivedPacketTracker where
  "newReceivedPacketTracker =
     \<lparr>largestObserved = 0, ignoreBelow = 0, largestObservedReceivedTime = 0, ect0 = 0, ect1 = 0, ecnce = 0,
      packetHistory = newReceivedPacketHistory, maxAckDelay = MaxAckDelay, hasNewAck = False, ackQueued = False,
      ackElicitingSinceLastAck = 0, ackAlarm = 0, lastAck = None\<rparr>"

definition isMissing :: "receivedPacketTracker \<Rightarrow> PacketNumber \<Rightarrow> bool result" where
  "isMissing h p =
     (case lastAck h of
        None \<Rightarrow> Inr False
      | Some ack \<Rightarrow>
          if p < ignoreBelow h then Inr False
          else bindE (LargestAcked ack) (\<lambda>la.
               if p < la then bindE (AcksPacket ack p) (\<lambda>b. Inr (\<not> b)) else Inr False))"

definition hasNewMissingPackets :: "receivedPacketTracker \<Rightarrow> bool result" where
  "hasNewMissingPackets h =
     (case lastAck h of
        None \<Rightarrow> Inr False
      | Some ack \<Rightarrow>
          let highestRange = GetHighestAckRange (packetHistory h) in
          bindE (LargestAcked ack) (\<lambda>la. Inr (Smallest highestRange > la + 1 \<and> AckRange_Len highestRange = 1)))"

definition maybeQueueAck :: "receivedPacketTracker \<Rightarrow> Time \<Rightarrow> bool \<Rightarrow> receivedPacketTracker result" where
  "maybeQueueAck h rcvTime wasMissing =
     (if lastAck h = None then Inr (h\<lparr>ackQueued := True\<rparr>)
      else if ackQueued h then Inr h
      else let h = h\<lparr>ackElicitingSinceLastAck := ackElicitingSinceLastAck h + 1\<rparr>;
               h = (if wasMissing then h\<lparr>ackQueued := True\<rparr> else h);
               h = (if ackElicitingSinceLastAck h \<ge> packetsBeforeAck then h\<lparr>ackQueued := True\<rparr>
                    else if IsZero (ackAlarm h) then h\<lparr>ackAlarm := rcvTime + maxAckDelay h\<rparr> else h)
           in bindE (hasNewMissingPackets h) (\<lambda>missing.
              let h = (if missing then h\<lparr>ackQueued := True\<rparr> else h)
              in Inr (if ackQueued h then h\<lparr>ackAlarm := 0\<rparr> else h)))"

definition count_ECN :: "receivedPacketTracker \<Rightarrow> ECN \<Rightarrow> receivedPacketTracker" where
  "count_ECN h ecn =
     (case ecn of ECN_Non \<Rightarrow> h | ECN_ECT0 \<Rightarrow> h\<lparr>ect0 := ect0 h + 1\<rparr> | ECN_ECT1 \<Rightarrow> h\<lparr>ect1 := ect1 h + 1\<rparr>
      | ECN_CE \<Rightarrow> h\<lparr>ecnce := ecnce h + 1\<rparr>)"

definition tracker_ReceivedPacket ::
  "receivedPacketTracker \<Rightarrow> PacketNumber \<Rightarrow> ECN \<Rightarrow> Time \<Rightarrow> bool \<Rightarrow> receivedPacketTracker result" where
  "tracker_ReceivedPacket h packetNumber ecn rcvTime shouldInstigateAck =
     (if packetNumber < ignoreBelow h then Inr h
      else bindE (isMissing h packetNumber) (\<lambda>missing.
           let h = (if packetNumber \<ge> largestObserved h
                    then h\<lparr>largestObserved := packetNumber, largestObservedReceivedTime := rcvTime\<rparr> else h);
               (isNew, hist) = history_ReceivedPacket (packetHistory h) packetNumber;
               h = h\<lparr>packetHistory := hist\<rparr>;
               h = (if isNew \<and> shouldInstigateAck then h\<lparr>hasNewAck := True\<rparr> else h)
           in bindE (if shouldInstigateAck then maybeQueueAck h rcvTime missing else Inr h) (\<lambda>h.
              Inr (count_ECN h ecn))))"

definition IgnoreBelow :: "receivedPacketTracker \<Rightarrow> PacketNumber \<Rightarrow> receivedPacketTracker" where
  "IgnoreBelow h p =
     (if p \<le> ignoreBelow h then h
      else h\<lparr>ignoreBelow := p, packetHistory := DeleteBelow (packetHistory h) p\<rparr>)"

text \<open>\<^verbatim>\<open>GetAckFrame\<close> at time \<open>now\<close>, with the packets recovered by error correction since the last time.\<close>

definition tracker_GetAckFrame ::
  "receivedPacketTracker \<Rightarrow> bool \<Rightarrow> Time \<Rightarrow> PacketNumber list \<Rightarrow> AckFrame option \<times> receivedPacketTracker" where
  "tracker_GetAckFrame h onlyIfQueued now recovered =
     (if \<not> hasNewAck h then (None, h)
      else if onlyIfQueued \<and> \<not> ackQueued h \<and> (IsZero (ackAlarm h) \<or> ackAlarm h > now) then (None, h)
      else let (rs, hist) = GetAckRanges (packetHistory h) recovered;
               ack = \<lparr>AckRanges = rs, DelayTime = max 0 (time_Sub now (largestObservedReceivedTime h)),
                      ECT0 = ect0 h, ECT1 = ect1 h, ECNCE = ecnce h\<rparr>
           in (Some ack, h\<lparr>packetHistory := hist, lastAck := Some ack, ackAlarm := 0, ackQueued := False, hasNewAck := False,
                 ackElicitingSinceLastAck := 0\<rparr>))"

definition tracker_GetAlarmTimeout :: "receivedPacketTracker \<Rightarrow> Time" where
  "tracker_GetAlarmTimeout h = ackAlarm h"

definition tracker_IsPotentiallyDuplicate :: "receivedPacketTracker \<Rightarrow> PacketNumber \<Rightarrow> bool" where
  "tracker_IsPotentiallyDuplicate h pn = history_IsPotentiallyDuplicate (packetHistory h) pn"

section \<open>The three packet number spaces\<close>

datatype EncryptionLevel = EncryptionInitial | EncryptionHandshake | Encryption0RTT | Encryption1RTT

text \<open>A tracker that was dropped is \<open>None\<close>.\<close>

record receivedPacketHandler =
  initialPackets :: "receivedPacketTracker option"
  handshakePackets :: "receivedPacketTracker option"
  appDataPackets :: receivedPacketTracker
  lowest1RTTPacket :: PacketNumber

definition newReceivedPacketHandler :: receivedPacketHandler where
  "newReceivedPacketHandler =
     \<lparr>initialPackets = Some newReceivedPacketTracker, handshakePackets = Some newReceivedPacketTracker,
      appDataPackets = newReceivedPacketTracker, lowest1RTTPacket = InvalidPacketNumber\<rparr>"

text \<open>
  \<open>lowest\<close> is the number \<^verbatim>\<open>GetLowestPacketNotConfirmedAcked\<close> of the sending side.  An error leaves the handler as it is.
\<close>

definition handler_ReceivedPacket ::
  "receivedPacketHandler \<Rightarrow> PacketNumber \<Rightarrow> PacketNumber \<Rightarrow> ECN \<Rightarrow> EncryptionLevel \<Rightarrow> Time \<Rightarrow> bool \<Rightarrow> receivedPacketHandler result" where
  "handler_ReceivedPacket h lowest pn ecn encLevel rcvTime shouldInstigateAck =
     (case encLevel of
        EncryptionInitial \<Rightarrow>
          (case initialPackets h of
             None \<Rightarrow> Inl NilDereference
           | Some t \<Rightarrow> bindE (tracker_ReceivedPacket t pn ecn rcvTime shouldInstigateAck) (\<lambda>t. Inr (h\<lparr>initialPackets := Some t\<rparr>)))
      | EncryptionHandshake \<Rightarrow>
          (case handshakePackets h of
             None \<Rightarrow> Inl NilDereference
           | Some t \<Rightarrow> bindE (tracker_ReceivedPacket t pn ecn rcvTime shouldInstigateAck) (\<lambda>t. Inr (h\<lparr>handshakePackets := Some t\<rparr>)))
      | Encryption0RTT \<Rightarrow>
          if lowest1RTTPacket h \<noteq> InvalidPacketNumber \<and> pn > lowest1RTTPacket h
          then Inl (Err ''received packet number on a 0-RTT packet after receiving on a 1-RTT packet'')
          else bindE (tracker_ReceivedPacket (appDataPackets h) pn ecn rcvTime shouldInstigateAck) (\<lambda>t. Inr (h\<lparr>appDataPackets := t\<rparr>))
      | Encryption1RTT \<Rightarrow>
          let h = (if lowest1RTTPacket h = InvalidPacketNumber \<or> pn < lowest1RTTPacket h then h\<lparr>lowest1RTTPacket := pn\<rparr> else h);
              t = IgnoreBelow (appDataPackets h) lowest
          in bindE (tracker_ReceivedPacket t pn ecn rcvTime shouldInstigateAck) (\<lambda>t. Inr (h\<lparr>appDataPackets := t\<rparr>)))"

definition handler_DropPackets :: "receivedPacketHandler \<Rightarrow> EncryptionLevel \<Rightarrow> receivedPacketHandler result" where
  "handler_DropPackets h encLevel =
     (case encLevel of
        EncryptionInitial \<Rightarrow> Inr (h\<lparr>initialPackets := None\<rparr>)
      | EncryptionHandshake \<Rightarrow> Inr (h\<lparr>handshakePackets := None\<rparr>)
      | Encryption0RTT \<Rightarrow> Inr h
      | Encryption1RTT \<Rightarrow> Inl (Panic ''Cannot drop keys for encryption level''))"

definition MinNonZeroTime :: "Time \<Rightarrow> Time \<Rightarrow> Time" where
  "MinNonZeroTime a b = (if IsZero a then b else if IsZero b then a else if a > b then b else a)"

definition handler_GetAlarmTimeout :: "receivedPacketHandler \<Rightarrow> Time" where
  "handler_GetAlarmTimeout h =
     (let initialAlarm = (case initialPackets h of None \<Rightarrow> 0 | Some t \<Rightarrow> tracker_GetAlarmTimeout t);
          handshakeAlarm = (case handshakePackets h of None \<Rightarrow> 0 | Some t \<Rightarrow> tracker_GetAlarmTimeout t);
          oneRTTAlarm = tracker_GetAlarmTimeout (appDataPackets h)
      in MinNonZeroTime (MinNonZeroTime initialAlarm handshakeAlarm) oneRTTAlarm)"

text \<open>The delay of Initial and Handshake acknowledgements is set to zero in the frame, which the tracker keeps as well.\<close>

definition zero_delay :: "AckFrame option \<times> receivedPacketTracker \<Rightarrow> AckFrame option \<times> receivedPacketTracker" where
  "zero_delay x =
     (case x of
        (Some ack, t) \<Rightarrow> let ack = ack\<lparr>DelayTime := 0\<rparr> in (Some ack, t\<lparr>lastAck := Some ack\<rparr>)
      | (None, t) \<Rightarrow> (None, t))"

definition handler_GetAckFrame ::
  "receivedPacketHandler \<Rightarrow> EncryptionLevel \<Rightarrow> bool \<Rightarrow> Time \<Rightarrow> PacketNumber list \<Rightarrow> AckFrame option \<times> receivedPacketHandler" where
  "handler_GetAckFrame h encLevel onlyIfQueued now recovered =
     (case encLevel of
        EncryptionInitial \<Rightarrow>
          (case initialPackets h of
             None \<Rightarrow> (None, h)
           | Some t \<Rightarrow> let (ack, t) = zero_delay (tracker_GetAckFrame t onlyIfQueued now recovered) in (ack, h\<lparr>initialPackets := Some t\<rparr>))
      | EncryptionHandshake \<Rightarrow>
          (case handshakePackets h of
             None \<Rightarrow> (None, h)
           | Some t \<Rightarrow> let (ack, t) = zero_delay (tracker_GetAckFrame t onlyIfQueued now recovered) in (ack, h\<lparr>handshakePackets := Some t\<rparr>))
      | Encryption1RTT \<Rightarrow>
          let (ack, t) = tracker_GetAckFrame (appDataPackets h) onlyIfQueued now recovered in (ack, h\<lparr>appDataPackets := t\<rparr>)
      | Encryption0RTT \<Rightarrow> (None, h))"

definition handler_IsPotentiallyDuplicate :: "receivedPacketHandler \<Rightarrow> PacketNumber \<Rightarrow> EncryptionLevel \<Rightarrow> bool result" where
  "handler_IsPotentiallyDuplicate h pn encLevel =
     (case encLevel of
        EncryptionInitial \<Rightarrow>
          (case initialPackets h of Some t \<Rightarrow> Inr (tracker_IsPotentiallyDuplicate t pn) | None \<Rightarrow> Inl (Panic ''unexpected encryption level''))
      | EncryptionHandshake \<Rightarrow>
          (case handshakePackets h of Some t \<Rightarrow> Inr (tracker_IsPotentiallyDuplicate t pn) | None \<Rightarrow> Inl (Panic ''unexpected encryption level''))
      | Encryption0RTT \<Rightarrow> Inr (tracker_IsPotentiallyDuplicate (appDataPackets h) pn)
      | Encryption1RTT \<Rightarrow> Inr (tracker_IsPotentiallyDuplicate (appDataPackets h) pn))"

section \<open>Runs of a tracker\<close>

text \<open>
  What happens to a tracker, together with the packets received or recovered so far: packets come in, the lower limit is
  raised to any number, ACK frames are made, with any packets recovered since the last one.  A step in which the code panics
  is not there.
\<close>

inductive ack_step :: "receivedPacketTracker \<times> PacketNumber set \<Rightarrow> receivedPacketTracker \<times> PacketNumber set \<Rightarrow> bool" where
  received: "tracker_ReceivedPacket h pn ecn t instigate = Inr h' \<Longrightarrow> 0 \<le> pn \<Longrightarrow> 0 < t \<Longrightarrow>
    ack_step (h, got) (h', insert pn got)"
| confirmed: "ack_step (h, got) (IgnoreBelow h p, got)"
| acked: "tracker_GetAckFrame h onlyIfQueued now recovered = (ack, h') \<Longrightarrow> ack_step (h, got) (h', got \<union> set recovered)"

definition tracker_inv :: "receivedPacketTracker \<times> PacketNumber set \<Rightarrow> bool" where
  "tracker_inv = (\<lambda>(h, got).
     descending (rev (ranges (packetHistory h))) \<and> deletedBelow (packetHistory h) = ignoreBelow h \<and>
     packets (ranges (packetHistory h)) \<subseteq> got \<and>
     (hasNewAck h \<longrightarrow> ackQueued h \<or> ackAlarm h \<noteq> 0) \<and>
     (ackQueued h \<or> lastAck h = None \<longrightarrow> ackAlarm h = 0) \<and> (ackElicitingSinceLastAck h \<ge> packetsBeforeAck \<longrightarrow> ackQueued h) \<and>
     0 \<le> maxAckDelay h \<and> (\<forall>ack. lastAck h = Some ack \<longrightarrow> ack_ranges_ok (AckRanges ack)))"

lemma tracker_inv_new: "tracker_inv (newReceivedPacketTracker, {})"
  by (simp add: tracker_inv_def newReceivedPacketTracker_def newReceivedPacketHistory_def packetsBeforeAck_def MaxAckDelay_def)

text \<open>Only an ACK frame without ranges makes the tests of the last ACK frame fail.\<close>

lemma isMissing_ok:
  assumes "\<forall>ack. lastAck h = Some ack \<longrightarrow> AckRanges ack \<noteq> [] \<and> ack_ranges_ok (AckRanges ack)"
  shows "isMissing h p = Inr (case lastAck h of None \<Rightarrow> False
    | Some ack \<Rightarrow> ignoreBelow h \<le> p \<and> p < Largest (AckRanges ack ! 0) \<and> p \<notin> acked (AckRanges ack))"
proof (cases "lastAck h")
  case (Some ack)
  then have ack: "AckRanges ack \<noteq> []" "ack_ranges_ok (AckRanges ack)" using assms by simp_all
  have la: "LargestAcked ack = Inr (Largest (AckRanges ack ! 0))" using ack(1) by (intro LargestAcked_ok) simp
  show ?thesis using Some AcksPacket_ok [OF ack] by (simp add: isMissing_def la)
qed (simp add: isMissing_def)

lemma hasNewMissing_returns: "(\<forall>ack. lastAck h = Some ack \<longrightarrow> AckRanges ack \<noteq> []) \<Longrightarrow> \<exists>b. hasNewMissingPackets h = Inr b"
  by (cases "lastAck h") (auto simp: hasNewMissingPackets_def LargestAcked_ok Let_def)

text \<open>What \<^verbatim>\<open>maybeQueueAck\<close> does once an ACK frame has been sent and none is queued.\<close>

lemma maybeQueueAck_later:
  fixes h :: receivedPacketTracker and missing :: bool and t :: Time
  assumes "lastAck h \<noteq> None" and "\<not> ackQueued h"
  defines "n \<equiv> ackElicitingSinceLastAck h + 1"
  defines "queued \<equiv> missing \<or> n \<ge> packetsBeforeAck"
  defines "alarm \<equiv> if n \<ge> packetsBeforeAck \<or> ackAlarm h \<noteq> 0 then ackAlarm h else t + maxAckDelay h"
  shows "maybeQueueAck h t missing = bindE (hasNewMissingPackets h) (\<lambda>b.
    Inr (h\<lparr>ackQueued := queued \<or> b, ackElicitingSinceLastAck := n, ackAlarm := (if queued \<or> b then 0 else alarm)\<rparr>))"
proof -
  define h1 where "h1 = h\<lparr>ackQueued := queued, ackElicitingSinceLastAck := n, ackAlarm := alarm\<rparr>"
  have "hasNewMissingPackets h1 = hasNewMissingPackets h"
    by (cases "lastAck h") (simp_all add: hasNewMissingPackets_def h1_def Let_def)
  moreover have "maybeQueueAck h t missing = bindE (hasNewMissingPackets h1) (\<lambda>missing.
      let h = (if missing then h1\<lparr>ackQueued := True\<rparr> else h1) in Inr (if ackQueued h then h\<lparr>ackAlarm := 0\<rparr> else h))"
    using assms(1,2) unfolding maybeQueueAck_def h1_def queued_def alarm_def n_def IsZero_def Let_def
    by (auto intro!: arg_cong2 [where f = bindE] arg_cong [where f = hasNewMissingPackets])
  ultimately show ?thesis by (cases "hasNewMissingPackets h") (simp_all add: h1_def Let_def)
qed

lemma maybeQueueAck_ok:
  assumes run: "maybeQueueAck h t missing = Inr h'"
    and t: "0 < t" and d: "0 \<le> maxAckDelay h" and q: "ackQueued h \<or> lastAck h = None \<longrightarrow> ackAlarm h = 0"
    and c: "ackElicitingSinceLastAck h \<ge> packetsBeforeAck \<longrightarrow> ackQueued h"
  shows "\<exists>queued n alarm. h' = h\<lparr>ackQueued := queued, ackElicitingSinceLastAck := n, ackAlarm := alarm\<rparr> \<and>
    (queued \<or> alarm \<noteq> 0) \<and> (queued \<longrightarrow> alarm = 0) \<and>
    (n \<ge> packetsBeforeAck \<longrightarrow> queued) \<and> (missing \<or> lastAck h = None \<longrightarrow> queued)"
proof (cases "lastAck h = None \<or> ackQueued h")
  case True
  then have "h' = h\<lparr>ackQueued := True\<rparr>" using run by (auto simp: maybeQueueAck_def split: if_splits)
  then show ?thesis
    using True q c by (intro exI [of _ True] exI [of _ "ackElicitingSinceLastAck h"] exI [of _ "ackAlarm h"]) auto
next
  case False
  then have "lastAck h \<noteq> None" "\<not> ackQueued h" by simp_all
  from run [unfolded maybeQueueAck_later [OF this]] obtain b where h': "h' = h\<lparr>
      ackQueued := (missing \<or> ackElicitingSinceLastAck h + 1 \<ge> packetsBeforeAck) \<or> b,
      ackElicitingSinceLastAck := ackElicitingSinceLastAck h + 1,
      ackAlarm := (if (missing \<or> ackElicitingSinceLastAck h + 1 \<ge> packetsBeforeAck) \<or> b then 0
        else if ackElicitingSinceLastAck h + 1 \<ge> packetsBeforeAck \<or> ackAlarm h \<noteq> 0 then ackAlarm h else t + maxAckDelay h)\<rparr>"
    by (auto simp: bindE_eq_Inr_iff)
  show ?thesis by (intro exI conjI, rule h') (use t d False in auto)
qed

lemma count_ECN_same [simp]:
  "packetHistory (count_ECN h ecn) = packetHistory h" "ignoreBelow (count_ECN h ecn) = ignoreBelow h"
  "lastAck (count_ECN h ecn) = lastAck h" "hasNewAck (count_ECN h ecn) = hasNewAck h" "ackQueued (count_ECN h ecn) = ackQueued h"
  "ackAlarm (count_ECN h ecn) = ackAlarm h" "ackElicitingSinceLastAck (count_ECN h ecn) = ackElicitingSinceLastAck h"
  "maxAckDelay (count_ECN h ecn) = maxAckDelay h"
  by (cases ecn; simp add: count_ECN_def)+

text \<open>The tracker between the entry into the history and the decision to queue an ACK frame.\<close>

definition noted :: "receivedPacketTracker \<Rightarrow> PacketNumber \<Rightarrow> Time \<Rightarrow> bool \<Rightarrow> receivedPacketTracker" where
  "noted h pn t instigate =
     (let h = (if pn \<ge> largestObserved h then h\<lparr>largestObserved := pn, largestObservedReceivedTime := t\<rparr> else h);
          (isNew, hist) = history_ReceivedPacket (packetHistory h) pn;
          h = h\<lparr>packetHistory := hist\<rparr>
      in if isNew \<and> instigate then h\<lparr>hasNewAck := True\<rparr> else h)"

lemma noted_same [simp]:
  "packetHistory (noted h pn t i) = snd (history_ReceivedPacket (packetHistory h) pn)" "ignoreBelow (noted h pn t i) = ignoreBelow h"
  "lastAck (noted h pn t i) = lastAck h" "ackQueued (noted h pn t i) = ackQueued h" "ackAlarm (noted h pn t i) = ackAlarm h"
  "ackElicitingSinceLastAck (noted h pn t i) = ackElicitingSinceLastAck h" "maxAckDelay (noted h pn t i) = maxAckDelay h"
  "hasNewAck (noted h pn t i) \<longleftrightarrow> hasNewAck h \<or> fst (history_ReceivedPacket (packetHistory h) pn) \<and> i"
  by (auto simp: noted_def Let_def split: prod.splits)

lemma tracker_ReceivedPacket_noted:
  "ignoreBelow h \<le> pn \<Longrightarrow> tracker_ReceivedPacket h pn ecn t instigate =
     bindE (isMissing h pn) (\<lambda>missing.
     bindE (if instigate then maybeQueueAck (noted h pn t instigate) t missing else Inr (noted h pn t instigate)) (\<lambda>h.
     Inr (count_ECN h ecn)))"
  by (cases "isMissing h pn"; cases instigate; cases "pn \<ge> largestObserved h"; cases "fst (history_ReceivedPacket (packetHistory h) pn)")
     (simp_all add: tracker_ReceivedPacket_def noted_def Let_def split_def)

lemma tracker_ReceivedPacket_ok:
  assumes inv: "tracker_inv (h, got)" and t: "0 < t" and run: "tracker_ReceivedPacket h pn ecn t instigate = Inr h'"
  shows "tracker_inv (h', insert pn got) \<and> ignoreBelow h' = ignoreBelow h \<and> lastAck h' = lastAck h \<and> (hasNewAck h \<longrightarrow> hasNewAck h') \<and>
    (instigate \<and> \<not> tracker_IsPotentiallyDuplicate h pn \<longrightarrow> hasNewAck h')"
proof (cases "pn < ignoreBelow h")
  case True
  then have "tracker_IsPotentiallyDuplicate h pn"
    using inv by (simp add: tracker_IsPotentiallyDuplicate_def history_IsPotentiallyDuplicate_def tracker_inv_def)
  then show ?thesis using True run inv by (auto simp: tracker_ReceivedPacket_def tracker_inv_def)
next
  case False
  let ?hist = "packetHistory h" and ?h1 = "noted h pn t instigate"
  have ord: "descending (rev (ranges ?hist))" and del: "deletedBelow ?hist = ignoreBelow h" using inv by (simp_all add: tracker_inv_def)
  note hist = history_ReceivedPacket_ordered [OF ord, of pn]
  from run [unfolded tracker_ReceivedPacket_noted [OF leI [OF False]]] obtain missing h2 where
    h2: "(if instigate then maybeQueueAck ?h1 t missing else Inr ?h1) = Inr h2" "h' = count_ECN h2 ecn" by (auto simp: bindE_eq_Inr_iff)
  show ?thesis
  proof (cases instigate)
    case no: False
    then have h': "h' = count_ECN ?h1 ecn" using h2 by simp
    have "packets (ranges (snd (history_ReceivedPacket ?hist pn))) \<subseteq> insert pn got" using hist(3) inv by (auto simp: tracker_inv_def)
    then show ?thesis using h' no inv hist(1,2) by (simp add: tracker_inv_def)
  next
    case True
    then have run2: "maybeQueueAck ?h1 t missing = Inr h2" using h2 by simp
    have "0 \<le> maxAckDelay ?h1" "ackQueued ?h1 \<or> lastAck ?h1 = None \<longrightarrow> ackAlarm ?h1 = 0"
      "ackElicitingSinceLastAck ?h1 \<ge> packetsBeforeAck \<longrightarrow> ackQueued ?h1" using inv by (simp_all add: tracker_inv_def)
    from maybeQueueAck_ok [OF run2 t this] obtain queued n alarm where
      q: "h2 = ?h1\<lparr>ackQueued := queued, ackElicitingSinceLastAck := n, ackAlarm := alarm\<rparr>"
        "queued \<or> alarm \<noteq> 0" "queued \<longrightarrow> alarm = 0" "n \<ge> packetsBeforeAck \<longrightarrow> queued" "missing \<or> lastAck ?h1 = None \<longrightarrow> queued"
      by (elim exE conjE)
    have "packets (ranges (snd (history_ReceivedPacket ?hist pn))) \<subseteq> insert pn got" using hist(3) inv by (auto simp: tracker_inv_def)
    then show ?thesis using q(2-) True inv hist(1,2,4) unfolding h2(2) q(1)
      by (simp add: tracker_inv_def tracker_IsPotentiallyDuplicate_def)
  qed
qed

lemma IgnoreBelow_ok:
  assumes "tracker_inv (h, got)"
  shows "tracker_inv (IgnoreBelow h p, got) \<and> ignoreBelow (IgnoreBelow h p) = max p (ignoreBelow h) \<and>
    packets (ranges (packetHistory (IgnoreBelow h p))) \<subseteq> packets (ranges (packetHistory h)) \<and>
    (ignoreBelow h < p \<longrightarrow> packets (ranges (packetHistory (IgnoreBelow h p))) = {x \<in> packets (ranges (packetHistory h)). p \<le> x})"
  using assms delete_below_ok [of "ranges (packetHistory h)" p] by (auto simp: IgnoreBelow_def DeleteBelow_def tracker_inv_def)

lemma IgnoreBelow_same [simp]:
  "lastAck (IgnoreBelow h p) = lastAck h" "hasNewAck (IgnoreBelow h p) = hasNewAck h" "ackQueued (IgnoreBelow h p) = ackQueued h"
  by (simp_all add: IgnoreBelow_def)

text \<open>An ACK frame covers what the history holds and what was recovered, in order.\<close>

lemma tracker_GetAckFrame_ok:
  assumes inv: "tracker_inv (h, got)" and ack: "tracker_GetAckFrame h onlyIfQueued now recovered = (ack, h')"
  shows "tracker_inv (h', got \<union> set recovered) \<and> ignoreBelow h' = ignoreBelow h \<and>
    (case ack of
       None \<Rightarrow> h' = h
     | Some a \<Rightarrow> hasNewAck h \<and> \<not> hasNewAck h' \<and> \<not> ackQueued h' \<and> lastAck h' = Some a \<and> ack_ranges_ok (AckRanges a) \<and>
         acked (AckRanges a) = packets (ranges (packetHistory h)) \<union> set recovered \<and>
         packets (ranges (packetHistory h')) = acked (AckRanges a))"
proof (cases "hasNewAck h \<and> \<not> (onlyIfQueued \<and> \<not> ackQueued h \<and> (IsZero (ackAlarm h) \<or> ackAlarm h > now))")
  case True
  let ?hist = "packetHistory h"
  have ord: "descending (rev (ranges ?hist))" using inv by (simp add: tracker_inv_def)
  obtain rs hist where g: "GetAckRanges ?hist recovered = (rs, hist)" by fastforce
  have rs: "ack_ranges_ok rs" "acked rs = packets (ranges ?hist) \<union> set recovered" "descending (rev (ranges hist))"
      "packets (ranges hist) = packets (ranges ?hist) \<union> set recovered" "deletedBelow hist = ignoreBelow h"
    using GetAckRanges_ordered [OF ord, of recovered] g inv by (simp_all add: tracker_inv_def)
  obtain a where a: "ack = Some a" "AckRanges a = rs" "h' = h\<lparr>packetHistory := hist, lastAck := Some a, ackAlarm := 0, ackQueued := False,
      hasNewAck := False, ackElicitingSinceLastAck := 0\<rparr>"
    using True ack g by (auto simp: tracker_GetAckFrame_def Let_def)
  have "tracker_inv (h', got \<union> set recovered)"
    unfolding tracker_inv_def a(3) prod.case using inv rs a(2)
    by (simp add: tracker_inv_def packetsBeforeAck_def le_supI1)
  then show ?thesis using a rs True by simp
next
  case False
  then have "ack = None" "h' = h" using ack by (auto simp: tracker_GetAckFrame_def split: if_splits)
  then show ?thesis using inv by (auto simp: tracker_inv_def)
qed

lemma ack_step_inv: "ack_step s s' \<Longrightarrow> tracker_inv s \<Longrightarrow> tracker_inv s'"
proof (induction rule: ack_step.induct)
  case (received h pn ecn t instigate h' got)
  then show ?case using tracker_ReceivedPacket_ok [of h got t pn ecn instigate h'] by auto
next
  case (confirmed h got p)
  then show ?case using IgnoreBelow_ok by blast
next
  case (acked h onlyIfQueued now recovered ack h' got)
  then show ?case using tracker_GetAckFrame_ok by blast
qed

lemma ack_steps_inv: "ack_step\<^sup>*\<^sup>* (newReceivedPacketTracker, {}) s \<Longrightarrow> tracker_inv s"
  by (induction rule: rtranclp_induct) (auto intro: tracker_inv_new ack_step_inv)

text \<open>What the tracker owes, it sends at the latest when the timer has run out.\<close>

lemma owed_ack_sent:
  assumes "tracker_inv (h, got)" and "hasNewAck h" and "ackAlarm h \<le> now"
  shows "\<exists>ack h'. tracker_GetAckFrame h True now recovered = (Some ack, h')"
  using assms by (auto simp: tracker_GetAckFrame_def tracker_inv_def IsZero_def Let_def split: prod.split)

section \<open>An ACK frame without ranges\<close>

text \<open>A packet that the last ACK frame reported missing queues the next one at once.\<close>

lemma missing_packet_queues:
  assumes inv: "tracker_inv (h, got)" and last: "lastAck h = Some a" "AckRanges a \<noteq> []" and q: "\<not> ackQueued h"
    and h: "packets (ranges (packetHistory h)) \<subseteq> acked (AckRanges a)"
    and p: "ignoreBelow h \<le> p" "p < Largest (AckRanges a ! 0)" "p \<notin> acked (AckRanges a)"
  shows "\<exists>h'. tracker_ReceivedPacket h p ecn t True = Inr h' \<and> hasNewAck h' \<and> ackQueued h' \<and> ignoreBelow h' = ignoreBelow h \<and>
    descending (rev (ranges (packetHistory h'))) \<and> deletedBelow (packetHistory h') = ignoreBelow h \<and>
    packets (ranges (packetHistory h')) \<subseteq> insert p (acked (AckRanges a))"
proof -
  let ?h1 = "noted h p t True"
  have ok: "ack_ranges_ok (AckRanges a)" and ord: "descending (rev (ranges (packetHistory h)))"
    and del: "deletedBelow (packetHistory h) = ignoreBelow h" using inv last by (simp_all add: tracker_inv_def)
  have m: "isMissing h p = Inr True" using isMissing_ok [of h p] last ok p by simp
  obtain b where b: "hasNewMissingPackets ?h1 = Inr b" using hasNewMissing_returns [of ?h1] last by auto
  have "lastAck ?h1 \<noteq> None" "\<not> ackQueued ?h1" using last q by simp_all
  from maybeQueueAck_later [OF this, of t True] b obtain n where
    "maybeQueueAck ?h1 t True = Inr (?h1\<lparr>ackQueued := True, ackElicitingSinceLastAck := n, ackAlarm := 0\<rparr>)" by simp
  then have run: "tracker_ReceivedPacket h p ecn t True =
      Inr (count_ECN (?h1\<lparr>ackQueued := True, ackElicitingSinceLastAck := n, ackAlarm := 0\<rparr>) ecn)"
    unfolding tracker_ReceivedPacket_noted [OF p(1)] m by simp
  note hist = history_ReceivedPacket_ordered [OF ord, of p]
  have "fst (history_ReceivedPacket (packetHistory h) p)" using hist p h del by auto
  with run hist h del show ?thesis by auto
qed

lemma acked_le_first: "ack_ranges_ok rs \<Longrightarrow> x \<in> acked rs \<Longrightarrow> x \<le> Largest (rs ! 0)"
proof (induction rs rule: ack_ranges_ok.induct)
  case (1 r r' rs)
  then have "x \<in> {Smallest r..Largest r} \<or> x \<in> acked (r' # rs)" by (auto simp: acked_def)
  then show ?case using 1 by auto
qed (auto simp: acked_def)

lemma descending_empty: "descending els \<Longrightarrow> packets els = {} \<Longrightarrow> els = []"
  using descending_some by blast

text \<open>When the limit is then raised above the last ACK frame, nothing is left to acknowledge, but the ACK frame stays queued.\<close>

lemma emptied_history:
  assumes "hasNewAck h" and "ackQueued h" and "descending (rev (ranges (packetHistory h)))"
    and "ignoreBelow h < l" and "deletedBelow (packetHistory h) \<le> l" and "\<forall>x \<in> packets (ranges (packetHistory h)). x < l" and "p < l"
  shows "tracker_ReceivedPacket (IgnoreBelow h l) p ecn t instigate = Inr (IgnoreBelow h l)"
    and "\<exists>a h'. tracker_GetAckFrame (IgnoreBelow h l) True now [] = (Some a, h') \<and> AckRanges a = []"
proof -
  have r: "ranges (packetHistory (IgnoreBelow h l)) = []"
  proof -
    have "descending (rev (delete_below l (ranges (packetHistory h))))" "packets (rev (delete_below l (ranges (packetHistory h)))) = {}"
      using delete_below_ok [OF assms(3), of l] assms(6) by auto
    from descending_empty [OF this] show ?thesis using assms(4,5) by (simp add: IgnoreBelow_def DeleteBelow_def)
  qed
  show "tracker_ReceivedPacket (IgnoreBelow h l) p ecn t instigate = Inr (IgnoreBelow h l)"
    using assms(4,7) by (simp add: tracker_ReceivedPacket_def IgnoreBelow_def)
  show "\<exists>a h'. tracker_GetAckFrame (IgnoreBelow h l) True now [] = (Some a, h') \<and> AckRanges a = []"
    using assms(1,2) r by (simp add: tracker_GetAckFrame_def GetAckRanges_def Let_def)
qed

lemma AckFrame_Length_empty: "AckRanges f = [] \<Longrightarrow> AckFrame_Length f = Inl IndexOutOfRange"
  by (simp add: AckFrame_Length_def LargestAcked_def go_index_def)

text \<open>The alarm of the handler is the earliest one that is set.\<close>

lemma MinNonZeroTime_ok:
  "MinNonZeroTime a b = (if {a, b} - {0} = {} then 0 else Min ({a, b} - {0}))"
  by (auto simp: MinNonZeroTime_def IsZero_def insert_Diff_if min_def)

lemma handler_alarm_ok:
  defines "alarms h \<equiv> ({ackAlarm (appDataPackets h)} \<union> (ackAlarm ` set_option (initialPackets h)) \<union> (ackAlarm ` set_option (handshakePackets h))) - {0}"
  shows "handler_GetAlarmTimeout h = (if alarms h = {} then 0 else Min (alarms h))"
  unfolding handler_GetAlarmTimeout_def alarms_def tracker_GetAlarmTimeout_def MinNonZeroTime_def IsZero_def Let_def
  by (cases "initialPackets h"; cases "handshakePackets h") (auto simp: insert_Diff_if min_def)

end
