(* ===== verification/Quic_Flow_Control.thy ===== *)
theory Quic_Flow_Control
  imports Quic_Ack_Tracker
begin

text \<open>
  Flow control of streams and of the connection (\<^verbatim>\<open>enhanced-quic/internal/flowcontrol\<close>).  The callbacks that queue a window update
  are a result of the operations; an operation of a stream returns the connection's controller with its own.  Float
  expressions with the constants 0.75 and 1.5 are exact for windows below \<open>2 ^ 51\<close> bytes and are written with integers; the comparison
  of the time of an epoch with the round-trip time is an argument.  Shown: the credit given is never taken back,
  the sender keeps within it, and between two sides that use these controllers there is no violation.
\<close>

record baseFlowController =
  bytesSent :: ByteCount
  sendWindow :: ByteCount
  lastBlockedAt :: ByteCount
  bytesRead :: ByteCount
  highestReceived :: ByteCount
  receiveWindow :: ByteCount
  receiveWindowSize :: ByteCount
  maxReceiveWindowSize :: ByteCount
  epochStartTime :: Time
  epochStartOffset :: ByteCount

text \<open>What the clock, the round-trip statistics and the comparison of an epoch with them say at one moment.\<close>

record reading =
  rd_now :: Time
  rd_rtt :: int
  rd_fast :: bool

definition sendWindowSize :: "baseFlowController \<Rightarrow> ByteCount" where
  "sendWindowSize c = (if bytesSent c > sendWindow c then 0 else sendWindow c - bytesSent c)"

definition IsNewlyBlocked :: "baseFlowController \<Rightarrow> bool \<times> ByteCount \<times> baseFlowController" where
  "IsNewlyBlocked c =
     (if sendWindowSize c \<noteq> 0 \<or> sendWindow c = lastBlockedAt c then (False, 0, c)
      else (True, sendWindow c, c\<lparr>lastBlockedAt := sendWindow c\<rparr>))"

definition base_AddBytesSent :: "baseFlowController \<Rightarrow> ByteCount \<Rightarrow> baseFlowController" where
  "base_AddBytesSent c n = c\<lparr>bytesSent := bytesSent c + n\<rparr>"

definition UpdateSendWindow :: "baseFlowController \<Rightarrow> ByteCount \<Rightarrow> baseFlowController" where
  "UpdateSendWindow c offset = (if offset > sendWindow c then c\<lparr>sendWindow := offset\<rparr> else c)"

definition startNewAutoTuningEpoch :: "baseFlowController \<Rightarrow> Time \<Rightarrow> baseFlowController" where
  "startNewAutoTuningEpoch c now = c\<lparr>epochStartTime := now, epochStartOffset := bytesRead c\<rparr>"

definition base_addBytesRead :: "baseFlowController \<Rightarrow> ByteCount \<Rightarrow> Time \<Rightarrow> baseFlowController" where
  "base_addBytesRead c n now =
     (let c = (if bytesRead c = 0 then startNewAutoTuningEpoch c now else c) in c\<lparr>bytesRead := bytesRead c + n\<rparr>)"

definition hasWindowUpdate :: "baseFlowController \<Rightarrow> bool" where
  "hasWindowUpdate c \<longleftrightarrow> receiveWindow c - bytesRead c \<le> receiveWindowSize c * 3 div 4"

definition maybeAdjustWindowSize :: "baseFlowController \<Rightarrow> reading \<Rightarrow> baseFlowController" where
  "maybeAdjustWindowSize c rd =
     (let bytesReadInEpoch = bytesRead c - epochStartOffset c in
      if bytesReadInEpoch \<le> receiveWindowSize c div 2 then c
      else if rd_rtt rd = 0 then c
      else let c = (if rd_fast rd then c\<lparr>receiveWindowSize := min (2 * receiveWindowSize c) (maxReceiveWindowSize c)\<rparr> else c)
           in startNewAutoTuningEpoch c (rd_now rd))"

definition base_getWindowUpdate :: "baseFlowController \<Rightarrow> reading \<Rightarrow> ByteCount \<times> baseFlowController" where
  "base_getWindowUpdate c rd =
     (if \<not> hasWindowUpdate c then (0, c)
      else let c = maybeAdjustWindowSize c rd; c = c\<lparr>receiveWindow := bytesRead c + receiveWindowSize c\<rparr>
           in (receiveWindow c, c))"

definition checkFlowControlViolation :: "baseFlowController \<Rightarrow> bool" where
  "checkFlowControlViolation c \<longleftrightarrow> highestReceived c > receiveWindow c"

section \<open>The connection\<close>

datatype transport_error = FlowControlError | FinalSizeError

type_synonym connectionFlowController = baseFlowController

definition NewConnectionFlowController :: "ByteCount \<Rightarrow> ByteCount \<Rightarrow> connectionFlowController" where
  "NewConnectionFlowController window maxWindow =
     \<lparr>bytesSent = 0, sendWindow = 0, lastBlockedAt = 0, bytesRead = 0, highestReceived = 0, receiveWindow = window,
      receiveWindowSize = window, maxReceiveWindowSize = maxWindow, epochStartTime = 0, epochStartOffset = 0\<rparr>"

definition conn_SendWindowSize :: "connectionFlowController \<Rightarrow> ByteCount" where
  "conn_SendWindowSize c = sendWindowSize c"

definition IncrementHighestReceived :: "connectionFlowController \<Rightarrow> ByteCount \<Rightarrow> transport_error option \<times> connectionFlowController" where
  "IncrementHighestReceived c increment =
     (let c = c\<lparr>highestReceived := highestReceived c + increment\<rparr>
      in (if checkFlowControlViolation c then Some FlowControlError else None, c))"

text \<open>The flag says that \<^verbatim>\<open>queueWindowUpdate\<close> is called.\<close>

definition conn_AddBytesRead :: "connectionFlowController \<Rightarrow> ByteCount \<Rightarrow> Time \<Rightarrow> bool \<times> connectionFlowController" where
  "conn_AddBytesRead c n now = (let c = base_addBytesRead c n now in (hasWindowUpdate c, c))"

definition conn_GetWindowUpdate :: "connectionFlowController \<Rightarrow> reading \<Rightarrow> ByteCount \<times> connectionFlowController" where
  "conn_GetWindowUpdate c rd = base_getWindowUpdate c rd"

definition EnsureMinimumWindowSize :: "connectionFlowController \<Rightarrow> ByteCount \<Rightarrow> Time \<Rightarrow> connectionFlowController" where
  "EnsureMinimumWindowSize c inc now =
     (if inc > receiveWindowSize c
      then startNewAutoTuningEpoch (c\<lparr>receiveWindowSize := min inc (maxReceiveWindowSize c)\<rparr>) now else c)"

definition conn_Reset :: "connectionFlowController \<Rightarrow> connectionFlowController result" where
  "conn_Reset c =
     (if bytesRead c > 0 \<or> highestReceived c > 0 \<or> \<not> IsZero (epochStartTime c)
      then Inl (Err ''flow controller reset after reading data'')
      else Inr (c\<lparr>bytesSent := 0, lastBlockedAt := 0\<rparr>))"

section \<open>A stream\<close>

record streamFlowController =
  fc_base :: baseFlowController
  fc_streamID :: StreamID
  fc_receivedFinalOffset :: bool

definition NewStreamFlowController :: "StreamID \<Rightarrow> ByteCount \<Rightarrow> ByteCount \<Rightarrow> ByteCount \<Rightarrow> streamFlowController" where
  "NewStreamFlowController streamID window maxWindow initialSendWindow =
     \<lparr>fc_base = \<lparr>bytesSent = 0, sendWindow = initialSendWindow, lastBlockedAt = 0, bytesRead = 0, highestReceived = 0,
        receiveWindow = window, receiveWindowSize = window, maxReceiveWindowSize = maxWindow, epochStartTime = 0, epochStartOffset = 0\<rparr>,
      fc_streamID = streamID, fc_receivedFinalOffset = False\<rparr>"

definition UpdateHighestReceived ::
  "streamFlowController \<Rightarrow> connectionFlowController \<Rightarrow> ByteCount \<Rightarrow> bool \<Rightarrow>
    transport_error option \<times> streamFlowController \<times> connectionFlowController" where
  "UpdateHighestReceived c conn offset final =
     (let highest = highestReceived (fc_base c) in
      if fc_receivedFinalOffset c \<and> final \<and> offset \<noteq> highest then (Some FinalSizeError, c, conn)
      else if fc_receivedFinalOffset c \<and> offset > highest then (Some FinalSizeError, c, conn)
      else let c = (if final then c\<lparr>fc_receivedFinalOffset := True\<rparr> else c) in
      if offset = highest then (None, c, conn)
      else if offset \<le> highest then (if final then (Some FinalSizeError, c, conn) else (None, c, conn))
      else let increment = offset - highest;
               c = c\<lparr>fc_base := (fc_base c)\<lparr>highestReceived := offset\<rparr>\<rparr> in
           if checkFlowControlViolation (fc_base c) then (Some FlowControlError, c, conn)
           else let (err, conn) = IncrementHighestReceived conn increment in (err, c, conn))"

definition shouldQueueWindowUpdate :: "streamFlowController \<Rightarrow> bool" where
  "shouldQueueWindowUpdate c \<longleftrightarrow> \<not> fc_receivedFinalOffset c \<and> hasWindowUpdate (fc_base c)"

text \<open>The flags say that a window update of the stream and of the connection is queued.\<close>

definition stream_AddBytesRead ::
  "streamFlowController \<Rightarrow> connectionFlowController \<Rightarrow> ByteCount \<Rightarrow> Time \<Rightarrow> bool \<times> bool \<times> streamFlowController \<times> connectionFlowController" where
  "stream_AddBytesRead c conn n now =
     (let c = c\<lparr>fc_base := base_addBytesRead (fc_base c) n now\<rparr>; (queueConn, conn) = conn_AddBytesRead conn n now
      in (shouldQueueWindowUpdate c, queueConn, c, conn))"

definition Abandon :: "streamFlowController \<Rightarrow> connectionFlowController \<Rightarrow> Time \<Rightarrow> bool \<times> connectionFlowController" where
  "Abandon c conn now =
     (let unread = highestReceived (fc_base c) - bytesRead (fc_base c)
      in if unread > 0 then conn_AddBytesRead conn unread now else (False, conn))"

definition stream_AddBytesSent ::
  "streamFlowController \<Rightarrow> connectionFlowController \<Rightarrow> ByteCount \<Rightarrow> streamFlowController \<times> connectionFlowController" where
  "stream_AddBytesSent c conn n = (c\<lparr>fc_base := base_AddBytesSent (fc_base c) n\<rparr>, base_AddBytesSent conn n)"

definition stream_SendWindowSize :: "streamFlowController \<Rightarrow> connectionFlowController \<Rightarrow> ByteCount" where
  "stream_SendWindowSize c conn = min (sendWindowSize (fc_base c)) (conn_SendWindowSize conn)"

definition stream_GetWindowUpdate ::
  "streamFlowController \<Rightarrow> connectionFlowController \<Rightarrow> reading \<Rightarrow> ByteCount \<times> streamFlowController \<times> connectionFlowController" where
  "stream_GetWindowUpdate c conn rd =
     (if fc_receivedFinalOffset c then (0, c, conn)
      else let oldWindowSize = receiveWindowSize (fc_base c);
               (offset, b) = base_getWindowUpdate (fc_base c) rd;
               conn = (if receiveWindowSize b > oldWindowSize
                       then EnsureMinimumWindowSize conn (receiveWindowSize b * 3 div 2) (rd_now rd) else conn)
           in (offset, c\<lparr>fc_base := b\<rparr>, conn))"

section \<open>Credit\<close>

text \<open>The size of the window stays between zero and its maximum.\<close>

definition window_ok :: "baseFlowController \<Rightarrow> bool" where
  "window_ok c \<longleftrightarrow> 0 \<le> receiveWindowSize c \<and> receiveWindowSize c \<le> maxReceiveWindowSize c"

lemma adjust_ok:
  "window_ok c \<Longrightarrow> window_ok (maybeAdjustWindowSize c rd) \<and> receiveWindowSize c \<le> receiveWindowSize (maybeAdjustWindowSize c rd) \<and>
   bytesRead (maybeAdjustWindowSize c rd) = bytesRead c \<and> highestReceived (maybeAdjustWindowSize c rd) = highestReceived c \<and>
   receiveWindow (maybeAdjustWindowSize c rd) = receiveWindow c \<and> bytesSent (maybeAdjustWindowSize c rd) = bytesSent c \<and>
   sendWindow (maybeAdjustWindowSize c rd) = sendWindow c \<and> lastBlockedAt (maybeAdjustWindowSize c rd) = lastBlockedAt c \<and>
   maxReceiveWindowSize (maybeAdjustWindowSize c rd) = maxReceiveWindowSize c"
  by (auto simp: maybeAdjustWindowSize_def window_ok_def startNewAutoTuningEpoch_def Let_def)

text \<open>A window update never takes credit back, and gives some when it is not zero.\<close>

lemma getWindowUpdate_ok:
  assumes "window_ok c" and "base_getWindowUpdate c rd = (offset, c')"
  shows "window_ok c' \<and> receiveWindow c \<le> receiveWindow c' \<and> bytesRead c' = bytesRead c \<and> highestReceived c' = highestReceived c \<and>
    bytesSent c' = bytesSent c \<and> sendWindow c' = sendWindow c \<and>
    (if hasWindowUpdate c then offset = receiveWindow c' \<and> offset = bytesRead c + receiveWindowSize c' \<and>
       (0 < receiveWindowSize c \<longrightarrow> receiveWindow c < offset) else offset = 0 \<and> c' = c)"
proof (cases "hasWindowUpdate c")
  case True
  define c1 where "c1 = maybeAdjustWindowSize c rd"
  note a = adjust_ok [OF assms(1), of rd, folded c1_def]
  have "receiveWindow c - bytesRead c \<le> receiveWindowSize c * 3 div 4" using True by (simp add: hasWindowUpdate_def)
  then have "receiveWindow c \<le> bytesRead c + receiveWindowSize c1" "0 < receiveWindowSize c \<longrightarrow> receiveWindow c < bytesRead c + receiveWindowSize c1"
    using a assms(1) by (auto simp: window_ok_def)
  moreover have "offset = bytesRead c + receiveWindowSize c1" "c' = c1\<lparr>receiveWindow := bytesRead c + receiveWindowSize c1\<rparr>"
    using assms(2) True a by (auto simp: base_getWindowUpdate_def Let_def c1_def [symmetric])
  ultimately show ?thesis using a True by (simp add: window_ok_def)
qed (use assms in \<open>simp add: base_getWindowUpdate_def\<close>)

lemma EnsureMinimum_ok:
  "window_ok c \<Longrightarrow> window_ok (EnsureMinimumWindowSize c inc now) \<and> receiveWindow (EnsureMinimumWindowSize c inc now) = receiveWindow c \<and>
   highestReceived (EnsureMinimumWindowSize c inc now) = highestReceived c \<and> bytesRead (EnsureMinimumWindowSize c inc now) = bytesRead c \<and>
   receiveWindowSize c \<le> receiveWindowSize (EnsureMinimumWindowSize c inc now)"
  by (auto simp: EnsureMinimumWindowSize_def window_ok_def startNewAutoTuningEpoch_def)

text \<open>For every window, the sender is told once that it is blocked.\<close>

lemma newly_blocked_once:
  assumes "IsNewlyBlocked c = (True, offset, c')"
  shows "offset = sendWindow c \<and> sendWindowSize c = 0 \<and> fst (IsNewlyBlocked c') = False \<and>
    (\<forall>n\<ge>0. fst (IsNewlyBlocked (base_AddBytesSent c' n)) = False)"
  using assms by (auto simp: IsNewlyBlocked_def sendWindowSize_def base_AddBytesSent_def split: if_splits)

section \<open>Two sides\<close>

text \<open>
  A sender and a receiver with the streams \<open>S\<close> open.  Frames and window updates that were sent may arrive at any time, in
  any order and again.  A frame is known by its stream, the offset of its end and the end flag.
\<close>

record flow_link =
  fl_sconn :: connectionFlowController
  fl_sstr :: "StreamID \<Rightarrow> streamFlowController"
  fl_rconn :: connectionFlowController
  fl_rstr :: "StreamID \<Rightarrow> streamFlowController"
  fl_windows :: "(StreamID option \<times> ByteCount) set"
  fl_frames :: "(StreamID \<times> ByteCount \<times> bool) set"
  fl_done :: "StreamID set"

inductive flow_step :: "StreamID set \<Rightarrow> flow_link \<Rightarrow> flow_link \<Rightarrow> bool" for S where
  send: "i \<in> S \<Longrightarrow> i \<notin> fl_done l \<Longrightarrow> 0 \<le> n \<Longrightarrow> n \<le> stream_SendWindowSize (fl_sstr l i) (fl_sconn l) \<Longrightarrow>
    stream_AddBytesSent (fl_sstr l i) (fl_sconn l) n = (c, conn) \<Longrightarrow>
    flow_step S l (l\<lparr>fl_sstr := (fl_sstr l)(i := c), fl_sconn := conn, fl_frames := insert (i, bytesSent (fc_base c), False) (fl_frames l)\<rparr>)"
| finish: "i \<in> S \<Longrightarrow>
    flow_step S l (l\<lparr>fl_frames := insert (i, bytesSent (fc_base (fl_sstr l i)), True) (fl_frames l), fl_done := insert i (fl_done l)\<rparr>)"
| deliver: "(i, offset, final) \<in> fl_frames l \<Longrightarrow>
    UpdateHighestReceived (fl_rstr l i) (fl_rconn l) offset final = (err, c, conn) \<Longrightarrow>
    flow_step S l (l\<lparr>fl_rstr := (fl_rstr l)(i := c), fl_rconn := conn\<rparr>)"
| read: "i \<in> S \<Longrightarrow> stream_AddBytesRead (fl_rstr l i) (fl_rconn l) n now = (q, q', c, conn) \<Longrightarrow>
    flow_step S l (l\<lparr>fl_rstr := (fl_rstr l)(i := c), fl_rconn := conn\<rparr>)"
| update_stream: "i \<in> S \<Longrightarrow> stream_GetWindowUpdate (fl_rstr l i) (fl_rconn l) rd = (w, c, conn) \<Longrightarrow>
    flow_step S l (l\<lparr>fl_rstr := (fl_rstr l)(i := c), fl_rconn := conn,
      fl_windows := (if w = 0 then fl_windows l else insert (Some i, w) (fl_windows l))\<rparr>)"
| update_conn: "conn_GetWindowUpdate (fl_rconn l) rd = (w, conn) \<Longrightarrow>
    flow_step S l (l\<lparr>fl_rconn := conn, fl_windows := (if w = 0 then fl_windows l else insert (None, w) (fl_windows l))\<rparr>)"
| window_stream: "(Some i, w) \<in> fl_windows l \<Longrightarrow>
    flow_step S l (l\<lparr>fl_sstr := (fl_sstr l)(i := (fl_sstr l i)\<lparr>fc_base := UpdateSendWindow (fc_base (fl_sstr l i)) w\<rparr>)\<rparr>)"
| window_conn: "(None, w) \<in> fl_windows l \<Longrightarrow>
    flow_step S l (l\<lparr>fl_sconn := UpdateSendWindow (fl_sconn l) w\<rparr>)"

text \<open>One stream: received at most what was sent, sent at most the window, and the window is credit the receiver gave.\<close>

definition stream_inv :: "flow_link \<Rightarrow> StreamID \<Rightarrow> bool" where
  "stream_inv l i \<longleftrightarrow>
     (let s = fc_base (fl_sstr l i); r = fc_base (fl_rstr l i) in
      0 \<le> highestReceived r \<and> highestReceived r \<le> bytesSent s \<and> bytesSent s \<le> sendWindow s \<and> sendWindow s \<le> receiveWindow r \<and> window_ok r \<and>
      (\<forall>w. (Some i, w) \<in> fl_windows l \<longrightarrow> w \<le> receiveWindow r) \<and>
      (\<forall>offset final. (i, offset, final) \<in> fl_frames l \<longrightarrow> offset \<le> bytesSent s \<and> (final \<longrightarrow> i \<in> fl_done l \<and> offset = bytesSent s)) \<and>
      (fc_receivedFinalOffset (fl_rstr l i) \<longrightarrow> i \<in> fl_done l \<and> highestReceived r = bytesSent s))"

definition link_inv :: "StreamID set \<Rightarrow> flow_link \<Rightarrow> bool" where
  "link_inv S l \<longleftrightarrow> finite S \<and> (\<forall>i \<in> S. stream_inv l i) \<and>
     (\<forall>i w. (Some i, w) \<in> fl_windows l \<longrightarrow> i \<in> S) \<and> (\<forall>i offset final. (i, offset, final) \<in> fl_frames l \<longrightarrow> i \<in> S) \<and>
     (\<forall>w. (None, w) \<in> fl_windows l \<longrightarrow> w \<le> receiveWindow (fl_rconn l)) \<and>
     bytesSent (fl_sconn l) = (\<Sum>i \<in> S. bytesSent (fc_base (fl_sstr l i))) \<and>
     highestReceived (fl_rconn l) = (\<Sum>i \<in> S. highestReceived (fc_base (fl_rstr l i))) \<and>
     bytesSent (fl_sconn l) \<le> sendWindow (fl_sconn l) \<and> sendWindow (fl_sconn l) \<le> receiveWindow (fl_rconn l) \<and> window_ok (fl_rconn l)"

lemma sum_fun_upd:
  fixes g :: "'a \<Rightarrow> int"
  assumes "finite S" and "i \<in> S"
  shows "(\<Sum>j \<in> S. g ((f(i := x)) j)) = (\<Sum>j \<in> S. g (f j)) + (g x - g (f i))"
proof -
  have "(\<Sum>j \<in> S. g ((f(i := x)) j)) = g x + (\<Sum>j \<in> S - {i}. g (f j))"
    using assms by (subst sum.remove [of S i]) (auto intro: sum.cong)
  moreover have "(\<Sum>j \<in> S. g (f j)) = g (f i) + (\<Sum>j \<in> S - {i}. g (f j))" using assms by (rule sum.remove)
  ultimately show ?thesis by simp
qed

lemma stream_invD:
  assumes "stream_inv l i"
  shows "0 \<le> highestReceived (fc_base (fl_rstr l i))" "highestReceived (fc_base (fl_rstr l i)) \<le> bytesSent (fc_base (fl_sstr l i))"
    "bytesSent (fc_base (fl_sstr l i)) \<le> sendWindow (fc_base (fl_sstr l i))"
    "sendWindow (fc_base (fl_sstr l i)) \<le> receiveWindow (fc_base (fl_rstr l i))" "window_ok (fc_base (fl_rstr l i))"
    "(Some i, w) \<in> fl_windows l \<Longrightarrow> w \<le> receiveWindow (fc_base (fl_rstr l i))"
    "(i, offset, final) \<in> fl_frames l \<Longrightarrow> offset \<le> bytesSent (fc_base (fl_sstr l i))"
    "(i, offset, True) \<in> fl_frames l \<Longrightarrow> i \<in> fl_done l \<and> offset = bytesSent (fc_base (fl_sstr l i))"
    "fc_receivedFinalOffset (fl_rstr l i) \<Longrightarrow> i \<in> fl_done l \<and> highestReceived (fc_base (fl_rstr l i)) = bytesSent (fc_base (fl_sstr l i))"
  using assms unfolding stream_inv_def Let_def by blast+

text \<open>Nothing that was sent within the credit is refused.\<close>

lemma deliver_accepted:
  assumes inv: "link_inv S l" and f: "(i, offset, final) \<in> fl_frames l"
    and u: "UpdateHighestReceived (fl_rstr l i) (fl_rconn l) offset final = (err, c, conn)"
  shows "err = None \<and> (let r = fc_base (fl_rstr l i); d = max 0 (offset - highestReceived r) in
    c = (fl_rstr l i)\<lparr>fc_base := r\<lparr>highestReceived := highestReceived r + d\<rparr>,
         fc_receivedFinalOffset := fc_receivedFinalOffset (fl_rstr l i) \<or> final\<rparr> \<and>
    conn = (fl_rconn l)\<lparr>highestReceived := highestReceived (fl_rconn l) + d\<rparr>)"
proof -
  define r where "r = fc_base (fl_rstr l i)"
  define d where "d = max 0 (offset - highestReceived r)"
  have i: "i \<in> S" "finite S" using inv f unfolding link_inv_def by blast+
  then have si: "stream_inv l i" using inv by (simp add: link_inv_def)
  note D = stream_invD [OF si, folded r_def]
  have o: "offset \<le> receiveWindow r" "offset \<le> bytesSent (fc_base (fl_sstr l i))" using D(3,4) D(7) [OF f] by linarith+
  have fin: "offset = bytesSent (fc_base (fl_sstr l i))" "highestReceived r \<le> offset" if final
    using D(2) D(8) [of offset] f that by auto
  note known = D(9)
  have "highestReceived (fl_rconn l) + d \<le> receiveWindow (fl_rconn l)"
  proof -
    let ?r' = "(fl_rstr l)(i := (fl_rstr l i)\<lparr>fc_base := r\<lparr>highestReceived := highestReceived r + d\<rparr>\<rparr>)"
    have "highestReceived (fl_rconn l) + d = (\<Sum>j \<in> S. highestReceived (fc_base (?r' j)))"
      using inv sum_fun_upd [OF i(2,1), of "\<lambda>x. highestReceived (fc_base x)" "fl_rstr l"] by (simp add: link_inv_def r_def)
    also have "\<dots> \<le> (\<Sum>j \<in> S. bytesSent (fc_base (fl_sstr l j)))"
    proof (rule sum_mono)
      fix j assume "j \<in> S"
      then have "highestReceived (fc_base (fl_rstr l j)) \<le> bytesSent (fc_base (fl_sstr l j))"
        using inv by (simp add: link_inv_def stream_inv_def Let_def)
      then show "highestReceived (fc_base (?r' j)) \<le> bytesSent (fc_base (fl_sstr l j))" using o by (auto simp: d_def r_def max_def)
    qed
    also have "\<dots> \<le> receiveWindow (fl_rconn l)" using inv by (simp add: link_inv_def)
    finally show ?thesis .
  qed
  then show ?thesis using u o fin known unfolding r_def [symmetric] d_def [symmetric]
    by (auto simp: UpdateHighestReceived_def IncrementHighestReceived_def checkFlowControlViolation_def Let_def r_def [symmetric] d_def
        split: if_splits)
qed

text \<open>A step at one stream: what has to be shown of the stream, of the connection and of the others.\<close>

lemma link_inv_stepI:
  assumes inv: "link_inv S l" and i: "i \<in> S" and str: "stream_inv l' i"
    and other: "\<And>j. j \<noteq> i \<Longrightarrow> stream_inv l j \<Longrightarrow> stream_inv l' j"
    and s: "fl_sstr l' = (fl_sstr l)(i := s')" "bytesSent (fl_sconn l') = bytesSent (fl_sconn l) + (bytesSent (fc_base s') - bytesSent (fc_base (fl_sstr l i)))"
    and r: "fl_rstr l' = (fl_rstr l)(i := r')"
      "highestReceived (fl_rconn l') = highestReceived (fl_rconn l) + (highestReceived (fc_base r') - highestReceived (fc_base (fl_rstr l i)))"
    and w: "\<forall>k w. (k, w) \<in> fl_windows l' \<longrightarrow> (k, w) \<in> fl_windows l \<or> k = Some i"
    and f: "\<forall>k x. (k, x) \<in> fl_frames l' \<longrightarrow> (k, x) \<in> fl_frames l \<or> k = i"
    and c: "bytesSent (fl_sconn l') \<le> sendWindow (fl_sconn l')" "sendWindow (fl_sconn l') \<le> receiveWindow (fl_rconn l')"
      "receiveWindow (fl_rconn l) \<le> receiveWindow (fl_rconn l')" "window_ok (fl_rconn l')"
  shows "link_inv S l'"
proof -
  have fin: "finite S" using inv by (simp add: link_inv_def)
  note sum = sum_fun_upd [OF fin i]
  have sums: "bytesSent (fl_sconn l') = (\<Sum>j \<in> S. bytesSent (fc_base (fl_sstr l' j)))"
      "highestReceived (fl_rconn l') = (\<Sum>j \<in> S. highestReceived (fc_base (fl_rstr l' j)))"
    using inv s(2) r(2) sum [of "\<lambda>x. bytesSent (fc_base x)" "fl_sstr l" s'] sum [of "\<lambda>x. highestReceived (fc_base x)" "fl_rstr l" r']
    unfolding s(1) r(1) link_inv_def by linarith+
  have "\<forall>j \<in> S. stream_inv l' j" using inv str other unfolding link_inv_def by metis
  moreover have "\<forall>k w. (Some k, w) \<in> fl_windows l' \<longrightarrow> k \<in> S" "\<forall>k offset final. (k, offset, final) \<in> fl_frames l' \<longrightarrow> k \<in> S"
    "\<forall>w. (None, w) \<in> fl_windows l' \<longrightarrow> w \<le> receiveWindow (fl_rconn l')"
    using inv w f i c(3) unfolding link_inv_def by (blast, blast, fastforce)
  ultimately show ?thesis using fin sums c unfolding link_inv_def by blast
qed

lemma send_ok:
  assumes inv: "link_inv S l" and i: "i \<in> S" "i \<notin> fl_done l" and n: "0 \<le> n" "n \<le> stream_SendWindowSize (fl_sstr l i) (fl_sconn l)"
    and c: "stream_AddBytesSent (fl_sstr l i) (fl_sconn l) n = (c, conn)"
  shows "link_inv S (l\<lparr>fl_sstr := (fl_sstr l)(i := c), fl_sconn := conn, fl_frames := insert (i, bytesSent (fc_base c), False) (fl_frames l)\<rparr>)"
    (is "link_inv S ?l")
proof (rule link_inv_stepI [OF inv i(1), where s' = c and r' = "fl_rstr l i"])
  have si: "stream_inv l i" using inv i by (simp add: link_inv_def)
  have c_eq: "c = (fl_sstr l i)\<lparr>fc_base := base_AddBytesSent (fc_base (fl_sstr l i)) n\<rparr>" "conn = base_AddBytesSent (fl_sconn l) n"
    using c by (simp_all add: stream_AddBytesSent_def)
  have sent: "bytesSent (fc_base c) = bytesSent (fc_base (fl_sstr l i)) + n" "sendWindow (fc_base c) = sendWindow (fc_base (fl_sstr l i))"
    "bytesSent conn = bytesSent (fl_sconn l) + n" "sendWindow conn = sendWindow (fl_sconn l)"
    by (simp_all add: c_eq base_AddBytesSent_def)
  have room: "bytesSent (fc_base c) \<le> sendWindow (fc_base c)" "bytesSent conn \<le> sendWindow conn"
    using n si inv unfolding sent link_inv_def stream_inv_def Let_def
    by (auto simp: stream_SendWindowSize_def conn_SendWindowSize_def sendWindowSize_def split: if_splits)
  have nf: "(i, offset, True) \<notin> fl_frames l" "\<not> fc_receivedFinalOffset (fl_rstr l i)" for offset
    using si i(2) by (auto simp: stream_inv_def Let_def)
  show "stream_inv ?l i" using si n room nf sent unfolding stream_inv_def Let_def by fastforce
  show "stream_inv ?l j" if "j \<noteq> i" "stream_inv l j" for j using that by (simp add: stream_inv_def)
  show "bytesSent (fl_sconn ?l) \<le> sendWindow (fl_sconn ?l)" using room by simp
  show "sendWindow (fl_sconn ?l) \<le> receiveWindow (fl_rconn ?l)" "window_ok (fl_rconn ?l)"
    using inv sent by (simp_all add: link_inv_def)
qed (use c in \<open>auto simp: stream_AddBytesSent_def base_AddBytesSent_def\<close>)

lemma deliver_ok:
  assumes inv: "link_inv S l" and f: "(i, offset, final) \<in> fl_frames l"
    and u: "UpdateHighestReceived (fl_rstr l i) (fl_rconn l) offset final = (err, c, conn)"
  shows "link_inv S (l\<lparr>fl_rstr := (fl_rstr l)(i := c), fl_rconn := conn\<rparr>)" (is "link_inv S ?l")
proof -
  have i: "i \<in> S" using inv f unfolding link_inv_def by blast
  then have si: "stream_inv l i" using inv by (simp add: link_inv_def)
  note D = stream_invD [OF si]
  define r where "r = fc_base (fl_rstr l i)"
  define d where "d = max 0 (offset - highestReceived r)"
  have c: "c = (fl_rstr l i)\<lparr>fc_base := r\<lparr>highestReceived := highestReceived r + d\<rparr>,
      fc_receivedFinalOffset := fc_receivedFinalOffset (fl_rstr l i) \<or> final\<rparr>"
    and conn: "conn = (fl_rconn l)\<lparr>highestReceived := highestReceived (fl_rconn l) + d\<rparr>"
    using deliver_accepted [OF inv f u] by (simp_all add: Let_def r_def d_def)
  have le: "highestReceived r + d \<le> bytesSent (fc_base (fl_sstr l i))" "0 \<le> highestReceived r + d"
    using D(1,2) D(7) [OF f] by (auto simp: r_def d_def max_def)
  have fin: "i \<in> fl_done l \<and> highestReceived r + d = bytesSent (fc_base (fl_sstr l i))" if "fc_receivedFinalOffset (fl_rstr l i) \<or> final"
    using that D(1,2,9) D(7,8) [of offset] f le(1) by (auto simp: r_def d_def max_def)
  have rest: "stream_inv ?l i"
    using si le fin unfolding stream_inv_def Let_def by (simp add: c window_ok_def r_def)
  show ?thesis
  proof (rule link_inv_stepI [OF inv i rest, where s' = "fl_sstr l i" and r' = c])
    show "stream_inv ?l j" if "j \<noteq> i" "stream_inv l j" for j using that by (simp add: stream_inv_def)
  qed (use inv in \<open>simp_all add: c conn r_def link_inv_def window_ok_def\<close>)
qed

lemma read_ok:
  assumes inv: "link_inv S l" and i: "i \<in> S" and c: "stream_AddBytesRead (fl_rstr l i) (fl_rconn l) n now = (q, q', c, conn)"
  shows "link_inv S (l\<lparr>fl_rstr := (fl_rstr l)(i := c), fl_rconn := conn\<rparr>)" (is "link_inv S ?l")
proof -
  have same: "highestReceived (base_addBytesRead b n now) = highestReceived b" "receiveWindow (base_addBytesRead b n now) = receiveWindow b"
    "window_ok (base_addBytesRead b n now) = window_ok b" for b
    by (auto simp: base_addBytesRead_def startNewAutoTuningEpoch_def window_ok_def Let_def)
  have eq: "c = (fl_rstr l i)\<lparr>fc_base := base_addBytesRead (fc_base (fl_rstr l i)) n now\<rparr>" "conn = base_addBytesRead (fl_rconn l) n now"
    using c by (simp_all add: stream_AddBytesRead_def conn_AddBytesRead_def Let_def)
  have "stream_inv l i" using inv i by (simp add: link_inv_def)
  then have rest: "stream_inv ?l i" by (simp add: stream_inv_def eq same Let_def)
  show ?thesis
  proof (rule link_inv_stepI [OF inv i rest, where s' = "fl_sstr l i" and r' = c])
    show "stream_inv ?l j" if "j \<noteq> i" "stream_inv l j" for j using that by (simp add: stream_inv_def)
  qed (use inv in \<open>simp_all add: eq same link_inv_def\<close>)
qed

lemma update_stream_ok:
  assumes inv: "link_inv S l" and i: "i \<in> S" and c: "stream_GetWindowUpdate (fl_rstr l i) (fl_rconn l) rd = (w, c, conn)"
  shows "link_inv S (l\<lparr>fl_rstr := (fl_rstr l)(i := c), fl_rconn := conn,
    fl_windows := (if w = 0 then fl_windows l else insert (Some i, w) (fl_windows l))\<rparr>)" (is "link_inv S ?l")
proof (cases "fc_receivedFinalOffset (fl_rstr l i)")
  case True
  then have "w = 0" "c = fl_rstr l i" "conn = fl_rconn l" using c by (simp_all add: stream_GetWindowUpdate_def)
  then have "?l = l" by simp
  then show ?thesis using inv by simp
next
  case False
  have si: "stream_inv l i" and ok: "window_ok (fl_rconn l)" using inv i by (simp_all add: link_inv_def)
  obtain b where b: "base_getWindowUpdate (fc_base (fl_rstr l i)) rd = (w, b)" "c = (fl_rstr l i)\<lparr>fc_base := b\<rparr>"
    using c False by (auto simp: stream_GetWindowUpdate_def Let_def split: prod.splits)
  have conn: "conn = fl_rconn l \<or> conn = EnsureMinimumWindowSize (fl_rconn l) (receiveWindowSize b * 3 div 2) (rd_now rd)"
    using c False b by (auto simp: stream_GetWindowUpdate_def Let_def)
  then have same: "receiveWindow conn = receiveWindow (fl_rconn l)" "highestReceived conn = highestReceived (fl_rconn l)" "window_ok conn"
    using ok EnsureMinimum_ok [OF ok] by auto
  note D = stream_invD [OF si]
  have g: "window_ok b" "receiveWindow (fc_base (fl_rstr l i)) \<le> receiveWindow b" "highestReceived b = highestReceived (fc_base (fl_rstr l i))"
      "w \<noteq> 0 \<longrightarrow> w = receiveWindow b"
    using getWindowUpdate_ok [OF D(5) b(1)] by (auto split: if_splits)
  have rest: "stream_inv ?l i" using si g unfolding stream_inv_def Let_def by (auto simp: b(2))
  show ?thesis
  proof (rule link_inv_stepI [OF inv i rest, where s' = "fl_sstr l i" and r' = c])
    show "stream_inv ?l j" if "j \<noteq> i" "stream_inv l j" for j using that by (auto simp: stream_inv_def)
  qed (use inv g same b(2) in \<open>auto simp: link_inv_def\<close>)
qed

lemma finish_ok:
  assumes inv: "link_inv S l" and i: "i \<in> S"
  shows "link_inv S (l\<lparr>fl_frames := insert (i, bytesSent (fc_base (fl_sstr l i)), True) (fl_frames l), fl_done := insert i (fl_done l)\<rparr>)"
    (is "link_inv S ?l")
proof (rule link_inv_stepI [OF inv i, where s' = "fl_sstr l i" and r' = "fl_rstr l i"])
  have "stream_inv l i" using inv i by (simp add: link_inv_def)
  then show "stream_inv ?l i" by (auto simp: stream_inv_def Let_def)
  show "stream_inv ?l j" if "j \<noteq> i" "stream_inv l j" for j using that by (auto simp: stream_inv_def Let_def)
qed (use inv in \<open>auto simp: link_inv_def\<close>)

lemma window_stream_ok:
  assumes inv: "link_inv S l" and w: "(Some i, w) \<in> fl_windows l"
  shows "link_inv S (l\<lparr>fl_sstr := (fl_sstr l)(i := (fl_sstr l i)\<lparr>fc_base := UpdateSendWindow (fc_base (fl_sstr l i)) w\<rparr>)\<rparr>)"
    (is "link_inv S ?l")
proof -
  have i: "i \<in> S" using inv w unfolding link_inv_def by blast
  then have si: "stream_inv l i" using inv by (simp add: link_inv_def)
  have same: "bytesSent (UpdateSendWindow c w) = bytesSent c" "sendWindow c \<le> sendWindow (UpdateSendWindow c w)"
    "sendWindow (UpdateSendWindow c w) \<le> max (sendWindow c) w" for c by (simp_all add: UpdateSendWindow_def)
  have "sendWindow (UpdateSendWindow (fc_base (fl_sstr l i)) w) \<le> receiveWindow (fc_base (fl_rstr l i))"
    using same(3) [of "fc_base (fl_sstr l i)"] stream_invD(4) [OF si] stream_invD(6) [OF si w] by linarith
  moreover have "bytesSent (fc_base (fl_sstr l i)) \<le> sendWindow (UpdateSendWindow (fc_base (fl_sstr l i)) w)"
    using same(2) stream_invD(3) [OF si] by (rule order_trans [rotated])
  ultimately have rest: "stream_inv ?l i" using si same(1) unfolding stream_inv_def Let_def by simp
  show ?thesis
  proof (rule link_inv_stepI [OF inv i rest, where s' = "(fl_sstr l i)\<lparr>fc_base := UpdateSendWindow (fc_base (fl_sstr l i)) w\<rparr>"
        and r' = "fl_rstr l i"])
    show "stream_inv ?l j" if "j \<noteq> i" "stream_inv l j" for j using that by (simp add: stream_inv_def)
  qed (use inv same(1) in \<open>auto simp: link_inv_def\<close>)
qed

lemma flow_step_inv: "flow_step S l l' \<Longrightarrow> link_inv S l \<Longrightarrow> link_inv S l'"
proof (induction rule: flow_step.induct)
  case (send i l n c conn)
  then show ?case by (intro send_ok) simp_all
next
  case (finish i l)
  then show ?case by (intro finish_ok)
next
  case (deliver i offset final l err c conn)
  then show ?case by (intro deliver_ok)
next
  case (read i l n now q q' c conn)
  then show ?case by (intro read_ok)
next
  case (update_stream i l rd w c conn)
  then show ?case by (intro update_stream_ok)
next
  case (update_conn l rd w conn)
  have ok: "window_ok (fl_rconn l)" using update_conn.prems by (simp add: link_inv_def)
  have g: "window_ok conn" "receiveWindow (fl_rconn l) \<le> receiveWindow conn" "highestReceived conn = highestReceived (fl_rconn l)"
      "w \<noteq> 0 \<longrightarrow> w = receiveWindow conn"
    using getWindowUpdate_ok [OF ok update_conn.hyps [unfolded conn_GetWindowUpdate_def]] by (auto split: if_splits)
  have "stream_inv (l\<lparr>fl_rconn := conn, fl_windows := (if w = 0 then fl_windows l else insert (None, w) (fl_windows l))\<rparr>) i = stream_inv l i" for i
    by (simp add: stream_inv_def)
  then show ?case using update_conn.prems g unfolding link_inv_def by (auto intro: order_trans)
next
  case (window_stream i w l)
  then show ?case by (intro window_stream_ok)
next
  case (window_conn w l)
  have "stream_inv (l\<lparr>fl_sconn := UpdateSendWindow (fl_sconn l) w\<rparr>) i = stream_inv l i" for i by (simp add: stream_inv_def)
  then show ?case using window_conn unfolding link_inv_def by (auto simp: UpdateSendWindow_def)
qed

lemma flow_steps_inv: "(flow_step S)\<^sup>*\<^sup>* l l' \<Longrightarrow> link_inv S l \<Longrightarrow> link_inv S l'"
  by (induction rule: rtranclp_induct) (auto intro: flow_step_inv)

text \<open>The start: windows agreed on in the handshake.\<close>

definition new_link :: "ByteCount \<Rightarrow> ByteCount \<Rightarrow> ByteCount \<Rightarrow> ByteCount \<Rightarrow> flow_link" where
  "new_link window maxWindow connWindow maxConnWindow =
     \<lparr>fl_sconn = UpdateSendWindow (NewConnectionFlowController 0 0) connWindow,
      fl_sstr = (\<lambda>i. NewStreamFlowController i 0 0 window),
      fl_rconn = NewConnectionFlowController connWindow maxConnWindow,
      fl_rstr = (\<lambda>i. NewStreamFlowController i window maxWindow 0),
      fl_windows = {}, fl_frames = {}, fl_done = {}\<rparr>"

lemma new_link_inv:
  assumes "finite S" and "0 \<le> window" and "window \<le> maxWindow" and "0 \<le> connWindow" and "connWindow \<le> maxConnWindow"
  shows "link_inv S (new_link window maxWindow connWindow maxConnWindow)"
  using assms by (simp add: link_inv_def stream_inv_def new_link_def NewConnectionFlowController_def NewStreamFlowController_def
      UpdateSendWindow_def window_ok_def Let_def)

end
