(* ===== verification/Quic_Frame_Parser.thy ===== *)
theory Quic_Frame_Parser
  imports Quic_Data_Frames Quic_Ack_Tracker
begin

unbundle bit_operations_syntax

text \<open>
  The frame parser (\<^verbatim>\<open>enhanced-quic/internal/wire/frame_parser.go\<close>) and the loop over the payload of a packet in
  \<^verbatim>\<open>handleUnpackedPacket\<close> of \<^verbatim>\<open>session.go\<close>.  The interface \<^verbatim>\<open>Frame\<close> is the datatype \<open>Frame\<close>.  The transport error that wraps the error of
  a frame is that error.  Shown: parsing ends for every payload, and a payload written from frames and padding gives what the wire
  keeps of these frames (\<open>wire_image\<close>).
\<close>

datatype Frame =
    FPing PingFrame
  | FAck AckFrame
  | FResetStream ResetStreamFrame
  | FStopSending StopSendingFrame
  | FCrypto CryptoFrame
  | FNewToken NewTokenFrame
  | FStream StreamFrame
  | FMaxData MaxDataFrame
  | FMaxStreamData MaxStreamDataFrame
  | FMaxStreams MaxStreamsFrame
  | FDataBlocked DataBlockedFrame
  | FStreamDataBlocked StreamDataBlockedFrame
  | FStreamsBlocked StreamsBlockedFrame
  | FNewConnectionID NewConnectionIDFrame
  | FRetireConnectionID RetireConnectionIDFrame
  | FPathChallenge PathChallengeFrame
  | FPathResponse PathResponseFrame
  | FConnectionClose ConnectionCloseFrame
  | FHandshakeDone HandshakeDoneFrame
  | FFec FecFrame
  | FDatagram DatagramFrame

record frameParser =
  ackDelayExponent :: u8
  supportsDatagrams :: bool

definition NewFrameParser :: "bool \<Rightarrow> frameParser" where
  "NewFrameParser datagrams = \<lparr>ackDelayExponent = 0, supportsDatagrams = datagrams\<rparr>"

definition SetAckDelayExponent :: "frameParser \<Rightarrow> u8 \<Rightarrow> frameParser" where
  "SetAckDelayExponent p exponent = p\<lparr>ackDelayExponent := exponent\<rparr>"

definition DefaultAckDelayExponent :: u8 where
  "DefaultAckDelayExponent = 3"

definition isAllowedAtEncLevel :: "Frame \<Rightarrow> EncryptionLevel \<Rightarrow> bool" where
  "isAllowedAtEncLevel f encLevel =
     (case encLevel of
        EncryptionInitial \<Rightarrow> (case f of FCrypto _ \<Rightarrow> True | FAck _ \<Rightarrow> True | FConnectionClose _ \<Rightarrow> True | FPing _ \<Rightarrow> True | _ \<Rightarrow> False)
      | EncryptionHandshake \<Rightarrow> (case f of FCrypto _ \<Rightarrow> True | FAck _ \<Rightarrow> True | FConnectionClose _ \<Rightarrow> True | FPing _ \<Rightarrow> True | _ \<Rightarrow> False)
      | Encryption0RTT \<Rightarrow> (case f of FCrypto _ \<Rightarrow> False | FAck _ \<Rightarrow> False | FConnectionClose _ \<Rightarrow> False | FNewToken _ \<Rightarrow> False
          | FPathResponse _ \<Rightarrow> False | FRetireConnectionID _ \<Rightarrow> False | _ \<Rightarrow> True)
      | Encryption1RTT \<Rightarrow> True)"

text \<open>A parsed frame as a \<open>Frame\<close>.\<close>

definition as_frame :: "('f \<Rightarrow> Frame) \<Rightarrow> ('f \<times> bytes) result \<Rightarrow> (Frame \<times> bytes) result" where
  "as_frame c m = bindE m (\<lambda>(f, r). Inr (c f, r))"

definition parse_by_type :: "frameParser \<Rightarrow> bytes \<Rightarrow> u8 \<Rightarrow> EncryptionLevel \<Rightarrow> (Frame \<times> bytes) result" where
  "parse_by_type p r typeByte encLevel =
     (if typeByte AND 0xf8 = 0x8 then as_frame FStream (parseStreamFrame r)
      else if typeByte = 0x1 then as_frame FPing (parsePingFrame r)
      else if typeByte = 0x2 \<or> typeByte = 0x3
      then as_frame FAck (parseAckFrame (unat (if encLevel \<noteq> Encryption1RTT then DefaultAckDelayExponent else ackDelayExponent p)) r)
      else if typeByte = 0x4 then as_frame FResetStream (parseResetStreamFrame r)
      else if typeByte = 0x5 then as_frame FStopSending (parseStopSendingFrame r)
      else if typeByte = 0x6 then as_frame FCrypto (parseCryptoFrame r)
      else if typeByte = 0x7 then as_frame FNewToken (parseNewTokenFrame r)
      else if typeByte = 0x10 then as_frame FMaxData (parseMaxDataFrame r)
      else if typeByte = 0x11 then as_frame FMaxStreamData (parseMaxStreamDataFrame r)
      else if typeByte = 0x12 \<or> typeByte = 0x13 then as_frame FMaxStreams (parseMaxStreamsFrame r)
      else if typeByte = 0x14 then as_frame FDataBlocked (parseDataBlockedFrame r)
      else if typeByte = 0x15 then as_frame FStreamDataBlocked (parseStreamDataBlockedFrame r)
      else if typeByte = 0x16 \<or> typeByte = 0x17 then as_frame FStreamsBlocked (parseStreamsBlockedFrame r)
      else if typeByte = 0x18 then as_frame FNewConnectionID (parseNewConnectionIDFrame r)
      else if typeByte = 0x19 then as_frame FRetireConnectionID (parseRetireConnectionIDFrame r)
      else if typeByte = 0x1a then as_frame FPathChallenge (parsePathChallengeFrame r)
      else if typeByte = 0x1b then as_frame FPathResponse (parsePathResponseFrame r)
      else if typeByte = 0x1c \<or> typeByte = 0x1d then as_frame FConnectionClose (parseConnectionCloseFrame r)
      else if typeByte = 0x1e then as_frame FHandshakeDone (parseHandshakeDoneFrame r)
      else if typeByte = 0x20 then as_frame FFec (parseFecFrame r)
      else if (typeByte = 0x30 \<or> typeByte = 0x31) \<and> supportsDatagrams p then as_frame FDatagram (parseDatagramFrame r)
      else Inl (Err ''unknown frame type''))"

definition parseFrame :: "frameParser \<Rightarrow> bytes \<Rightarrow> u8 \<Rightarrow> EncryptionLevel \<Rightarrow> (Frame \<times> bytes) result" where
  "parseFrame p r typeByte encLevel =
     bindE (parse_by_type p r typeByte encLevel) (\<lambda>(frame, r).
     if \<not> isAllowedAtEncLevel frame encLevel then Inl (Err ''frame not allowed at encryption level'') else Inr (frame, r))"

fun ParseNext :: "frameParser \<Rightarrow> bytes \<Rightarrow> EncryptionLevel \<Rightarrow> (Frame option \<times> bytes) result" where
  "ParseNext p [] encLevel = Inr (None, [])"
| "ParseNext p (typeByte # r) encLevel =
     (if typeByte = 0x0 then ParseNext p r encLevel
      else bindE (parseFrame p (typeByte # r) typeByte encLevel) (\<lambda>(f, r). Inr (Some f, r)))"

definition IsFrameAckEliciting :: "Frame \<Rightarrow> bool" where
  "IsFrameAckEliciting f = (case f of FAck _ \<Rightarrow> False | FConnectionClose _ \<Rightarrow> False | FFec _ \<Rightarrow> False | _ \<Rightarrow> True)"

section \<open>Consumption\<close>

text \<open>A reader that takes at least one byte whenever it succeeds.\<close>

definition consuming :: "'a reader \<Rightarrow> bool" where
  "consuming f \<longleftrightarrow> (\<forall>r x r'. f r = Inr (x, r') \<longrightarrow> length r' < length r)"

definition shrinking :: "'a reader \<Rightarrow> bool" where
  "shrinking f \<longleftrightarrow> (\<forall>r x r'. f r = Inr (x, r') \<longrightarrow> length r' \<le> length r)"

named_theorems shrink \<open>readers that do not grow\<close>

lemma consuming_ReadByte: "consuming ReadByte"
  by (auto simp: consuming_def ReadByte_eq_Inr_iff)

lemma shrinking_bind [shrink]:
  "shrinking f \<Longrightarrow> (\<And>x. shrinking (g x)) \<Longrightarrow> shrinking (\<lambda>r. bindE (f r) (\<lambda>(x, r). g x r))"
  by (fastforce simp: shrinking_def bindE_eq_Inr_iff)

lemma consuming_bind:
  "consuming f \<Longrightarrow> (\<And>x. shrinking (g x)) \<Longrightarrow> consuming (\<lambda>r. bindE (f r) (\<lambda>(x, r). g x r))"
  by (fastforce simp: shrinking_def consuming_def bindE_eq_Inr_iff)

lemma shrinking_return [shrink]: "shrinking (\<lambda>r. Inr (h r, r))" "shrinking (\<lambda>r. Inl e)"
  by (simp_all add: shrinking_def)

lemma shrinking_if [shrink]: "shrinking f \<Longrightarrow> shrinking g \<Longrightarrow> shrinking (\<lambda>r. if P r then f r else g r)"
  by (auto simp: shrinking_def)

lemma shrinking_ReadByte [shrink]: "shrinking ReadByte"
  by (auto simp: shrinking_def ReadByte_eq_Inr_iff)

lemma shrinking_ReadFull [shrink]: "shrinking (ReadFull n)" "shrinking (ReadFull_EOF n)" "shrinking (ReadConnectionID n)"
  by (auto simp: shrinking_def ReadFull_def ReadFull_EOF_def ReadConnectionID_def split: if_splits)

lemma shrinking_ReadFull_len [shrink]: "shrinking (\<lambda>r. ReadFull (n r) r)"
  by (auto simp: shrinking_def ReadFull_def split: if_splits)

lemma consuming_varint: "consuming varint_Read"
  unfolding consuming_def varint_Read_def by (auto simp: bindE_eq_Inr_iff ReadByte_eq_Inr_iff Let_def split: if_splits)

lemma shrinking_varint [shrink]: "shrinking varint_Read"
  using consuming_varint by (auto simp: consuming_def shrinking_def dest!: less_imp_le)

lemma shrinking_parse_ranges [shrink]: "shrinking (parse_ranges n s rs)"
proof (induction n arbitrary: s rs)
  case (Suc n)
  have "shrinking (\<lambda>r. parse_ranges (Suc n) s rs r)" unfolding parse_ranges.simps Let_def by (intro shrink Suc)
  then show ?case by simp
qed (simp add: shrinking_def)

lemma consuming_frames:
  "consuming parsePingFrame" "consuming parseHandshakeDoneFrame" "consuming parseDataBlockedFrame"
  "consuming parseStreamDataBlockedFrame" "consuming parseMaxDataFrame" "consuming parseMaxStreamDataFrame"
  "consuming parseStopSendingFrame" "consuming parseResetStreamFrame" "consuming parseRetireConnectionIDFrame"
  "consuming parseStreamsBlockedFrame" "consuming parseMaxStreamsFrame" "consuming parsePathChallengeFrame"
  "consuming parsePathResponseFrame" "consuming parseNewTokenFrame" "consuming parseNewConnectionIDFrame"
  "consuming parseConnectionCloseFrame" "consuming parseStreamFrame" "consuming parseCryptoFrame"
  "consuming parseDatagramFrame" "consuming parseFecFrame" "consuming (parseAckFrame n)"
  unfolding parsePingFrame_def parseHandshakeDoneFrame_def parseDataBlockedFrame_def
    parseStreamDataBlockedFrame_def parseMaxDataFrame_def parseMaxStreamDataFrame_def
    parseStopSendingFrame_def parseResetStreamFrame_def parseRetireConnectionIDFrame_def
    parseStreamsBlockedFrame_def parseMaxStreamsFrame_def parsePathChallengeFrame_def
    parsePathResponseFrame_def parseNewTokenFrame_def parseNewConnectionIDFrame_def
    parseConnectionCloseFrame_def parseStreamFrame_def parseCryptoFrame_def
    parseDatagramFrame_def parseFecFrame_def parseAckFrame_def Let_def
  by (intro consuming_bind consuming_ReadByte shrink)+

lemma consuming_as_frame: "consuming f \<Longrightarrow> as_frame c (f r) = Inr (x, r') \<Longrightarrow> length r' < length r"
  by (auto simp: as_frame_def bindE_eq_Inr_iff consuming_def)

lemma parseFrame_consumes:
  assumes "parseFrame p r t encLevel = Inr (f, r')" shows "length r' < length r"
  using assms unfolding parseFrame_def parse_by_type_def bindE_eq_Inr_iff
  by (auto split: if_splits dest: consuming_frames [THEN consuming_as_frame])

lemma ParseNext_consumes: "ParseNext p r encLevel = Inr (Some f, r') \<Longrightarrow> length r' < length r"
  by (induction p r encLevel rule: ParseNext.induct)
    (fastforce simp: bindE_eq_Inr_iff dest: parseFrame_consumes split: if_splits)+

text \<open>
  The loop of \<^verbatim>\<open>handleUnpackedPacket\<close>, with the frames collected as it does when it traces; the second result is
  \<open>isAckEliciting\<close>.
\<close>

function parse_payload :: "frameParser \<Rightarrow> EncryptionLevel \<Rightarrow> bytes \<Rightarrow> Frame list \<Rightarrow> bool \<Rightarrow> (Frame list \<times> bool) result" where
  "parse_payload p encLevel r frames isAckEliciting =
     (case ParseNext p r encLevel of
        Inl err \<Rightarrow> Inl err
      | Inr (None, _) \<Rightarrow> Inr (frames, isAckEliciting)
      | Inr (Some frame, r') \<Rightarrow>
          parse_payload p encLevel r' (frames @ [frame]) (isAckEliciting \<or> IsFrameAckEliciting frame))"
  by pat_completeness auto
termination
  by (relation "measure (\<lambda>(p, encLevel, r, frames, isAckEliciting). length r)") (auto dest: ParseNext_consumes)

declare parse_payload.simps [simp del]

text \<open>The \<^verbatim>\<open>Write\<close> method of the interface \<^verbatim>\<open>Frame\<close>: dispatch on the frame.\<close>

definition Frame_Write :: "Frame \<Rightarrow> bytes \<Rightarrow> bytes result" where
  "Frame_Write f b = (case f of
      FPing f \<Rightarrow> PingFrame_Write f b
    | FAck f \<Rightarrow> AckFrame_Write f b
    | FResetStream f \<Rightarrow> ResetStreamFrame_Write f b
    | FStopSending f \<Rightarrow> StopSendingFrame_Write f b
    | FCrypto f \<Rightarrow> CryptoFrame_Write f b
    | FNewToken f \<Rightarrow> NewTokenFrame_Write f b
    | FStream f \<Rightarrow> StreamFrame_Write f b
    | FMaxData f \<Rightarrow> MaxDataFrame_Write f b
    | FMaxStreamData f \<Rightarrow> MaxStreamDataFrame_Write f b
    | FMaxStreams f \<Rightarrow> MaxStreamsFrame_Write f b
    | FDataBlocked f \<Rightarrow> DataBlockedFrame_Write f b
    | FStreamDataBlocked f \<Rightarrow> StreamDataBlockedFrame_Write f b
    | FStreamsBlocked f \<Rightarrow> StreamsBlockedFrame_Write f b
    | FNewConnectionID f \<Rightarrow> NewConnectionIDFrame_Write f b
    | FRetireConnectionID f \<Rightarrow> RetireConnectionIDFrame_Write f b
    | FPathChallenge f \<Rightarrow> PathChallengeFrame_Write f b
    | FPathResponse f \<Rightarrow> PathResponseFrame_Write f b
    | FConnectionClose f \<Rightarrow> ConnectionCloseFrame_Write f b
    | FHandshakeDone f \<Rightarrow> HandshakeDoneFrame_Write f b
    | FFec f \<Rightarrow> FecFrame_Write f b
    | FDatagram f \<Rightarrow> DatagramFrame_Write f b)"

text \<open>
  The payload that \<^verbatim>\<open>appendPacket\<close> of \<^verbatim>\<open>packet_packer.go\<close> writes after the header: the acknowledgement, the padding, the frames,
  and the test that the size is the one the packer counted.
\<close>

record payload =
  pl_frames :: "Frame list"
  pl_ack :: "AckFrame option"
  pl_length :: ByteCount

definition payload_padding :: "payload \<Rightarrow> ByteCount \<Rightarrow> ByteCount \<Rightarrow> ByteCount" where
  "payload_padding pl pnLen padding = (if pl_length pl < 4 - pnLen then 4 - pnLen - pl_length pl else 0) + padding"

definition append_payload :: "payload \<Rightarrow> ByteCount \<Rightarrow> ByteCount \<Rightarrow> bytes \<Rightarrow> bytes result" where
  "append_payload pl pnLen padding buf =
     (let paddingLen = payload_padding pl pnLen padding; payloadOffset = int (length buf) in
      bindE (case pl_ack pl of None \<Rightarrow> Inr buf | Some a \<Rightarrow> AckFrame_Write a buf) (\<lambda>buf.
      let buf = (if paddingLen > 0 then buf @ replicate (nat paddingLen) 0 else buf) in
      bindE (foldE Frame_Write (pl_frames pl) buf) (\<lambda>buf.
      if int (length buf) - payloadOffset - paddingLen \<noteq> pl_length pl
      then Inl (Err ''PacketPacker BUG: payload size inconsistent'') else Inr buf)))"

section \<open>Round trip of a payload\<close>

definition frame_enc :: "Frame \<Rightarrow> bytes" where
  "frame_enc f = (case f of
      FPing f \<Rightarrow> ping_enc f
    | FAck f \<Rightarrow> ack_enc f (ranges_sent f)
    | FResetStream f \<Rightarrow> reset_stream_enc f
    | FStopSending f \<Rightarrow> stop_sending_enc f
    | FCrypto f \<Rightarrow> crypto_enc f
    | FNewToken f \<Rightarrow> new_token_enc f
    | FStream f \<Rightarrow> stream_enc f
    | FMaxData f \<Rightarrow> max_data_enc f
    | FMaxStreamData f \<Rightarrow> max_stream_data_enc f
    | FMaxStreams f \<Rightarrow> max_streams_enc f
    | FDataBlocked f \<Rightarrow> data_blocked_enc f
    | FStreamDataBlocked f \<Rightarrow> stream_data_blocked_enc f
    | FStreamsBlocked f \<Rightarrow> streams_blocked_enc f
    | FNewConnectionID f \<Rightarrow> new_connection_id_enc f
    | FRetireConnectionID f \<Rightarrow> retire_connection_id_enc f
    | FPathChallenge f \<Rightarrow> path_challenge_enc f
    | FPathResponse f \<Rightarrow> path_response_enc f
    | FConnectionClose f \<Rightarrow> connection_close_enc f
    | FHandshakeDone f \<Rightarrow> handshake_done_enc f
    | FFec f \<Rightarrow> fec_enc f
    | FDatagram f \<Rightarrow> datagram_enc f)"

definition frame_valid :: "Frame \<Rightarrow> bool" where
  "frame_valid f = (case f of
      FPing f \<Rightarrow> ping_valid f
    | FAck f \<Rightarrow> ack_valid f
    | FResetStream f \<Rightarrow> reset_stream_valid f
    | FStopSending f \<Rightarrow> stop_sending_valid f
    | FCrypto f \<Rightarrow> crypto_valid f
    | FNewToken f \<Rightarrow> new_token_valid f
    | FStream f \<Rightarrow> stream_ok f
    | FMaxData f \<Rightarrow> max_data_valid f
    | FMaxStreamData f \<Rightarrow> max_stream_data_valid f
    | FMaxStreams f \<Rightarrow> max_streams_valid f
    | FDataBlocked f \<Rightarrow> data_blocked_valid f
    | FStreamDataBlocked f \<Rightarrow> stream_data_blocked_valid f
    | FStreamsBlocked f \<Rightarrow> streams_blocked_valid f
    | FNewConnectionID f \<Rightarrow> new_connection_id_valid f
    | FRetireConnectionID f \<Rightarrow> retire_connection_id_valid f
    | FPathChallenge f \<Rightarrow> path_challenge_valid f
    | FPathResponse f \<Rightarrow> path_response_valid f
    | FConnectionClose f \<Rightarrow> connection_close_valid f
    | FHandshakeDone f \<Rightarrow> handshake_done_valid f
    | FFec f \<Rightarrow> fec_ok f
    | FDatagram f \<Rightarrow> datagram_ok f)"

text \<open>A stream frame or a datagram without a length field takes the rest of the packet.\<close>

definition frame_open :: "Frame \<Rightarrow> bool" where
  "frame_open f = (case f of FStream f \<Rightarrow> \<not> sf_DataLenPresent f | FDatagram f \<Rightarrow> \<not> dg_DataLenPresent f | _ \<Rightarrow> False)"

text \<open>
  What the other side reads of a frame: of an acknowledgement the ranges that fit into the size of an ACK frame, with the delay in
  steps of eight microseconds and without the ECN counts; a FEC frame without its end flag; every other frame as it is.
\<close>

definition wire_image :: "Frame \<Rightarrow> Frame" where
  "wire_image f = (case f of FAck f \<Rightarrow> FAck (ack_image f) | FFec f \<Rightarrow> FFec (f\<lparr>ff_Fin := False\<rparr>) | _ \<Rightarrow> f)"

lemma wire_image_class [simp]:
  "isAllowedAtEncLevel (wire_image f) encLevel = isAllowedAtEncLevel f encLevel"
  "IsFrameAckEliciting (wire_image f) = IsFrameAckEliciting f"
  by (cases f; cases encLevel; simp add: wire_image_def isAllowedAtEncLevel_def IsFrameAckEliciting_def)+

definition frames_valid :: "Frame list \<Rightarrow> bool" where
  "frames_valid fs \<longleftrightarrow> (\<forall>f \<in> set fs. frame_valid f) \<and> (\<forall>f \<in> set (butlast fs). \<not> frame_open f)"

lemma stream_ok_write:
  assumes "stream_ok f"
  shows "StreamFrame_Write f b = Inr (b @ stream_enc f)" and "stream_enc f \<noteq> []" and "hd (stream_enc f) AND 0xf8 = 0x8"
proof -
  have len: "length (sf_Data f) < 2 ^ 62" using assms stream_length_small by (auto simp: stream_ok_def)
  have num: "wire_number (sf_Offset f)" using assms by (auto simp: stream_ok_def wire_offset)
  show "StreamFrame_Write f b = Inr (b @ stream_enc f)"
    using assms len num by (auto simp: StreamFrame_Write_def stream_enc_def stream_ok_def stream_type_def Let_def sf_DataLen_def codec)
  show "stream_enc f \<noteq> []" "hd (stream_enc f) AND 0xf8 = 0x8" by (simp_all add: stream_enc_def stream_type_flags)
qed

lemma Frame_Write_enc: "frame_valid f \<Longrightarrow> Frame_Write f b = Inr (b @ frame_enc f)"
  by (cases f) (simp_all add: frame_valid_def frame_enc_def Frame_Write_def ping.Write_enc ack_valid_write reset_stream.Write_enc
    stop_sending.Write_enc crypto.Write_enc new_token.Write_enc stream_ok_write max_data.Write_enc max_stream_data.Write_enc
    max_streams.Write_enc data_blocked.Write_enc stream_data_blocked.Write_enc streams_blocked.Write_enc new_connection_id.Write_enc
    retire_connection_id.Write_enc path_challenge.Write_enc path_response.Write_enc connection_close.Write_enc
    handshake_done.Write_enc fec_ok_write datagram_ok_write)

lemma frame_enc_nonempty: "frame_valid f \<Longrightarrow> frame_enc f \<noteq> []"
  by (cases f) (simp_all add: frame_valid_def frame_enc_def ping.enc_type ack_enc_type reset_stream.enc_type
    stop_sending.enc_type crypto.enc_type new_token.enc_type stream_ok_write max_data.enc_type max_stream_data.enc_type
    max_streams.enc_type data_blocked.enc_type stream_data_blocked.enc_type streams_blocked.enc_type new_connection_id.enc_type
    retire_connection_id.enc_type path_challenge.enc_type path_response.enc_type connection_close.enc_type
    handshake_done.enc_type fec_enc_def datagram_ok_write)

text \<open>A parser that agrees with the writing side: the exponent for the delay of acknowledgements, and datagrams when one is sent.\<close>

definition parser_fits :: "frameParser \<Rightarrow> Frame list \<Rightarrow> bool" where
  "parser_fits p fs \<longleftrightarrow> unat (ackDelayExponent p) = AckDelayExponent \<and> (\<forall>f \<in> set fs. \<forall>d. f = FDatagram d \<longrightarrow> supportsDatagrams p)"

context frame_codec
begin

lemma dispatch:
  assumes "valid f" and "\<forall>t \<in> ftypes. \<forall>r. D t r = as_frame c (Parse r)"
  shows "D (hd (enc f)) (enc f @ r) = Inr (c f, r)"
  using assms enc_type [of f] by (simp add: as_frame_def Parse_enc)

end

lemma parse_at:
  "parse_by_type p r 0x1 encLevel = as_frame FPing (parsePingFrame r)"
  "parse_by_type p r 0x4 encLevel = as_frame FResetStream (parseResetStreamFrame r)"
  "parse_by_type p r 0x5 encLevel = as_frame FStopSending (parseStopSendingFrame r)"
  "parse_by_type p r 0x6 encLevel = as_frame FCrypto (parseCryptoFrame r)"
  "parse_by_type p r 0x7 encLevel = as_frame FNewToken (parseNewTokenFrame r)"
  "parse_by_type p r 0x10 encLevel = as_frame FMaxData (parseMaxDataFrame r)"
  "parse_by_type p r 0x11 encLevel = as_frame FMaxStreamData (parseMaxStreamDataFrame r)"
  "parse_by_type p r 0x12 encLevel = as_frame FMaxStreams (parseMaxStreamsFrame r)"
  "parse_by_type p r 0x13 encLevel = as_frame FMaxStreams (parseMaxStreamsFrame r)"
  "parse_by_type p r 0x14 encLevel = as_frame FDataBlocked (parseDataBlockedFrame r)"
  "parse_by_type p r 0x15 encLevel = as_frame FStreamDataBlocked (parseStreamDataBlockedFrame r)"
  "parse_by_type p r 0x16 encLevel = as_frame FStreamsBlocked (parseStreamsBlockedFrame r)"
  "parse_by_type p r 0x17 encLevel = as_frame FStreamsBlocked (parseStreamsBlockedFrame r)"
  "parse_by_type p r 0x18 encLevel = as_frame FNewConnectionID (parseNewConnectionIDFrame r)"
  "parse_by_type p r 0x19 encLevel = as_frame FRetireConnectionID (parseRetireConnectionIDFrame r)"
  "parse_by_type p r 0x1a encLevel = as_frame FPathChallenge (parsePathChallengeFrame r)"
  "parse_by_type p r 0x1b encLevel = as_frame FPathResponse (parsePathResponseFrame r)"
  "parse_by_type p r 0x1c encLevel = as_frame FConnectionClose (parseConnectionCloseFrame r)"
  "parse_by_type p r 0x1d encLevel = as_frame FConnectionClose (parseConnectionCloseFrame r)"
  "parse_by_type p r 0x1e encLevel = as_frame FHandshakeDone (parseHandshakeDoneFrame r)"
  "parse_by_type p r 0x20 encLevel = as_frame FFec (parseFecFrame r)"
  "supportsDatagrams p \<Longrightarrow> parse_by_type p r 0x30 encLevel = as_frame FDatagram (parseDatagramFrame r)"
  "supportsDatagrams p \<Longrightarrow> parse_by_type p r 0x31 encLevel = as_frame FDatagram (parseDatagramFrame r)"
  by (simp_all add: parse_by_type_def)

lemma parse_at_ack:
  assumes "parser_fits p fs" and "t \<in> {0x2, 0x3}"
  shows "parse_by_type p r t encLevel = as_frame FAck (parseAckFrame AckDelayExponent r)"
proof -
  have "unat (if encLevel \<noteq> Encryption1RTT then DefaultAckDelayExponent else ackDelayExponent p) = AckDelayExponent"
    using assms by (auto simp: parser_fits_def DefaultAckDelayExponent_def AckDelayExponent_def)
  then show ?thesis using assms(2) by (auto simp: parse_by_type_def)
qed

lemma parse_by_type_enc:
  assumes v: "frame_valid f" and op: "frame_open f \<longrightarrow> r = []" and p: "parser_fits p [f]"
  shows "parse_by_type p (frame_enc f @ r) (hd (frame_enc f)) encLevel = Inr (wire_image f, r)"
proof -
  let ?D = "\<lambda>t r. parse_by_type p r t encLevel"
  show ?thesis
  proof (cases f)
    case (FStream s)
    with v op have "parseStreamFrame (stream_enc s @ r) = Inr (s, r)"
      by (intro parseStreamFrame_enc) (auto simp: frame_valid_def frame_open_def)
    with FStream v show ?thesis by (simp add: frame_valid_def frame_enc_def parse_by_type_def as_frame_def stream_ok_write wire_image_def)
  next
    case (FDatagram d)
    with v have d: "datagram_ok d" by (simp add: frame_valid_def)
    have "dg_DataLenPresent d \<or> r = []" using FDatagram op by (auto simp: frame_open_def)
    from datagram_ok_write(4) [OF d this] FDatagram p datagram_ok_write(3) [OF d] show ?thesis
      by (auto simp: frame_enc_def parser_fits_def parse_at as_frame_def wire_image_def)
  next
    case (FAck a)
    with v show ?thesis using ack_valid_write [of a] parse_at_ack [OF p] ack_enc_type [of a "ranges_sent a"]
      by (simp add: frame_valid_def frame_enc_def as_frame_def wire_image_def)
  next
    case (FFec e)
    with v have "fec_ok e" by (simp add: frame_valid_def)
    moreover have "hd (fec_enc e) = 0x20" by (simp add: fec_enc_def)
    ultimately show ?thesis using FFec fec_ok_write(3) [of e r] by (simp add: frame_enc_def parse_at as_frame_def wire_image_def)
  qed (use v ping.dispatch [of _ ?D FPing r]
      reset_stream.dispatch [of _ ?D FResetStream r] stop_sending.dispatch [of _ ?D FStopSending r]
      crypto.dispatch [of _ ?D FCrypto r] new_token.dispatch [of _ ?D FNewToken r] max_data.dispatch [of _ ?D FMaxData r]
      max_stream_data.dispatch [of _ ?D FMaxStreamData r] max_streams.dispatch [of _ ?D FMaxStreams r]
      data_blocked.dispatch [of _ ?D FDataBlocked r] stream_data_blocked.dispatch [of _ ?D FStreamDataBlocked r]
      streams_blocked.dispatch [of _ ?D FStreamsBlocked r] new_connection_id.dispatch [of _ ?D FNewConnectionID r]
      retire_connection_id.dispatch [of _ ?D FRetireConnectionID r] path_challenge.dispatch [of _ ?D FPathChallenge r]
      path_response.dispatch [of _ ?D FPathResponse r] connection_close.dispatch [of _ ?D FConnectionClose r]
      handshake_done.dispatch [of _ ?D FHandshakeDone r] in
    \<open>simp_all add: frame_valid_def frame_enc_def parse_at wire_image_def\<close>)
qed

lemma parseFrame_enc:
  assumes "frame_valid f" and "frame_open f \<longrightarrow> r = []" and "parser_fits p [f]" and "isAllowedAtEncLevel f encLevel"
  shows "parseFrame p (frame_enc f @ r) (hd (frame_enc f)) encLevel = Inr (wire_image f, r)"
  using assms by (simp add: parseFrame_def parse_by_type_enc)

lemma frame_type_not_padding: "parse_by_type p r 0 encLevel = Inl (Err ''unknown frame type'')"
  by (simp add: parse_by_type_def)

lemma ParseNext_enc:
  assumes "frame_valid f" and "frame_open f \<longrightarrow> r = []" and "parser_fits p [f]" and "isAllowedAtEncLevel f encLevel"
  shows "ParseNext p (frame_enc f @ r) encLevel = Inr (Some (wire_image f), r)"
proof -
  from frame_enc_nonempty [OF assms(1)] obtain t bs where e: "frame_enc f = t # bs" by (cases "frame_enc f") auto
  have "t \<noteq> 0" using parse_by_type_enc [OF assms(1-3), of encLevel] e by (auto simp: frame_type_not_padding)
  with parseFrame_enc [OF assms] show ?thesis by (simp add: e)
qed

lemma ParseNext_padding: "ParseNext p (replicate n 0 @ r) encLevel = ParseNext p r encLevel"
  by (induction n) simp_all

lemma parse_payload_padding: "parse_payload p encLevel (replicate n 0 @ r) fs b = parse_payload p encLevel r fs b"
  by (subst (1 2) parse_payload.simps) (simp add: ParseNext_padding)

lemma parse_payload_step:
  "frame_valid f \<Longrightarrow> frame_open f \<longrightarrow> r = [] \<Longrightarrow> parser_fits p [f] \<Longrightarrow> isAllowedAtEncLevel f encLevel \<Longrightarrow>
   parse_payload p encLevel (frame_enc f @ r) fs b = parse_payload p encLevel r (fs @ [wire_image f]) (b \<or> IsFrameAckEliciting f)"
  by (subst parse_payload.simps) (simp add: ParseNext_enc)

lemma parse_payload_frames:
  assumes "frames_valid fs" and "parser_fits p fs" and "\<forall>f \<in> set fs. isAllowedAtEncLevel f encLevel"
  shows "parse_payload p encLevel (concat (map frame_enc fs)) acc b = Inr (acc @ map wire_image fs, b \<or> (\<exists>f \<in> set fs. IsFrameAckEliciting f))"
  using assms
proof (induction fs arbitrary: acc b)
  case Nil
  then show ?case by (simp add: parse_payload.simps [of p encLevel "[]"])
next
  case (Cons f fs)
  have "frames_valid fs" using Cons.prems by (cases fs) (auto simp: frames_valid_def)
  moreover have "frame_open f \<longrightarrow> concat (map frame_enc fs) = []" using Cons.prems by (cases fs) (auto simp: frames_valid_def)
  ultimately show ?case using Cons.prems
    by (simp add: parse_payload_step frames_valid_def Cons.IH parser_fits_def)
qed

lemma write_frames: "\<forall>f \<in> set fs. frame_valid f \<Longrightarrow> foldE Frame_Write fs b = Inr (b @ concat (map frame_enc fs))"
  by (induction fs arbitrary: b) (simp_all add: Frame_Write_enc)

text \<open>The frames a packet carries, in the order they are written.\<close>

definition payload_frames :: "payload \<Rightarrow> Frame list" where
  "payload_frames pl = (case pl_ack pl of None \<Rightarrow> [] | Some a \<Rightarrow> [FAck a]) @ pl_frames pl"

definition payload_size :: "payload \<Rightarrow> nat" where
  "payload_size pl = length (concat (map frame_enc (payload_frames pl)))"

lemma parse_payload_ack:
  assumes "frames_valid (as @ fs)" and "as = [] \<or> (\<exists>a. as = [FAck a])" and p: "parser_fits p (as @ fs)"
    and l: "\<forall>f \<in> set (as @ fs). isAllowedAtEncLevel f encLevel"
  shows "parse_payload p encLevel (concat (map frame_enc as) @ replicate n 0 @ concat (map frame_enc fs)) [] False =
    Inr (map wire_image (as @ fs), \<exists>f \<in> set (as @ fs). IsFrameAckEliciting f)"
proof -
  have fs: "frames_valid fs" "parser_fits p fs" "\<forall>f \<in> set fs. isAllowedAtEncLevel f encLevel"
    using assms by (auto simp: frames_valid_def parser_fits_def butlast_append split: if_splits)
  show ?thesis
  proof (cases "as = []")
    case True
    with fs show ?thesis by (simp add: parse_payload_padding parse_payload_frames)
  next
    case False
    then obtain a where a: "as = [FAck a]" using assms(2) by auto
    with assms have "frame_valid (FAck a)" "parser_fits p [FAck a]" "isAllowedAtEncLevel (FAck a) encLevel"
      by (auto simp: frames_valid_def parser_fits_def)
    with fs a show ?thesis
      by (simp add: parse_payload_step frame_open_def parse_payload_padding parse_payload_frames)
  qed
qed

lemma payload_round_trip:
  fixes pl :: payload
  defines "fs \<equiv> payload_frames pl"
  assumes v: "frames_valid fs" and p: "parser_fits p fs" and l: "\<forall>f \<in> set fs. isAllowedAtEncLevel f encLevel"
    and pad: "0 \<le> padding"
    and size: "pl_length pl = int (payload_size pl)"
  obtains bs where "append_payload pl pnLen padding buf = Inr (buf @ bs)"
    and "parse_payload p encLevel bs [] False = Inr (map wire_image fs, \<exists>f \<in> set fs. IsFrameAckEliciting f)"
    and "int (length bs) = pl_length pl + payload_padding pl pnLen padding"
proof -
  define n where "n = nat (payload_padding pl pnLen padding)"
  define as where "as = (case pl_ack pl of None \<Rightarrow> [] | Some a \<Rightarrow> [FAck a])"
  have n: "payload_padding pl pnLen padding = int n" using pad by (simp add: n_def payload_padding_def)
  have fs: "fs = as @ pl_frames pl" by (simp add: fs_def payload_frames_def as_def)
  have valid: "\<forall>f \<in> set fs. frame_valid f" using v by (simp add: frames_valid_def)
  then have w: "\<forall>f \<in> set (pl_frames pl). frame_valid f" by (simp add: fs)
  have a: "(case pl_ack pl of None \<Rightarrow> Inr buf | Some a \<Rightarrow> AckFrame_Write a buf) = Inr (buf @ concat (map frame_enc as))"
    using valid Frame_Write_enc [of "FAck (the (pl_ack pl))" buf] by (cases "pl_ack pl") (auto simp: fs as_def Frame_Write_def)
  let ?bs = "concat (map frame_enc as) @ replicate n 0 @ concat (map frame_enc (pl_frames pl))"
  show ?thesis
  proof (rule that [of ?bs])
    show "append_payload pl pnLen padding buf = Inr (buf @ ?bs)"
      using size by (simp add: append_payload_def a n Let_def write_frames [OF w] payload_size_def payload_frames_def as_def [symmetric])
    show "parse_payload p encLevel ?bs [] False = Inr (map wire_image fs, \<exists>f \<in> set fs. IsFrameAckEliciting f)"
      unfolding fs using v p l by (intro parse_payload_ack) (auto simp: fs as_def split: option.splits)
    show "int (length ?bs) = pl_length pl + payload_padding pl pnLen padding"
      using size by (simp add: n payload_size_def payload_frames_def as_def [symmetric])
  qed
qed

end
