(* ===== verification/Quic_Properties.thy ===== *)
theory Quic_Properties
  imports Quic_Data_Frames Quic_Ack_Tracker Quic_Flow_Control Quic_Frame_Parser
begin

text \<open>
  Properties of the QUIC layer: integers and packet numbers on the wire, the payload of a packet, acknowledgements and
  flow control.
\<close>

section \<open>Frames of a payload\<close>

lemma ParseNext_allowed: "ParseNext p r encLevel = Inr (Some f, r') \<Longrightarrow> isAllowedAtEncLevel f encLevel"
  by (induction p r encLevel rule: ParseNext.induct) (auto simp: bindE_eq_Inr_iff parseFrame_def split: if_splits)

lemma parse_payload_ok:
  "parse_payload p encLevel bs acc b = Inr (fs, b') \<Longrightarrow>
   \<exists>gs. fs = acc @ gs \<and> length gs \<le> length bs \<and> (b' \<longleftrightarrow> b \<or> (\<exists>g \<in> set gs. IsFrameAckEliciting g)) \<and>
     (\<forall>g \<in> set gs. isAllowedAtEncLevel g encLevel)"
proof (induction p encLevel bs acc b rule: parse_payload.induct)
  case (1 p encLevel r acc b)
  consider "fs = acc" "b' = b"
    | f r' where "ParseNext p r encLevel = Inr (Some f, r')" "parse_payload p encLevel r' (acc @ [f]) (b \<or> IsFrameAckEliciting f) = Inr (fs, b')"
    using "1.prems" by (subst (asm) parse_payload.simps) (auto split: sum.splits option.splits prod.splits)
  then show ?case
  proof cases
    case 1
    then show ?thesis by (intro exI [of _ "[]"]) simp
  next
    case 2
    from "1.IH" [OF 2(1) refl refl 2(2)] obtain gs where gs: "fs = (acc @ [f]) @ gs" "length gs \<le> length r'"
      "b' \<longleftrightarrow> (b \<or> IsFrameAckEliciting f) \<or> (\<exists>g \<in> set gs. IsFrameAckEliciting g)" "\<forall>g \<in> set gs. isAllowedAtEncLevel g encLevel"
      by blast
    then show ?thesis using ParseNext_consumes [OF 2(1)] ParseNext_allowed [OF 2(1)] by (intro exI [of _ "f # gs"]) auto
  qed
qed

section \<open>Packet numbers\<close>

text \<open>C36. A packet number that the sender cuts to the length it chooses for the header is restored by the receiver, as long as
  the receiver has got everything below the oldest unacknowledged packet and nothing from the packet on.\<close>

theorem packet_number_survives:
  assumes "0 \<le> leastUnacked" and "leastUnacked \<le> pn" and "pn - leastUnacked < 2 ^ 31"
    and "leastUnacked \<le> lastpn + 1" and "lastpn < pn"
  defines "len \<equiv> GetPacketNumberLengthForHeader pn leastUnacked"
  shows "DecodePacketNumber len lastpn (pn mod 2 ^ (8 * unat len)) = pn"
proof -
  have "len \<in> {2, 3, 4} \<and> 2 * (pn - leastUnacked) < 2 ^ (8 * unat len)" unfolding len_def by (rule header_length_fits [OF assms(2,3)])
  then show ?thesis using assms by (intro DecodePacketNumber_ok) auto
qed

theorem packet_number_survives_witness:
  "GetPacketNumberLengthForHeader 70000 65000 = 2 \<and> DecodePacketNumber 2 69990 (70000 mod 2 ^ 16) = 70000"
proof -
  have "GetPacketNumberLengthForHeader 70000 65000 = 2" by code_simp
  with packet_number_survives [of 65000 70000 69990] show ?thesis by simp
qed

section \<open>The payload of a packet\<close>

text \<open>C28. What the packer appends for a payload, an acknowledgement, padding and frames, is parsed on the other side into what the
  wire keeps of these frames, in this order, and the packet counts as one that asks for an acknowledgement when one of them does.
  Every frame comes back as it was, but for two kinds: of an ACK frame the other side gets the ranges that fit into the size of
  an ACK frame, all of them when there are at most 62, the delay in steps of eight microseconds and no ECN counts, and a FEC frame
  loses its end flag.  The numbers in the frames fit into 62 bits, only the last frame may be a stream frame or a datagram without a length, and
  the parser has the delay exponent of the writer and takes datagrams when there is one.\<close>

theorem packed_payload_parses:
  fixes pl :: payload
  defines "fs \<equiv> payload_frames pl"
  assumes "frames_valid fs" and "parser_fits p fs" and "\<forall>f \<in> set fs. isAllowedAtEncLevel f encLevel"
    and "0 \<le> padding" and "pl_length pl = int (payload_size pl)"
  shows "\<exists>bs. append_payload pl pnLen padding buf = Inr (buf @ bs) \<and>
    parse_payload p encLevel bs [] False = Inr (map wire_image fs, \<exists>f \<in> set fs. IsFrameAckEliciting f) \<and>
    int (length bs) = pl_length pl + payload_padding pl pnLen padding \<and>
    (\<forall>f \<in> set fs. wire_image f = (case f of
        FAck a \<Rightarrow> FAck \<lparr>AckRanges = take (ranges_sent a) (AckRanges a), DelayTime = DelayTime a div 8000 * 8000, ECT0 = 0, ECT1 = 0, ECNCE = 0\<rparr>
      | FFec e \<Rightarrow> FFec (e\<lparr>ff_Fin := False\<rparr>) | _ \<Rightarrow> f)) \<and>
    (\<forall>a. FAck a \<in> set fs \<and> length (AckRanges a) \<le> 62 \<longrightarrow> ranges_sent a = length (AckRanges a))"
proof -
  have "wire_image f = (case f of
        FAck a \<Rightarrow> FAck \<lparr>AckRanges = take (ranges_sent a) (AckRanges a), DelayTime = DelayTime a div 8000 * 8000, ECT0 = 0, ECT1 = 0, ECNCE = 0\<rparr>
      | FFec e \<Rightarrow> FFec (e\<lparr>ff_Fin := False\<rparr>) | _ \<Rightarrow> f)" for f
    by (cases f) (simp_all add: wire_image_def ack_image_def)
  moreover have "ranges_sent a = length (AckRanges a)" if "FAck a \<in> set fs" "length (AckRanges a) \<le> 62" for a
    using that assms(2) ack_valid_write(4) [of a] by (auto simp: frames_valid_def frame_valid_def)
  moreover obtain bs where "append_payload pl pnLen padding buf = Inr (buf @ bs)"
    "parse_payload p encLevel bs [] False = Inr (map wire_image fs, \<exists>f \<in> set fs. IsFrameAckEliciting f)"
    "int (length bs) = pl_length pl + payload_padding pl pnLen padding"
    unfolding fs_def by (rule payload_round_trip [OF assms(2-6) [unfolded fs_def]])
  ultimately show ?thesis by (intro exI [of _ bs]) simp
qed

definition demo_payload :: payload where
  "demo_payload = \<lparr>pl_frames = [FPing PingFrame,
      FFec \<lparr>ff_StreamID = 4, ff_StreamOffset = 0, ff_SymbolSize = 1, ff_NumOfSymbols = 2, ff_FecDataOffset = 0, ff_FecDataLength = 2,
        ff_FecTotalLength = 2, ff_FecData = [8, 9], ff_Fin = True\<rparr>,
      FStream \<lparr>sf_StreamID = 4, sf_Offset = 0, sf_Data = [1, 2], sf_Fin = True, sf_DataLenPresent = False\<rparr>],
     pl_ack = Some \<lparr>AckRanges = [\<lparr>Smallest = 3, Largest = 5\<rparr>], DelayTime = 8001, ECT0 = 0, ECT1 = 0, ECNCE = 0\<rparr>, pl_length = 20\<rparr>"

theorem packed_payload_parses_witness:
  "\<exists>bs. append_payload demo_payload 1 0 [] = Inr bs \<and>
    parse_payload (SetAckDelayExponent (NewFrameParser False) 3) Encryption1RTT bs [] False =
      Inr (map wire_image (payload_frames demo_payload), True)"
proof -
  have "payload_size demo_payload = 20" by code_simp
  moreover have "frames_valid (payload_frames demo_payload)"
    by (simp add: frames_valid_def payload_frames_def demo_payload_def frame_valid_def frame_open_def ping_valid_def
        ack_valid_def ack_wire_def varint_valid_def stream_ok_def fec_ok_def wire_number_def MaxByteCount_def MaxPacketBufferSize_def)
  moreover have "parser_fits (SetAckDelayExponent (NewFrameParser False) 3) (payload_frames demo_payload)"
    by (simp add: parser_fits_def SetAckDelayExponent_def NewFrameParser_def payload_frames_def demo_payload_def AckDelayExponent_def)
  ultimately show ?thesis
    using packed_payload_parses [of demo_payload "SetAckDelayExponent (NewFrameParser False) 3" Encryption1RTT 0 1 "[]"]
    by (auto simp: demo_payload_def isAllowedAtEncLevel_def payload_frames_def IsFrameAckEliciting_def)
qed

text \<open>C29. The loop over a payload ends for any bytes: it returns an error, or at most as many frames as there are bytes, which are
  allowed at the encryption level.\<close>

theorem payload_loop_ends:
  "case parse_payload p encLevel bs [] False of
     Inl err \<Rightarrow> True
   | Inr (fs, isAckEliciting) \<Rightarrow> length fs \<le> length bs \<and> (isAckEliciting \<longleftrightarrow> (\<exists>f \<in> set fs. IsFrameAckEliciting f)) \<and>
       (\<forall>f \<in> set fs. isAllowedAtEncLevel f encLevel)"
  using parse_payload_ok [of p encLevel bs "[]" False] by (auto split: sum.split prod.split)

theorem payload_loop_ends_witness:
  "case parse_payload (NewFrameParser False) EncryptionInitial [0, 1, 0, 1] [] False of
     Inl err \<Rightarrow> False | Inr (fs, isAckEliciting) \<Rightarrow> fs = [FPing PingFrame, FPing PingFrame] \<and> isAckEliciting \<and> length fs \<le> 4"
proof -
  have "parse_payload (NewFrameParser False) EncryptionInitial [0, 1, 0, 1] [] False = Inr ([FPing PingFrame, FPing PingFrame], True)" by code_simp
  with payload_loop_ends [where p = "NewFrameParser False" and encLevel = EncryptionInitial and bs = "[0, 1, 0, 1]"] show ?thesis by simp
qed

text \<open>C35. \<^verbatim>\<open>MaybeSplitOffFrame\<close> splits a stream frame exactly when it is larger than the space, and uses the space: the new frame fits, carries the first bytes
  without the end of the stream, as many as can fit, and the rest stays in the frame at the offset where the new one ends, so that the two
  together are the frame.  No new frame is made only when not even one byte would fit.\<close>

theorem stream_frame_split:
  assumes "stream_ok f" and "maxSize \<le> 16383"
  shows "\<exists>new required f'. StreamFrame_MaybeSplitOffFrame f maxSize = Inr (new, required, f') \<and>
    (required \<longleftrightarrow> maxSize < length (stream_enc f)) \<and>
    (case new of None \<Rightarrow> f' = f \<and>
         (required \<longrightarrow> (\<forall>k. 0 < k \<and> k \<le> length (sf_Data f) \<longrightarrow> maxSize < length (stream_enc (stream_piece f k))))
     | Some g \<Rightarrow> required \<and> g = stream_piece f (length (sf_Data g)) \<and>
         (\<forall>k. length (sf_Data g) < k \<and> k \<le> length (sf_Data f) \<longrightarrow> maxSize < length (stream_enc (stream_piece f k))) \<and>
         stream_ok g \<and> stream_ok f' \<and> \<not> sf_Fin g \<and> (sf_Fin f' \<longleftrightarrow> sf_Fin f) \<and>
         sf_Offset g = sf_Offset f \<and> sf_Data g @ sf_Data f' = sf_Data f \<and> sf_Data g \<noteq> [] \<and> sf_Data f' \<noteq> [] \<and>
         sf_Offset f' = sf_Offset f + int (length (sf_Data g)) \<and> length (stream_enc g) \<le> maxSize)"
  using assms by (rule stream_split)

definition demo_stream :: StreamFrame where
  "demo_stream = \<lparr>sf_StreamID = 4, sf_Offset = 0, sf_Data = [1, 2, 3, 4, 5, 6, 7, 8], sf_Fin = True, sf_DataLenPresent = True\<rparr>"

theorem stream_frame_split_witness:
  "stream_ok demo_stream \<and> (\<exists>new required f'. StreamFrame_MaybeSplitOffFrame demo_stream 6 = Inr (new, required, f') \<and> required)"
proof -
  have ok: "stream_ok demo_stream" by (simp add: demo_stream_def stream_ok_def wire_number_def MaxByteCount_def MaxPacketBufferSize_def)
  have "6 < length (stream_enc demo_stream)" by code_simp
  with stream_frame_split [OF ok, of 6] ok show ?thesis by auto
qed

section \<open>Acknowledgements\<close>

text \<open>C33. The history of received packets is the set of the numbers that were received: nothing else is in it, and as long as it has
  room for another range it has all of them and says of each packet whether it is a repetition.\<close>

theorem received_history_is_set:
  fixes ps :: "PacketNumber list"
  defines "run \<equiv> \<lambda>qs. fold (\<lambda>p h. snd (history_ReceivedPacket h p)) qs newReceivedPacketHistory"
  assumes "\<forall>p \<in> set ps. 0 \<le> p"
  shows "packets (ranges (run ps)) \<subseteq> set ps \<and>
    ((\<forall>n < length ps. length (ranges (run (take n ps))) < MaxNumAckRanges) \<longrightarrow>
      packets (ranges (run ps)) = set ps \<and> (\<forall>p \<ge> 0. history_IsPotentiallyDuplicate (run ps) p \<longleftrightarrow> p \<in> set ps))"
proof -
  have sound: "history_inv (run ps)" "deletedBelow (run ps) = 0" "packets (ranges (run ps)) \<subseteq> set ps"
    using hist.received_sound [of newReceivedPacketHistory ps] by (auto simp: run_def)
  have exact: "packets (ranges (run ps)) = set ps" if "\<forall>n < length ps. length (ranges (run (take n ps))) < MaxNumAckRanges"
    using hist.received_exact [of newReceivedPacketHistory ps] that assms(2) by (auto simp: run_def)
  then show ?thesis using sound hist.seen_iff [OF sound(1)] by auto
qed

theorem received_history_is_set_witness:
  "packets (ranges (fold (\<lambda>p h. snd (history_ReceivedPacket h p)) [3, 5, 4] newReceivedPacketHistory)) \<subseteq> {3, 4, 5}"
  using received_history_is_set [of "[3, 5, 4]"] by auto

text \<open>C34. An ACK frame is written in exactly the size that \<^verbatim>\<open>Length\<close> says and parsed back: the first ranges of it, all of them when there
  are at most 62, with the delay in steps of eight microseconds and without the ECN counts.\<close>

theorem ack_frame_round_trip:
  assumes "ack_valid f"
  shows "\<exists>n. 1 \<le> n \<and> n \<le> length (AckRanges f) \<and> (length (AckRanges f) \<le> 62 \<longrightarrow> n = length (AckRanges f)) \<and>
    AckFrame_Write f b = Inr (b @ ack_enc f n) \<and> AckFrame_Length f = Inr (length (ack_enc f n)) \<and>
    parseAckFrame AckDelayExponent (ack_enc f n @ r) =
      Inr (\<lparr>AckRanges = take n (AckRanges f), DelayTime = DelayTime f div 8000 * 8000, ECT0 = 0, ECT1 = 0, ECNCE = 0\<rparr>, r)"
  using assms by (rule ack_round_trip)

definition demo_ack :: AckFrame where
  "demo_ack = \<lparr>AckRanges = [\<lparr>Smallest = 8, Largest = 9\<rparr>, \<lparr>Smallest = 3, Largest = 5\<rparr>], DelayTime = 16000, ECT0 = 1, ECT1 = 0, ECNCE = 0\<rparr>"

theorem ack_frame_round_trip_witness:
  "\<exists>n. AckFrame_Write demo_ack [] = Inr (ack_enc demo_ack n) \<and> n = 2 \<and>
    parseAckFrame AckDelayExponent (ack_enc demo_ack n) = Inr (demo_ack\<lparr>ECT0 := 0\<rparr>, [])"
proof -
  have "ack_valid demo_ack" by (simp add: demo_ack_def ack_valid_def ack_wire_def varint_valid_def maxVarInt8_def)
  from ack_frame_round_trip [OF this, of "[]" "[]"] show ?thesis by (auto simp: demo_ack_def numeral_2_eq_2)
qed

text \<open>C31. An ACK frame that the tracker makes after any sequence of received packets, raised limits and earlier ACK frames has ranges
  in order and acknowledges exactly the packets that are still in the history and those that were recovered, and so only packets
  that were received or recovered.\<close>

theorem only_received_is_acked:
  assumes "ack_step\<^sup>*\<^sup>* (newReceivedPacketTracker, {}) (h, got)"
    and "tracker_GetAckFrame h onlyIfQueued now recovered = (Some a, h')"
  shows "ack_ranges_ok (AckRanges a) \<and> acked (AckRanges a) = packets (ranges (packetHistory h)) \<union> set recovered \<and>
    acked (AckRanges a) \<subseteq> got \<union> set recovered"
proof -
  have inv: "tracker_inv (h, got)" by (rule ack_steps_inv [OF assms(1)])
  then have "packets (ranges (packetHistory h)) \<subseteq> got" by (simp add: tracker_inv_def)
  with tracker_GetAckFrame_ok [OF inv assms(2)] show ?thesis by auto
qed

lemma demo_tracker:
  "\<exists>h. tracker_ReceivedPacket newReceivedPacketTracker 7 ECN_Non 100 True = Inr h \<and> hasNewAck h \<and> ackAlarm h = 0 \<and>
     ignoreBelow h = 0 \<and> packets (ranges (packetHistory h)) = {7}"
proof -
  have "case tracker_ReceivedPacket newReceivedPacketTracker 7 ECN_Non 100 True of Inl e \<Rightarrow> False
    | Inr h \<Rightarrow> hasNewAck h \<and> ackAlarm h = 0 \<and> ignoreBelow h = 0 \<and> ranges (packetHistory h) = [\<lparr>pi_Start = 7, pi_End = 7\<rparr>]" by code_simp
  then show ?thesis by (auto split: sum.splits simp: packets_def interval_set_def)
qed

theorem only_received_is_acked_witness:
  "\<exists>h a h'. tracker_ReceivedPacket newReceivedPacketTracker 7 ECN_Non 100 True = Inr h \<and>
    tracker_GetAckFrame h True 200 [9] = (Some a, h') \<and> acked (AckRanges a) \<subseteq> {7, 9}"
proof -
  obtain h where h: "tracker_ReceivedPacket newReceivedPacketTracker 7 ECN_Non 100 True = Inr h" "hasNewAck h" "ackAlarm h = 0" "ignoreBelow h = 0"
    using demo_tracker by blast
  then have st: "ack_step\<^sup>*\<^sup>* (newReceivedPacketTracker, {}) (h, {7})" using ack_step.received [OF h(1)] by auto
  obtain a h' where "tracker_GetAckFrame h True 200 [9] = (Some a, h')" 
    using owed_ack_sent [OF ack_steps_inv [OF st] h(2), of 200 "[9]"] h(3) by auto
  with only_received_is_acked [OF st this] h show ?thesis by auto
qed

text \<open>C32. An acknowledgement that is owed is not forgotten: whatever packets came, limits were raised and ACK frames were sent before, when
  the time of its alarm has come, or it is queued, \<^verbatim>\<open>GetAckFrame\<close> gives a frame, which acknowledges every packet in the history; afterwards
  none is owed.\<close>

theorem owed_acknowledgement_is_sent:
  assumes "ack_step\<^sup>*\<^sup>* (newReceivedPacketTracker, {}) (h, got)" and "hasNewAck h" and "ackAlarm h \<le> now"
  shows "\<exists>ack h'. tracker_GetAckFrame h True now recovered = (Some ack, h') \<and>
    packets (ranges (packetHistory h)) \<subseteq> acked (AckRanges ack) \<and> \<not> hasNewAck h'"
proof -
  note inv = ack_steps_inv [OF assms(1)]
  obtain ack h' where "tracker_GetAckFrame h True now recovered = (Some ack, h')" using owed_ack_sent [OF inv assms(2,3)] by blast
  with tracker_GetAckFrame_ok [OF inv this] show ?thesis by auto
qed

theorem owed_acknowledgement_is_sent_witness:
  "\<exists>h ack h'. tracker_ReceivedPacket newReceivedPacketTracker 7 ECN_Non 100 True = Inr h \<and>
    tracker_GetAckFrame h True 30000000 [] = (Some ack, h')"
proof -
  obtain h where h: "tracker_ReceivedPacket newReceivedPacketTracker 7 ECN_Non 100 True = Inr h" "hasNewAck h" "ackAlarm h = 0"
    using demo_tracker by blast
  then have "ack_step\<^sup>*\<^sup>* (newReceivedPacketTracker, {}) (h, {7})" using ack_step.received [OF h(1)] by auto
  from owed_acknowledgement_is_sent [OF this, of 30000000 "[]"] h show ?thesis by auto
qed

text \<open>C37. A late packet can leave an ACK frame queued that has nothing to acknowledge.  Let an ACK frame have been sent in any reachable
  state; a packet that it reported missing, and that is above the limit, arrives and asks for an acknowledgement; then the peer confirms the ACK
  frame, which raises the limit above its largest packet, and the next packet that comes is not above that packet either.  No step fails, but the next ACK
  frame has no ranges, and asking for its length fails with an index out of range.\<close>

theorem stale_acknowledgement_faults:
  assumes "ack_step\<^sup>*\<^sup>* (newReceivedPacketTracker, {}) (appDataPackets h, got)"
    and "handler_GetAckFrame h Encryption1RTT onlyIfQueued now recovered = (Some a, h1)" and "AckRanges a \<noteq> []"
    and "p < Largest (AckRanges a ! 0)" and "p \<notin> acked (AckRanges a)" and "ignoreBelow (appDataPackets h) \<le> p" and "l \<le> p"
    and "p' \<le> Largest (AckRanges a ! 0)"
  shows "\<exists>h2 h3 a' h4. handler_ReceivedPacket h1 l p ecn Encryption1RTT t True = Inr h2 \<and>
    handler_ReceivedPacket h2 (Largest (AckRanges a ! 0) + 1) p' ecn' Encryption1RTT t' instigate = Inr h3 \<and>
    handler_GetAckFrame h3 Encryption1RTT True now' [] = (Some a', h4) \<and>
    AckRanges a' = [] \<and> AckFrame_Length a' = Inl IndexOutOfRange"
proof -
  let ?top = "Largest (AckRanges a ! 0)" and ?tr = "IgnoreBelow (appDataPackets h1) l"
  from assms(2) have g: "tracker_GetAckFrame (appDataPackets h) onlyIfQueued now recovered = (Some a, appDataPackets h1)"
    by (auto simp: handler_GetAckFrame_def Let_def split: prod.splits)
  note ok = tracker_GetAckFrame_ok [OF ack_steps_inv [OF assms(1)] g]
  then have inv1: "tracker_inv (appDataPackets h1, got \<union> set recovered)" and low: "ignoreBelow (appDataPackets h1) \<le> p"
    and last: "lastAck (appDataPackets h1) = Some a" "\<not> ackQueued (appDataPackets h1)" "ack_ranges_ok (AckRanges a)"
      "packets (ranges (packetHistory (appDataPackets h1))) = acked (AckRanges a)" using assms(6) by auto
  note ign = IgnoreBelow_ok [OF inv1, of l]
  have "tracker_inv (?tr, got \<union> set recovered)" "ignoreBelow ?tr \<le> p" "packets (ranges (packetHistory ?tr)) \<subseteq> acked (AckRanges a)"
    using ign low last(4) assms(7) by auto
  from missing_packet_queues [OF this(1) _ assms(3) _ this(3,2) assms(4,5), of ecn t] last obtain tr2 where
    tr2: "tracker_ReceivedPacket ?tr p ecn t True = Inr tr2" "hasNewAck tr2" "ackQueued tr2" "ignoreBelow tr2 = ignoreBelow ?tr"
      "descending (rev (ranges (packetHistory tr2)))" "deletedBelow (packetHistory tr2) = ignoreBelow ?tr"
      "packets (ranges (packetHistory tr2)) \<subseteq> insert p (acked (AckRanges a))" by auto
  have below: "\<forall>x \<in> packets (ranges (packetHistory tr2)). x < ?top + 1"
    using tr2(7) assms(4) acked_le_first [OF last(3)] by fastforce
  have lim: "ignoreBelow tr2 < ?top + 1" "deletedBelow (packetHistory tr2) \<le> ?top + 1" "p' < ?top + 1"
    using tr2(4,6) \<open>ignoreBelow ?tr \<le> p\<close> assms(4,8) by simp_all
  note stale = emptied_history [OF tr2(2,3,5) lim(1,2) below lim(3)]
  from stale(2) [of now'] obtain a' tr4 where a': "tracker_GetAckFrame (IgnoreBelow tr2 (?top + 1)) True now' [] = (Some a', tr4)" "AckRanges a' = []"
    by blast
  show ?thesis
    using tr2(1) stale(1) a' AckFrame_Length_empty [OF a'(2)] by (simp add: handler_ReceivedPacket_def handler_GetAckFrame_def Let_def)
qed

theorem stale_acknowledgement_faults_witness:
  "\<exists>h a h1 h2 h3 a' h4. handler_ReceivedPacket newReceivedPacketHandler 0 5 ECN_Non Encryption1RTT 10 True = Inr h \<and>
     handler_GetAckFrame h Encryption1RTT False 20 [] = (Some a, h1) \<and>
     handler_ReceivedPacket h1 0 3 ECN_Non Encryption1RTT 30 True = Inr h2 \<and>
     handler_ReceivedPacket h2 6 2 ECN_Non Encryption1RTT 40 True = Inr h3 \<and>
     handler_GetAckFrame h3 Encryption1RTT True 50 [] = (Some a', h4) \<and> AckFrame_Length a' = Inl IndexOutOfRange"
proof -
  have "case tracker_ReceivedPacket newReceivedPacketTracker 5 ECN_Non 10 True of Inl e \<Rightarrow> False
    | Inr tr \<Rightarrow> ignoreBelow tr = 0 \<and> map_option AckRanges (fst (tracker_GetAckFrame tr False 20 [])) = Some [\<lparr>Smallest = 5, Largest = 5\<rparr>]" by code_simp
  then obtain tr where tr: "tracker_ReceivedPacket newReceivedPacketTracker 5 ECN_Non 10 True = Inr tr" "ignoreBelow tr = 0"
    "map_option AckRanges (fst (tracker_GetAckFrame tr False 20 [])) = Some [\<lparr>Smallest = 5, Largest = 5\<rparr>]" by (auto split: sum.splits)
  then obtain a tr1 where a: "tracker_GetAckFrame tr False 20 [] = (Some a, tr1)" "AckRanges a = [\<lparr>Smallest = 5, Largest = 5\<rparr>]"
    by (cases "tracker_GetAckFrame tr False 20 []") auto
  let ?h = "newReceivedPacketHandler\<lparr>lowest1RTTPacket := 5, appDataPackets := tr\<rparr>"
  have "IgnoreBelow newReceivedPacketTracker 0 = newReceivedPacketTracker" by code_simp
  then have h: "handler_ReceivedPacket newReceivedPacketHandler 0 5 ECN_Non Encryption1RTT 10 True = Inr ?h"
    using tr(1) by (simp add: handler_ReceivedPacket_def newReceivedPacketHandler_def Let_def)
  have reach: "ack_step\<^sup>*\<^sup>* (newReceivedPacketTracker, {}) (appDataPackets ?h, {5})" using ack_step.received [OF tr(1), of "{}"] by auto
  have g: "handler_GetAckFrame ?h Encryption1RTT False 20 [] = (Some a, ?h\<lparr>appDataPackets := tr1\<rparr>)"
    using a(1) by (simp add: handler_GetAckFrame_def Let_def)
  from stale_acknowledgement_faults [OF reach g, of 3 0 2 ECN_Non 30 ECN_Non 40 True 50] a(2) tr(2) h g show ?thesis
    by (auto simp: acked_def)
qed

section \<open>Flow control\<close>

text \<open>C30. Two sides that follow the windows never run into a flow control error: after any sequence of sending, delivery of frames in any
  order and repeatedly, reading and window updates, the receiver accepts every frame that was sent, and has not received
  more than it allowed on any stream or on the connection.\<close>

theorem flow_control_never_violated:
  assumes "finite S" and "0 \<le> window" "window \<le> maxWindow" "0 \<le> connWindow" "connWindow \<le> maxConnWindow"
    and "(flow_step S)\<^sup>*\<^sup>* (new_link window maxWindow connWindow maxConnWindow) l"
    and "(i, offset, final) \<in> fl_frames l"
  shows "fst (UpdateHighestReceived (fl_rstr l i) (fl_rconn l) offset final) = None \<and>
    \<not> checkFlowControlViolation (fc_base (fl_rstr l i)) \<and> \<not> checkFlowControlViolation (fl_rconn l) \<and>
    bytesSent (fc_base (fl_sstr l i)) \<le> receiveWindow (fc_base (fl_rstr l i)) \<and> bytesSent (fl_sconn l) \<le> receiveWindow (fl_rconn l)"
proof -
  have inv: "link_inv S l" by (rule flow_steps_inv [OF assms(6) new_link_inv [OF assms(1-5)]])
  have "i \<in> S" using inv assms(7) unfolding link_inv_def by blast
  then have s: "stream_inv l i" using inv by (simp add: link_inv_def)
  obtain err c conn where u: "UpdateHighestReceived (fl_rstr l i) (fl_rconn l) offset final = (err, c, conn)" by (metis surj_pair)
  have "highestReceived (fl_rconn l) \<le> bytesSent (fl_sconn l)"
    using inv unfolding link_inv_def by (auto simp: stream_inv_def Let_def intro!: sum_mono)
  then show ?thesis using deliver_accepted [OF inv assms(7) u] u s inv
    by (auto simp: stream_inv_def Let_def link_inv_def checkFlowControlViolation_def)
qed

theorem flow_control_never_violated_witness:
  "\<exists>l. (flow_step {4})\<^sup>*\<^sup>* (new_link 10 30 20 40) l \<and> (4, 10, False) \<in> fl_frames l \<and>
    fst (UpdateHighestReceived (fl_rstr l 4) (fl_rconn l) 10 False) = None"
proof -
  let ?l = "new_link 10 30 20 40"
  obtain c conn where s: "stream_AddBytesSent (fl_sstr ?l 4) (fl_sconn ?l) 10 = (c, conn)" by (metis surj_pair)
  then have c: "bytesSent (fc_base c) = 10"
    by (auto simp: stream_AddBytesSent_def base_AddBytesSent_def new_link_def NewStreamFlowController_def)
  have "flow_step {4} ?l (?l\<lparr>fl_sstr := (fl_sstr ?l)(4 := c), fl_sconn := conn, fl_frames := insert (4, bytesSent (fc_base c), False) (fl_frames ?l)\<rparr>)"
    by (rule flow_step.send [OF _ _ _ _ s], simp, simp add: new_link_def, simp, code_simp)
  then have "\<exists>l. flow_step {4} ?l l \<and> (4, 10, False) \<in> fl_frames l" using c by force
  then obtain l where l: "(flow_step {4})\<^sup>*\<^sup>* ?l l" "(4, 10, False) \<in> fl_frames l" by blast
  with flow_control_never_violated [OF _ _ _ _ _ l] show ?thesis by auto
qed

end
