(* ===== verification/Raptor_Algebra.thy ===== *)
theory Raptor_Algebra
  imports Main "HOL-Library.Multiset"
begin

text \<open>
  Linear algebra over the field with two elements, as the Raptor code needs it: matrices are lists of rows of bits, the
  unknowns and the right-hand sides are values with an addition of order two.  The locale \<open>xor_space\<close> is the interface to such
  values; symbols of bytes and rows of bits are its two instances.  The locale has what the row operations of an
  elimination keep (the solutions of the system) and how an update of the unknowns acts on the rows.
\<close>

definition dot :: "('g \<Rightarrow> 'g \<Rightarrow> 'g) \<Rightarrow> 'g \<Rightarrow> bool list \<Rightarrow> 'g list \<Rightarrow> 'g" where
  "dot add zero r x = foldr (\<lambda>(b, v) s. if b then add v s else s) (zip r x) zero"

definition bxor :: "bool \<Rightarrow> bool \<Rightarrow> bool" where
  "bxor a b = (a \<noteq> b)"

lemma bxor_simps [simp]: "bxor True b = (\<not> b)" "bxor False b = b" "bxor b False = b" "bxor b True = (\<not> b)" "bxor b b = False"
  by (simp_all add: bxor_def)

definition toggle :: "nat \<Rightarrow> bool list \<Rightarrow> bool list" where
  "toggle b r = r[b := \<not> r ! b]"

definition unit_row :: "nat \<Rightarrow> nat \<Rightarrow> bool list" where
  "unit_row n i = map (\<lambda>j. j = i) [0..<n]"

text \<open>An update that adds unknown \<open>s\<close> to unknown \<open>t\<close>, and the same update seen from a row of coefficients.\<close>

definition add_to :: "('g \<Rightarrow> 'g \<Rightarrow> 'g) \<Rightarrow> nat \<times> nat \<Rightarrow> 'g list \<Rightarrow> 'g list" where
  "add_to add = (\<lambda>(s, t) x. x[t := add (x ! t) (x ! s)])"

definition add_back :: "nat \<times> nat \<Rightarrow> bool list \<Rightarrow> bool list" where
  "add_back = (\<lambda>(s, t) r. if r ! t then toggle s r else r)"

definition solves :: "('g \<Rightarrow> 'g \<Rightarrow> 'g) \<Rightarrow> 'g \<Rightarrow> bool list list \<Rightarrow> 'g list \<Rightarrow> 'g list \<Rightarrow> bool" where
  "solves add zero A d x \<longleftrightarrow> (\<forall>i < length A. dot add zero (A ! i) x = d ! i)"

lemma length_toggle [simp]: "length (toggle b r) = length r"
  by (simp add: toggle_def)

lemma length_add_to [simp]: "length (add_to add p x) = length x"
  by (simp add: add_to_def split: prod.split)

lemma length_add_back [simp]: "length (add_back p r) = length r"
  by (simp add: add_back_def split: prod.split)

lemma length_fold_add_back [simp]: "length (fold add_back ps r) = length r"
  by (induction ps arbitrary: r) simp_all

lemma length_fold_add_to [simp]: "length (fold (add_to add) ps x) = length x"
  by (induction ps arbitrary: x) simp_all

lemma length_fold_toggle [simp]: "length (fold toggle bs r) = length r"
  by (induction bs arbitrary: r) simp_all

lemma length_unit_row [simp]: "length (unit_row n i) = n"
  by (simp add: unit_row_def)

text \<open>Updates from the unknowns below a bound to the unknowns above it commute, so their order does not matter.\<close>

lemma add_back_commute:
  assumes "s < n" "s' < n" "n \<le> t" "n \<le> t'"
  shows "add_back (s, t) \<circ> add_back (s', t') = add_back (s', t') \<circ> add_back (s, t)"
proof
  fix r
  have ne: "s \<noteq> t'" "s' \<noteq> t" using assms by auto
  show "(add_back (s, t) \<circ> add_back (s', t')) r = (add_back (s', t') \<circ> add_back (s, t)) r"
    using ne by (cases "s = s'") (simp_all add: add_back_def toggle_def list_update_swap nth_list_update)
qed

lemma fold_add_back_mset:
  assumes "mset ps = mset qs" and "\<And>s t. (s, t) \<in> set ps \<Longrightarrow> s < n \<and> n \<le> t"
  shows "fold add_back ps r = fold add_back qs r"
proof -
  have "fold add_back ps = fold add_back qs"
    using assms by (intro fold_multiset_equiv) (auto intro!: add_back_commute [of _ n])
  then show ?thesis by simp
qed

lemma fold_add_back_rev:
  assumes "\<And>s t. (s, t) \<in> set ps \<Longrightarrow> s < n \<and> n \<le> t"
  shows "fold add_back (rev ps) r = fold add_back ps r"
  using assms by (intro fold_add_back_mset [symmetric, where n = n]) auto

lemma nth_fold_add_back:
  assumes "\<And>s t. (s, t) \<in> set ps \<Longrightarrow> s < n \<and> n \<le> t" and "n \<le> k"
  shows "fold add_back ps r ! k = r ! k"
  using assms
proof (induction ps arbitrary: r)
  case (Cons p ps)
  obtain s t where p: "p = (s, t)" by (cases p)
  then have "s \<noteq> k" using Cons.prems(1) [of s t] Cons.prems(2) by auto
  then have "add_back p r ! k = r ! k" by (simp add: p add_back_def toggle_def)
  moreover have "fold add_back ps (add_back p r) ! k = add_back p r ! k" using Cons.prems by (intro Cons.IH) auto
  ultimately show ?case by simp
qed simp

definition swap :: "nat \<Rightarrow> nat \<Rightarrow> 'a list \<Rightarrow> 'a list" where
  "swap i j xs = xs[j := xs ! i, i := xs ! j]"

lemma length_swap [simp]: "length (swap i j xs) = length xs"
  by (simp add: swap_def)

lemma swap_swap [simp]: "i < length xs \<Longrightarrow> j < length xs \<Longrightarrow> swap i j (swap i j xs) = xs"
  by (intro nth_equalityI) (auto simp: swap_def nth_list_update)

section \<open>The interface\<close>

locale xor_space =
  fixes add :: "'g \<Rightarrow> 'g \<Rightarrow> 'g" and zero :: 'g and carrier :: "'g set"
  assumes zero_in [simp]: "zero \<in> carrier"
    and add_in [simp]: "x \<in> carrier \<Longrightarrow> y \<in> carrier \<Longrightarrow> add x y \<in> carrier"
    and add_assoc: "x \<in> carrier \<Longrightarrow> y \<in> carrier \<Longrightarrow> z \<in> carrier \<Longrightarrow> add (add x y) z = add x (add y z)"
    and add_comm: "x \<in> carrier \<Longrightarrow> y \<in> carrier \<Longrightarrow> add x y = add y x"
    and zero_add [simp]: "x \<in> carrier \<Longrightarrow> add zero x = x"
    and add_self [simp]: "x \<in> carrier \<Longrightarrow> add x x = zero"
begin

lemma add_zero [simp]: "x \<in> carrier \<Longrightarrow> add x zero = x"
  using add_comm [of x zero] by simp

lemma add_left_comm: "x \<in> carrier \<Longrightarrow> y \<in> carrier \<Longrightarrow> z \<in> carrier \<Longrightarrow> add x (add y z) = add y (add x z)"
  by (metis add_assoc add_comm)

lemmas add_ac = add_assoc add_comm add_left_comm

lemma add_cancel [simp]: "x \<in> carrier \<Longrightarrow> y \<in> carrier \<Longrightarrow> add x (add x y) = y"
  by (simp add: add_assoc [symmetric])

lemma add_eq_iff: "x \<in> carrier \<Longrightarrow> y \<in> carrier \<Longrightarrow> z \<in> carrier \<Longrightarrow> add x y = z \<longleftrightarrow> x = add y z"
  by (metis add_cancel add_comm add_in)

lemma nth_in [simp]: "i < length x \<Longrightarrow> set x \<subseteq> carrier \<Longrightarrow> x ! i \<in> carrier"
  using nth_mem [of i x] by blast

lemma dot_Nil [simp]: "dot add zero [] x = zero" "dot add zero r [] = zero"
  by (simp_all add: dot_def)

lemma dot_Cons [simp]: "dot add zero (b # r) (v # x) = (if b then add v (dot add zero r x) else dot add zero r x)"
  by (simp add: dot_def)

lemma dot_in [simp]: "set x \<subseteq> carrier \<Longrightarrow> dot add zero r x \<in> carrier"
  by (induction r x rule: list_induct2') auto

lemma dot_replicate [simp]: "dot add zero (replicate n False) x = zero"
proof (induction n arbitrary: x)
  case (Suc n)
  then show ?case by (cases x) simp_all
qed simp

lemma dot_zeros: "set x \<subseteq> {zero} \<Longrightarrow> dot add zero r x = zero"
  by (induction r x rule: list_induct2') auto

lemma dot_append: "length r = length x \<Longrightarrow> set y \<subseteq> {zero} \<Longrightarrow> dot add zero (r @ s) (x @ y) = dot add zero r x"
  by (induction r x rule: list_induct2) (auto simp: dot_zeros)

lemma dot_take:
  assumes "set y \<subseteq> {zero}" and "length x \<le> length r"
  shows "dot add zero r (x @ y) = dot add zero (take (length x) r) x"
  using dot_append [of "take (length x) r" x y "drop (length x) r"] assms by simp

lemma dot_toggle:
  "b < length r \<Longrightarrow> length r = length x \<Longrightarrow> set x \<subseteq> carrier \<Longrightarrow> dot add zero (toggle b r) x = add (x ! b) (dot add zero r x)"
proof (induction r arbitrary: b x)
  case (Cons c r)
  then obtain v y where x: "x = v # y" by (cases x) auto
  show ?case
  proof (cases b)
    case 0
    with Cons.prems x show ?thesis by (simp add: toggle_def)
  next
    case (Suc k)
    have "dot add zero (toggle k r) y = add (y ! k) (dot add zero r y)" using Cons x Suc by simp
    moreover have "y ! k \<in> carrier" "v \<in> carrier" using Cons.prems x Suc by auto
    ultimately show ?thesis using Cons.prems x Suc by (simp add: toggle_def add_left_comm)
  qed
qed simp

lemma dot_update:
  "t < length x \<Longrightarrow> length r = length x \<Longrightarrow> set x \<subseteq> carrier \<Longrightarrow> w \<in> carrier \<Longrightarrow>
   dot add zero r (x[t := add (x ! t) w]) = (if r ! t then add w (dot add zero r x) else dot add zero r x)"
proof (induction r arbitrary: t x)
  case (Cons c r)
  then obtain v y where x: "x = v # y" by (cases x) auto
  show ?case
  proof (cases t)
    case 0
    with Cons.prems x show ?thesis by (auto simp: add_ac)
  next
    case (Suc k)
    have "dot add zero r (y[k := add (y ! k) w]) = (if r ! k then add w (dot add zero r y) else dot add zero r y)"
      using Cons x Suc by simp
    then show ?thesis using Cons.prems x Suc by (simp add: add_left_comm)
  qed
qed simp

lemma dot_xor:
  assumes "length r = length x" "length s = length x" "set x \<subseteq> carrier"
  shows "dot add zero (map2 bxor r s) x = add (dot add zero r x) (dot add zero s x)"
  using assms
proof (induction r x arbitrary: s rule: list_induct2)
  case (Cons c r v x)
  then obtain c' s' where s: "s = c' # s'" by (cases s) auto
  have "dot add zero (map2 bxor r s') x = add (dot add zero r x) (dot add zero s' x)" using Cons s by simp
  then show ?case using Cons.prems s by (auto simp: add_ac)
qed simp

lemma dot_unit: "i < length x \<Longrightarrow> set x \<subseteq> carrier \<Longrightarrow> dot add zero (unit_row (length x) i) x = x ! i"
proof -
  assume i: "i < length x" and x: "set x \<subseteq> carrier"
  have "unit_row (length x) i = toggle i (replicate (length x) False)"
    using i by (intro nth_equalityI) (auto simp: unit_row_def toggle_def nth_list_update)
  then show ?thesis using i x by (simp add: dot_toggle)
qed

text \<open>An update of the unknowns, or a sequence of them, is an update of the rows.\<close>

lemma dot_add_to:
  assumes "s < length x" "t < length x" "length r = length x" "set x \<subseteq> carrier"
  shows "dot add zero r (add_to add (s, t) x) = dot add zero (add_back (s, t) r) x"
  using assms by (simp add: add_to_def add_back_def dot_update dot_toggle)

lemma add_to_in: "set x \<subseteq> carrier \<Longrightarrow> s < length x \<Longrightarrow> t < length x \<Longrightarrow> set (add_to add (s, t) x) \<subseteq> carrier"
  unfolding add_to_def prod.case by (intro set_update_subsetI) (auto simp: subset_iff)

lemma fold_add_to:
  assumes "\<And>s t. (s, t) \<in> set ps \<Longrightarrow> s < length x \<and> t < length x" "length r = length x" "set x \<subseteq> carrier"
  shows "dot add zero r (fold (add_to add) ps x) = dot add zero (fold add_back (rev ps) r) x"
    and "set (fold (add_to add) ps x) \<subseteq> carrier"
proof -
  have "dot add zero r (fold (add_to add) ps x) = dot add zero (fold add_back (rev ps) r) x \<and> set (fold (add_to add) ps x) \<subseteq> carrier"
    using assms
  proof (induction ps arbitrary: x)
    case (Cons p ps)
    obtain s t where p: "p = (s, t)" by (cases p)
    have st: "s < length x" "t < length x" using Cons.prems(1) [of s t] p by simp_all
    then have "set (add_to add p x) \<subseteq> carrier" using Cons.prems p by (simp add: add_to_in)
    then have "dot add zero r (fold (add_to add) ps (add_to add p x)) = dot add zero (fold add_back (rev ps) r) (add_to add p x) \<and>
        set (fold (add_to add) ps (add_to add p x)) \<subseteq> carrier"
      using Cons.prems by (intro Cons.IH) auto
    then show ?case using st Cons.prems by (simp add: p dot_add_to)
  qed simp
  then show "dot add zero r (fold (add_to add) ps x) = dot add zero (fold add_back (rev ps) r) x"
    and "set (fold (add_to add) ps x) \<subseteq> carrier" by simp_all
qed

lemma dot_fold_toggle:
  assumes "set bs \<subseteq> {..<length x}" "length r = length x" "set x \<subseteq> carrier"
  shows "dot add zero (fold toggle bs r) x = fold (\<lambda>b v. add v (x ! b)) bs (dot add zero r x)"
  using assms
proof (induction bs arbitrary: r)
  case (Cons b bs)
  then have "dot add zero (toggle b r) x = add (dot add zero r x) (x ! b)" by (auto simp: dot_toggle add_comm)
  then show ?case using Cons by simp
qed simp

section \<open>Row operations\<close>

lemma solves_add:
  assumes A: "i < length A" "j < length A" "i \<noteq> j" and len: "\<forall>r \<in> set A. length r = length x" and x: "set x \<subseteq> carrier"
    and d: "length d = length A" "set d \<subseteq> carrier"
  shows "solves add zero (A[j := map2 bxor (A ! j) (A ! i)]) (d[j := add (d ! j) (d ! i)]) x \<longleftrightarrow> solves add zero A d x"
proof -
  have row: "dot add zero (map2 bxor (A ! j) (A ! i)) x = add (dot add zero (A ! j) x) (dot add zero (A ! i) x)"
    using A len x by (intro dot_xor) auto
  have in': "d ! j \<in> carrier" "d ! i \<in> carrier" "dot add zero (A ! j) x \<in> carrier" using A d x by auto
  have key: "add (dot add zero (A ! j) x) (d ! i) = add (d ! j) (d ! i) \<longleftrightarrow> dot add zero (A ! j) x = d ! j"
    using in' by (metis add_cancel add_comm)
  have split: "solves add zero B e x \<longleftrightarrow> dot add zero (B ! j) x = e ! j \<and> (\<forall>k < length B. k \<noteq> j \<longrightarrow> dot add zero (B ! k) x = e ! k)"
    if "j < length B" for B e using that by (auto simp: solves_def)
  have "dot add zero (A ! i) x = d ! i" if "\<forall>k < length A. k \<noteq> j \<longrightarrow> dot add zero (A ! k) x = d ! k" using that A by blast
  then show ?thesis using A d row key by (auto simp: split)
qed

lemma solves_swapI:
  assumes "i < length A" "j < length A" "length d = length A" "solves add zero A d x"
  shows "solves add zero (swap i j A) (swap i j d) x"
  using assms by (simp add: solves_def swap_def nth_list_update)

lemma solves_swap:
  assumes "i < length A" "j < length A" "length d = length A"
  shows "solves add zero (swap i j A) (swap i j d) x \<longleftrightarrow> solves add zero A d x"
  using assms solves_swapI [of i A j d] solves_swapI [of i "swap i j A" j "swap i j d"] by auto

end

end
