(* ===== verification/Raptor_Code.thy ===== *)
theory Raptor_Code
  imports Mp2bs_Prelude Raptor_Algebra Raptor_Tables "HOL-Library.While_Combinator"
begin

unbundle bit_operations_syntax

text \<open>
  The Raptor code of \<^verbatim>\<open>enhanced-quic/fec/raptor.go\<close>: the C functions in its preamble and the Go methods that call them.
  \<^verbatim>\<open>mp2session/raptor.go\<close> is the same code with other names.  A matrix of \<^verbatim>\<open>char\<close> whose entries are 0 and 1 is a list of rows of
  truth values, a symbol is a list of bytes, and the array \<^verbatim>\<open>U\<close> is the list of its columns.  A loop without a bound is
  \<open>while_option\<close>, and \<open>Blocked\<close> when it does not end; an index outside an array is \<open>IndexOutOfRange\<close>, where C is undefined.  The two
  overheads are given in ten-thousandths; the quotients of floating point numbers are the exact ones.  The counters of
  the additions are left out.
\<close>

type_synonym symbol = bytes
type_synonym matrix = "bool list list"

record raptor_params =
  rp_K :: nat
  rp_SYMBOL_SIZE :: nat
  rp_S :: nat
  rp_H :: nat
  rp_L :: nat
  rp_Lp :: nat
  rp_N :: nat
  rp_M :: nat
  rp_U :: "(nat \<times> nat \<times> nat) list"
  rp_A :: matrix
  rp_AI :: "matrix option"
  rp_m :: "int list"

definition loopE :: "('s \<Rightarrow> bool) \<Rightarrow> ('s \<Rightarrow> 's) \<Rightarrow> 's \<Rightarrow> 's result" where
  "loopE c f s = (case while_option c f s of None \<Rightarrow> Inl Blocked | Some s' \<Rightarrow> Inr s')"

fun mapE :: "('a \<Rightarrow> 'b result) \<Rightarrow> 'a list \<Rightarrow> 'b list result" where
  "mapE f [] = Inr []"
| "mapE f (x # xs) = bindE (f x) (\<lambda>y. bindE (mapE f xs) (\<lambda>ys. Inr (y # ys)))"

section \<open>Random numbers and triples\<close>

definition Isp :: "nat \<Rightarrow> bool" where
  "Isp x = list_all (\<lambda>i. x mod i \<noteq> 0) [2..<x]"

definition Factor :: "nat \<Rightarrow> int" where
  "Factor n = fold (\<lambda>i v. v * int i) [1..<Suc n] 1"

fun rg_search :: "int \<Rightarrow> (nat \<times> int) list \<Rightarrow> nat result" where
  "rg_search v [] = Inl IndexOutOfRange"
| "rg_search v ((d, f) # rest) = (if v \<ge> f then rg_search v rest else Inr d)"

definition rg :: "int \<Rightarrow> nat result" where
  "rg v = rg_search v [(1, 10241), (2, 491582), (3, 712794), (4, 831695), (10, 948446), (11, 1032189), (40, 1048576)]"

definition rd :: "int \<Rightarrow> int \<Rightarrow> int \<Rightarrow> int" where
  "rd X i m = (V0 ! nat ((X + i) mod 256) XOR V1 ! nat ((X div 256 + i) mod 256)) mod m"

definition triple_from :: "int \<Rightarrow> nat \<Rightarrow> nat \<Rightarrow> (nat \<times> nat \<times> nat) result" where
  "triple_from Jk Lp i =
     (let Q = 65521; A = (53591 + Jk * 997) mod Q; B = (10267 * (Jk + 1)) mod Q; Y = (B + int i * A) mod Q; V = rd Y 0 1048576 in
      bindE (rg V) (\<lambda>d. Inr (d, nat (1 + rd Y 1 (int Lp - 1)), nat (rd Y 2 (int Lp)))))"

definition triple :: "raptor_params \<Rightarrow> nat \<Rightarrow> (nat \<times> nat \<times> nat) result" where
  "triple p i = bindE (go_index J (rp_K p)) (\<lambda>Jk. triple_from (int Jk) (rp_Lp p) i)"

definition TripleCalculate :: "raptor_params \<Rightarrow> raptor_params result" where
  "TripleCalculate p = bindE (mapE (triple p) [0..<rp_M p]) (\<lambda>U. Inr (p\<lparr>rp_U := U\<rparr>))"

section \<open>Rows of the matrices\<close>

definition lt_next :: "raptor_params \<Rightarrow> nat \<Rightarrow> nat \<Rightarrow> nat result" where
  "lt_next p a b = loopE (\<lambda>b. rp_L p \<le> b) (\<lambda>b. (b + a) mod rp_Lp p) b"

fun lt_rest :: "raptor_params \<Rightarrow> nat \<Rightarrow> nat \<Rightarrow> nat \<Rightarrow> nat list result" where
  "lt_rest p a b 0 = Inr []"
| "lt_rest p a b (Suc n) =
     bindE (lt_next p a ((b + a) mod rp_Lp p)) (\<lambda>b. bindE (lt_rest p a b n) (\<lambda>bs. Inr (b # bs)))"

text \<open>The columns that the walk of a symbol visits, in their order.\<close>

definition lt_columns :: "raptor_params \<Rightarrow> nat \<Rightarrow> nat list result" where
  "lt_columns p i =
     bindE (go_index (rp_U p) i) (\<lambda>(d, a, b).
     bindE (lt_next p a b) (\<lambda>b.
     bindE (lt_rest p a b (min (d - 1) (rp_L p - 1))) (\<lambda>bs. Inr (b # bs))))"

definition lt_row :: "raptor_params \<Rightarrow> nat \<Rightarrow> bool list result" where
  "lt_row p i = bindE (lt_columns p i) (\<lambda>bs. Inr (fold toggle bs (replicate (rp_L p) False)))"

definition FindMatrixA :: "raptor_params \<Rightarrow> raptor_params result" where
  "FindMatrixA p = bindE (mapE (lt_row p) [0..<rp_K p]) (\<lambda>A. Inr (p\<lparr>rp_A := A\<rparr>))"

definition FindMatrixAUsingSymbols :: "nat list \<Rightarrow> raptor_params \<Rightarrow> matrix result" where
  "FindMatrixAUsingSymbols ESIs p = mapE (\<lambda>i. bindE (go_index ESIs i) (lt_row p)) [0..<rp_N p]"

text \<open>Numbers are not negative here, so \<open>g \<le> 0\<close> is the test for zero.\<close>

fun count_ones :: "int \<Rightarrow> nat \<Rightarrow> nat" where
  "count_ones g cnt =
     (let cnt = (if g mod 2 = 1 then cnt + 1 else cnt); g = g div 2 in
      if g \<le> 0 then cnt else count_ones g cnt)"

declare count_ones.simps [simp del]

definition MakeGraySequence :: "raptor_params \<Rightarrow> raptor_params result" where
  "MakeGraySequence p =
     (let Hp = (rp_H p + 1) div 2 in
      bindE (loopE (\<lambda>(i, m). length m < rp_K p + rp_S p)
        (\<lambda>(i, m). let g = i XOR (i div 2) in (i + 1, if Hp = count_ones g 0 then m @ [g] else m)) (0, []))
      (\<lambda>(i, m). Inr (p\<lparr>rp_m := m\<rparr>)))"

text \<open>The positions of the ones of a number, as the loops over its digits find them.\<close>

fun one_bits :: "int \<Rightarrow> nat \<Rightarrow> nat list" where
  "one_bits cnt j =
     (let ones = (if cnt mod 2 = 1 then [j] else []); cnt = cnt div 2 in
      if cnt \<le> 0 then ones else ones @ one_bits cnt (j + 1))"

declare one_bits.simps [simp del]

definition half_row :: "raptor_params \<Rightarrow> bool list \<Rightarrow> bool list" where
  "half_row p r =
     fold (\<lambda>aaaa r. if r ! (rp_K p + rp_S p + aaaa)
         then fold (\<lambda>i r. fold (\<lambda>j r. if j = aaaa then toggle i r else r) (one_bits (rp_m p ! i) 0) r) [0..<rp_K p + rp_S p] r
         else r)
       [0..<rp_H p] r"

definition InverseHALF :: "matrix \<Rightarrow> raptor_params \<Rightarrow> matrix" where
  "InverseHALF A p = map (half_row p) A"

text \<open>The three check symbols that source symbol \<open>i\<close> enters.\<close>

definition ldpc_checks :: "raptor_params \<Rightarrow> nat \<Rightarrow> nat list" where
  "ldpc_checks p i =
     (let a = 1 + (i div rp_S p) mod (rp_S p - 1); b = i mod rp_S p; b' = (b + a) mod rp_S p; b'' = (b' + a) mod rp_S p in [b, b', b''])"

definition ldpc_row :: "raptor_params \<Rightarrow> bool list \<Rightarrow> bool list" where
  "ldpc_row p r =
     fold (\<lambda>i r. fold (\<lambda>b r. if r ! (rp_K p + b) then toggle i r else r) (ldpc_checks p i) r) [0..<rp_K p] r"

definition InverseLDPC :: "matrix \<Rightarrow> raptor_params \<Rightarrow> matrix" where
  "InverseLDPC A p = map (ldpc_row p) A"

section \<open>Elimination\<close>

text \<open>The first row from \<open>j\<close> on with a one in column \<open>j\<close>.\<close>

definition find_pivot :: "matrix \<Rightarrow> nat \<Rightarrow> nat \<Rightarrow> nat option" where
  "find_pivot AA j n = find (\<lambda>i. AA ! i ! j) [j..<n]"

definition clear_row ::
  "(bool list \<Rightarrow> bool list \<Rightarrow> bool list) \<Rightarrow> ('g \<Rightarrow> 'g \<Rightarrow> 'g) \<Rightarrow> nat \<Rightarrow> nat \<Rightarrow> matrix \<times> 'g list \<Rightarrow> matrix \<times> 'g list" where
  "clear_row radd dadd j i = (\<lambda>(AA, d).
     if AA ! i ! j \<and> i \<noteq> j then (AA[i := radd (AA ! i) (AA ! j)], d[i := dadd (d ! i) (d ! j)]) else (AA, d))"

definition clear_column ::
  "(bool list \<Rightarrow> bool list \<Rightarrow> bool list) \<Rightarrow> ('g \<Rightarrow> 'g \<Rightarrow> 'g) \<Rightarrow> nat \<Rightarrow> nat \<Rightarrow> matrix \<times> 'g list \<Rightarrow> matrix \<times> 'g list" where
  "clear_column radd dadd n j st = fold (clear_row radd dadd j) [0..<n] st"

definition add_column ::
  "(bool list \<Rightarrow> bool list \<Rightarrow> bool list) \<Rightarrow> ('g \<Rightarrow> 'g \<Rightarrow> 'g) \<Rightarrow> nat \<Rightarrow> nat \<Rightarrow> matrix \<times> 'g list \<Rightarrow> (matrix \<times> 'g list) option" where
  "add_column radd dadd n j = (\<lambda>(AA, d).
     case find_pivot AA j n of
       None \<Rightarrow> None
     | Some i \<Rightarrow>
         let st = (if i \<noteq> j then (AA[j := radd (AA ! j) (AA ! i)], d[j := dadd (d ! j) (d ! i)]) else (AA, d))
         in Some (clear_column radd dadd n j st))"

definition inverse_column :: "nat \<Rightarrow> nat \<Rightarrow> matrix \<times> matrix \<Rightarrow> (matrix \<times> matrix) option" where
  "inverse_column K = add_column (map2 bxor) (map2 bxor) K"

fun columns :: "(nat \<Rightarrow> 's \<Rightarrow> 's option) \<Rightarrow> nat list \<Rightarrow> 's \<Rightarrow> 's option" where
  "columns f [] st = Some st"
| "columns f (j # js) st = (case f j st of None \<Rightarrow> None | Some st' \<Rightarrow> columns f js st')"

definition FindInverseMatrix :: "raptor_params \<Rightarrow> raptor_params" where
  "FindInverseMatrix p =
     (let K = rp_K p in
      p\<lparr>rp_AI := map_option snd (columns (inverse_column K) [0..<K] (map (take K) (rp_A p), map (unit_row K) [0..<K]))\<rparr>)"

text \<open>\<^verbatim>\<open>vector_xor\<close> works in steps of 16 bytes; it adds to a symbol and to a row of a matrix.\<close>

definition vector_len :: "nat \<Rightarrow> nat" where
  "vector_len iter_num = 16 * ((iter_num + 15) div 16)"

definition vector_xor :: "bytes \<Rightarrow> bytes \<Rightarrow> nat \<Rightarrow> bytes" where
  "vector_xor dst src iter_num = (let k = vector_len iter_num in map2 (XOR) (take k dst) (take k src) @ drop k dst)"

definition row_xor :: "bool list \<Rightarrow> bool list \<Rightarrow> nat \<Rightarrow> bool list" where
  "row_xor dst src iter_num = (let k = vector_len iter_num in map2 bxor (take k dst) (take k src) @ drop k dst)"

definition swap_column ::
  "(bool list \<Rightarrow> bool list \<Rightarrow> bool list) \<Rightarrow> ('g \<Rightarrow> 'g \<Rightarrow> 'g) \<Rightarrow> nat \<Rightarrow> nat \<Rightarrow> matrix \<times> 'g list \<Rightarrow> (matrix \<times> 'g list) option" where
  "swap_column radd dadd n j = (\<lambda>(AA, d).
     case find_pivot AA j n of
       None \<Rightarrow> None
     | Some i \<Rightarrow>
         let st = (if i \<noteq> j then (swap i j AA, swap i j d) else (AA, d)) in Some (clear_column radd dadd n j st))"

definition symbol_column :: "raptor_params \<Rightarrow> nat \<Rightarrow> matrix \<times> symbol list \<Rightarrow> (matrix \<times> symbol list) option" where
  "symbol_column p = swap_column (\<lambda>r s. row_xor r s (rp_K p)) (\<lambda>r s. vector_xor r s (rp_SYMBOL_SIZE p)) (rp_N p)"

definition zero_symbol :: "raptor_params \<Rightarrow> symbol" where
  "zero_symbol p = replicate (rp_SYMBOL_SIZE p) 0"

definition IntermediateKSymbols :: "matrix \<Rightarrow> symbol list \<Rightarrow> raptor_params \<Rightarrow> symbol list option" where
  "IntermediateKSymbols A e p =
     (case columns (symbol_column p) [0..<rp_K p] (A, take (rp_N p) e) of
        None \<Rightarrow> None
      | Some (AA, d) \<Rightarrow> Some (take (rp_K p) d @ replicate (rp_L p - rp_K p) (zero_symbol p)))"

section \<open>Coding\<close>

definition LTCode :: "symbol list \<Rightarrow> nat \<Rightarrow> raptor_params \<Rightarrow> symbol list result" where
  "LTCode c SymNum p =
     mapE (\<lambda>i. bindE (lt_columns p i) (\<lambda>bs.
       Inr (fold (\<lambda>b e. vector_xor e (c ! b) (rp_SYMBOL_SIZE p)) (tl bs) (c ! hd bs)))) [0..<SymNum]"

definition add_symbol :: "raptor_params \<Rightarrow> nat \<times> nat \<Rightarrow> symbol list \<Rightarrow> symbol list" where
  "add_symbol p = (\<lambda>(s, t) c. c[t := vector_xor (c ! t) (c ! s) (rp_SYMBOL_SIZE p)])"

definition ldpc_symbols :: "raptor_params \<Rightarrow> symbol list \<Rightarrow> symbol list" where
  "ldpc_symbols p c =
     fold (\<lambda>i c. fold (\<lambda>b c. add_symbol p (i, rp_K p + b) c) (ldpc_checks p i) c) [0..<rp_K p] c"

definition half_symbols :: "raptor_params \<Rightarrow> symbol list \<Rightarrow> symbol list" where
  "half_symbols p c =
     fold (\<lambda>i c. fold (\<lambda>j c. add_symbol p (i, rp_K p + rp_S p + j) c) (one_bits (rp_m p ! i) 0) c) [0..<rp_K p + rp_S p] c"

definition intermediate :: "raptor_params \<Rightarrow> matrix \<Rightarrow> symbol list \<Rightarrow> symbol list" where
  "intermediate p AI data =
     map (\<lambda>j. fold (\<lambda>i c. if AI ! j ! i then vector_xor c (data ! i) (rp_SYMBOL_SIZE p) else c) [0..<rp_K p] (zero_symbol p)) [0..<rp_K p]
     @ replicate (rp_L p - rp_K p) (zero_symbol p)"

definition RaptorEncoder2 :: "symbol list \<Rightarrow> raptor_params \<Rightarrow> nat \<Rightarrow> symbol list result" where
  "RaptorEncoder2 data p M =
     (case rp_AI p of
        None \<Rightarrow> Inl NilDereference
      | Some AI \<Rightarrow> LTCode (half_symbols p (ldpc_symbols p (intermediate p AI data))) M p)"

definition RaptorEncoder :: "symbol list \<Rightarrow> raptor_params \<Rightarrow> symbol list result" where
  "RaptorEncoder data p =
     (case rp_AI p of
        None \<Rightarrow> Inl NilDereference
      | Some AI \<Rightarrow> LTCode (half_symbols p (ldpc_symbols p (intermediate p AI data))) (rp_M p) p)"

definition RaptorDecoder :: "symbol list \<Rightarrow> nat list \<Rightarrow> raptor_params \<Rightarrow> symbol list option result" where
  "RaptorDecoder data dataMap p =
     bindE (FindMatrixAUsingSymbols dataMap p) (\<lambda>Anew.
     case IntermediateKSymbols (InverseLDPC (InverseHALF Anew p) p) data p of
       None \<Rightarrow> Inr None
     | Some c \<Rightarrow> bindE (LTCode (half_symbols p (ldpc_symbols p c)) (rp_K p) p) (\<lambda>d. Inr (Some d)))"

section \<open>Initialization\<close>

definition next_prime :: "nat \<Rightarrow> nat result" where
  "next_prime n = loopE (\<lambda>n. \<not> Isp n) Suc n"

definition RaptorInitialization :: "nat \<Rightarrow> nat \<Rightarrow> int \<Rightarrow> int \<Rightarrow> raptor_params option result" where
  "RaptorInitialization K SYMBOL_SIZE minCR CR =
     bindE (loopE (\<lambda>X. X * (X - 1) < 2 * K) (\<lambda>X. X + 1) 1) (\<lambda>X.
     bindE (loopE (\<lambda>S. S < (K + 99) div 100 + X) (\<lambda>S. S + 1) 1) (\<lambda>S.
     bindE (next_prime S) (\<lambda>S.
     bindE (loopE (\<lambda>H. Factor H div (Factor ((H + 1) div 2) * Factor (H - (H + 1) div 2)) < int (K + S)) (\<lambda>H. H + 1) 1) (\<lambda>H.
     bindE (next_prime (K + S + H)) (\<lambda>Lp.
     let p = \<lparr>rp_K = K, rp_SYMBOL_SIZE = SYMBOL_SIZE, rp_S = S, rp_H = H, rp_L = K + S + H, rp_Lp = Lp,
       rp_N = nat (((10000 + minCR) * int K + 5000) div 10000), rp_M = nat (((10000 + CR) * int K + 5000) div 10000),
       rp_U = [], rp_A = [], rp_AI = None, rp_m = []\<rparr> in
     bindE (TripleCalculate p) (\<lambda>p.
     bindE (FindMatrixA p) (\<lambda>p.
     bindE (MakeGraySequence p) (\<lambda>p.
     let p = p\<lparr>rp_A := InverseLDPC (InverseHALF (rp_A p) p) p\<rparr>; p = FindInverseMatrix p in
     Inr (if rp_AI p = None then None else Some p)))))))))"

section \<open>The Go methods\<close>

definition symbols_of :: "nat \<Rightarrow> nat \<Rightarrow> bytes \<Rightarrow> symbol list" where
  "symbols_of sym_size n src = map (\<lambda>i. take sym_size (drop (i * sym_size) src)) [0..<n]"

definition raptor_encoding :: "raptor_params \<Rightarrow> bytes \<Rightarrow> nat \<Rightarrow> nat \<Rightarrow> bytes result" where
  "raptor_encoding p src_data sym_size num_src_syms =
     (let num_enc_syms = (num_src_syms * 5 + 3) div 4 in
      bindE (RaptorEncoder2 (symbols_of sym_size num_src_syms src_data) p num_enc_syms) (\<lambda>enc_block.
      Inr (concat (drop num_src_syms enc_block))))"

definition raptor_decoding2 :: "raptor_params \<Rightarrow> bytes \<Rightarrow> nat list \<Rightarrow> nat \<Rightarrow> nat \<Rightarrow> bytes option result" where
  "raptor_decoding2 p enc_data symbol_map sym_size num_src_syms =
     bindE (RaptorDecoder (symbols_of sym_size (rp_N p) enc_data) symbol_map p) (\<lambda>dec_block.
     case dec_block of None \<Rightarrow> Inr None | Some d \<Rightarrow> Inr (Some (concat (take num_src_syms d))))"

definition SymbolSize :: nat where
  "SymbolSize = 1024"

definition NumberOfSrcSymbolSize :: nat where
  "NumberOfSrcSymbolSize = 16"

definition RaptorInit :: "raptor_params result" where
  "RaptorInit = bindE (RaptorInitialization NumberOfSrcSymbolSize SymbolSize 758 8000) (\<lambda>p.
     case p of None \<Rightarrow> Inl (Panic ''Raptor initialization failed!!'') | Some p \<Rightarrow> Inr p)"

definition RaptorEncode :: "raptor_params \<Rightarrow> bytes \<Rightarrow> nat \<Rightarrow> nat \<Rightarrow> bytes result" where
  "RaptorEncode p data symSize numSrcSyms =
     (if data = [] then Inl IndexOutOfRange
      else bindE (raptor_encoding p data symSize numSrcSyms) (\<lambda>fecBlock. Inr (take (SymbolSize * 4) fecBlock)))"

definition RaptorDecode :: "raptor_params \<Rightarrow> bytes \<Rightarrow> nat list \<Rightarrow> nat \<Rightarrow> nat \<Rightarrow> bytes option result" where
  "RaptorDecode p data symbolMap symSize numSrcSyms =
     (if data = [] \<or> symbolMap = [] then Inl IndexOutOfRange
      else bindE (raptor_decoding2 p data symbolMap symSize numSrcSyms) (\<lambda>decBlock.
        Inr (map_option (take (SymbolSize * NumberOfSrcSymbolSize)) decBlock)))"

end
