(* ===== verification/Raptor_Elimination.thy ===== *)
theory Raptor_Elimination
  imports Raptor_Code
begin

text \<open>
  The two eliminations of the Raptor code keep the solutions of their system and, when they find a pivot for every
  column, end with the identity: the right-hand side is then the only solution.  When they find none, the homogeneous
  system has a solution that is not zero.
\<close>

definition system_ok :: "'g set \<Rightarrow> nat \<Rightarrow> nat \<Rightarrow> matrix \<Rightarrow> 'g list \<Rightarrow> bool" where
  "system_ok C n w A d \<longleftrightarrow> length A = n \<and> (\<forall>r \<in> set A. length r = w) \<and> length d = n \<and> set d \<subseteq> C"

definition row_add_ok :: "nat \<Rightarrow> nat \<Rightarrow> (bool list \<Rightarrow> bool list \<Rightarrow> bool list) \<Rightarrow> bool" where
  "row_add_ok K w radd \<longleftrightarrow> K \<le> w \<and> (\<forall>r s. length r = w \<longrightarrow> length s = w \<longrightarrow>
     length (radd r s) = w \<and> take K (radd r s) = map2 bxor (take K r) (take K s))"

text \<open>The columns below \<open>j\<close> are those of the identity.\<close>

definition unit_cols :: "matrix \<Rightarrow> nat \<Rightarrow> nat \<Rightarrow> bool" where
  "unit_cols A n j \<longleftrightarrow> (\<forall>k < j. \<forall>i < n. A ! i ! k \<longleftrightarrow> i = k)"

lemma row_add_nth: "row_add_ok K w radd \<Longrightarrow> length r = w \<Longrightarrow> length s = w \<Longrightarrow> k < K \<Longrightarrow> radd r s ! k \<longleftrightarrow> r ! k \<noteq> s ! k"
proof -
  assume ok: "row_add_ok K w radd" and r: "length r = w" "length s = w" and k: "k < K"
  then have "take K (radd r s) ! k = map2 bxor (take K r) (take K s) ! k" "K \<le> w" by (auto simp: row_add_ok_def)
  then show ?thesis using r k by (simp add: bxor_def)
qed

lemma length_nth: "system_ok C n w A d \<Longrightarrow> i < n \<Longrightarrow> length (A ! i) = w"
  by (auto simp: system_ok_def)

lemma find_pivot_Some:
  assumes "find_pivot A j n = Some i" shows "j \<le> i" "i < n" "A ! i ! j" "j < i \<longrightarrow> \<not> A ! j ! j"
proof -
  from assms obtain q where q: "q < length [j..<n]" "[j..<n] ! q = i" "A ! i ! j" "\<forall>r < q. \<not> A ! ([j..<n] ! r) ! j"
    unfolding find_pivot_def find_Some_iff by auto
  then show "j \<le> i" "i < n" "A ! i ! j" by auto
  show "j < i \<longrightarrow> \<not> A ! j ! j"
  proof
    assume "j < i"
    with q have "0 < q" by (cases q) auto
    with q show "\<not> A ! j ! j" by auto
  qed
qed

lemma find_pivot_None: "find_pivot A j n = None \<longleftrightarrow> (\<forall>i. j \<le> i \<longrightarrow> i < n \<longrightarrow> \<not> A ! i ! j)"
  by (auto simp: find_pivot_def find_None_iff)

context xor_space
begin

abbreviation sol :: "nat \<Rightarrow> matrix \<Rightarrow> 'g list \<Rightarrow> 'g list \<Rightarrow> bool" where
  "sol K A d x \<equiv> solves add zero (map (take K) A) d x"

definition vector :: "nat \<Rightarrow> 'g list \<Rightarrow> bool" where
  "vector K x \<longleftrightarrow> length x = K \<and> set x \<subseteq> carrier"

lemma system_add:
  assumes ok: "system_ok carrier n w A d" and r: "row_add_ok K w radd" and ij: "i < n" "j < n" "i \<noteq> j"
  defines "A' \<equiv> A[i := radd (A ! i) (A ! j)]" and "d' \<equiv> d[i := add (d ! i) (d ! j)]"
  shows "system_ok carrier n w A' d'"
    and "vector K x \<Longrightarrow> sol K A' d' x \<longleftrightarrow> sol K A d x"
    and "k < K \<Longrightarrow> l < n \<Longrightarrow> A' ! l ! k \<longleftrightarrow> (if l = i then A ! i ! k \<noteq> A ! j ! k else A ! l ! k)"
proof -
  have len: "length (A ! i) = w" "length (A ! j) = w" using ok ij length_nth by blast+
  have dim: "length A = n" "length d = n" "set d \<subseteq> carrier" using ok by (auto simp: system_ok_def)
  have rl: "length (radd (A ! i) (A ! j)) = w" "take K (radd (A ! i) (A ! j)) = map2 bxor (take K (A ! i)) (take K (A ! j))" "K \<le> w"
    using r len by (auto simp: row_add_ok_def)
  have "\<forall>r \<in> set A'. length r = w" using ok rl unfolding A'_def system_ok_def by (auto dest!: set_update_subset_insert [THEN subsetD])
  moreover have "set d' \<subseteq> carrier" unfolding d'_def using dim ij by (intro set_update_subsetI) auto
  ultimately show "system_ok carrier n w A' d'" using dim by (simp add: system_ok_def A'_def d'_def)
  show "sol K A' d' x \<longleftrightarrow> sol K A d x" if x: "vector K x"
  proof -
    have "map (take K) A' = (map (take K) A)[i := map2 bxor (map (take K) A ! i) (map (take K) A ! j)]"
      using rl ij dim by (simp add: A'_def map_update)
    then show ?thesis unfolding d'_def using ij dim ok x rl(3)
      by (simp only:) (rule solves_add; auto simp: vector_def system_ok_def)
  qed
  show "A' ! l ! k \<longleftrightarrow> (if l = i then A ! i ! k \<noteq> A ! j ! k else A ! l ! k)" if "k < K" "l < n"
    using that ij dim row_add_nth [OF r len] by (simp add: A'_def nth_list_update)
qed

lemma clear_row_eq:
  "clear_row radd dadd j i (A, d) =
    (if A ! i ! j \<and> i \<noteq> j then (A[i := radd (A ! i) (A ! j)], d[i := dadd (d ! i) (d ! j)]) else (A, d))"
  by (simp add: clear_row_def)

lemma clear_rows:
  assumes ok: "system_ok carrier n w A d" and r: "row_add_ok K w radd" and j: "j < n" "j < K"
  shows "m \<le> n \<Longrightarrow> \<exists>A' d'. fold (clear_row radd add j) [0..<m] (A, d) = (A', d') \<and> system_ok carrier n w A' d' \<and>
     (\<forall>x. vector K x \<longrightarrow> (sol K A' d' x \<longleftrightarrow> sol K A d x)) \<and>
     (\<forall>i < n. \<forall>k < K. A' ! i ! k \<longleftrightarrow> (if i < m \<and> i \<noteq> j \<and> A ! i ! j then A ! i ! k \<noteq> A ! j ! k else A ! i ! k))"
proof (induction m)
  case 0
  then show ?case using ok by simp
next
  case (Suc m)
  then obtain A' d' where IH: "fold (clear_row radd add j) [0..<m] (A, d) = (A', d')" "system_ok carrier n w A' d'"
    "\<forall>x. vector K x \<longrightarrow> (sol K A' d' x \<longleftrightarrow> sol K A d x)"
    "\<forall>i < n. \<forall>k < K. A' ! i ! k \<longleftrightarrow> (if i < m \<and> i \<noteq> j \<and> A ! i ! j then A ! i ! k \<noteq> A ! j ! k else A ! i ! k)"
    by auto
  have step: "fold (clear_row radd add j) [0..<Suc m] (A, d) = clear_row radd add j m (A', d')" using IH(1) by simp
  have m: "m < n" using Suc.prems by simp
  have mj: "A' ! m ! j \<longleftrightarrow> A ! m ! j" using IH(4) m j by auto
  show ?case
  proof (cases "A' ! m ! j \<and> m \<noteq> j")
    case False
    then have "clear_row radd add j m (A', d') = (A', d')" by (auto simp: clear_row_eq)
    then show ?thesis unfolding step using IH(2-4) False mj by (intro exI [of _ A'] exI [of _ d']) (auto simp: less_Suc_eq)
  next
    case True
    let ?A = "A'[m := radd (A' ! m) (A' ! j)]" and ?d = "d'[m := add (d' ! m) (d' ! j)]"
    have s: "clear_row radd add j m (A', d') = (?A, ?d)" using True by (simp add: clear_row_eq)
    note add = system_add [OF IH(2) r m j(1)]
    have "?A ! i ! k \<longleftrightarrow> (if i < Suc m \<and> i \<noteq> j \<and> A ! i ! j then A ! i ! k \<noteq> A ! j ! k else A ! i ! k)" if "i < n" "k < K" for i k
      using add(3) [of k i] IH(4) that True mj m j by (auto simp: less_Suc_eq)
    then show ?thesis unfolding step s using add(1,2) True IH(3) by (intro exI [of _ ?A] exI [of _ ?d]) auto
  qed
qed

lemma clear_column_ok:
  assumes ok: "system_ok carrier n w A d" and r: "row_add_ok K w radd" and j: "j < n" "j < K" "A ! j ! j" and u: "unit_cols A n j"
    and c: "clear_column radd add n j (A, d) = (A', d')"
  shows "system_ok carrier n w A' d'" "vector K x \<Longrightarrow> sol K A' d' x \<longleftrightarrow> sol K A d x" "unit_cols A' n (Suc j)"
proof -
  from clear_rows [OF ok r j(1,2), of n] c
  have A': "system_ok carrier n w A' d'" "\<forall>x. vector K x \<longrightarrow> (sol K A' d' x \<longleftrightarrow> sol K A d x)"
    "\<forall>i < n. \<forall>k < K. A' ! i ! k \<longleftrightarrow> (if i \<noteq> j \<and> A ! i ! j then A ! i ! k \<noteq> A ! j ! k else A ! i ! k)"
    by (auto simp: clear_column_def)
  then show "system_ok carrier n w A' d'" "vector K x \<Longrightarrow> sol K A' d' x \<longleftrightarrow> sol K A d x" by auto
  show "unit_cols A' n (Suc j)" unfolding unit_cols_def
  proof (intro allI impI)
    fix k i assume k: "k < Suc j" and i: "i < n"
    have e: "A' ! i ! k \<longleftrightarrow> (if i \<noteq> j \<and> A ! i ! j then A ! i ! k \<noteq> A ! j ! k else A ! i ! k)" using A'(3) i k j by simp
    show "A' ! i ! k \<longleftrightarrow> i = k"
    proof (cases "k = j")
      case True
      then show ?thesis using e j by auto
    next
      case False
      then have "A ! i ! k \<longleftrightarrow> i = k" "\<not> A ! j ! k" using u i k j by (auto simp: unit_cols_def)
      then show ?thesis using e by auto
    qed
  qed
qed

text \<open>What a step of an elimination has to keep.\<close>

definition pivot_step :: "nat \<Rightarrow> nat \<Rightarrow> nat \<Rightarrow> (nat \<Rightarrow> matrix \<times> 'g list \<Rightarrow> (matrix \<times> 'g list) option) \<Rightarrow> bool" where
  "pivot_step K n w f \<longleftrightarrow> (\<forall>j A d A' d'. j < K \<longrightarrow> system_ok carrier n w A d \<longrightarrow> unit_cols A n j \<longrightarrow> f j (A, d) = Some (A', d') \<longrightarrow>
     system_ok carrier n w A' d' \<and> unit_cols A' n (Suc j) \<and> (\<forall>x. vector K x \<longrightarrow> (sol K A' d' x \<longleftrightarrow> sol K A d x)))"

lemma swap_column_step:
  assumes r: "row_add_ok K w radd" and K: "K \<le> n"
  shows "pivot_step K n w (swap_column radd add n)"
  unfolding pivot_step_def
proof (intro allI impI)
  fix j A d A' d'
  assume j: "j < K" and ok: "system_ok carrier n w A d" and u: "unit_cols A n j" and s: "swap_column radd add n j (A, d) = Some (A', d')"
  from s obtain i where i: "find_pivot A j n = Some i"
    and c: "clear_column radd add n j (if i \<noteq> j then (swap i j A, swap i j d) else (A, d)) = (A', d')"
    by (auto simp: swap_column_def Let_def split: option.splits)
  note piv = find_pivot_Some [OF i]
  have jn: "j < n" using j K by simp
  have dim: "length A = n" "length d = n" using ok by (auto simp: system_ok_def)
  define B where "B = (if i \<noteq> j then swap i j A else A)"
  define e where "e = (if i \<noteq> j then swap i j d else d)"
  have set: "set (swap i j xs) \<subseteq> set xs" if "length xs = n" for xs :: "'c list"
    using that piv jn by (auto simp: swap_def set_conv_nth nth_list_update split: if_splits)
  have B1: "set B \<subseteq> set A" and e1: "set e \<subseteq> set d" using set dim by (auto simp: B_def e_def)
  have B: "system_ok carrier n w B e" using B1 e1 ok by (auto simp: system_ok_def B_def e_def)
  have swp: "map (take K) (swap i j A) = swap i j (map (take K) A)"
    using piv dim jn by (simp add: swap_def map_update)
  have sol: "sol K B e x \<longleftrightarrow> sol K A d x" for x using piv jn dim solves_swap [of i "map (take K) A" j d x] by (auto simp: B_def e_def swp)
  have row: "B ! l = (if l = j then A ! i else if l = i then A ! j else A ! l)" if "l < n" for l
    using piv jn dim that by (auto simp: B_def swap_def nth_list_update)
  have "B ! j ! j" using row [OF jn] piv by simp
  moreover have "unit_cols B n j" using u piv row unfolding unit_cols_def by auto
  moreover have "clear_column radd add n j (B, e) = (A', d')" using c by (auto simp: B_def e_def)
  ultimately show "system_ok carrier n w A' d' \<and> unit_cols A' n (Suc j) \<and> (\<forall>x. vector K x \<longrightarrow> (sol K A' d' x \<longleftrightarrow> sol K A d x))"
    using clear_column_ok [OF B r jn j] sol by blast
qed

lemma add_column_step:
  assumes r: "row_add_ok K w radd" and K: "K \<le> n"
  shows "pivot_step K n w (add_column radd add n)"
  unfolding pivot_step_def
proof (intro allI impI)
  fix j A d A' d'
  assume j: "j < K" and ok: "system_ok carrier n w A d" and u: "unit_cols A n j" and s: "add_column radd add n j (A, d) = Some (A', d')"
  from s obtain i where i: "find_pivot A j n = Some i"
    and c: "clear_column radd add n j (if i \<noteq> j then (A[j := radd (A ! j) (A ! i)], d[j := add (d ! j) (d ! i)]) else (A, d)) = (A', d')"
    by (auto simp: add_column_def Let_def split: option.splits)
  note piv = find_pivot_Some [OF i]
  have jn: "j < n" using j K by simp
  show "system_ok carrier n w A' d' \<and> unit_cols A' n (Suc j) \<and> (\<forall>x. vector K x \<longrightarrow> (sol K A' d' x \<longleftrightarrow> sol K A d x))"
  proof (cases "i = j")
    case True
    then show ?thesis using clear_column_ok [OF ok r jn j _ u, of A' d'] c piv(3) by auto
  next
    case False
    define B where "B = A[j := radd (A ! j) (A ! i)]"
    define e where "e = d[j := add (d ! j) (d ! i)]"
    note B = system_add [OF ok r jn piv(2) False [symmetric], folded B_def e_def]
    have "B ! j ! j" using B(3) [of j j] j jn piv False by auto
    moreover have "unit_cols B n j" unfolding unit_cols_def
    proof (intro allI impI)
      fix k l assume kl: "k < j" "l < n"
      have "B ! l ! k \<longleftrightarrow> (if l = j then A ! j ! k \<noteq> A ! i ! k else A ! l ! k)" using B(3) [of k l] kl j by simp
      then show "B ! l ! k \<longleftrightarrow> l = k" using u kl piv jn by (auto simp: unit_cols_def)
    qed
    moreover have "clear_column radd add n j (B, e) = (A', d')" using c False by (simp add: B_def e_def)
    ultimately show ?thesis using clear_column_ok [OF B(1) r jn j] B(2) by blast
  qed
qed

lemma columns_ok:
  assumes f: "pivot_step K n w f" and ok: "system_ok carrier n w A d" and m: "m \<le> K"
    and c: "columns f [0..<m] (A, d) = Some (A', d')"
  shows "system_ok carrier n w A' d' \<and> unit_cols A' n m \<and> (\<forall>x. vector K x \<longrightarrow> (sol K A' d' x \<longleftrightarrow> sol K A d x))"
proof -
  have gen: "columns f [i..<m] (B, e) = Some (A', d') \<Longrightarrow> system_ok carrier n w B e \<Longrightarrow> unit_cols B n i \<Longrightarrow> i \<le> m \<Longrightarrow>
     system_ok carrier n w A' d' \<and> unit_cols A' n m \<and> (\<forall>x. vector K x \<longrightarrow> (sol K A' d' x \<longleftrightarrow> sol K B e x))" for i B e
  proof (induction "m - i" arbitrary: i B e)
    case 0
    then show ?case by simp
  next
    case (Suc q)
    then have i: "i < m" by simp
    then have "[i..<m] = i # [Suc i..<m]" by (rule upt_conv_Cons)
    with Suc.prems obtain B' e' where s: "f i (B, e) = Some (B', e')" "columns f [Suc i..<m] (B', e') = Some (A', d')"
      by (auto split: option.splits)
    have "system_ok carrier n w B' e' \<and> unit_cols B' n (Suc i) \<and> (\<forall>x. vector K x \<longrightarrow> (sol K B' e' x \<longleftrightarrow> sol K B e x))"
      using f s(1) Suc.prems i m unfolding pivot_step_def by (meson less_le_trans)
    with Suc.hyps(1) [of "Suc i" B' e'] s(2) Suc.hyps(2) i show ?case by auto
  qed
  show ?thesis using gen [of 0 A d] c ok by (simp add: unit_cols_def)
qed

lemma unit_cols_rows:
  assumes "system_ok carrier n w A d" "unit_cols A n K" "K \<le> n" "K \<le> w" "i < K"
  shows "take K (A ! i) = unit_row K i"
  using assms length_nth [OF assms(1), of i]
  by (intro nth_equalityI) (auto simp: unit_row_def unit_cols_def)

text \<open>A solution of the system is the one that the elimination finds.\<close>

theorem elimination_sound:
  assumes f: "pivot_step K n w f" and ok: "system_ok carrier n w A d" and K: "K \<le> n" "K \<le> w"
    and c: "columns f [0..<K] (A, d) = Some (A', d')" and x: "vector K x" "sol K A d x"
  shows "x = take K d'"
proof -
  have A': "system_ok carrier n w A' d'" "unit_cols A' n K" "sol K A' d' x"
    using columns_ok [OF f ok order.refl c] x by auto
  have dim: "length A' = n" "length d' = n" using A' by (auto simp: system_ok_def)
  show ?thesis
  proof (rule nth_equalityI)
    show "length x = length (take K d')" using x dim K by (simp add: vector_def)
    fix i assume "i < length x"
    then have i: "i < K" using x by (simp add: vector_def)
    have "dot add zero (take K (A' ! i)) x = d' ! i" using A'(3) i K dim by (auto simp: solves_def)
    moreover have "dot add zero (unit_row K i) x = x ! i" using x i dot_unit [of i x] by (simp add: vector_def)
    ultimately show "x ! i = take K d' ! i" using unit_cols_rows [OF A'(1,2) K i] i by simp
  qed
qed

text \<open>With as many rows as columns the right-hand side that is left is a solution.\<close>

theorem elimination_square:
  assumes f: "pivot_step K K w f" and ok: "system_ok carrier K w A d" and K: "K \<le> w"
    and c: "columns f [0..<K] (A, d) = Some (A', d')"
  shows "vector K d'" "sol K A d d'"
proof -
  have A': "system_ok carrier K w A' d'" "unit_cols A' K K" "\<forall>x. vector K x \<longrightarrow> (sol K A' d' x \<longleftrightarrow> sol K A d x)"
    using columns_ok [OF f ok order.refl c] by auto
  then show v: "vector K d'" by (simp add: vector_def system_ok_def)
  have "sol K A' d' d'" unfolding solves_def
  proof (intro allI impI)
    fix i assume "i < length (map (take K) A')"
    then have i: "i < K" using A' by (simp add: system_ok_def)
    then have "map (take K) A' ! i = unit_row K i" using unit_cols_rows [OF A'(1,2)] K A' by (simp add: system_ok_def)
    then show "dot add zero (map (take K) A' ! i) d' = d' ! i" using v i dot_unit [of i d'] by (simp add: vector_def)
  qed
  then show "sol K A d d'" using A'(3) v by blast
qed

end

section \<open>Instances\<close>

lemma map2_xor_comm: "map2 bxor a b = map2 bxor b (a :: bool list)"
  by (rule nth_equalityI) (auto simp: bxor_def)

interpretation bit: xor_space "bxor" False UNIV
  by unfold_locales (auto simp: bxor_def)

interpretation row: xor_space "map2 bxor" "replicate n False" "{r. length r = n}" for n
  by unfold_locales (auto simp: bxor_def intro!: nth_equalityI)

lemma vector_xor_full: "length a = n \<Longrightarrow> length b = n \<Longrightarrow> vector_xor a b n = map2 (XOR) a b"
  by (simp add: vector_xor_def vector_len_def Let_def)

interpretation sym: xor_space "\<lambda>a b. vector_xor a b n" "replicate n 0" "{s. length s = n}" for n
  by unfold_locales (auto simp: vector_xor_full xor.assoc xor.commute xor.left_commute intro!: nth_equalityI)

lemma row_add_map2: "row_add_ok K K (map2 bxor)"
  by (simp add: row_add_ok_def)

lemma row_add_row_xor: "K \<le> w \<Longrightarrow> row_add_ok K w (\<lambda>r s. row_xor r s K)"
  by (auto simp: row_add_ok_def row_xor_def vector_len_def Let_def take_map take_zip min_def)

section \<open>Completeness\<close>

lemma bit_dot_commute: "dot bxor False r x = dot bxor False x r"
  by (induction r x rule: list_induct2') auto

lemma bit_dot_zeros [simp]: "\<not> dot bxor False r (replicate K False)"
  using bit_dot_commute [of r "replicate K False"] bit.dot_replicate [of K r] by simp

lemma bit_dot_cong:
  "length x = length y \<Longrightarrow> (\<And>k. k < length x \<Longrightarrow> k < length r \<Longrightarrow> r ! k \<Longrightarrow> x ! k = y ! k) \<Longrightarrow>
   dot bxor False r x = dot bxor False r y"
proof (induction r arbitrary: x y)
  case (Cons b r)
  show ?case
  proof (cases x)
    case (Cons v x')
    then obtain u y' where y: "y = u # y'" using Cons.prems by (cases y) auto
    have "dot bxor False r x' = dot bxor False r y'"
      using Cons.prems(1) Cons.prems(2) [of "Suc k" for k] Cons y by (intro Cons.IH) auto
    then show ?thesis using Cons y Cons.prems(2) [of 0] by auto
  qed (use Cons.prems in simp)
qed simp

text \<open>The solution of the homogeneous system that a column without a pivot gives.\<close>

lemma no_pivot_kernel:
  assumes ok: "length A = n" "\<forall>r \<in> set A. length r = w" "K \<le> w" "K \<le> n" and u: "unit_cols A n j" and j: "j < K"
    and none: "find_pivot A j n = None"
  shows "\<exists>x. length x = K \<and> x ! j \<and> (\<forall>i < n. \<not> dot bxor False (take K (A ! i)) x)"
proof -
  define y where "y = map (\<lambda>k. k < j \<and> A ! k ! j) [0..<K]"
  define x where "x = toggle j y"
  have len: "length y = K" "length x = K" by (simp_all add: y_def x_def)
  have xj: "x ! j" using j by (simp add: x_def toggle_def y_def)
  have "\<not> dot bxor False (take K (A ! i)) x" if i: "i < n" for i
  proof -
    let ?r = "take K (A ! i)"
    have r: "length ?r = K" using ok i by (simp add: min_def)
    have step: "dot bxor False x ?r = bxor (?r ! j) (dot bxor False y ?r)"
      unfolding x_def using bit.dot_toggle [of j y ?r] len r j by simp
    have "dot bxor False y ?r \<longleftrightarrow> i < j \<and> A ! i ! j"
    proof (cases "i < j")
      case True
      have "dot bxor False y ?r = dot bxor False y (unit_row K i)"
        using u i r by (intro bit_dot_cong) (auto simp: y_def unit_cols_def unit_row_def)
      also have "\<dots> = y ! i" using True j len bit.dot_unit [of i y] by (simp add: bit_dot_commute)
      finally show ?thesis using True j by (simp add: y_def)
    next
      case False
      have "dot bxor False y ?r = dot bxor False y (replicate K False)"
        using u i r False by (intro bit_dot_cong) (auto simp: y_def unit_cols_def)
      then show ?thesis using False by simp
    qed
    moreover have "\<not> A ! i ! j" if "j \<le> i" using none that i by (simp add: find_pivot_None)
    ultimately show ?thesis using step j by (cases "i < j") (auto simp: bit_dot_commute [of ?r])
  qed
  then show ?thesis using len xj by blast
qed

text \<open>The matrix does not depend on the right-hand side.\<close>

lemma clear_column_fst: "fst (clear_column radd dadd n j (A, d)) = fst (clear_column radd dadd' n j (A, d'))"
proof -
  have "fst (fold (clear_row radd dadd j) is (A, d)) = fst (fold (clear_row radd dadd' j) is (A, d'))" for "is"
    by (induction "is" arbitrary: A d d') (simp_all add: clear_row_def)
  then show ?thesis by (simp add: clear_column_def)
qed

lemma swap_column_fst: "map_option fst (swap_column radd dadd n j (A, d)) = map_option fst (swap_column radd dadd' n j (A, d'))"
  by (auto simp: swap_column_def Let_def clear_column_fst [of radd dadd n j _ _ dadd' ] split: option.split)

lemma add_column_fst: "map_option fst (add_column radd dadd n j (A, d)) = map_option fst (add_column radd dadd' n j (A, d'))"
  by (auto simp: add_column_def Let_def clear_column_fst [of radd dadd n j _ _ dadd' ] split: option.split)

lemma columns_fst:
  assumes "\<And>j A d d'. map_option fst (f j (A, d)) = map_option fst (g j (A, d'))"
  shows "map_option fst (columns f js (A, d)) = map_option fst (columns g js (A, d'))"
proof (induction js arbitrary: A d d')
  case (Cons j js)
  have "map_option fst (f j (A, d)) = map_option fst (g j (A, d'))" by (rule assms)
  then show ?case
    by (cases "f j (A, d)"; cases "g j (A, d')") (auto simp: Cons.IH split: prod.splits)
qed simp

lemma columns_fst_None:
  assumes "\<And>j A d d'. map_option fst (f j (A, d)) = map_option fst (g j (A, d'))"
  shows "columns f js (A, d) = None \<longleftrightarrow> columns g js (A, d') = None"
proof -
  have "map_option fst (columns f js (A, d)) = map_option fst (columns g js (A, d'))" by (intro columns_fst assms)
  then show ?thesis by (metis map_option_is_None)
qed

lemma swap_columns_None:
  "columns (swap_column radd dadd n) js (A, d) = None \<longleftrightarrow> columns (swap_column radd dadd' n) js (A, d') = None"
  by (intro columns_fst_None swap_column_fst)

lemma columns_None:
  assumes "columns f [0..<m] st = None"
  shows "\<exists>j < m. \<exists>st'. columns f [0..<j] st = Some st' \<and> f j st' = None"
  using assms
proof (induction m)
  case (Suc m)
  have app: "columns f (js @ ks) s = (case columns f js s of None \<Rightarrow> None | Some s' \<Rightarrow> columns f ks s')" for js ks s
    by (induction js arbitrary: s) (auto split: option.split)
  show ?case
  proof (cases "columns f [0..<m] st")
    case None
    then show ?thesis using Suc.IH less_SucI by blast
  next
    case (Some st')
    then show ?thesis using Suc.prems by (auto simp: app split: option.splits)
  qed
qed simp

text \<open>\<open>g\<close> is the elimination on bits that goes along with \<open>f\<close>.\<close>

lemma elimination_complete:
  assumes A: "length A = n" "\<forall>r \<in> set A. length r = w" "K \<le> w" "K \<le> n"
    and g: "bit.pivot_step K n w g" "\<And>j A d. g j (A, d) = None \<Longrightarrow> find_pivot A j n = None"
    and same: "\<And>j A d d'. map_option fst (f j (A, d)) = map_option fst (g j (A, d'))"
    and none: "columns f [0..<K] (A, d) = None"
  shows "\<exists>x. length x = K \<and> x \<noteq> replicate K False \<and> (\<forall>i < n. \<not> dot bxor False (take K (A ! i)) x)"
proof -
  let ?z = "replicate n False"
  have ok: "system_ok UNIV n w A ?z" using A by (simp add: system_ok_def)
  have "columns f [0..<K] (A, d) = None \<longleftrightarrow> columns g [0..<K] (A, ?z) = None" by (intro columns_fst_None same)
  then have "columns g [0..<K] (A, ?z) = None" using none by simp
  then obtain j B e where j: "j < K" "columns g [0..<j] (A, ?z) = Some (B, e)" "g j (B, e) = None"
    using columns_None by (metis surj_pair)
  have B: "system_ok UNIV n w B e" "unit_cols B n j" "\<forall>x. bit.vector K x \<longrightarrow> (bit.sol K B e x \<longleftrightarrow> bit.sol K A ?z x)"
    using bit.columns_ok [OF g(1) ok _ j(2)] j(1) by auto
  obtain x where x: "length x = K" "x ! j" "\<forall>i < n. \<not> dot bxor False (take K (B ! i)) x"
    using no_pivot_kernel [OF _ _ A(3,4) B(2) j(1) g(2) [OF j(3)]] B(1) by (auto simp: system_ok_def)
  have dim: "length B = n" "length e = n" using B(1) by (auto simp: system_ok_def)
  have "bit.sol K A ?z (replicate K False)" using A(1) by (simp add: solves_def)
  then have "bit.sol K B e (replicate K False)" using B(3) by (simp add: bit.vector_def)
  then have e: "\<forall>i < n. \<not> e ! i" using dim by (simp add: solves_def)
  have "bit.sol K B e x" using x e dim by (simp add: solves_def)
  then have "bit.sol K A ?z x" using B(3) x(1) by (simp add: bit.vector_def)
  moreover have "x \<noteq> replicate K False" using x(2) j(1) by auto
  ultimately show ?thesis using x(1) A(1) by (auto simp: solves_def)
qed

lemma swap_column_None: "swap_column radd dadd n j (A, d) = None \<Longrightarrow> find_pivot A j n = None"
  by (auto simp: swap_column_def Let_def split: option.splits)

lemma add_column_None: "add_column radd dadd n j (A, d) = None \<Longrightarrow> find_pivot A j n = None"
  by (auto simp: add_column_def Let_def split: option.splits)

lemma swap_complete:
  assumes "length A = n" "\<forall>r \<in> set A. length r = w" "K \<le> w" "K \<le> n" "row_add_ok K w radd"
    and "columns (swap_column radd dadd n) [0..<K] (A, d) = None"
  shows "\<exists>x. length x = K \<and> x \<noteq> replicate K False \<and> (\<forall>i < n. \<not> dot bxor False (take K (A ! i)) x)"
  using assms(1-4) bit.swap_column_step [OF assms(5,4)] swap_column_None swap_column_fst assms(6) by (rule elimination_complete)

lemma add_complete:
  assumes "length A = n" "\<forall>r \<in> set A. length r = w" "K \<le> w" "K \<le> n" "row_add_ok K w radd"
    and "columns (add_column radd dadd n) [0..<K] (A, d) = None"
  shows "\<exists>x. length x = K \<and> x \<noteq> replicate K False \<and> (\<forall>i < n. \<not> dot bxor False (take K (A ! i)) x)"
  using assms(1-4) bit.add_column_step [OF assms(5,4)] add_column_None add_column_fst assms(6) by (rule elimination_complete)

end
