(* ===== verification/Raptor_Correct.thy ===== *)
theory Raptor_Correct
  imports Raptor_Elimination
begin

text \<open>
  Correctness of the Raptor code for every set of parameters that \<open>raptor_ok\<close> describes: the code is systematic, a successful
  decoding of encoded symbols is the data, and it succeeds when the received rows have full rank.
\<close>

definition raptor_ok :: "raptor_params \<Rightarrow> bool" where
  "raptor_ok p \<longleftrightarrow>
     rp_L p = rp_K p + rp_S p + rp_H p \<and> 0 < rp_S p \<and> length (rp_m p) = rp_K p + rp_S p \<and>
     list_all (\<lambda>m. list_all (\<lambda>j. j < rp_H p) (one_bits m 0)) (rp_m p) \<and> rp_K p \<le> rp_N p \<and>
     vector_len (rp_K p) \<le> rp_L p \<and> vector_len (rp_SYMBOL_SIZE p) = rp_SYMBOL_SIZE p \<and>
     (case mapE (lt_row p) [0..<rp_K p] of Inl _ \<Rightarrow> False | Inr A \<Rightarrow> rp_A p = InverseLDPC (InverseHALF A p) p) \<and>
     FindInverseMatrix p = p \<and> rp_AI p \<noteq> None"

definition block_ok :: "raptor_params \<Rightarrow> symbol list \<Rightarrow> bool" where
  "block_ok p data \<longleftrightarrow> length data = rp_K p \<and> (\<forall>s \<in> set data. length s = rp_SYMBOL_SIZE p)"

definition reduce_row :: "raptor_params \<Rightarrow> bool list \<Rightarrow> bool list" where
  "reduce_row p r = ldpc_row p (half_row p r)"

section \<open>Loops\<close>

lemma mapE_eq_Inr_iff:
  "mapE f xs = Inr ys \<longleftrightarrow> length ys = length xs \<and> (\<forall>i < length xs. f (xs ! i) = Inr (ys ! i))"
proof (induction xs arbitrary: ys)
  case (Cons x xs)
  show ?case
  proof (cases ys)
    case Nil
    then show ?thesis by (simp add: bindE_eq_Inr_iff)
  next
    case (Cons y ys')
    have "(\<forall>i < length (x # xs). f ((x # xs) ! i) = Inr (ys ! i)) \<longleftrightarrow> f x = Inr y \<and> (\<forall>i < length xs. f (xs ! i) = Inr (ys' ! i))"
      using Cons by (auto simp: less_Suc_eq_0_disj)
    then show ?thesis using Cons Cons.IH [of ys'] by (auto simp: bindE_eq_Inr_iff)
  qed
qed auto

lemma mapE_upt: "mapE f [0..<n] = Inr ys \<longleftrightarrow> length ys = n \<and> (\<forall>i < n. f i = Inr (ys ! i))"
  by (simp add: mapE_eq_Inr_iff)

lemma mapE_uptI: "(\<And>i. i < n \<Longrightarrow> f i = Inr (g i)) \<Longrightarrow> mapE f [0..<n] = Inr (map g [0..<n])"
  by (simp add: mapE_upt)

lemma loopE_stop: "loopE c f s = Inr s' \<Longrightarrow> \<not> c s'"
  by (auto simp: loopE_def dest: while_option_stop split: option.splits)

lemma lt_next_range: "lt_next p a b = Inr b' \<Longrightarrow> b' < rp_L p"
  using loopE_stop unfolding lt_next_def by fastforce

lemma lt_rest_range: "lt_rest p a b n = Inr bs \<Longrightarrow> set bs \<subseteq> {..<rp_L p}"
  by (induction n arbitrary: b bs) (fastforce simp: bindE_eq_Inr_iff dest: lt_next_range)+

lemma lt_columns_range: "lt_columns p i = Inr bs \<Longrightarrow> bs \<noteq> [] \<and> set bs \<subseteq> {..<rp_L p}"
  unfolding lt_columns_def bindE_eq_Inr_iff split_paired_Ex prod.case
  by (elim exE conjE) (auto dest!: lt_next_range lt_rest_range)

lemma one_bits_ge: "j' \<in> set (one_bits m j) \<Longrightarrow> j \<le> j'"
proof (induction m j rule: one_bits.induct)
  case (1 m j)
  consider "j' = j" | "\<not> m div 2 \<le> 0" "j' \<in> set (one_bits (m div 2) (j + 1))"
    using "1.prems" by (subst (asm) one_bits.simps) (auto simp: Let_def split: if_splits)
  then show ?case using "1.IH" [OF refl refl] by cases auto
qed

lemma distinct_one_bits: "distinct (one_bits m j)"
proof (induction m j rule: one_bits.induct)
  case (1 m j)
  then show ?case
    by (subst one_bits.simps) (auto simp: Let_def dest: one_bits_ge)
qed

lemma fold_concat_map: "fold (\<lambda>x. fold f (g x)) xs s = fold f (concat (map g xs)) s"
  by (induction xs arbitrary: s) simp_all

lemma distinct_concat_map:
  assumes "distinct xs" "\<And>x. x \<in> set xs \<Longrightarrow> distinct (f x)" "\<And>x y. x \<noteq> y \<Longrightarrow> set (f x) \<inter> set (f y) = {}"
  shows "distinct (concat (map f xs))"
  using assms(1,2)
proof (induction xs)
  case (Cons x xs)
  then have "set (f x) \<inter> (\<Union>y \<in> set xs. set (f y)) = {}" using assms(3) [of x] by fastforce
  then show ?case using Cons by simp
qed simp

section \<open>Rows and symbols\<close>

definition ldpc_pairs :: "raptor_params \<Rightarrow> (nat \<times> nat) list" where
  "ldpc_pairs p = concat (map (\<lambda>i. map (\<lambda>b. (i, rp_K p + b)) (ldpc_checks p i)) [0..<rp_K p])"

definition half_pairs :: "raptor_params \<Rightarrow> (nat \<times> nat) list" where
  "half_pairs p = concat (map (\<lambda>i. map (\<lambda>j. (i, rp_K p + rp_S p + j)) (one_bits (rp_m p ! i) 0)) [0..<rp_K p + rp_S p])"

definition half_sources :: "raptor_params \<Rightarrow> nat \<Rightarrow> nat list" where
  "half_sources p h = filter (\<lambda>i. h \<in> set (one_bits (rp_m p ! i) 0)) [0..<rp_K p + rp_S p]"

definition half_pairs' :: "raptor_params \<Rightarrow> (nat \<times> nat) list" where
  "half_pairs' p = concat (map (\<lambda>h. map (\<lambda>i. (i, rp_K p + rp_S p + h)) (half_sources p h)) [0..<rp_H p])"

lemma add_symbol_add_to: "add_symbol p = add_to (\<lambda>a b. vector_xor a b (rp_SYMBOL_SIZE p))"
  by (simp add: add_symbol_def add_to_def)

lemma ldpc_symbols_fold: "ldpc_symbols p c = fold (add_to (\<lambda>a b. vector_xor a b (rp_SYMBOL_SIZE p))) (ldpc_pairs p) c"
proof -
  have "fold (\<lambda>b c. add_symbol p (i, rp_K p + b) c) bs c = fold (add_symbol p) (map (\<lambda>b. (i, rp_K p + b)) bs) c" for i bs c
    by (induction bs arbitrary: c) simp_all
  then show ?thesis by (simp add: ldpc_symbols_def ldpc_pairs_def fold_concat_map add_symbol_add_to [symmetric])
qed

lemma half_symbols_fold: "half_symbols p c = fold (add_to (\<lambda>a b. vector_xor a b (rp_SYMBOL_SIZE p))) (half_pairs p) c"
proof -
  have "fold (\<lambda>j c. add_symbol p (i, rp_K p + rp_S p + j) c) js c = fold (add_symbol p) (map (\<lambda>j. (i, rp_K p + rp_S p + j)) js) c" for i js c
    by (induction js arbitrary: c) simp_all
  then show ?thesis by (simp add: half_symbols_def half_pairs_def fold_concat_map add_symbol_add_to [symmetric])
qed

lemma ldpc_row_fold: "ldpc_row p r = fold add_back (ldpc_pairs p) r"
proof -
  have "fold (\<lambda>b r. if r ! (rp_K p + b) then toggle i r else r) bs r = fold add_back (map (\<lambda>b. (i, rp_K p + b)) bs) r" for i bs r
    by (induction bs arbitrary: r) (simp_all add: add_back_def)
  then show ?thesis by (simp add: ldpc_row_def ldpc_pairs_def fold_concat_map)
qed

lemma fold_toggle_add_back:
  assumes "\<forall>s \<in> set ss. s \<noteq> t"
  shows "(if r ! t then fold toggle ss r else r) = fold add_back (map (\<lambda>s. (s, t)) ss) r"
  using assms
proof (induction ss arbitrary: r)
  case (Cons s ss)
  then have "toggle s r ! t = r ! t" by (simp add: toggle_def)
  moreover have "add_back (s, t) r = (if r ! t then toggle s r else r)" by (simp add: add_back_def)
  ultimately show ?case using Cons.IH [of "add_back (s, t) r"] Cons.prems by (cases "r ! t") simp_all
qed simp

lemma half_toggles:
  "fold (\<lambda>i r. fold (\<lambda>j r. if j = h then toggle i r else r) (one_bits (f i) 0) r) is r =
   fold toggle (filter (\<lambda>i. h \<in> set (one_bits (f i) 0)) is) r"
proof -
  have none: "fold (\<lambda>j r. if j = h then toggle i r else r) js r = r" if "h \<notin> set js" for i js r
    using that by (induction js arbitrary: r) auto
  have "fold (\<lambda>j r. if j = h then toggle i r else r) js r = (if h \<in> set js then toggle i r else r)" if "distinct js" for i js r
    using that by (induction js arbitrary: r) (auto simp: none)
  then show ?thesis by (induction "is" arbitrary: r) (simp_all add: distinct_one_bits)
qed

lemma half_row_fold: "half_row p r = fold add_back (half_pairs' p) r"
proof -
  have "(if r ! (rp_K p + rp_S p + h) then fold toggle (half_sources p h) r else r) =
      fold add_back (map (\<lambda>i. (i, rp_K p + rp_S p + h)) (half_sources p h)) r" for h r
    by (rule fold_toggle_add_back) (auto simp: half_sources_def)
  then show ?thesis
    unfolding half_row_def half_toggles half_sources_def [symmetric] half_pairs'_def fold_concat_map [symmetric]
    by (simp cong: fold_cong)
qed

lemma ldpc_pairs_range: "0 < rp_S p \<Longrightarrow> (s, t) \<in> set (ldpc_pairs p) \<Longrightarrow> s < rp_K p \<and> rp_K p \<le> t \<and> t < rp_K p + rp_S p"
  by (auto simp: ldpc_pairs_def ldpc_checks_def Let_def)

lemma ok_bits: "raptor_ok p \<Longrightarrow> i < rp_K p + rp_S p \<Longrightarrow> j \<in> set (one_bits (rp_m p ! i) 0) \<Longrightarrow> j < rp_H p"
  by (auto simp: raptor_ok_def list_all_iff)

lemma half_pairs_range:
  "raptor_ok p \<Longrightarrow> (s, t) \<in> set (half_pairs p) \<Longrightarrow> s < rp_K p + rp_S p \<and> rp_K p + rp_S p \<le> t \<and> t < rp_L p"
  using ok_bits by (auto simp: half_pairs_def raptor_ok_def)

lemma half_pairs_mset: "raptor_ok p \<Longrightarrow> mset (half_pairs p) = mset (half_pairs' p)"
proof -
  assume ok: "raptor_ok p"
  have set: "set (half_pairs p) = set (half_pairs' p)"
    using ok_bits [OF ok] by (fastforce simp: half_pairs_def half_pairs'_def half_sources_def image_iff)
  have "distinct (half_pairs p)" unfolding half_pairs_def
    by (rule distinct_concat_map) (auto simp: distinct_map inj_on_def distinct_one_bits)
  moreover have "distinct (half_pairs' p)" unfolding half_pairs'_def
    by (rule distinct_concat_map) (auto simp: distinct_map inj_on_def half_sources_def)
  ultimately show ?thesis using set by (simp add: set_eq_iff_mset_eq_distinct)
qed

section \<open>Encoding\<close>

context xor_space
begin

lemma dot_snoc:
  "length r = length x \<Longrightarrow> set x \<subseteq> carrier \<Longrightarrow> v \<in> carrier \<Longrightarrow>
   dot add zero (r @ [b]) (x @ [v]) = (if b then add (dot add zero r x) v else dot add zero r x)"
  by (induction r x rule: list_induct2) (auto simp: add_ac)

lemma fold_upt_dot:
  assumes "n \<le> length r" "n \<le> length x" "set x \<subseteq> carrier"
  shows "fold (\<lambda>i c. if r ! i then add c (x ! i) else c) [0..<n] zero = dot add zero (take n r) (take n x)"
  using assms
proof (induction n)
  case (Suc n)
  then have "set (take n x) \<subseteq> carrier" "x ! n \<in> carrier" by (auto dest: in_set_takeD)
  then show ?case using Suc by (simp add: take_Suc_conv_app_nth dot_snoc)
qed simp

text \<open>Sums of sums: the product of two matrices.\<close>

lemma dot_dot:
  assumes "\<forall>a \<in> set A. length a = length x" "set x \<subseteq> carrier" "length r = length A"
  shows "dot add zero r (map (\<lambda>a. dot add zero a x) A) = dot add zero (dot (map2 bxor) (replicate (length x) False) r A) x"
  using assms(3,1)
proof (induction r A rule: list_induct2)
  case (Cons b r a A)
  have "length (dot (map2 bxor) (replicate (length x) False) r A) = length x"
    using Cons.prems row.dot_in [of A "length x" r] by auto
  then show ?case using Cons assms(2) by (simp add: row.dot_Cons dot_xor)
qed (simp add: row.dot_Nil)

end

lemma reduce_row_length [simp]: "length (reduce_row p r) = length r"
  by (simp add: reduce_row_def ldpc_row_fold half_row_fold)

lemma dot_reduce:
  fixes p :: raptor_params
  defines "n \<equiv> rp_SYMBOL_SIZE p"
  assumes ok: "raptor_ok p" and c: "length c = rp_L p" "\<forall>s \<in> set c. length s = n" and r: "length r = rp_L p"
  shows "dot (\<lambda>a b. vector_xor a b n) (replicate n 0) r (half_symbols p (ldpc_symbols p c)) =
      dot (\<lambda>a b. vector_xor a b n) (replicate n 0) (reduce_row p r) c"
    and "set (half_symbols p (ldpc_symbols p c)) \<subseteq> {s. length s = n}"
proof -
  define c' where "c' = ldpc_symbols p c"
  have S: "0 < rp_S p" and L: "rp_L p = rp_K p + rp_S p + rp_H p" using ok by (auto simp: raptor_ok_def)
  have cs: "set c \<subseteq> {s. length s = n}" using c by auto
  have lp: "\<And>s t. (s, t) \<in> set (ldpc_pairs p) \<Longrightarrow> s < length c \<and> t < length c" using ldpc_pairs_range [OF S] c L by fastforce
  have c': "length c' = rp_L p" "set c' \<subseteq> {s. length s = n}"
    using sym.fold_add_to(2) [where r = r, OF lp _ cs] c r by (simp_all add: c'_def ldpc_symbols_fold n_def [symmetric])
  have hp: "\<And>s t. (s, t) \<in> set (half_pairs p) \<Longrightarrow> s < length c' \<and> t < length c'" using half_pairs_range [OF ok] c' L by fastforce
  show "set (half_symbols p (ldpc_symbols p c)) \<subseteq> {s. length s = n}"
    using sym.fold_add_to(2) [where r = r, OF hp _ c'(2)] c' r by (simp add: c'_def [symmetric] half_symbols_fold n_def [symmetric])
  have h: "fold add_back (rev (half_pairs p)) r = half_row p r"
    unfolding half_row_fold using half_pairs_mset [OF ok] half_pairs_range [OF ok]
    by (intro fold_add_back_mset [where n = "rp_K p + rp_S p"]) auto
  have l: "fold add_back (rev (ldpc_pairs p)) q = ldpc_row p q" for q
    unfolding ldpc_row_fold using ldpc_pairs_range [OF S] by (intro fold_add_back_rev [where n = "rp_K p"]) auto
  have "dot (\<lambda>a b. vector_xor a b n) (replicate n 0) r (half_symbols p c') = dot (\<lambda>a b. vector_xor a b n) (replicate n 0) (half_row p r) c'"
    using sym.fold_add_to(1) [where r = r, OF hp _ c'(2)] c' r by (simp add: half_symbols_fold n_def [symmetric] h)
  also have "\<dots> = dot (\<lambda>a b. vector_xor a b n) (replicate n 0) (reduce_row p r) c"
    using sym.fold_add_to(1) [where r = "half_row p r", OF lp _ cs] c r
    by (simp add: c'_def ldpc_symbols_fold n_def [symmetric] l reduce_row_def half_row_fold)
  finally show "dot (\<lambda>a b. vector_xor a b n) (replicate n 0) r (half_symbols p (ldpc_symbols p c)) =
      dot (\<lambda>a b. vector_xor a b n) (replicate n 0) (reduce_row p r) c" by (simp add: c'_def)
qed

text \<open>The coefficients of an encoded symbol over the first \<open>K\<close> intermediate symbols, and sums of symbols.\<close>

definition code_row :: "raptor_params \<Rightarrow> nat \<Rightarrow> bool list result" where
  "code_row p i = bindE (lt_row p i) (\<lambda>r. Inr (take (rp_K p) (reduce_row p r)))"

definition sdot :: "raptor_params \<Rightarrow> bool list \<Rightarrow> symbol list \<Rightarrow> symbol" where
  "sdot p r x = dot (\<lambda>a b. vector_xor a b (rp_SYMBOL_SIZE p)) (zero_symbol p) r x"

lemma block_ok_iff: "block_ok p x \<longleftrightarrow> sym.vector (rp_SYMBOL_SIZE p) (rp_K p) x"
  by (auto simp: block_ok_def sym.vector_def)

lemma lt_row_length: "lt_row p i = Inr r \<Longrightarrow> length r = rp_L p"
  by (auto simp: lt_row_def bindE_eq_Inr_iff)

lemma code_row_length: "raptor_ok p \<Longrightarrow> code_row p i = Inr r \<Longrightarrow> length r = rp_K p"
  by (auto simp: code_row_def bindE_eq_Inr_iff raptor_ok_def dest: lt_row_length)

lemma lt_symbol:
  assumes b: "lt_columns p i = Inr bs" and c: "length c = rp_L p" "set c \<subseteq> {s. length s = rp_SYMBOL_SIZE p}"
  shows "fold (\<lambda>b e. vector_xor e (c ! b) (rp_SYMBOL_SIZE p)) (tl bs) (c ! hd bs) =
    sdot p (fold toggle bs (replicate (rp_L p) False)) c"
proof -
  obtain b bs' where bs: "bs = b # bs'" "set bs \<subseteq> {..<length c}" using lt_columns_range [OF b] c by (cases bs) auto
  have "length (c ! b) = rp_SYMBOL_SIZE p" using bs c sym.nth_in [of b c "rp_SYMBOL_SIZE p"] by simp
  then have first: "vector_xor (zero_symbol p) (c ! b) (rp_SYMBOL_SIZE p) = c ! b"
    using sym.zero_add [of "c ! b" "rp_SYMBOL_SIZE p"] by (simp add: zero_symbol_def)
  have "sdot p (fold toggle bs (replicate (rp_L p) False)) c =
      fold (\<lambda>b v. vector_xor v (c ! b) (rp_SYMBOL_SIZE p)) bs (zero_symbol p)"
    unfolding sdot_def zero_symbol_def using sym.dot_fold_toggle [OF bs(2) _ c(2), of "replicate (rp_L p) False"] c(1)
    by (simp add: sym.dot_replicate)
  then show ?thesis using bs first by simp
qed

lemma LTCode_dot:
  assumes ok: "raptor_ok p" and x: "block_ok p x"
  shows "LTCode (half_symbols p (ldpc_symbols p (x @ replicate (rp_L p - rp_K p) (zero_symbol p)))) n p =
    mapE (\<lambda>i. bindE (code_row p i) (\<lambda>r. Inr (sdot p r x))) [0..<n]"
proof -
  define c where "c = x @ replicate (rp_L p - rp_K p) (zero_symbol p)"
  define h where "h = half_symbols p (ldpc_symbols p c)"
  have L: "rp_K p \<le> rp_L p" using ok by (auto simp: raptor_ok_def)
  have xs: "length x = rp_K p" "\<forall>s \<in> set x. length s = rp_SYMBOL_SIZE p" using x by (auto simp: block_ok_def)
  have c: "length c = rp_L p" "\<forall>s \<in> set c. length s = rp_SYMBOL_SIZE p"
    using xs L by (auto simp: c_def zero_symbol_def)
  have h: "length h = rp_L p" "set h \<subseteq> {s. length s = rp_SYMBOL_SIZE p}"
    using dot_reduce(2) [OF ok c, of "replicate (rp_L p) False"] c by (simp_all add: h_def half_symbols_fold ldpc_symbols_fold)
  have "bindE (lt_columns p i) (\<lambda>bs. Inr (fold (\<lambda>b e. vector_xor e (h ! b) (rp_SYMBOL_SIZE p)) (tl bs) (h ! hd bs))) =
      bindE (code_row p i) (\<lambda>r. Inr (sdot p r x))" for i
  proof (cases "lt_columns p i")
    case (Inr bs)
    define r where "r = fold toggle bs (replicate (rp_L p) False)"
    have r: "lt_row p i = Inr r" "length r = rp_L p" by (simp_all add: lt_row_def Inr r_def)
    have "sdot p r h = sdot p (reduce_row p r) c"
      using dot_reduce(1) [OF ok c r(2)] by (simp add: h_def sdot_def zero_symbol_def)
    also have "\<dots> = sdot p (take (rp_K p) (reduce_row p r)) x"
      using set_replicate_conv_if [of "rp_L p - rp_K p" "zero_symbol p"] sym.dot_take [of "replicate (rp_L p - rp_K p) (zero_symbol p)" "rp_SYMBOL_SIZE p" x "reduce_row p r"] xs L r
      by (simp add: c_def sdot_def zero_symbol_def)
    finally show ?thesis using Inr lt_symbol [OF Inr h] r by (simp add: code_row_def r_def)
  qed (simp add: code_row_def lt_row_def)
  then show ?thesis by (simp add: LTCode_def h_def c_def)
qed

definition coded :: "raptor_params \<Rightarrow> symbol list \<Rightarrow> symbol list" where
  "coded p data = map (\<lambda>j. sdot p (the (rp_AI p) ! j) data) [0..<rp_K p]"

text \<open>Full rank: only zero is mapped to zero.\<close>

definition full_rank :: "nat \<Rightarrow> bool list list \<Rightarrow> bool" where
  "full_rank K R \<longleftrightarrow> (\<forall>x. length x = K \<longrightarrow> (\<forall>r \<in> set R. \<not> dot bxor False r x) \<longrightarrow> x = replicate K False)"

text \<open>The matrix of the source symbols and its inverse.\<close>

lemma source_matrix:
  assumes ok: "raptor_ok p"
  obtains A A' AI where "rp_AI p = Some AI" "length A = rp_K p" "\<And>i. i < rp_K p \<Longrightarrow> code_row p i = Inr (A ! i)"
    "\<forall>r \<in> set A. length r = rp_K p"
    "columns (add_column (map2 bxor) (map2 bxor) (rp_K p)) [0..<rp_K p] (A, map (unit_row (rp_K p)) [0..<rp_K p]) = Some (A', AI)"
proof -
  define K where "K = rp_K p"
  define A where "A = map (take K) (rp_A p)"
  from ok obtain rows where rows: "mapE (lt_row p) [0..<K] = Inr rows" "rp_A p = InverseLDPC (InverseHALF rows p) p"
    by (auto simp: raptor_ok_def K_def split: sum.splits)
  have rl: "length rows = K" "\<And>i. i < K \<Longrightarrow> lt_row p i = Inr (rows ! i)" using rows(1) by (auto simp: mapE_upt)
  have A: "length A = K" "\<And>i. i < K \<Longrightarrow> code_row p i = Inr (A ! i)"
    using rl by (simp_all add: A_def rows(2) InverseLDPC_def InverseHALF_def code_row_def reduce_row_def K_def)
  have A_len: "\<forall>r \<in> set A. length r = K" using A code_row_length [OF ok, OF A(2)] by (auto simp: K_def in_set_conv_nth)
  from ok obtain AI where AI: "rp_AI p = Some AI" by (auto simp: raptor_ok_def)
  have "FindInverseMatrix p = p" using ok by (simp add: raptor_ok_def)
  then have "rp_AI (FindInverseMatrix p) = Some AI" using AI by simp
  then obtain A' where c: "columns (add_column (map2 bxor) (map2 bxor) K) [0..<K] (A, map (unit_row K) [0..<K]) = Some (A', AI)"
    by (auto simp: FindInverseMatrix_def Let_def K_def [symmetric] A_def inverse_column_def)
  show ?thesis using that [of AI A A'] AI A A_len c by (simp add: K_def)
qed

lemma take_rows: "\<forall>r \<in> set A. length r = K \<Longrightarrow> map (take K) A = A"
  by (induction A) auto

lemma inverse_matrix:
  assumes ok: "raptor_ok p"
  obtains AI where "rp_AI p = Some AI" "length AI = rp_K p" "\<forall>r \<in> set AI. length r = rp_K p"
    "\<And>i r. i < rp_K p \<Longrightarrow> code_row p i = Inr r \<Longrightarrow> dot (map2 bxor) (replicate (rp_K p) False) r AI = unit_row (rp_K p) i"
    "\<And>A. length A = rp_K p \<Longrightarrow> (\<And>i. i < rp_K p \<Longrightarrow> code_row p i = Inr (A ! i)) \<Longrightarrow> full_rank (rp_K p) A"
proof -
  define K where "K = rp_K p"
  obtain A A' AI where A: "rp_AI p = Some AI" "length A = K" "\<And>i. i < K \<Longrightarrow> code_row p i = Inr (A ! i)" "\<forall>r \<in> set A. length r = K"
    and c: "columns (add_column (map2 bxor) (map2 bxor) K) [0..<K] (A, map (unit_row K) [0..<K]) = Some (A', AI)"
    using source_matrix [OF ok] unfolding K_def by metis
  note T = take_rows [OF A(4)]
  have sys: "system_ok {r. length r = K} K K A (map (unit_row K) [0..<K])" using A(2,4) by (auto simp: system_ok_def)
  note sq = row.elimination_square [OF row.add_column_step [OF row_add_map2 order.refl] sys order.refl c]
  show ?thesis
  proof (rule that [OF A(1)])
    show "length AI = rp_K p" "\<forall>r \<in> set AI. length r = rp_K p" using sq(1) by (auto simp: row.vector_def K_def)
    show "dot (map2 bxor) (replicate (rp_K p) False) r AI = unit_row (rp_K p) i" if "i < rp_K p" "code_row p i = Inr r" for i r
      using sq(2) [unfolded T] that A(2,3) by (auto simp: solves_def K_def)
    show "full_rank (rp_K p) B" if B: "length B = rp_K p" "\<And>i. i < rp_K p \<Longrightarrow> code_row p i = Inr (B ! i)" for B
    proof -
      have "B = A" using B A(2,3) by (intro nth_equalityI) (auto simp: K_def)
      have "columns (add_column (map2 bxor) bxor K) [0..<K] (A, replicate K False) \<noteq> None"
        using c columns_fst_None [of "add_column (map2 bxor) (map2 bxor) K" "add_column (map2 bxor) bxor K" "[0..<K]" A
          "map (unit_row K) [0..<K]" "replicate K False"] add_column_fst by (metis option.distinct(1))
      then obtain A2 d2 where c2: "columns (add_column (map2 bxor) bxor K) [0..<K] (A, replicate K False) = Some (A2, d2)" by auto
      have s2: "system_ok UNIV K K A (replicate K False)" using A by (simp add: system_ok_def)
      note u = bit.elimination_sound [OF bit.add_column_step [OF row_add_map2 order.refl] s2 order.refl order.refl c2]
      have "x = replicate K False" if "length x = K" "\<forall>r \<in> set A. \<not> dot bxor False r x" for x
        using u [of x] u [of "replicate K False"] that A(2) by (simp add: bit.vector_def solves_def T)
      then show ?thesis by (simp add: full_rank_def \<open>B = A\<close> K_def)
    qed
  qed
qed

lemma code_row_source: "raptor_ok p \<Longrightarrow> i < rp_K p \<Longrightarrow> \<exists>r. code_row p i = Inr r"
  by (auto simp: raptor_ok_def code_row_def mapE_upt split: sum.splits)

lemma coded_block: "raptor_ok p \<Longrightarrow> block_ok p data \<Longrightarrow> block_ok p (coded p data)"
  using sym.dot_in [of data "rp_SYMBOL_SIZE p"] by (auto simp: block_ok_def coded_def sdot_def zero_symbol_def)

text \<open>The code is systematic: the first symbols are the data.\<close>

lemma systematic:
  assumes ok: "raptor_ok p" and d: "block_ok p data" and i: "i < rp_K p" and r: "code_row p i = Inr r"
  shows "sdot p r (coded p data) = data ! i"
proof -
  obtain AI where AI: "rp_AI p = Some AI" "length AI = rp_K p" "\<forall>r \<in> set AI. length r = rp_K p"
    "dot (map2 bxor) (replicate (rp_K p) False) r AI = unit_row (rp_K p) i"
    using inverse_matrix [OF ok] i r by metis
  have ds: "set data \<subseteq> {s. length s = rp_SYMBOL_SIZE p}" "length data = rp_K p" using d by (auto simp: block_ok_def)
  have "coded p data = map (\<lambda>a. sdot p a data) AI" using AI(1,2) by (intro nth_equalityI) (simp_all add: coded_def)
  then have "sdot p r (coded p data) = sdot p (unit_row (rp_K p) i) data"
    using sym.dot_dot [of AI data "rp_SYMBOL_SIZE p" r] AI ds code_row_length [OF ok r] by (simp add: sdot_def zero_symbol_def)
  then show ?thesis using sym.dot_unit [of i data "rp_SYMBOL_SIZE p"] ds i by (simp add: sdot_def zero_symbol_def)
qed

lemma RaptorEncoder2_dot:
  assumes ok: "raptor_ok p" and d: "block_ok p data"
  shows "RaptorEncoder2 data p n = mapE (\<lambda>i. bindE (code_row p i) (\<lambda>r. Inr (sdot p r (coded p data)))) [0..<n]"
proof -
  obtain AI where AI: "rp_AI p = Some AI" "length AI = rp_K p" "\<forall>r \<in> set AI. length r = rp_K p"
    using inverse_matrix [OF ok] by metis
  have ds: "set data \<subseteq> {s. length s = rp_SYMBOL_SIZE p}" "length data = rp_K p" using d by (auto simp: block_ok_def)
  have "fold (\<lambda>i c. if AI ! j ! i then vector_xor c (data ! i) (rp_SYMBOL_SIZE p) else c) [0..<rp_K p] (zero_symbol p) = sdot p (AI ! j) data"
    if "j < rp_K p" for j
  proof -
    have "length (AI ! j) = rp_K p" using AI that by simp
    then show ?thesis using sym.fold_upt_dot [of "rp_K p" "AI ! j" data "rp_SYMBOL_SIZE p"] ds by (simp add: sdot_def zero_symbol_def)
  qed
  then have "intermediate p AI data = coded p data @ replicate (rp_L p - rp_K p) (zero_symbol p)"
    using AI by (simp add: intermediate_def coded_def)
  then show ?thesis using LTCode_dot [OF ok coded_block [OF ok d], of n] AI by (simp add: RaptorEncoder2_def)
qed

section \<open>Decoding\<close>

text \<open>The rows of the received symbols.\<close>

definition received_rows :: "raptor_params \<Rightarrow> nat list \<Rightarrow> bool list list result" where
  "received_rows p dataMap = mapE (\<lambda>i. bindE (go_index dataMap i) (code_row p)) [0..<rp_N p]"

lemma received_matrix:
  assumes "raptor_ok p" and "received_rows p dataMap = Inr R"
  obtains B where "FindMatrixAUsingSymbols dataMap p = Inr B"
    "\<And>A. A = InverseLDPC (InverseHALF B p) p \<Longrightarrow> length A = rp_N p \<and> (\<forall>r \<in> set A. length r = rp_L p) \<and> map (take (rp_K p)) A = R"
proof -
  have R: "length R = rp_N p" "\<And>i. i < rp_N p \<Longrightarrow> bindE (go_index dataMap i) (code_row p) = Inr (R ! i)"
    using assms(2) by (auto simp: received_rows_def mapE_upt)
  define b where "b = (\<lambda>i. SOME r. bindE (go_index dataMap i) (lt_row p) = Inr r)"
  have b: "bindE (go_index dataMap i) (lt_row p) = Inr (b i) \<and> R ! i = take (rp_K p) (reduce_row p (b i))" if i: "i < rp_N p" for i
  proof -
    from R(2) [OF i] obtain r where r: "bindE (go_index dataMap i) (lt_row p) = Inr r" "R ! i = take (rp_K p) (reduce_row p r)"
      by (auto simp: bindE_eq_Inr_iff code_row_def)
    then have "b i = r" by (simp add: b_def)
    with r show ?thesis by simp
  qed
  show ?thesis
  proof (rule that)
    show "FindMatrixAUsingSymbols dataMap p = Inr (map b [0..<rp_N p])"
      unfolding FindMatrixAUsingSymbols_def by (rule mapE_uptI) (simp add: b)
    fix A assume A: "A = InverseLDPC (InverseHALF (map b [0..<rp_N p]) p) p"
    have "length (b i) = rp_L p" if "i < rp_N p" for i
      using b [OF that] lt_row_length by (auto simp: bindE_eq_Inr_iff)
    then have "\<forall>r \<in> set A. length r = rp_L p" by (auto simp: A InverseLDPC_def InverseHALF_def reduce_row_def [symmetric])
    moreover have "map (take (rp_K p)) A = R"
      using R(1) b by (intro nth_equalityI) (simp_all add: A InverseLDPC_def InverseHALF_def reduce_row_def [symmetric])
    ultimately show "length A = rp_N p \<and> (\<forall>r \<in> set A. length r = rp_L p) \<and> map (take (rp_K p)) A = R"
      by (simp add: A InverseLDPC_def InverseHALF_def)
  qed
qed

text \<open>Symbols that are the encoding of some data decode to this data, or not at all.\<close>

theorem decoder_correct:
  assumes ok: "raptor_ok p" and d: "block_ok p data" and R: "received_rows p dataMap = Inr R"
    and recv: "rp_N p \<le> length recv" "\<forall>i < rp_N p. recv ! i = sdot p (R ! i) (coded p data)"
  shows "RaptorDecoder recv dataMap p = Inr (if full_rank (rp_K p) R then Some data else None)"
proof -
  define K where "K = rp_K p"
  define n where "n = rp_SYMBOL_SIZE p"
  define N where "N = rp_N p"
  define f where "f = swap_column (\<lambda>r s. row_xor r s K) (\<lambda>a b. vector_xor a b n) N"
  obtain B where B: "FindMatrixAUsingSymbols dataMap p = Inr B"
    "\<And>A. A = InverseLDPC (InverseHALF B p) p \<Longrightarrow> length A = N \<and> (\<forall>r \<in> set A. length r = rp_L p) \<and> map (take K) A = R"
    using received_matrix [OF ok R] by (auto simp: K_def N_def)
  define A where "A = InverseLDPC (InverseHALF B p) p"
  have A: "length A = N" "\<forall>r \<in> set A. length r = rp_L p" "map (take K) A = R" using B(2) [OF A_def] by auto
  have KN: "K \<le> N" "K \<le> rp_L p" using ok by (auto simp: raptor_ok_def K_def N_def)
  have lenR: "length R = N" using A by auto
  have coded: "sym.vector n K (coded p data)" using coded_block [OF ok d] by (simp add: block_ok_iff n_def K_def)
  have e: "set (take N recv) \<subseteq> {s. length s = n}"
  proof -
    have "length (recv ! i) = n" if "i < N" for i
      using recv(2) that sym.dot_in [of "coded p data" n "R ! i"] coded
      by (auto simp: N_def sdot_def n_def zero_symbol_def sym.vector_def)
    then show ?thesis using recv(1) by (auto simp: N_def set_conv_nth)
  qed
  have sys: "system_ok {s. length s = n} N (rp_L p) A (take N recv)" using A e recv(1) by (simp add: system_ok_def N_def)
  have sol: "sym.sol n K A (take N recv) (coded p data)"
    unfolding solves_def A(3) using recv lenR by (simp add: N_def sdot_def n_def zero_symbol_def)
  have radd: "row_add_ok K (rp_L p) (\<lambda>r s. row_xor r s K)" by (rule row_add_row_xor [OF KN(2)])
  have I: "IntermediateKSymbols A recv p = (case columns f [0..<K] (A, take N recv) of None \<Rightarrow> None
      | Some (AA, d) \<Rightarrow> Some (take K d @ replicate (rp_L p - K) (zero_symbol p)))"
    unfolding IntermediateKSymbols_def symbol_column_def f_def K_def n_def N_def ..
  show ?thesis
  proof (cases "columns f [0..<K] (A, take N recv)")
    case None
    obtain x where x: "length x = K" "x \<noteq> replicate K False" "\<forall>i < N. \<not> dot bxor False (take K (A ! i)) x"
      using swap_complete [OF A(1,2) KN(2,1) radd None [unfolded f_def]] by blast
    have "\<not> dot bxor False r x" if "r \<in> set R" for r using that x(3) A(1) by (auto simp: A(3) [symmetric] in_set_conv_nth)
    then have "\<not> full_rank K R" using x(1,2) by (auto simp: full_rank_def)
    then show ?thesis using None by (simp add: RaptorDecoder_def B(1) A_def [symmetric] I K_def)
  next
    case (Some st)
    obtain AA e where st: "st = (AA, e)" by (cases st)
    have x: "coded p data = take K e"
      using sym.elimination_sound [OF sym.swap_column_step [OF radd KN(1)] sys KN(1,2) Some [unfolded f_def st] coded sol] .
    have "full_rank K R" unfolding full_rank_def
    proof (intro allI impI)
      fix x :: "bool list" assume xl: "length x = K" and k: "\<forall>r \<in> set R. \<not> dot bxor False r x"
      let ?z = "replicate N False"
      have "columns (swap_column (\<lambda>r s. row_xor r s K) bxor N) [0..<K] (A, ?z) \<noteq> None"
        using Some swap_columns_None [of "\<lambda>r s. row_xor r s K" bxor N "[0..<K]" A ?z "\<lambda>a b. vector_xor a b n" "take N recv"]
        by (simp add: f_def)
      then obtain A2 d2 where c2: "columns (swap_column (\<lambda>r s. row_xor r s K) bxor N) [0..<K] (A, ?z) = Some (A2, d2)" by auto
      have s2: "system_ok UNIV N (rp_L p) A ?z" using A by (simp add: system_ok_def)
      note u = bit.elimination_sound [OF bit.swap_column_step [OF radd KN(1)] s2 KN(1,2) c2]
      have "bit.sol K A ?z x" unfolding solves_def A(3) using k lenR by auto
      moreover have "bit.sol K A ?z (replicate K False)" unfolding solves_def A(3) using lenR by simp
      ultimately show "x = replicate K False" using u [of x] u [of "replicate K False"] xl by (simp add: bit.vector_def)
    qed
    moreover have "IntermediateKSymbols A recv p = Some (coded p data @ replicate (rp_L p - rp_K p) (zero_symbol p))"
      using I Some st x by (simp add: K_def)
    moreover have "mapE (\<lambda>i. bindE (code_row p i) (\<lambda>r. Inr (sdot p r (coded p data)))) [0..<K] = Inr data"
      using code_row_source [OF ok] systematic [OF ok d] d by (auto simp: mapE_upt block_ok_def K_def bindE_eq_Inr_iff) blast
    ultimately show ?thesis
      using LTCode_dot [OF ok coded_block [OF ok d], of K] by (simp add: RaptorDecoder_def B(1) A_def [symmetric] K_def)
  qed
qed

section \<open>Generator rows\<close>

text \<open>The source symbols that an encoded symbol is the sum of.\<close>

definition gen_of :: "raptor_params \<Rightarrow> bool list \<Rightarrow> bool list" where
  "gen_of p r = dot (map2 bxor) (replicate (rp_K p) False) r (the (rp_AI p))"

lemma gen_of_source: "raptor_ok p \<Longrightarrow> i < rp_K p \<Longrightarrow> code_row p i = Inr r \<Longrightarrow> gen_of p r = unit_row (rp_K p) i"
  by (rule inverse_matrix [of p]) (auto simp: gen_of_def)

lemma encoded_gen:
  assumes ok: "raptor_ok p" and d: "block_ok p data" and r: "length r = rp_K p"
  shows "sdot p r (coded p data) = sdot p (gen_of p r) data"
proof -
  obtain AI where AI: "rp_AI p = Some AI" "length AI = rp_K p" "\<forall>r \<in> set AI. length r = rp_K p"
    using inverse_matrix [OF ok] by metis
  have ds: "set data \<subseteq> {s. length s = rp_SYMBOL_SIZE p}" "length data = rp_K p" using d by (auto simp: block_ok_def)
  have "coded p data = map (\<lambda>a. sdot p a data) AI" using AI(1,2) by (intro nth_equalityI) (simp_all add: coded_def)
  then show ?thesis using sym.dot_dot [of AI data "rp_SYMBOL_SIZE p" r] AI ds r by (simp add: sdot_def zero_symbol_def gen_of_def)
qed

text \<open>The matrix of the source symbols is a bijection, with the inverse matrix as its inverse.\<close>

lemma source_bijection:
  fixes p :: raptor_params
  defines "K \<equiv> rp_K p"
  assumes ok: "raptor_ok p"
  obtains up down :: "bool list \<Rightarrow> bool list"
  where "\<And>x. length (up x) = K" "\<And>y. length (down y) = K"
    "\<And>r y. length r = K \<Longrightarrow> length y = K \<Longrightarrow> dot bxor False r (down y) = dot bxor False (gen_of p r) y"
    "\<And>y. length y = K \<Longrightarrow> up (down y) = y" "\<And>x. length x = K \<Longrightarrow> down (up x) = x"
    "up (replicate K False) = replicate K False" "down (replicate K False) = replicate K False"
proof -
  obtain AI where AI: "rp_AI p = Some AI" "length AI = K" "\<forall>r \<in> set AI. length r = K"
    "\<And>i r. i < K \<Longrightarrow> code_row p i = Inr r \<Longrightarrow> dot (map2 bxor) (replicate K False) r AI = unit_row K i"
    "\<And>A. length A = K \<Longrightarrow> (\<And>i. i < K \<Longrightarrow> code_row p i = Inr (A ! i)) \<Longrightarrow> full_rank K A"
    using inverse_matrix [OF ok] unfolding K_def by metis
  define A where "A = map (\<lambda>i. SOME r. code_row p i = Inr r) [0..<K]"
  have A: "length A = K" "\<And>i. i < K \<Longrightarrow> code_row p i = Inr (A ! i)"
    using code_row_source [OF ok] by (auto simp: A_def K_def dest!: someI_ex [where P = "\<lambda>r. code_row p _ = Inr r"])
  have Alen: "length (A ! i) = K" if "i < K" for i using code_row_length [OF ok A(2) [OF that]] by (simp add: K_def)
  define up where "up = (\<lambda>x. map (\<lambda>a. dot bxor False a x) A)"
  define down where "down = (\<lambda>y. map (\<lambda>a. dot bxor False a y) AI)"
  have down: "dot bxor False r (down y) = dot bxor False (gen_of p r) y" if "length r = K" "length y = K" for r y
    using bit.dot_dot [of AI y r] that AI by (simp add: down_def gen_of_def K_def)
  have up_down: "up (down y) = y" if y: "length y = K" for y
  proof (rule nth_equalityI)
    show "length (up (down y)) = length y" using A(1) y by (simp add: up_def)
    fix i assume "i < length (up (down y))"
    then have i: "i < K" using A(1) by (simp add: up_def)
    then show "up (down y) ! i = y ! i"
      using down [OF Alen [OF i] y] AI(4) [OF i A(2) [OF i]] bit.dot_unit [of i y] AI(1) A(1) y by (simp add: up_def gen_of_def K_def)
  qed
  have zero: "x = replicate K False" if "length x = K" "up x = replicate K False" for x
  proof -
    have "set (up x) \<subseteq> {False}" by (auto simp: that(2))
    then have "\<forall>r \<in> set A. \<not> dot bxor False r x" by (auto simp: up_def)
    then show ?thesis using AI(5) [OF A] that(1) by (simp add: full_rank_def)
  qed
  have down_up: "down (up x) = x" if x: "length x = K" for x
  proof -
    let ?d = "map2 bxor (down (up x)) x"
    have len: "length (down (up x)) = K" "length (up x) = K" using AI(2) A(1) by (simp_all add: down_def up_def)
    have "dot bxor False a ?d = bxor (dot bxor False a (down (up x))) (dot bxor False a x)" if "length a = K" for a
      using bit.dot_xor [of "down (up x)" a x] that x len by (simp add: bit_dot_commute)
    then have "up ?d = map2 bxor (up (down (up x))) (up x)"
      using Alen A(1) by (intro nth_equalityI) (auto simp: up_def)
    then have "up ?d = replicate K False" using up_down [OF len(2)] len(2) by (auto intro!: nth_equalityI)
    then have "?d = replicate K False" using zero len x by simp
    then have "bxor (down (up x) ! i) (x ! i) = False" if "i < K" for i using that len x by (auto simp: list_eq_iff_nth_eq)
    then show ?thesis using len x by (intro nth_equalityI) (auto simp: bxor_def)
  qed
  have len: "length (up x) = K" "length (down y) = K" for x y using AI(2) A(1) by (simp_all add: down_def up_def)
  have dz: "up (replicate K False) = replicate K False" "down (replicate K False) = replicate K False"
    using AI(2) A(1) by (auto simp: down_def up_def intro!: nth_equalityI)
  show ?thesis using len down up_down down_up dz by (rule that)
qed

text \<open>The rank of received symbols is the rank of their generator rows.\<close>

lemma full_rank_gen:
  assumes ok: "raptor_ok p" and R: "\<forall>r \<in> set R. length r = rp_K p"
  shows "full_rank (rp_K p) R \<longleftrightarrow> full_rank (rp_K p) (map (gen_of p) R)"
proof -
  define K where "K = rp_K p"
  obtain up down :: "bool list \<Rightarrow> bool list" where len: "\<And>x. length (up x) = K" "\<And>y. length (down y) = K"
    and down: "\<And>r y. length r = K \<Longrightarrow> length y = K \<Longrightarrow> dot bxor False r (down y) = dot bxor False (gen_of p r) y"
    and inv: "\<And>y. length y = K \<Longrightarrow> up (down y) = y" "\<And>x. length x = K \<Longrightarrow> down (up x) = x"
    and zero: "up (replicate K False) = replicate K False" "down (replicate K False) = replicate K False"
    using source_bijection [OF ok] unfolding K_def by blast
  have gen: "(\<forall>g \<in> set (map (gen_of p) R). \<not> dot bxor False g y) \<longleftrightarrow> (\<forall>r \<in> set R. \<not> dot bxor False r (down y))"
    if "length y = K" for y using R down that by (simp add: K_def)
  show ?thesis unfolding K_def [symmetric] full_rank_def
    using gen len inv zero by (metis (no_types, lifting))
qed

text \<open>The inverse that the elimination finds is the one that a certificate names.\<close>

lemma inverse_certificate:
  assumes A: "length A = K" "\<forall>r \<in> set A. length r = K" and AI: "length AI = K" "\<forall>r \<in> set AI. length r = K"
    and right: "list_all (\<lambda>i. dot (map2 bxor) (replicate K False) (A ! i) AI = unit_row K i) [0..<K]"
    and left: "list_all (\<lambda>i. dot (map2 bxor) (replicate K False) (AI ! i) A = unit_row K i) [0..<K]"
  shows "map_option snd (columns (inverse_column K) [0..<K] (A, map (unit_row K) [0..<K])) = Some AI"
proof (cases "columns (inverse_column K) [0..<K] (A, map (unit_row K) [0..<K])")
  case None
  note T = take_rows [OF A(2)]
  obtain x where x: "length x = K" "x \<noteq> replicate K False" "\<forall>i < K. \<not> dot bxor False (take K (A ! i)) x"
    using add_complete [OF A order.refl order.refl row_add_map2 None [unfolded inverse_column_def]] by blast
  have kernel: "map (\<lambda>a. dot bxor False a x) A = replicate K False"
    using x(3) A by (intro nth_equalityI) (simp_all add: T)
  have "x ! i = False" if i: "i < K" for i
  proof -
    have "dot (map2 bxor) (replicate K False) (AI ! i) A = unit_row K i" using left i by (simp add: list_all_iff)
    then have "dot bxor False (unit_row K i) x = dot bxor False (AI ! i) (map (\<lambda>a. dot bxor False a x) A)"
      using bit.dot_dot [of A x "AI ! i"] A AI i x(1) by simp
    then show ?thesis using bit.dot_unit [of i x] i x(1) by (simp add: kernel)
  qed
  then have "x = replicate K False" using x(1) by (intro nth_equalityI) simp_all
  with x(2) show ?thesis by simp
next
  case (Some st)
  obtain A' d where st: "st = (A', d)" by (cases st)
  have sys: "system_ok {r. length r = K} K K A (map (unit_row K) [0..<K])" using A by (auto simp: system_ok_def)
  have "row.vector K K AI" using AI by (auto simp: row.vector_def)
  moreover have "row.sol K K A (map (unit_row K) [0..<K]) AI"
    unfolding solves_def take_rows [OF A(2)] using right A(1) by (simp add: list_all_iff)
  ultimately have "AI = take K d"
    using row.elimination_sound [OF row.add_column_step [OF row_add_map2 order.refl] sys order.refl order.refl
      Some [unfolded inverse_column_def st]] by blast
  moreover have "length d = K"
    using row.elimination_square(1) [OF row.add_column_step [OF row_add_map2 order.refl] sys order.refl
      Some [unfolded inverse_column_def st]] by (simp add: row.vector_def)
  ultimately show ?thesis using Some st by simp
qed

end
