(* ===== verification/Raptor_Sixteen.thy ===== *)
theory Raptor_Sixteen
  imports Raptor_Correct
begin

text \<open>
  The parameters that \<^verbatim>\<open>RaptorInit\<close> computes: 16 source symbols of 1024 bytes.  The tables below are the values of the fields; that
  the code computes them is evaluated, the inverse matrix with a certificate.  With them follows what the code recovers: all
  losses of a single source symbol but three of the sixteen, and what it makes of a block that is filled up with zeros.
\<close>

definition U16 :: "(nat \<times> nat \<times> nat) list" where
  "U16 = [
     (4, 6, 13), (2, 30, 5), (2, 21, 19), (2, 14, 36), (2, 8, 6), (2, 18, 33), (2, 23, 14), (2, 31, 35), (2, 25, 27), (11, 31, 6),
     (2, 12, 22), (4, 17, 2), (2, 32, 32), (10, 20, 12), (3, 18, 1), (4, 4, 29), (3, 20, 20), (2, 2, 23), (2, 2, 28), (3, 14, 29),
     (2, 35, 2), (3, 3, 11), (2, 18, 14), (2, 34, 17), (11, 12, 24), (2, 10, 24), (2, 16, 1), (2, 34, 24), (11, 16, 9)]"

definition m16 :: "int list" where
  "m16 = [
     15, 27, 30, 29, 23, 51, 54, 53, 60, 58, 57, 43, 46, 45, 39, 99, 102, 101, 108, 106, 105, 120, 116, 114, 113, 83, 86]"

text \<open>The reduced rows of the sixteen source symbols with all their columns, and the inverse.\<close>

definition A16 :: matrix where
  "A16 = [
     [False, False, False, True, True, False, False, True, True, False, False, False, False, False, True, False, False, False, False, True, False, True, True, True, True, False, True, False, False, False, False, True, False, False],
     [False, False, False, True, True, True, False, False, False, False, False, False, False, False, True, True, True, False, False, True, False, False, False, True, False, True, True, False, True, False, False, False, False, False],
     [False, True, True, False, False, False, False, False, False, False, False, False, True, False, True, False, False, False, False, True, False, False, False, False, False, False, False, False, False, False, False, False, False, False],
     [False, False, True, False, False, True, True, True, False, True, False, False, True, True, True, True, False, True, False, False, True, False, False, False, True, True, False, True, False, False, False, False, False, False],
     [False, False, False, False, False, False, True, False, False, False, False, False, False, False, True, False, False, False, False, False, False, False, False, False, False, False, False, False, False, False, False, False, False, False],
     [True, True, True, True, True, True, True, True, True, True, True, True, True, True, False, False, True, True, True, True, True, True, True, True, True, True, True, False, False, False, False, False, False, True],
     [True, False, False, False, False, False, False, False, False, False, False, False, False, False, True, False, False, False, False, False, False, False, False, False, False, False, False, False, False, False, False, False, False, False],
     [False, False, False, True, False, False, True, False, False, False, True, False, False, True, False, True, True, True, True, False, False, False, True, True, False, False, True, False, False, True, False, False, False, False],
     [False, False, True, False, False, True, True, True, False, True, False, False, True, False, True, False, False, True, False, False, True, False, False, False, True, True, False, True, False, False, False, False, False, False],
     [False, False, False, True, True, False, True, True, False, True, False, True, False, True, True, True, True, True, True, False, False, False, False, False, False, False, False, False, False, False, False, True, True, False],
     [False, False, False, False, True, True, True, False, False, True, False, False, False, True, False, True, False, False, False, False, False, False, True, False, False, False, False, False, False, False, False, False, False, False],
     [False, False, True, False, True, True, True, True, True, False, False, False, False, True, False, False, False, True, True, False, True, True, True, True, True, True, True, False, False, False, False, False, False, True],
     [True, True, False, True, True, True, True, False, False, True, True, False, True, False, True, True, True, False, True, True, False, True, True, True, False, True, False, True, False, False, False, False, True, False],
     [False, True, True, False, True, False, False, False, True, True, True, True, True, True, False, True, True, False, False, True, False, False, True, True, True, True, False, True, False, False, False, False, True, False],
     [True, False, True, True, False, False, False, False, False, False, False, False, True, False, True, False, False, False, False, True, False, False, False, False, False, False, False, False, False, False, False, False, False, False],
     [False, True, True, False, False, False, True, False, True, True, False, True, True, False, False, True, False, False, False, True, True, True, False, True, True, True, False, False, False, True, False, False, False, True]]"

definition AI16 :: matrix where
  "AI16 = [
     [True, False, True, False, True, True, False, False, True, False, False, True, True, False, True, True],
     [True, True, False, True, False, False, False, False, True, False, True, True, True, True, True, True],
     [False, False, True, True, False, True, False, True, False, True, True, True, False, False, True, False],
     [False, True, False, True, True, True, False, False, False, False, True, False, False, True, True, False],
     [False, True, False, False, False, False, True, True, False, True, True, True, True, False, False, True],
     [True, True, True, False, True, True, True, True, True, False, False, True, True, True, True, False],
     [True, False, True, False, False, True, True, False, True, False, False, True, True, False, True, True],
     [True, False, True, False, False, False, True, True, True, True, True, False, False, True, True, False],
     [True, False, False, True, False, False, True, False, False, False, True, False, False, False, True, False],
     [False, False, False, True, True, False, True, False, True, True, False, True, True, True, False, False],
     [True, True, True, False, True, False, True, True, False, False, True, True, True, True, False, True],
     [True, False, True, True, True, True, True, False, True, False, True, False, False, True, False, True],
     [False, True, True, False, True, False, True, True, False, True, False, True, False, True, True, False],
     [False, False, False, False, True, True, True, False, True, True, False, True, True, False, True, False],
     [True, False, True, False, True, True, True, False, True, False, False, True, True, False, True, True],
     [False, False, False, True, True, True, True, False, False, True, False, True, True, False, True, False]]"

text \<open>The rows of the four repair symbols, and their generator rows.\<close>

definition repair16 :: matrix where
  "repair16 = [
     [False, False, True, False, True, True, True, True, False, False, False, True, False, True, True, True],
     [False, False, False, False, False, True, True, False, True, True, False, False, False, False, True, False],
     [False, True, False, True, True, True, False, False, True, True, True, True, True, True, True, False],
     [False, False, True, False, True, True, True, True, False, False, True, True, False, False, True, False]]"

definition gen16 :: matrix where
  "gen16 = [
     [True, False, False, True, True, True, False, False, False, True, False, True, False, True, True, False],
     [False, True, True, False, True, True, True, True, False, True, True, False, False, False, False, False],
     [False, False, True, True, False, True, True, False, False, False, False, False, True, True, True, True],
     [False, True, True, False, False, True, True, True, True, True, True, False, True, False, True, True]]"

definition base16 :: raptor_params where
  "base16 = \<lparr>rp_K = 16, rp_SYMBOL_SIZE = 1024, rp_S = 11, rp_H = 7, rp_L = 34, rp_Lp = 37, rp_N = 17, rp_M = 29,
     rp_U = [], rp_A = [], rp_AI = None, rp_m = []\<rparr>"

definition raptor16 :: raptor_params where
  "raptor16 = base16\<lparr>rp_U := U16, rp_A := A16, rp_m := m16, rp_AI := Some AI16\<rparr>"

text \<open>The same parameters without the size of the symbols, which the matrices do not depend on.\<close>

definition shape16 :: raptor_params where
  "shape16 = \<lparr>rp_K = 16, rp_SYMBOL_SIZE = 0, rp_S = 11, rp_H = 7, rp_L = 34, rp_Lp = 37, rp_N = 17, rp_M = 29,
     rp_U = U16, rp_A = [], rp_AI = None, rp_m = m16\<rparr>"

section \<open>Evaluation\<close>

lemma dot_code [code]:
  "dot add zero [] x = zero"
  "dot add zero (b # r) [] = zero"
  "dot add zero (b # r) (v # x) = (if b then add v (dot add zero r x) else dot add zero r x)"
  by (simp_all add: dot_def)

lemma loops16:
  "loopE (\<lambda>X. X * (X - 1) < 2 * 16) (\<lambda>X. X + 1) 1 = Inr (7 :: nat)"
  "loopE (\<lambda>S. S < (16 + 99) div 100 + 7) (\<lambda>S. S + 1) 1 = Inr (8 :: nat)"
  "next_prime 8 = Inr 11" "next_prime (16 + 11 + 7) = Inr 37"
  "loopE (\<lambda>H. Factor H div (Factor ((H + 1) div 2) * Factor (H - (H + 1) div 2)) < int (16 + 11)) (\<lambda>H. H + 1) 1 = Inr 7"
  by code_simp+

lemma triples16: "mapE (triple_from 43 37) [0..<29] = Inr U16"
  by code_simp

lemma gray16: "MakeGraySequence shape16 = Inr shape16"
  by code_simp

lemma reduced16:
  "list_all (\<lambda>i. case lt_row shape16 i of Inl _ \<Rightarrow> False
     | Inr r \<Rightarrow> fold add_back (half_pairs' shape16 @ ldpc_pairs shape16) r = A16 ! i) [0..<16]"
  by code_simp

lemma repair16:
  "list_all (\<lambda>i. case lt_row shape16 i of Inl _ \<Rightarrow> False
     | Inr r \<Rightarrow> take 16 (fold add_back (half_pairs' shape16 @ ldpc_pairs shape16) r) = repair16 ! (i - 16)) [16..<20]"
  by code_simp

lemma right16: "list_all (\<lambda>i. dot (map2 bxor) (replicate 16 False) (map (take 16) A16 ! i) AI16 = unit_row 16 i) [0..<16]"
  by code_simp

lemma left16: "list_all (\<lambda>i. dot (map2 bxor) (replicate 16 False) (AI16 ! i) (map (take 16) A16) = unit_row 16 i) [0..<16]"
  by code_simp

lemma gen16: "map (\<lambda>r. dot (map2 bxor) (replicate 16 False) r AI16) repair16 = gen16"
  by code_simp

lemma sizes16:
  "length A16 = 16" "list_all (\<lambda>r. length r = 34) A16" "length AI16 = 16" "list_all (\<lambda>r. length r = 16) AI16"
  "length m16 = 27" "list_all (\<lambda>m. list_all (\<lambda>j. j < 7) (one_bits m 0)) m16" "length U16 = 29" "length repair16 = 4"
  by code_simp+

section \<open>The parameters\<close>

lemma list_all_uptD: "list_all P [a..<b] \<Longrightarrow> a \<le> i \<Longrightarrow> i < b \<Longrightarrow> P i"
  by (simp add: list_all_iff del: upt_rec_numeral)

lemma lt_row_cong:
  assumes "rp_U p = rp_U q" "rp_L p = rp_L q" "rp_Lp p = rp_Lp q"
  shows "lt_row p i = lt_row q i"
proof -
  have n: "lt_next p a b = lt_next q a b" for a b using assms by (simp add: lt_next_def)
  have "lt_rest p a b k = lt_rest q a b k" for a b k by (induction k arbitrary: b) (simp_all add: n assms)
  then show ?thesis using assms n by (simp add: lt_row_def lt_columns_def)
qed

lemma reduce_row_cong:
  assumes "rp_K p = rp_K q" "rp_S p = rp_S q" "rp_H p = rp_H q" "rp_m p = rp_m q"
  shows "reduce_row p r = reduce_row q r"
  using assms by (simp add: reduce_row_def half_row_fold ldpc_row_fold half_pairs'_def half_sources_def ldpc_pairs_def ldpc_checks_def)

lemma reduce_row_fold: "reduce_row p r = fold add_back (half_pairs' p @ ldpc_pairs p) r"
  by (simp add: reduce_row_def half_row_fold ldpc_row_fold)

lemma triple16:
  assumes "rp_K p = 16" "rp_Lp p = 37" shows "triple p = triple_from 43 37"
proof
  fix i
  have "16 < length J" by (simp add: J_def length_J_first)
  then show "triple p i = triple_from 43 37 i" using assms by (simp add: triple_def J_16)
qed

lemma rows16:
  obtains rows where "mapE (lt_row shape16) [0..<16] = Inr rows" "map (reduce_row shape16) rows = A16"
proof -
  have "\<exists>r. lt_row shape16 i = Inr r \<and> reduce_row shape16 r = A16 ! i" if "i < 16" for i
    using list_all_uptD [OF reduced16, of i] that by (simp add: reduce_row_fold split: sum.splits)
  then obtain f where f: "\<And>i. i < 16 \<Longrightarrow> lt_row shape16 i = Inr (f i) \<and> reduce_row shape16 (f i) = A16 ! i" by metis
  show ?thesis
  proof (rule that)
    show "mapE (lt_row shape16) [0..<16] = Inr (map f [0..<16])" by (rule mapE_uptI) (simp add: f)
    show "map (reduce_row shape16) (map f [0..<16]) = A16" using f sizes16(1) by (intro nth_equalityI) simp_all
  qed
qed

lemma inverse16:
  "map_option snd (columns (inverse_column 16) [0..<16] (map (take 16) A16, map (unit_row 16) [0..<16])) = Some AI16"
  using sizes16 by (intro inverse_certificate right16 left16) (auto simp: list_all_iff)

lemma RaptorInit_16: "RaptorInit = Inr raptor16"
proof -
  obtain rows where rows: "mapE (lt_row shape16) [0..<16] = Inr rows" "map (reduce_row shape16) rows = A16" by (rule rows16)
  define p1 where "p1 = base16\<lparr>rp_U := U16\<rparr>"
  define p2 where "p2 = p1\<lparr>rp_A := rows\<rparr>"
  define p3 where "p3 = p2\<lparr>rp_m := m16\<rparr>"
  define p4 where "p4 = p3\<lparr>rp_A := A16\<rparr>"
  have 1: "TripleCalculate base16 = Inr p1"
    using triple16 [of base16] triples16 by (simp add: TripleCalculate_def base16_def p1_def)
  have "lt_row p1 = lt_row shape16" by (rule ext, rule lt_row_cong) (simp_all add: p1_def base16_def shape16_def)
  then have 2: "FindMatrixA p1 = Inr p2"
    using rows(1) by (simp add: FindMatrixA_def p2_def) (simp add: p1_def base16_def)
  have 3: "MakeGraySequence p2 = Inr p3"
    using gray16 by (auto simp: MakeGraySequence_def Let_def bindE_eq_Inr_iff p3_def p2_def p1_def base16_def shape16_def)
  have "InverseLDPC (InverseHALF rows p3) p3 = map (reduce_row p3) rows" by (simp add: InverseLDPC_def InverseHALF_def reduce_row_def)
  also have "\<dots> = map (reduce_row shape16) rows"
    by (rule map_cong [OF refl], rule reduce_row_cong) (simp_all add: p3_def p2_def p1_def base16_def shape16_def)
  finally have 4: "p3\<lparr>rp_A := InverseLDPC (InverseHALF (rp_A p3) p3) p3\<rparr> = p4"
    using rows(2) by (simp add: p4_def) (simp add: p3_def p2_def)
  have 5: "FindInverseMatrix p4 = raptor16"
    using inverse16 by (simp add: FindInverseMatrix_def p4_def p3_def p2_def p1_def base16_def raptor16_def)
  have 6: "RaptorInitialization 16 1024 758 8000 = Inr (Some raptor16)"
    unfolding RaptorInitialization_def Let_def loops16 bindE_Inr 
    using 1 2 3 4 5 by (simp add: base16_def raptor16_def)
  show ?thesis unfolding RaptorInit_def NumberOfSrcSymbolSize_def SymbolSize_def 6 by simp
qed

lemma fields16 [simp]:
  "rp_K raptor16 = 16" "rp_SYMBOL_SIZE raptor16 = 1024" "rp_S raptor16 = 11" "rp_H raptor16 = 7" "rp_L raptor16 = 34"
  "rp_Lp raptor16 = 37" "rp_N raptor16 = 17" "rp_M raptor16 = 29" "rp_U raptor16 = U16" "rp_A raptor16 = A16"
  "rp_AI raptor16 = Some AI16" "rp_m raptor16 = m16"
  by (simp_all add: raptor16_def base16_def)

lemma shape_fields16 [simp]:
  "rp_K shape16 = 16" "rp_S shape16 = 11" "rp_H shape16 = 7" "rp_L shape16 = 34" "rp_Lp shape16 = 37" "rp_U shape16 = U16" "rp_m shape16 = m16"
  by (simp_all add: shape16_def)

lemma rows_raptor16: "lt_row raptor16 i = lt_row shape16 i" "reduce_row raptor16 r = reduce_row shape16 r"
proof -
  show "lt_row raptor16 i = lt_row shape16 i" by (rule lt_row_cong) simp_all
  show "reduce_row raptor16 r = reduce_row shape16 r" by (rule reduce_row_cong) simp_all
qed

lemma raptor16_ok: "raptor_ok raptor16"
proof -
  obtain rows where rows: "mapE (lt_row shape16) [0..<16] = Inr rows" "map (reduce_row shape16) rows = A16" by (rule rows16)
  have "lt_row raptor16 = lt_row shape16" "reduce_row raptor16 = reduce_row shape16" by (rule ext, rule rows_raptor16)+
  then have "InverseLDPC (InverseHALF rows raptor16) raptor16 = A16" "mapE (lt_row raptor16) [0..<16] = Inr rows"
    using rows by (simp_all add: InverseLDPC_def InverseHALF_def reduce_row_def [symmetric] comp_def)
  moreover have "FindInverseMatrix raptor16 = raptor16"
    using inverse16 by (simp add: FindInverseMatrix_def raptor16_def base16_def)
  ultimately show ?thesis using sizes16 by (simp add: raptor_ok_def vector_len_def)
qed

section \<open>Generator rows\<close>

definition gen_row16 :: "nat \<Rightarrow> bool list" where
  "gen_row16 k = (if k < 16 then unit_row 16 k else gen16 ! (k - 16))"

lemma code_row16:
  assumes "k < 20"
  obtains r where "code_row raptor16 k = Inr r" "length r = 16" "gen_of raptor16 r = gen_row16 k"
proof (cases "k < 16")
  case True
  then obtain r where "code_row raptor16 k = Inr r" using code_row_source [OF raptor16_ok, of k] by auto
  with that [of r] True show ?thesis
    using gen_of_source [OF raptor16_ok, of k r] code_row_length [OF raptor16_ok, of k r] by (simp add: gen_row16_def)
next
  case False
  define r where "r = repair16 ! (k - 16)"
  have "code_row raptor16 k = Inr r"
    using list_all_uptD [OF repair16, of k] assms False
    by (simp add: reduce_row_fold [of shape16] code_row_def rows_raptor16 r_def split: sum.splits)
  moreover have "gen_of raptor16 r = gen16 ! (k - 16)"
    using gen16 assms False sizes16(8) by (auto simp: gen_of_def r_def list_eq_iff_nth_eq [of "map _ _" gen16])
  ultimately show ?thesis using that [of r] False code_row_length [OF raptor16_ok, of k r] by (simp add: gen_row16_def)
qed

text \<open>The encoding in terms of the source symbols, and decoding in terms of generator rows.\<close>

definition encode16 :: "symbol list \<Rightarrow> nat \<Rightarrow> symbol" where
  "encode16 data k = sdot raptor16 (gen_row16 k) data"

lemma encoder16:
  assumes "block_ok raptor16 data" and "n \<le> 20"
  shows "RaptorEncoder2 data raptor16 n = Inr (map (encode16 data) [0..<n])"
  unfolding RaptorEncoder2_dot [OF raptor16_ok assms(1)]
proof (rule mapE_uptI)
  fix k assume "k < n"
  then obtain r where "code_row raptor16 k = Inr r" "length r = 16" "gen_of raptor16 r = gen_row16 k"
    using code_row16 [of k] assms(2) by auto
  then show "bindE (code_row raptor16 k) (\<lambda>r. Inr (sdot raptor16 r (coded raptor16 data))) = Inr (encode16 data k)"
    using encoded_gen [OF raptor16_ok assms(1), of r] by (simp add: encode16_def)
qed

lemma encode16_source: "block_ok raptor16 data \<Longrightarrow> k < 16 \<Longrightarrow> encode16 data k = data ! k"
  using sym.dot_unit [of k data 1024]
  by (auto simp: encode16_def gen_row16_def sdot_def zero_symbol_def block_ok_def)

lemma received_rows16:
  assumes m: "17 \<le> length dataMap" "\<forall>k \<in> set (take 17 dataMap). k < 20"
  obtains R where "received_rows raptor16 dataMap = Inr R" "full_rank 16 R \<longleftrightarrow> full_rank 16 (map gen_row16 (take 17 dataMap))"
    "\<And>i. i < 17 \<Longrightarrow> length (R ! i) = 16 \<and> gen_of raptor16 (R ! i) = gen_row16 (dataMap ! i)"
proof -
  have "dataMap ! i < 20" if "i < 17" for i using m that by (metis in_set_conv_nth length_take min.absorb2 nth_take)
  then have "\<exists>r. code_row raptor16 (dataMap ! i) = Inr r \<and> length r = 16 \<and> gen_of raptor16 r = gen_row16 (dataMap ! i)" if "i < 17" for i
    using code_row16 [of "dataMap ! i"] that by metis
  then obtain f where f: "\<And>i. i < 17 \<Longrightarrow> code_row raptor16 (dataMap ! i) = Inr (f i) \<and> length (f i) = 16 \<and> gen_of raptor16 (f i) = gen_row16 (dataMap ! i)"
    by metis
  define R where "R = map f [0..<17]"
  have "received_rows raptor16 dataMap = Inr R" unfolding received_rows_def R_def fields16
  proof (rule mapE_uptI)
    fix i :: nat assume "i < 17"
    then show "bindE (go_index dataMap i) (code_row raptor16) = Inr (f i)" using m(1) f by simp
  qed
  moreover have "map (gen_of raptor16) R = map gen_row16 (take 17 dataMap)" using f m(1) by (intro nth_equalityI) (simp_all add: R_def)
  then have "full_rank 16 R \<longleftrightarrow> full_rank 16 (map gen_row16 (take 17 dataMap))"
    using full_rank_gen [OF raptor16_ok, of R] f by (auto simp: R_def)
  ultimately show ?thesis using that [of R] f by (simp add: R_def del: upt_rec_numeral)
qed

lemma decoder16:
  assumes d: "block_ok raptor16 data" and m: "17 \<le> length dataMap" "\<forall>k \<in> set (take 17 dataMap). k < 20"
    and recv: "17 \<le> length recv" "\<forall>i < 17. recv ! i = encode16 data (dataMap ! i)"
  shows "RaptorDecoder recv dataMap raptor16 = Inr (if full_rank 16 (map gen_row16 (take 17 dataMap)) then Some data else None)"
proof -
  obtain R where R: "received_rows raptor16 dataMap = Inr R" "full_rank 16 R \<longleftrightarrow> full_rank 16 (map gen_row16 (take 17 dataMap))"
    "\<And>i. i < 17 \<Longrightarrow> length (R ! i) = 16 \<and> gen_of raptor16 (R ! i) = gen_row16 (dataMap ! i)"
    using received_rows16 [OF m] by metis
  have "\<forall>i < rp_N raptor16. recv ! i = sdot raptor16 (R ! i) (coded raptor16 data)"
    using recv R(3) encoded_gen [OF raptor16_ok d] by (simp add: encode16_def)
  then show ?thesis using decoder_correct [OF raptor16_ok d R(1), of recv] recv(1) R(2) by simp
qed

section \<open>What can be recovered\<close>

lemma gen_row16_length: "k < 20 \<Longrightarrow> length (gen_row16 k) = 16"
proof -
  assume "k < 20"
  then obtain r where "gen_of raptor16 r = gen_row16 k" using code_row16 [of k] by metis
  then show ?thesis using row.dot_in [of AI16 16 r] sizes16(4) by (auto simp: gen_of_def list_all_iff)
qed

text \<open>With all source symbols but \<open>l\<close>, a repair symbol that has \<open>l\<close> in its sum is needed.\<close>

lemma full_rank_units:
  assumes m: "\<forall>k < 16. k \<noteq> l \<longrightarrow> k \<in> set dataMap" "\<forall>k \<in> set dataMap. k < 20" and l: "l < 16"
  shows "full_rank 16 (map gen_row16 dataMap) \<longleftrightarrow> (\<exists>k \<in> set dataMap. gen_row16 k ! l)"
proof -
  have col: "dot bxor False (gen_row16 k) (unit_row 16 l) = gen_row16 k ! l" if "k < 20" for k
    using bit.dot_unit [of l "gen_row16 k"] gen_row16_length [OF that] l by (simp add: bit_dot_commute)
  have ul: "unit_row 16 l ! l" using l by (simp add: unit_row_def)
  have x: "x = replicate 16 False \<or> x = unit_row 16 l" if "length x = 16" and zero: "\<forall>k \<in> set dataMap. \<not> dot bxor False (gen_row16 k) x" for x
  proof -
    have "\<not> x ! k" if k: "k < 16" "k \<noteq> l" for k
    proof -
      have "\<not> dot bxor False (gen_row16 k) x" using k m(1) zero by blast
      then show ?thesis using k bit.dot_unit [of k x] \<open>length x = 16\<close> by (simp add: gen_row16_def)
    qed
    then show ?thesis using \<open>length x = 16\<close> by (cases "x ! l") (auto simp: list_eq_iff_nth_eq unit_row_def)
  qed
  show ?thesis
  proof
    assume f: "full_rank 16 (map gen_row16 dataMap)"
    have "unit_row 16 l \<noteq> replicate 16 False" using ul l by auto
    then show "\<exists>k \<in> set dataMap. gen_row16 k ! l"
      using f [unfolded full_rank_def, rule_format, of "unit_row 16 l"] col m(2) by fastforce
  next
    assume "\<exists>k \<in> set dataMap. gen_row16 k ! l"
    then show "full_rank 16 (map gen_row16 dataMap)" unfolding full_rank_def using x col m(2) by auto
  qed
qed

text \<open>A single lost source symbol, with the first two repair symbols.\<close>

lemma gen16_loss: "l < 16 \<Longrightarrow> gen_row16 16 ! l \<or> gen_row16 17 ! l \<longleftrightarrow> l \<notin> {8, 12, 15}"
proof -
  have "list_all (\<lambda>l. (gen_row16 16 ! l \<or> gen_row16 17 ! l) = (l \<notin> {8, 12, 15})) [0..<16]" by code_simp
  then show "l < 16 \<Longrightarrow> gen_row16 16 ! l \<or> gen_row16 17 ! l \<longleftrightarrow> l \<notin> {8, 12, 15}" using list_all_uptD by fastforce
qed

lemma single_loss_rank:
  assumes l: "l < 16"
  shows "full_rank 16 (map gen_row16 ([0..<l] @ [Suc l..<18])) \<longleftrightarrow> l \<notin> {8, 12, 15}"
proof -
  have "full_rank 16 (map gen_row16 ([0..<l] @ [Suc l..<18])) \<longleftrightarrow> (\<exists>k \<in> set ([0..<l] @ [Suc l..<18]). gen_row16 k ! l)"
    using l by (intro full_rank_units) auto
  also have "\<dots> \<longleftrightarrow> gen_row16 16 ! l \<or> gen_row16 17 ! l"
  proof -
    have "\<not> gen_row16 k ! l" if "k < 16" "k \<noteq> l" for k using that l by (simp add: gen_row16_def unit_row_def)
    moreover have "k \<in> set ([0..<l] @ [Suc l..<18]) \<longleftrightarrow> k < 16 \<and> k \<noteq> l \<or> k = 16 \<or> k = 17" for k using l by auto
    ultimately show ?thesis by blast
  qed
  finally show ?thesis using gen16_loss [OF l] by simp
qed

section \<open>The Go methods\<close>

text \<open>The symbols of a block: its bytes and the repair bytes after them.\<close>

definition symbol_at :: "bytes \<Rightarrow> bytes \<Rightarrow> nat \<Rightarrow> symbol" where
  "symbol_at data fec k = take 1024 (drop (k * 1024) (data @ fec))"

lemma symbols_of_concat:
  assumes "\<forall>s \<in> set xs. length s = n" and "m = length xs"
  shows "symbols_of n m (concat xs @ r) = xs"
proof -
  have "take n (drop (i * n) (concat xs @ r)) = xs ! i" if "i < length xs" for i
    using assms(1) that
  proof (induction xs arbitrary: i)
    case (Cons x xs)
    then show ?case by (cases i) (auto simp: add.commute [of n])
  qed simp
  then show ?thesis using assms(2) by (intro nth_equalityI) (simp_all add: symbols_of_def)
qed

lemma length_concat_const: "\<forall>s \<in> set xs. length s = n \<Longrightarrow> length (concat xs) = n * length xs"
  by (induction xs) auto

lemma symbols_of_Suc: "symbols_of n (Suc m) bs = take n bs # symbols_of n m (drop n bs)"
  by (simp add: symbols_of_def map_upt_Suc add.commute [of n] del: upt_Suc)

lemma concat_symbols_of: "length bs = m * n \<Longrightarrow> concat (symbols_of n m bs) = bs"
proof (induction m arbitrary: bs)
  case (Suc m)
  then show ?case by (simp add: symbols_of_Suc)
qed (simp add: symbols_of_def)

lemma block_of_bytes: "length data = 16384 \<Longrightarrow> block_ok raptor16 (symbols_of 1024 16 data)"
  by (auto simp: block_ok_def symbols_of_def)

lemma encode16_length: "block_ok raptor16 d \<Longrightarrow> length (encode16 d k) = 1024"
  using sym.dot_in [of d 1024 "gen_row16 k"] by (auto simp: encode16_def sdot_def zero_symbol_def block_ok_def)

lemma RaptorEncode16:
  assumes len: "length data = 16384"
  shows "RaptorEncode raptor16 data 1024 16 = Inr (concat (map (encode16 (symbols_of 1024 16 data)) [16..<20]))"
proof -
  let ?d = "symbols_of 1024 16 data"
  have b: "block_ok raptor16 ?d" by (rule block_of_bytes [OF len])
  have "raptor_encoding raptor16 data 1024 16 = Inr (concat (drop 16 (map (encode16 ?d) [0..<20])))"
    unfolding raptor_encoding_def using encoder16 [OF b, of 20] by simp
  also have "drop 16 (map (encode16 ?d) [0..<20]) = map (encode16 ?d) [16..<20]" by (simp add: drop_map)
  finally have e: "raptor_encoding raptor16 data 1024 16 = Inr (concat (map (encode16 ?d) [16..<20]))" .
  have "length (concat (map (encode16 ?d) [16..<20])) = 4096"
    using length_concat_const [of "map (encode16 ?d) [16..<20]" 1024] encode16_length [OF b] by simp
  then show ?thesis using len by (auto simp: RaptorEncode_def e SymbolSize_def)
qed

lemma symbol_at16:
  assumes len: "length data = 16384" and fec: "RaptorEncode raptor16 data 1024 16 = Inr fec" and k: "k < 20"
  shows "symbol_at data fec k = encode16 (symbols_of 1024 16 data) k"
proof -
  let ?d = "symbols_of 1024 16 data"
  have b: "block_ok raptor16 ?d" by (rule block_of_bytes [OF len])
  have "data @ fec = concat (map (encode16 ?d) [0..<20])"
  proof -
    have "map (encode16 ?d) [0..<16] = ?d"
      using b encode16_source [OF b] by (intro nth_equalityI) (simp_all add: block_ok_def)
    then have "concat (map (encode16 ?d) [0..<16]) = data" using concat_symbols_of [of data 16 1024] len by simp
    moreover have "[0..<20] = [0..<16] @ [16..<20]" by (simp add: upt_conv_Cons)
    ultimately show ?thesis using fec RaptorEncode16 [OF len] by (simp only: map_append concat_append) simp
  qed
  moreover have "symbols_of 1024 20 (concat (map (encode16 ?d) [0..<20]) @ []) = map (encode16 ?d) [0..<20]"
    using encode16_length [OF b] by (intro symbols_of_concat) auto
  then have "symbols_of 1024 20 (concat (map (encode16 ?d) [0..<20])) ! k = map (encode16 ?d) [0..<20] ! k" by simp
  ultimately show ?thesis using k by (simp add: symbol_at_def symbols_of_def del: upt_rec_numeral)
qed

lemma RaptorDecode16:
  assumes b: "block_ok raptor16 d" and m: "17 \<le> length symbolMap" "\<forall>k \<in> set (take 17 symbolMap). k < 20"
  shows "RaptorDecode raptor16 (concat (map (encode16 d) (take 17 symbolMap)) @ r) symbolMap 1024 16 =
    Inr (if full_rank 16 (map gen_row16 (take 17 symbolMap)) then Some (concat d) else None)"
proof -
  define recv where "recv = map (encode16 d) (take 17 symbolMap)"
  have recv: "length recv = 17" "\<forall>s \<in> set recv. length s = 1024"
    using m(1) encode16_length [OF b] by (auto simp: recv_def)
  have "length (concat recv) = 17408" using length_concat_const [OF recv(2)] recv(1) by simp
  then have ne: "concat recv \<noteq> []" by (metis list.size(3) zero_neq_numeral)
  have ds: "length d = 16" "\<forall>s \<in> set d. length s = 1024" using b by (auto simp: block_ok_def)
  have "symbols_of 1024 17 (concat recv @ r) = recv" using recv by (intro symbols_of_concat) auto
  moreover have "RaptorDecoder recv symbolMap raptor16 = Inr (if full_rank 16 (map gen_row16 (take 17 symbolMap)) then Some d else None)"
    using m recv by (intro decoder16 b) (simp_all add: recv_def)
  ultimately have "raptor_decoding2 raptor16 (concat recv @ r) symbolMap 1024 16 =
      Inr (if full_rank 16 (map gen_row16 (take 17 symbolMap)) then Some (concat d) else None)"
    using ds by (simp add: raptor_decoding2_def)
  moreover have "length (concat d) = 16384" using length_concat_const [OF ds(2)] ds(1) by simp
  ultimately show ?thesis using m(1) ne by (auto simp: RaptorDecode_def recv_def SymbolSize_def NumberOfSrcSymbolSize_def)
qed

text \<open>
  A block of which only the first symbol is missing, filled up with zeros and with zeros in the symbol map: the zeros are taken for the first
  symbol.
\<close>

lemma zero_filled16:
  assumes len: "length rest = 15360"
  shows "RaptorDecode raptor16 (rest @ replicate 5120 0) ([1..<16] @ replicate 5 0) 1024 16 = Inr (Some (replicate 1024 0 @ rest))"
proof -
  define z where "z = replicate 1024 (0 :: u8)"
  have z: "length z = 1024" "z @ z = replicate 2048 0" by (simp_all add: z_def replicate_add [symmetric])
  define d where "d = symbols_of 1024 16 (z @ rest)"
  define map' where "map' = [1..<16] @ replicate 5 (0 :: nat)"
  have tk: "take 17 map' = [1..<16] @ replicate 2 0" by (simp add: map'_def del: upt_rec_numeral)
  have b: "block_ok raptor16 d" unfolding d_def by (rule block_of_bytes) (simp add: len z)
  have "symbols_of 1024 (Suc 15) (z @ rest) = z # symbols_of 1024 15 rest" unfolding symbols_of_Suc by (simp add: z)
  then have d: "d = z # symbols_of 1024 15 rest" by (simp add: d_def)
  have "map (encode16 d) [1..<16] = symbols_of 1024 15 rest"
    using encode16_source [OF b] by (intro nth_equalityI) (simp_all add: d symbols_of_def del: upt_rec_numeral)
  moreover have "encode16 d 0 = z" using encode16_source [OF b, of 0] by (simp add: d)
  ultimately have "concat (map (encode16 d) (take 17 map')) = rest @ z @ z"
    using concat_symbols_of [of rest 15 1024] len unfolding tk map_append by (simp add: numeral_2_eq_2 del: upt_rec_numeral)
  moreover have "rest @ replicate 5120 0 = (rest @ z @ z) @ replicate 3072 0"
    by (simp add: z replicate_add [symmetric])
  moreover have "full_rank 16 (map gen_row16 (take 17 map'))"
    unfolding tk by (subst full_rank_units [of 0]) (auto simp: gen_row16_def unit_row_def)
  moreover have "concat d = z @ rest" unfolding d_def using concat_symbols_of [of "z @ rest" 16 1024] len z by simp
  moreover have "\<forall>k \<in> set (take 17 map'). k < 20" unfolding tk by auto
  moreover have "17 \<le> length map'" by (simp add: map'_def)
  ultimately show ?thesis using RaptorDecode16 [OF b, of map' "replicate 3072 0"] by (simp add: map'_def z_def)
qed

end
