(* ===== verification/Raptor_Properties.thy ===== *)
theory Raptor_Properties
  imports Raptor_Sixteen
begin

text \<open>
  Properties of the Raptor code as the connection uses it: blocks of 16 symbols of 1024 bytes with four repair symbols.
\<close>

text \<open>C25. \<^verbatim>\<open>RaptorInit\<close> returns: every loop of the initialization ends, the matrix of the source symbols has an inverse, so that the method does
  not panic, and the parameters are those of blocks of 16 symbols of which 17 are needed for decoding.\<close>

theorem raptor_init_returns:
  "\<exists>p AI. RaptorInit = Inr p \<and> rp_K p = 16 \<and> rp_SYMBOL_SIZE p = 1024 \<and> rp_N p = 17 \<and> rp_M p = 29 \<and> length (rp_U p) = 29 \<and>
     length (rp_A p) = 16 \<and> rp_AI p = Some AI \<and> length AI = 16"
  by (intro exI [of _ raptor16] exI [of _ AI16]) (simp add: RaptorInit_16 sizes16)

text \<open>C24. Encoding a block gives four repair symbols, and decoding any 17 of the 20 symbols, in any order and with whatever
  follows them in the buffer, gives the block back exactly when their rows have full rank, and fails otherwise: it never gives
  another block.\<close>

theorem raptor_round_trip:
  assumes "RaptorInit = Inr p" and "length data = 16384"
  shows "\<exists>fec. RaptorEncode p data 1024 16 = Inr fec \<and> length fec = 4096 \<and>
    (\<forall>symbolMap rest. 17 \<le> length symbolMap \<longrightarrow> (\<forall>k \<in> set (take 17 symbolMap). k < 20) \<longrightarrow>
      (\<exists>R. received_rows p symbolMap = Inr R \<and>
        RaptorDecode p (concat (map (symbol_at data fec) (take 17 symbolMap)) @ rest) symbolMap 1024 16 =
          Inr (if full_rank 16 R then Some data else None)))"
proof -
  let ?d = "symbols_of 1024 16 data"
  have p: "p = raptor16" using assms(1) unfolding RaptorInit_16 by simp
  have b: "block_ok raptor16 ?d" by (rule block_of_bytes [OF assms(2)])
  define fec where "fec = concat (map (encode16 ?d) [16..<20])"
  have fec: "RaptorEncode raptor16 data 1024 16 = Inr fec" unfolding fec_def by (rule RaptorEncode16 [OF assms(2)])
  have len: "length fec = 4096"
    using length_concat_const [of "map (encode16 ?d) [16..<20]" 1024] encode16_length [OF b] by (simp add: fec_def)
  have dec: "\<exists>R. received_rows raptor16 m = Inr R \<and> RaptorDecode raptor16 (concat (map (symbol_at data fec) (take 17 m)) @ rest) m 1024 16 =
      Inr (if full_rank 16 R then Some data else None)" if m: "17 \<le> length m" "\<forall>k \<in> set (take 17 m). k < 20" for m rest
  proof -
    obtain R where R: "received_rows raptor16 m = Inr R" "full_rank 16 R \<longleftrightarrow> full_rank 16 (map gen_row16 (take 17 m))"
      using received_rows16 [OF m] by metis
    have eq: "map (symbol_at data fec) (take 17 m) = map (encode16 ?d) (take 17 m)"
      using m(2) symbol_at16 [OF assms(2) fec] by (intro map_cong) auto
    show ?thesis unfolding eq using RaptorDecode16 [OF b m, of rest] concat_symbols_of [of data 16 1024] assms(2) R by simp
  qed
  show ?thesis unfolding p using fec len dec by blast
qed

theorem raptor_round_trip_witness:
  "\<exists>fec. RaptorEncode raptor16 (replicate 16384 7) 1024 16 = Inr fec \<and> length fec = 4096 \<and>
    RaptorDecode raptor16 (concat (map (symbol_at (replicate 16384 7) fec) [Suc 0..<18])) [Suc 0..<18] 1024 16 = Inr (Some (replicate 16384 7))"
proof -
  let ?m = "[Suc 0..<18]"
  have m: "17 \<le> length ?m" "\<forall>k \<in> set (take 17 ?m). k < 20" "take 17 ?m = ?m" by simp_all
  obtain R where R: "received_rows raptor16 ?m = Inr R" "full_rank 16 R"
    using received_rows16 [OF m(1,2)] single_loss_rank [of 0] m(3) by (metis append_Nil empty_iff insert_iff upt_0 zero_less_numeral zero_neq_numeral)
  obtain fec where fec: "RaptorEncode raptor16 (replicate 16384 7) 1024 16 = Inr fec" "length fec = 4096"
    "\<forall>symbolMap rest. 17 \<le> length symbolMap \<longrightarrow> (\<forall>k \<in> set (take 17 symbolMap). k < 20) \<longrightarrow>
      (\<exists>R. received_rows raptor16 symbolMap = Inr R \<and>
        RaptorDecode raptor16 (concat (map (symbol_at (replicate 16384 7) fec) (take 17 symbolMap)) @ rest) symbolMap 1024 16 =
          Inr (if full_rank 16 R then Some (replicate 16384 7) else None))"
    using raptor_round_trip [OF RaptorInit_16, of "replicate 16384 7"] by auto
  have "RaptorDecode raptor16 (concat (map (symbol_at (replicate 16384 7) fec) (take 17 ?m)) @ []) ?m 1024 16 = Inr (Some (replicate 16384 7))"
    using fec(3) [rule_format, OF m(1), of "[]"] m(2) R by (simp del: upt_rec_numeral)
  then show ?thesis using fec(1,2) unfolding m(3) by (intro exI [of _ fec]) simp
qed

text \<open>C26. One lost source symbol with all other 19 symbols received: the decoder takes the first 17 of them, which are the other
  source symbols and the first two repair symbols.  It restores the block unless the lost symbol is number 8, 12 or 15: these are in
  neither of the two sums, and decoding fails although the other two repair symbols would do.\<close>

theorem raptor_single_loss:
  assumes "RaptorInit = Inr p" and "length data = 16384" and "RaptorEncode p data 1024 16 = Inr fec" and "l < 16"
  defines "received \<equiv> [0..<l] @ [Suc l..<20]"
  shows "RaptorDecode p (concat (map (symbol_at data fec) received)) received 1024 16 =
    Inr (if l \<in> {8, 12, 15} then None else Some data)"
proof -
  let ?d = "symbols_of 1024 16 data"
  have p: "p = raptor16" using assms(1) unfolding RaptorInit_16 by simp
  have b: "block_ok raptor16 ?d" by (rule block_of_bytes [OF assms(2)])
  have parts: "received = ([0..<l] @ [Suc l..<18]) @ [18..<20]"
    using \<open>l < 16\<close> upt_add_eq_append [of "Suc l" 18 2] by (simp add: received_def)
  have tk: "take 17 received = [0..<l] @ [Suc l..<18]" unfolding parts using \<open>l < 16\<close> by (simp del: upt_rec_numeral)
  have m: "17 \<le> length received" "\<forall>k \<in> set (take 17 received). k < 20" unfolding tk using \<open>l < 16\<close> by (auto simp: received_def)
  have eq: "map (symbol_at data fec) received = map (encode16 ?d) received"
    using symbol_at16 [OF assms(2) assms(3) [unfolded p]] \<open>l < 16\<close> by (intro map_cong) (auto simp: received_def)
  have "concat (map (symbol_at data fec) received) =
      concat (map (encode16 ?d) (take 17 received)) @ concat (map (encode16 ?d) [18..<20])"
    unfolding eq tk by (simp add: parts del: upt_rec_numeral)
  then show ?thesis
    using RaptorDecode16 [OF b m] single_loss_rank [OF \<open>l < 16\<close>] concat_symbols_of [of data 16 1024] assms(2)
    by (simp add: p tk del: upt_rec_numeral)
qed

theorem raptor_single_loss_witness:
  "\<exists>fec. RaptorEncode raptor16 (replicate 16384 7) 1024 16 = Inr fec \<and>
    RaptorDecode raptor16 (concat (map (symbol_at (replicate 16384 7) fec) ([0..<8] @ [Suc 8..<20]))) ([0..<8] @ [Suc 8..<20]) 1024 16 = Inr None"
proof -
  obtain fec where fec: "RaptorEncode raptor16 (replicate 16384 7) 1024 16 = Inr fec"
    using RaptorEncode16 [of "replicate 16384 7"] by auto
  from raptor_single_loss [OF RaptorInit_16 _ fec, of 8] show ?thesis
    by (intro exI [of _ fec] conjI fec) (simp del: upt_rec_numeral)
qed

text \<open>C27. A block of which only the first symbol was lost and no repair symbol arrived, as it is handed to the decoder after the timeout: the 15
  received symbols, zeros up to the size of the buffer, and a symbol map that is zero where no symbol is.  The decoder takes the
  zeros for the first symbol and reports success with a block that begins with 1024 zero bytes.\<close>

theorem raptor_zero_fill_corrupts:
  assumes "RaptorInit = Inr p" and "length rest = 15360"
  shows "RaptorDecode p (rest @ replicate 5120 0) ([1..<16] @ replicate 5 0) 1024 16 = Inr (Some (replicate 1024 0 @ rest))"
  using zero_filled16 [OF assms(2)] assms(1) unfolding RaptorInit_16 by simp

theorem raptor_zero_fill_corrupts_witness:
  "RaptorDecode raptor16 (replicate 15360 7 @ replicate 5120 0) ([1..<16] @ replicate 5 0) 1024 16 =
    Inr (Some (replicate 1024 0 @ replicate 15360 7))"
  by (rule raptor_zero_fill_corrupts [OF RaptorInit_16]) simp

end
