(* ===== verification/Fec_Buffer.thy ===== *)
theory Fec_Buffer
  imports Quic_Data_Frames
begin

text \<open>
  The buffer in which the receiver collects the frames of one block of the error correction
  (\<^verbatim>\<open>fec/fec_buffer.go\<close>): the source symbols, which arrive as stream frames, and the repair symbols, which arrive
  as FEC frames.  The timer and the channels of the handler are in theory \<open>Fec_Handler\<close>; here the flag
  \<open>timerRunning\<close> says that the goroutine of the timer still waits.  Log output is left out.
\<close>

section \<open>The buffer\<close>

record FecBuffer =
  fb_firstReceived :: bool
  fb_recvComplete :: bool
  fb_symbolSize :: u32
  fb_numSrcSymbols :: u32
  fb_numEncSymbols :: u32
  fb_recvSizeForDecode :: u32
  fb_srcBlockSize :: u32
  fb_streamID :: StreamID
  fb_startStreamOffset :: ByteCount
  fb_endStreamOffset :: ByteCount
  fb_nextFrameOffset :: ByteCount
  fb_streamFrameDataLength :: ByteCount
  fb_fecFrameDataLength :: ByteCount
  fb_oobStreamFrameQueue :: "StreamFrame list"
  fb_oobFecFrameQueue :: "FecFrame list"
  fb_encBlock :: bytes
  fb_bufferMap :: "u32 list"
  fb_timerRunning :: bool
  fb_decodeStarted :: bool
  fb_packetNumberMap :: "ByteCount \<rightharpoonup> PacketNumber"

text \<open>
  \<^verbatim>\<open>uint32(float32(numSrcSyms) / b.codeRate)\<close> with a code rate of 0.8.  The rounding of the division is less
  than half a unit in the last place below the exact quotient, so that the result is the integer part of the exact quotient for all
  numbers below \<open>2 ^ 20\<close>.
\<close>

definition numEncSymbols_of :: "u32 \<Rightarrow> u32" where
  "numEncSymbols_of numSrcSyms = of_nat (unat numSrcSyms * 5 div 4)"

definition FecBuffer_Init :: "StreamID \<Rightarrow> ByteCount \<Rightarrow> u32 \<Rightarrow> u32 \<Rightarrow> FecBuffer" where
  "FecBuffer_Init streamID startOffset symSize numSrcSyms =
     (let numEnc = numEncSymbols_of numSrcSyms; srcBlockSize = symSize * numSrcSyms in
      \<lparr>fb_firstReceived = True, fb_recvComplete = False, fb_symbolSize = symSize, fb_numSrcSymbols = numSrcSyms,
       fb_numEncSymbols = numEnc, fb_recvSizeForDecode = symSize * 18, fb_srcBlockSize = srcBlockSize, fb_streamID = streamID,
       fb_startStreamOffset = startOffset, fb_endStreamOffset = startOffset + uint srcBlockSize - 1, fb_nextFrameOffset = startOffset,
       fb_streamFrameDataLength = 0, fb_fecFrameDataLength = 0, fb_oobStreamFrameQueue = [], fb_oobFecFrameQueue = [],
       fb_encBlock = replicate (unat (symSize * numEnc)) 0, fb_bufferMap = replicate (unat numEnc) 0,
       fb_timerRunning = True, fb_decodeStarted = False, fb_packetNumberMap = Map.empty\<rparr>)"

section \<open>Pushing frames\<close>

text \<open>\<^verbatim>\<open>copy(dst[i:j], src)\<close> with positions of type \<^verbatim>\<open>ByteCount\<close>.\<close>

definition copy_at :: "bytes \<Rightarrow> ByteCount \<Rightarrow> ByteCount \<Rightarrow> bytes \<Rightarrow> bytes result" where
  "copy_at dst i j src = (if i < 0 \<or> j < 0 then Inl SliceOutOfRange else go_copy_slice dst (nat i) (nat j) src)"

text \<open>The loop of \<^verbatim>\<open>setBufferMap\<close> over the symbols from \<open>startSymIndex\<close> to \<open>endSymIndex\<close>.\<close>

fun fill_symbols :: "u32 \<Rightarrow> u32 list \<Rightarrow> ByteCount \<Rightarrow> nat list \<Rightarrow> u32 list result" where
  "fill_symbols symbolSize m remainingLength [] = Inr m"
| "fill_symbols symbolSize m remainingLength (i # is) =
     bindE (go_index m i) (\<lambda>v.
     let diff = symbolSize - v in
     if remainingLength \<ge> uint diff then fill_symbols symbolSize (m[i := v + diff]) (remainingLength - uint diff) is
     else Inr (m[i := v + word_of_int remainingLength]))"

definition setBufferMap :: "FecBuffer \<Rightarrow> ByteCount \<Rightarrow> ByteCount \<Rightarrow> FecBuffer result" where
  "setBufferMap b startOffset endOffset =
     (if fb_symbolSize b = 0 then Inl DivideByZero
      else let startSymIndex = word_of_int (startOffset - fb_startStreamOffset b) div fb_symbolSize b;
               endSymIndex = word_of_int (endOffset - fb_startStreamOffset b) div fb_symbolSize b;
               endSymIndex = (if unat endSymIndex = length (fb_bufferMap b) then endSymIndex - 1 else endSymIndex)
           in bindE (fill_symbols (fb_symbolSize b) (fb_bufferMap b) (endOffset - startOffset) [unat startSymIndex..<Suc (unat endSymIndex)])
                (\<lambda>m. Inr (b\<lparr>fb_bufferMap := m\<rparr>)))"

text \<open>
  The loop over the out-of-order queue: \<open>nextFrameOffset\<close> moves over the frames that follow without a gap, and the
  queue is cut at the first one that does not; it stays as it is when there is none.
\<close>

fun advance_oob :: "('f \<Rightarrow> ByteCount) \<Rightarrow> ('f \<Rightarrow> nat) \<Rightarrow> 'f list \<Rightarrow> 'f list \<Rightarrow> ByteCount \<Rightarrow> ByteCount \<times> 'f list" where
  "advance_oob offset len queue [] next = (next, queue)"
| "advance_oob offset len queue (f # fs) next =
     (if offset f = next then advance_oob offset len queue fs (offset f + int (len f)) else (next, f # fs))"

text \<open>
  \<^verbatim>\<open>sort.Slice\<close>, which for lists of up to twelve elements is an insertion sort and so keeps the order of elements with the
  same key.
\<close>

definition push_sorted :: "('f \<Rightarrow> ByteCount) \<Rightarrow> 'f \<Rightarrow> 'f list \<Rightarrow> 'f list" where
  "push_sorted key f queue = (let queue = queue @ [f] in if length queue > 1 then sort_key key queue else queue)"

definition PushStreamFrame :: "FecBuffer \<Rightarrow> StreamFrame \<Rightarrow> PacketNumber \<Rightarrow> FecBuffer result" where
  "PushStreamFrame b streamFrame packetNumber =
     (let startOffset = sf_Offset streamFrame; endOffset = startOffset + int (sf_DataLen streamFrame) - 1 in
      if startOffset < fb_nextFrameOffset b \<and> endOffset < fb_nextFrameOffset b then Inr b
      else let prevNextFrameOffset = fb_nextFrameOffset b in
        bindE (if startOffset = fb_nextFrameOffset b then
                 let startPos = startOffset - fb_startStreamOffset b; endPos = startPos + int (sf_DataLen streamFrame) in
                 bindE (copy_at (fb_encBlock b) startPos endPos (sf_Data streamFrame)) (\<lambda>blk.
                 let (next, queue) = advance_oob sf_Offset sf_DataLen (fb_oobStreamFrameQueue b) (fb_oobStreamFrameQueue b) (endOffset + 1) in
                 Inr (b\<lparr>fb_encBlock := blk, fb_nextFrameOffset := next, fb_oobStreamFrameQueue := queue\<rparr>))
               else if startOffset > fb_nextFrameOffset b then
                 Inr (b\<lparr>fb_oobStreamFrameQueue := push_sorted sf_Offset streamFrame (fb_oobStreamFrameQueue b)\<rparr>)
               else Inr b) (\<lambda>b.
        bindE (setBufferMap (b\<lparr>fb_streamFrameDataLength := fb_streamFrameDataLength b + int (sf_DataLen streamFrame)\<rparr>)
                 prevNextFrameOffset (fb_nextFrameOffset b)) (\<lambda>b.
        Inr (b\<lparr>fb_packetNumberMap := (fb_packetNumberMap b)(sf_Offset streamFrame \<mapsto> packetNumber)\<rparr>))))"

definition FecDataLen :: "FecFrame \<Rightarrow> nat" where
  "FecDataLen f = length (ff_FecData f)"

definition PushFecFrame :: "FecBuffer \<Rightarrow> FecFrame \<Rightarrow> FecBuffer result" where
  "PushFecFrame b fecFrame =
     (let startOffset = fb_endStreamOffset b + 1 + ff_FecDataOffset fecFrame; endOffset = startOffset + int (FecDataLen fecFrame) - 1 in
      if startOffset < fb_nextFrameOffset b \<and> endOffset < fb_nextFrameOffset b then Inr b
      else let prevnextFrameOffset = fb_nextFrameOffset b in
        bindE (if startOffset = fb_nextFrameOffset b then
                 let startPos = startOffset - fb_startStreamOffset b; endPos = startPos + int (FecDataLen fecFrame) in
                 bindE (copy_at (fb_encBlock b) startPos endPos (ff_FecData fecFrame)) (\<lambda>blk.
                 let (next, queue) = advance_oob (\<lambda>f. fb_endStreamOffset b + 1 + ff_FecDataOffset f) FecDataLen
                       (fb_oobFecFrameQueue b) (fb_oobFecFrameQueue b) (endOffset + 1) in
                 Inr (b\<lparr>fb_encBlock := blk, fb_nextFrameOffset := next, fb_oobFecFrameQueue := queue\<rparr>))
               else if startOffset > fb_nextFrameOffset b then
                 Inr (b\<lparr>fb_oobFecFrameQueue := push_sorted ff_FecDataOffset fecFrame (fb_oobFecFrameQueue b)\<rparr>)
               else Inr b) (\<lambda>b.
        setBufferMap (b\<lparr>fb_fecFrameDataLength := fb_fecFrameDataLength b + int (FecDataLen fecFrame)\<rparr>)
          prevnextFrameOffset (fb_nextFrameOffset b)))"

section \<open>The block for the decoder\<close>

text \<open>One frame of an out-of-order queue in \<^verbatim>\<open>GetEncodeBlock\<close>.\<close>

definition place_frame :: "ByteCount \<Rightarrow> bytes \<Rightarrow> FecBuffer \<Rightarrow> FecBuffer result" where
  "place_frame startOffset data b =
     (let startPos = startOffset - fb_startStreamOffset b; endPos = startPos + int (length data) in
      bindE (copy_at (fb_encBlock b) startPos endPos data) (\<lambda>blk.
      setBufferMap (b\<lparr>fb_encBlock := blk\<rparr>) startOffset (startOffset + int (length data))))"

text \<open>The state \<open>(idx, lost, symbolMap, encBlock2)\<close> of the loop that collects the complete symbols.\<close>

type_synonym collected = "nat \<times> nat \<times> nat list \<times> bytes"

definition collect_symbol :: "FecBuffer \<Rightarrow> nat \<Rightarrow> collected \<Rightarrow> collected result" where
  "collect_symbol b i = (\<lambda>(idx, lost, symbolMap, encBlock2).
     if fb_bufferMap b ! i = fb_symbolSize b then
       let size = unat (fb_symbolSize b) in
       bindE (go_update symbolMap idx i) (\<lambda>symbolMap.
       bindE (go_slice (fb_encBlock b) (i * size) (i * size + size)) (\<lambda>src.
       bindE (go_copy_slice encBlock2 (idx * size) (idx * size + size) src) (\<lambda>encBlock2.
       Inr (idx + 1, lost, symbolMap, encBlock2))))
     else Inr (idx, lost + 1, symbolMap, encBlock2))"

definition GetEncodeBlock :: "FecBuffer \<Rightarrow> (bytes \<times> nat list \<times> nat \<times> FecBuffer) result" where
  "GetEncodeBlock b =
     bindE (foldE (\<lambda>f. place_frame (sf_Offset f) (sf_Data f)) (fb_oobStreamFrameQueue b) b) (\<lambda>b.
     bindE (foldE (\<lambda>f. place_frame (fb_endStreamOffset b + 1 + ff_FecDataOffset f) (ff_FecData f)) (fb_oobFecFrameQueue b) b) (\<lambda>b.
     bindE (foldE (collect_symbol b) [0..<length (fb_bufferMap b)]
              (0, 0, replicate (unat (fb_numEncSymbols b)) 0, replicate (unat (fb_symbolSize b * fb_numEncSymbols b)) 0))
       (\<lambda>(idx, lost, symbolMap, encBlock2). Inr (encBlock2, symbolMap, lost, b))))"

definition FecBuffer_Length :: "FecBuffer \<Rightarrow> ByteCount" where
  "FecBuffer_Length b = fb_streamFrameDataLength b + fb_fecFrameDataLength b"

text \<open>
  \<^verbatim>\<open>Destroy\<close> sends on the channel \<^verbatim>\<open>timerStop\<close>, which has no buffer: it waits for the goroutine of the timer, forever when
  that has ended.
\<close>

definition FecBuffer_Destroy :: "FecBuffer \<Rightarrow> FecBuffer result" where
  "FecBuffer_Destroy b = (if fb_timerRunning b then Inr (b\<lparr>fb_timerRunning := False\<rparr>) else Inl Blocked)"

section \<open>Blocks of 16 symbols\<close>

text \<open>
  The buffers of the handler have 16 source symbols of 1024 bytes and 20 symbols in all.  The content of a buffer is described by the set of
  symbols that are in place.
\<close>

definition slots :: "(nat \<Rightarrow> bytes) \<Rightarrow> nat set \<Rightarrow> bytes" where
  "slots sy S = concat (map (\<lambda>i. if i \<in> S then sy i else replicate 1024 0) [0..<20])"

definition marks :: "nat set \<Rightarrow> u32 list" where
  "marks S = map (\<lambda>i. if i \<in> S then 1024 else 0) [0..<20]"

lemma length_slots_concat: "\<forall>i \<in> set is. length (g i) = (n :: nat) \<Longrightarrow> length (concat (map g is)) = n * length is"
  by (induction "is") simp_all

lemma concat_split_slot:
  assumes "\<forall>i < n. length (g i) = m" and "k < n"
  shows "take (m * k) (concat (map g [0..<n])) = concat (map g [0..<k])"
    and "drop (m * k + m) (concat (map g [0..<n])) = concat (map g [Suc k..<n])"
    and "take m (drop (m * k) (concat (map g [0..<n]))) = g k"
proof -
  have "[0..<n] = [0..<k] @ k # [Suc k..<n]" using \<open>k < n\<close> upt_conv_Cons [of k n] upt_add_eq_append [of 0 k "n - k"] by simp
  then have eq: "concat (map g [0..<n]) = concat (map g [0..<k]) @ g k @ concat (map g [Suc k..<n])" by simp
  have l: "length (concat (map g [0..<k])) = m * k" using assms by (subst length_slots_concat [where n = m]) auto
  have lk: "length (g k) = m" using assms by simp
  show "take (m * k) (concat (map g [0..<n])) = concat (map g [0..<k])" unfolding eq using l by simp
  show "drop (m * k + m) (concat (map g [0..<n])) = concat (map g [Suc k..<n])" unfolding eq using l lk by simp
  show "take m (drop (m * k) (concat (map g [0..<n]))) = g k" unfolding eq using l lk by simp
qed

lemma replace_slot:
  assumes "\<forall>i < n. length (g i) = m" and "k < n" and "length x = m"
  shows "go_copy_slice (concat (map g [0..<n])) (m * k) (m * k + m) x = Inr (concat (map (g(k := x)) [0..<n]))"
proof -
  have l: "length (concat (map g [0..<n])) = m * n" using assms(1) by (subst length_slots_concat [where n = m]) auto
  have "m * k + m \<le> m * n" using \<open>k < n\<close> by (metis Suc_leI mult_Suc_right mult_le_mono2 add.commute)
  then have c: "go_copy_slice (concat (map g [0..<n])) (m * k) (m * k + m) x =
      Inr (take (m * k) (concat (map g [0..<n])) @ x @ drop (m * k + m) (concat (map g [0..<n])))"
    using assms(3) l by (intro go_copy_slice_Inr) simp_all
  have u: "[0..<n] = [0..<k] @ k # [Suc k..<n]" using \<open>k < n\<close> upt_conv_Cons [of k n] upt_add_eq_append [of 0 k "n - k"] by simp
  have "map (g(k := x)) [0..<n] = map g [0..<k] @ x # map g [Suc k..<n]" unfolding u by simp
  then show ?thesis unfolding c concat_split_slot [OF assms(1,2)] by simp
qed

lemma slots_insert: "(\<lambda>i. if i \<in> S then sy i else replicate 1024 0)(k := sy k) = (\<lambda>i. if i \<in> insert k S then sy i else replicate 1024 0)"
  by auto

lemma copy_at_slot:
  assumes "\<forall>i < 20. length (sy i) = 1024" and "k < 20"
  shows "copy_at (slots sy S) (1024 * int k) (1024 * int k + 1024) (sy k) = Inr (slots sy (insert k S))"
proof -
  have p: "nat (1024 * int k) = 1024 * k" "nat (1024 * int k + 1024) = 1024 * k + 1024" by simp_all
  show ?thesis unfolding copy_at_def p slots_def
    using replace_slot [of 20 "\<lambda>i. if i \<in> S then sy i else replicate 1024 0" 1024 k "sy k"] assms unfolding slots_insert by simp
qed

lemma symbol_index: "k \<le> 20 \<Longrightarrow> unat (word_of_int (1024 * int k) div (1024 :: u32)) = k"
proof -
  assume "k \<le> 20"
  moreover have "(word_of_int (1024 * int k) :: u32) = of_nat (1024 * k)" by simp
  ultimately show ?thesis by (simp only: unat_div) (simp add: unat_of_nat_less del: of_nat_mult)
qed

lemma marks_nth [simp]: "i < 20 \<Longrightarrow> marks S ! i = (if i \<in> S then 1024 else 0)"
  by (simp add: marks_def)

lemma length_marks [simp]: "length (marks S) = 20"
  by (simp add: marks_def)

lemma marks_insert: "k < 20 \<Longrightarrow> (marks S)[k := 1024] = marks (insert k S)"
  by (rule nth_equalityI) (auto simp: nth_list_update)

lemma marks_same: "k < 20 \<Longrightarrow> k \<in> S \<Longrightarrow> (marks S)[k := 1024] = marks S" "k < 20 \<Longrightarrow> k \<notin> S \<Longrightarrow> (marks S)[k := 0] = marks S"
  by (rule nth_equalityI; auto simp: nth_list_update)+

text \<open>A whole symbol that is not marked is marked, and nothing else is.\<close>

lemma setBufferMap_symbol:
  assumes b: "fb_symbolSize b = 1024" "fb_bufferMap b = marks S" "fb_startStreamOffset b = o1" and k: "k < 20" "k \<notin> S"
  shows "setBufferMap b (o1 + 1024 * int k) (o1 + 1024 * int k + 1024) = Inr (b\<lparr>fb_bufferMap := marks (insert k S)\<rparr>)"
proof -
  have e: "1024 * int k + 1024 = 1024 * int (Suc k)" by simp
  have i: "unat (word_of_int (1024 * int k) div (1024 :: u32)) = k" "unat (word_of_int (1024 * int k + 1024) div (1024 :: u32)) = Suc k"
    unfolding e using k by (intro symbol_index; simp)+
  have last: "unat (word_of_int (1024 * int k + 1024) div (1024 :: u32) - 1) = k"
    using i(2) unat_minus_one [of "word_of_int (1024 * int k + 1024) div (1024 :: u32)"] by (metis diff_Suc_1 nat.distinct(1) unat_0)
  show ?thesis
  proof (cases "Suc k = 20")
    case True
    then have "[k..<Suc k] = [k]" by simp
    then show ?thesis using b k i last True by (simp add: setBufferMap_def Let_def marks_insert)
  next
    case False
    then have u: "[k..<Suc (Suc k)] = [k, Suc k]" "Suc k < 20" using k by simp_all
    have "fill_symbols 1024 (marks S) 1024 [k, Suc k] = Inr (marks (insert k S))"
      using u(2) k by (simp add: marks_insert marks_same insert_absorb insert_commute [of "Suc k"])
    then show ?thesis using b k i False u by (simp add: setBufferMap_def Let_def)
  qed
qed

lemma setBufferMap_nothing:
  assumes b: "fb_symbolSize b = 1024" "fb_bufferMap b = marks S" "fb_startStreamOffset b = o1" and k: "k < 20" "k \<notin> S"
  shows "setBufferMap b (o1 + 1024 * int k) (o1 + 1024 * int k) = Inr b"
  using b k symbol_index [of k] by (simp add: setBufferMap_def Let_def marks_same)

section \<open>Frames that arrive in order, with losses\<close>

text \<open>
  A block at offset \<open>o1\<close>: the source symbols in stream frames and the repair symbols in FEC frames of one symbol each.
\<close>

definition block_frames :: "ByteCount \<Rightarrow> (nat \<Rightarrow> bytes) \<Rightarrow> (nat \<Rightarrow> StreamFrame) \<Rightarrow> (nat \<Rightarrow> FecFrame) \<Rightarrow> bool" where
  "block_frames o1 sy F G \<longleftrightarrow> (\<forall>k < 20. length (sy k) = 1024) \<and> (\<forall>k < 16. sf_Offset (F k) = o1 + 1024 * int k \<and> sf_Data (F k) = sy k) \<and>
     (\<forall>k < 20. 16 \<le> k \<longrightarrow> ff_FecDataOffset (G k) = 1024 * int k - 16384 \<and> ff_FecData (G k) = sy k)"

definition push_symbol :: "(nat \<Rightarrow> StreamFrame) \<Rightarrow> (nat \<Rightarrow> FecFrame) \<Rightarrow> (nat \<Rightarrow> PacketNumber) \<Rightarrow> nat \<Rightarrow> FecBuffer \<Rightarrow> FecBuffer result" where
  "push_symbol F G pn k b = (if k < 16 then PushStreamFrame b (F k) (pn k) else PushFecFrame b (G k))"

text \<open>The buffer after the symbols \<open>ks\<close>, of which the first \<open>c\<close> follow each other without a gap.\<close>

definition holds :: "ByteCount \<Rightarrow> (nat \<Rightarrow> bytes) \<Rightarrow> (nat \<Rightarrow> StreamFrame) \<Rightarrow> (nat \<Rightarrow> FecFrame) \<Rightarrow> nat list \<Rightarrow> nat \<Rightarrow> FecBuffer \<Rightarrow> bool" where
  "holds o1 sy F G ks c b \<longleftrightarrow> {0..<c} \<subseteq> set ks \<and> c \<notin> set ks \<and>
     fb_symbolSize b = 1024 \<and> fb_numSrcSymbols b = 16 \<and> fb_numEncSymbols b = 20 \<and> fb_recvSizeForDecode b = 18432 \<and>
     fb_srcBlockSize b = 16384 \<and> fb_startStreamOffset b = o1 \<and> fb_endStreamOffset b = o1 + 16383 \<and>
     fb_nextFrameOffset b = o1 + 1024 * int c \<and> fb_encBlock b = slots sy {0..<c} \<and> fb_bufferMap b = marks {0..<c} \<and>
     fb_oobStreamFrameQueue b = map F (filter (\<lambda>k. c < k \<and> k < 16) ks) \<and> fb_oobFecFrameQueue b = map G (filter (\<lambda>k. c < k \<and> 16 \<le> k) ks) \<and>
     fb_streamFrameDataLength b = 1024 * int (length (filter (\<lambda>k. k < 16) ks)) \<and>
     fb_fecFrameDataLength b = 1024 * int (length (filter (\<lambda>k. 16 \<le> k) ks))"

lemma concat_replicate_const: "concat (replicate n (replicate m x)) = replicate (n * m) x"
  by (induction n) (simp_all add: replicate_add)

lemma FecBuffer_Init_holds:
  "holds o1 sy F G [] 0 (FecBuffer_Init sid o1 1024 16)"
proof -
  have "replicate 20480 0 = concat (replicate 20 (replicate 1024 (0 :: u8)))" by (simp add: concat_replicate_const)
  moreover have "map (\<lambda>i :: nat. replicate 1024 (0 :: u8)) [0..<20] = replicate 20 (replicate 1024 0)" by (simp add: map_replicate_const)
  ultimately show ?thesis
    by (simp add: holds_def FecBuffer_Init_def Let_def numEncSymbols_of_def slots_def marks_def map_replicate_const)
qed

lemma push_sorted_last: "sorted (map key (queue @ [f])) \<Longrightarrow> push_sorted key f queue = queue @ [f]"
  by (simp add: push_sorted_def Let_def sort_key_id_if_sorted del: map_append)

lemma queue_sorted:
  assumes "sorted_wrt (<) (ks @ [k])" and "\<And>i j. i < j \<Longrightarrow> P i \<Longrightarrow> P j \<Longrightarrow> key (F i) \<le> key (F j)" and "P k"
  shows "sorted (map key (map F (filter P ks) @ [F k]))"
proof -
  have "sorted_wrt (<) (filter P (ks @ [k]))" using assms(1) by (rule sorted_wrt_filter)
  then have "sorted_wrt (\<lambda>i j. key (F i) \<le> key (F j)) (filter P (ks @ [k]))"
    by (rule sorted_wrt_mono_rel [rotated]) (use assms(2) in \<open>auto split: if_splits\<close>)
  then show ?thesis using \<open>P k\<close> by (simp add: sorted_map sorted_wrt_append)
qed

lemma push_in_order:
  assumes fr: "block_frames o1 sy F G" and h: "holds o1 sy F G ks k b" and k: "k < 20" "\<forall>j \<in> set ks. j < k"
  shows "\<exists>b'. push_symbol F G pn k b = Inr b' \<and> holds o1 sy F G (ks @ [k]) (Suc k) b' \<and> fb_timerRunning b' = fb_timerRunning b \<and>
    fb_decodeStarted b' = fb_decodeStarted b \<and> fb_streamID b' = fb_streamID b"
proof -
  have q: "filter (\<lambda>j. k < j \<and> j < 16) ks = []" "filter (\<lambda>j. k < j \<and> 16 \<le> j) ks = []"
      "filter (\<lambda>j. Suc k < j \<and> j < 16) ks = []" "filter (\<lambda>j. Suc k < j \<and> 16 \<le> j) ks = []"
    using k(2) by (auto simp: filter_empty_conv)
  have sy: "length (sy k) = 1024" using fr k by (simp add: block_frames_def)
  have "{0..<k} \<subseteq> set ks" using h by (simp add: holds_def)
  then have s: "{0..<Suc k} \<subseteq> insert k (set ks)" "Suc k \<notin> set ks" using k(2) by (auto simp: atLeast0_lessThan_Suc)
  have cp: "e = 1024 * int k + 1024 \<Longrightarrow> copy_at (slots sy {0..<k}) (1024 * int k) e (sy k) = Inr (slots sy {0..<Suc k})" for e
    using copy_at_slot [of sy k "{0..<k}"] fr k by (simp add: block_frames_def atLeast0_lessThan_Suc)
  have bm: "setBufferMap b' (o1 + 1024 * int k) e = Inr (b'\<lparr>fb_bufferMap := marks {0..<Suc k}\<rparr>)"
    if "fb_symbolSize b' = 1024" "fb_bufferMap b' = marks {0..<k}" "fb_startStreamOffset b' = o1" "e = o1 + 1024 * int k + 1024" for b' e
    using setBufferMap_symbol [OF that(1-3) k(1)] that(4) by (simp add: atLeast0_lessThan_Suc)
  show ?thesis
  proof (cases "k < 16")
    case True
    then have f: "sf_Offset (F k) = o1 + 1024 * int k" "sf_Data (F k) = sy k" using fr by (auto simp: block_frames_def)
    show ?thesis using h True f q sy s
      by (simp add: cp bm push_symbol_def PushStreamFrame_def holds_def sf_DataLen_def Let_def)
  next
    case False
    then have f: "ff_FecDataOffset (G k) = 1024 * int k - 16384" "ff_FecData (G k) = sy k" using fr k by (auto simp: block_frames_def)
    show ?thesis using h False f q sy s
      by (simp add: cp bm push_symbol_def PushFecFrame_def holds_def FecDataLen_def Let_def)
  qed
qed

lemma push_behind_gap:
  assumes fr: "block_frames o1 sy F G" and h: "holds o1 sy F G ks c b" and k: "k < 20" "c < k" and inc: "sorted_wrt (<) (ks @ [k])"
  shows "\<exists>b'. push_symbol F G pn k b = Inr b' \<and> holds o1 sy F G (ks @ [k]) c b' \<and> fb_timerRunning b' = fb_timerRunning b \<and>
    fb_decodeStarted b' = fb_decodeStarted b \<and> fb_streamID b' = fb_streamID b"
proof -
  have bm: "setBufferMap b' (o1 + 1024 * int c) (o1 + 1024 * int c) = Inr b'"
    if "fb_symbolSize b' = 1024" "fb_bufferMap b' = marks {0..<c}" "fb_startStreamOffset b' = o1" for b'
    using setBufferMap_nothing [OF that] k by simp
  have s: "{0..<c} \<subseteq> insert k (set ks)" using h by (auto simp: holds_def)
  show ?thesis
  proof (cases "k < 16")
    case True
    then have f: "sf_Offset (F k) = o1 + 1024 * int k" "sf_Data (F k) = sy k" "length (sy k) = 1024" using fr by (auto simp: block_frames_def)
    have "push_sorted sf_Offset (F k) (map F (filter (\<lambda>j. c < j \<and> j < 16) ks)) = map F (filter (\<lambda>j. c < j \<and> j < 16) ks) @ [F k]"
      using fr True k by (intro push_sorted_last queue_sorted [OF inc]) (auto simp: block_frames_def)
    then show ?thesis using h True f k s
      by (simp add: bm push_symbol_def PushStreamFrame_def holds_def sf_DataLen_def Let_def)
  next
    case False
    then have f: "ff_FecDataOffset (G k) = 1024 * int k - 16384" "ff_FecData (G k) = sy k" "length (sy k) = 1024"
      using fr k by (auto simp: block_frames_def)
    have "\<forall>j \<in> set ks. j < 20" using inc k(1) by (auto simp: sorted_wrt_append)
    then have "filter (\<lambda>j. c < j \<and> 16 \<le> j) ks = filter (\<lambda>j. c < j \<and> 16 \<le> j \<and> j < 20) ks" by (intro filter_cong) auto
    moreover have "push_sorted ff_FecDataOffset (G k) (map G (filter (\<lambda>j. c < j \<and> 16 \<le> j \<and> j < 20) ks)) =
        map G (filter (\<lambda>j. c < j \<and> 16 \<le> j \<and> j < 20) ks) @ [G k]"
      using fr False k by (intro push_sorted_last queue_sorted [OF inc]) (auto simp: block_frames_def)
    ultimately show ?thesis using h False f k s
      by (simp add: bm push_symbol_def PushFecFrame_def holds_def FecDataLen_def Let_def)
  qed
qed

lemma push_increasing:
  assumes fr: "block_frames o1 sy F G" and h: "holds o1 sy F G ks c b" and k: "k < 20" and inc: "sorted_wrt (<) (ks @ [k])"
  shows "\<exists>b' c'. push_symbol F G pn k b = Inr b' \<and> holds o1 sy F G (ks @ [k]) c' b' \<and> fb_timerRunning b' = fb_timerRunning b \<and>
    fb_decodeStarted b' = fb_decodeStarted b \<and> fb_streamID b' = fb_streamID b"
proof -
  have lt: "\<forall>j \<in> set ks. j < k" using inc by (simp add: sorted_wrt_append)
  moreover have "{0..<c} \<subseteq> set ks" using h by (simp add: holds_def)
  ultimately have "c \<le> k" by (meson atLeastLessThan_iff in_mono le0 less_irrefl_nat not_less)
  then consider "c = k" | "c < k" by linarith
  then show ?thesis
  proof cases
    case 1
    then show ?thesis using push_in_order [OF fr h [unfolded 1] k lt] by blast
  next
    case 2
    then show ?thesis using push_behind_gap [OF fr h k _ inc] by blast
  qed
qed

section \<open>The block that the decoder gets\<close>

lemma place_frames:
  assumes sy: "\<forall>i < 20. length (sy i) = 1024"
    and fr: "\<forall>k \<in> set js. k < 20 \<and> off (H k) = o1 + 1024 * int k \<and> dat (H k) = sy k" and d: "distinct js" "set js \<inter> S = {}"
    and b: "fb_symbolSize b = 1024" "fb_startStreamOffset b = o1" "fb_encBlock b = slots sy S" "fb_bufferMap b = marks S"
  shows "foldE (\<lambda>f. place_frame (off f) (dat f)) (map H js) b = Inr (b\<lparr>fb_encBlock := slots sy (S \<union> set js), fb_bufferMap := marks (S \<union> set js)\<rparr>)"
  using fr d b
proof (induction js arbitrary: b S)
  case (Cons k js)
  have k: "k < 20" "k \<notin> S" "length (sy k) = 1024" using Cons.prems(1,3) sy by auto
  let ?b = "b\<lparr>fb_encBlock := slots sy (insert k S), fb_bufferMap := marks (insert k S)\<rparr>"
  have "setBufferMap (b\<lparr>fb_encBlock := slots sy (insert k S)\<rparr>) (o1 + 1024 * int k) (o1 + 1024 * int k + 1024) = Inr ?b"
    using setBufferMap_symbol [of "b\<lparr>fb_encBlock := slots sy (insert k S)\<rparr>" S o1 k] Cons.prems k by simp
  then have "place_frame (off (H k)) (dat (H k)) b = Inr ?b"
    using Cons.prems k copy_at_slot [OF sy k(1), of S] by (simp add: place_frame_def Let_def)
  moreover have "foldE (\<lambda>f. place_frame (off f) (dat f)) (map H js) ?b =
      Inr (?b\<lparr>fb_encBlock := slots sy (insert k S \<union> set js), fb_bufferMap := marks (insert k S \<union> set js)\<rparr>)"
    using Cons.prems by (intro Cons.IH) auto
  ultimately show ?case by simp
qed simp

lemma collect_symbols:
  assumes sy: "\<forall>i < 20. length (sy i) = 1024" and b: "fb_symbolSize b = 1024" "fb_encBlock b = slots sy S" "fb_bufferMap b = marks S"
    and n: "n \<le> 20"
  defines "ls \<equiv> \<lambda>n. filter (\<lambda>i. i \<in> S) [0..<n]"
  shows "foldE (collect_symbol b) [0..<n] (0, 0, replicate 20 0, replicate 20480 0) =
    Inr (length (ls n), n - length (ls n), ls n @ replicate (20 - length (ls n)) 0,
      concat (map sy (ls n)) @ replicate (1024 * (20 - length (ls n))) 0)"
  using n
proof (induction n)
  case (Suc n)
  have le: "length (ls n) \<le> n" by (simp add: ls_def order_trans [OF length_filter_le])
  show ?case
  proof (cases "n \<in> S")
    case True
    define l where "l = length (ls n)"
    have l: "l < 20" "l \<le> n" using le Suc.prems by (simp_all add: l_def)
    have len: "length (concat (map sy (ls n))) = 1024 * l"
      unfolding l_def using sy Suc.prems by (intro length_slots_concat) (auto simp: ls_def)
    have e: "20 - l = Suc (20 - Suc l)" using l by simp
    have 1: "go_update (ls n @ replicate (20 - l) 0) l n = Inr (ls n @ n # replicate (20 - Suc l) 0)"
      unfolding e by (simp add: l_def list_update_append)
    have "length (slots sy S) = 20480"
      unfolding slots_def using sy by (subst length_slots_concat [where n = 1024]) auto
    then have 2: "go_slice (slots sy S) (n * 1024) (n * 1024 + 1024) = Inr (sy n)"
      using Suc.prems True sy concat_split_slot(3) [of 20 "\<lambda>i. if i \<in> S then sy i else replicate 1024 0" 1024 n]
      by (simp add: slots_def mult.commute)
    have r: "replicate (1024 * (20 - l)) (0 :: u8) = replicate 1024 0 @ replicate (1024 * (20 - Suc l)) 0"
      unfolding e by (simp add: replicate_add)
    have 3: "go_copy_slice (concat (map sy (ls n)) @ replicate (1024 * (20 - l)) 0) (l * 1024) (l * 1024 + 1024) (sy n) =
        Inr (concat (map sy (ls n)) @ sy n @ replicate (1024 * (20 - Suc l)) 0)"
      using l len Suc.prems sy by (subst go_copy_slice_Inr) (simp_all add: r mult.commute)
    have "ls (Suc n) = ls n @ [n]" using True by (simp add: ls_def)
    then show ?thesis using Suc b True l 1 2 3
      by (simp add: foldE_append collect_symbol_def Let_def l_def [symmetric])
  next
    case False
    then show ?thesis using Suc b le by (simp add: foldE_append collect_symbol_def Let_def ls_def Suc_diff_le)
  qed
qed (simp add: ls_def)

lemma filter_mem_sorted:
  fixes ks :: "nat list"
  assumes "sorted_wrt (<) ks" and "\<forall>k \<in> set ks. k < n"
  shows "filter (\<lambda>i. i \<in> set ks) [0..<n] = ks"
proof (rule sorted_distinct_set_unique)
  show "sorted ks" "distinct ks" using assms(1) by (simp_all add: strict_sorted_iff)
qed (use assms(2) in \<open>auto intro: sorted_filter [where f = id, simplified]\<close>)

text \<open>
  Whatever symbols of a block have arrived, in order, the decoder gets exactly these symbols one after the other, and their numbers, both
  filled up with zeros.
\<close>

lemma GetEncodeBlock_increasing:
  assumes fr: "block_frames o1 sy F G" and h: "holds o1 sy F G ks c b" and inc: "sorted_wrt (<) ks" "\<forall>k \<in> set ks. k < 20"
  shows "GetEncodeBlock b = Inr (concat (map sy ks) @ replicate (1024 * (20 - length ks)) 0, ks @ replicate (20 - length ks) 0, 20 - length ks,
    b\<lparr>fb_encBlock := slots sy (set ks), fb_bufferMap := marks (set ks)\<rparr>)"
proof -
  let ?s = "filter (\<lambda>k. c < k \<and> k < 16) ks" and ?f = "filter (\<lambda>k. c < k \<and> 16 \<le> k) ks"
  have sy: "\<forall>i < 20. length (sy i) = 1024" using fr by (simp add: block_frames_def)
  have dist: "distinct ?s" "distinct ?f" using inc(1) by (simp_all add: strict_sorted_iff)
  define b1 where "b1 = b\<lparr>fb_encBlock := slots sy ({0..<c} \<union> set ?s), fb_bufferMap := marks ({0..<c} \<union> set ?s)\<rparr>"
  have 1: "foldE (\<lambda>f. place_frame (sf_Offset f) (sf_Data f)) (map F ?s) b = Inr b1"
    unfolding b1_def using fr h dist sy by (intro place_frames) (auto simp: block_frames_def holds_def)
  have b1: "fb_symbolSize b1 = 1024" "fb_startStreamOffset b1 = o1" "fb_encBlock b1 = slots sy ({0..<c} \<union> set ?s)"
      "fb_bufferMap b1 = marks ({0..<c} \<union> set ?s)" "fb_endStreamOffset b1 = o1 + 16383" "fb_oobFecFrameQueue b1 = map G ?f"
    using h by (simp_all add: b1_def holds_def)
  define b2 where "b2 = b1\<lparr>fb_encBlock := slots sy (({0..<c} \<union> set ?s) \<union> set ?f), fb_bufferMap := marks (({0..<c} \<union> set ?s) \<union> set ?f)\<rparr>"
  have 2: "foldE (\<lambda>f. place_frame (fb_endStreamOffset b1 + 1 + ff_FecDataOffset f) (ff_FecData f)) (map G ?f) b1 = Inr b2"
    unfolding b2_def using fr b1 dist sy inc(2)
    by (intro place_frames [where off = "\<lambda>f. fb_endStreamOffset b1 + 1 + ff_FecDataOffset f" and dat = ff_FecData])
       (auto simp: block_frames_def)
  have "({0..<c} \<union> set ?s) \<union> set ?f = set ks"
  proof -
    have "{0..<c} \<subseteq> set ks" "c \<notin> set ks" using h by (simp_all add: holds_def)
    then show ?thesis by (auto simp: not_less) (metis le_less not_less)
  qed
  then have b2: "b2 = b\<lparr>fb_encBlock := slots sy (set ks), fb_bufferMap := marks (set ks)\<rparr>" by (simp add: b2_def b1_def)
  have 3: "foldE (collect_symbol b2) [0..<20] (0, 0, replicate 20 0, replicate 20480 0) =
      Inr (length ks, 20 - length ks, ks @ replicate (20 - length ks) 0, concat (map sy ks) @ replicate (1024 * (20 - length ks)) 0)"
    using collect_symbols [OF sy, of b2 "set ks" 20] h filter_mem_sorted [OF inc] by (simp add: b2 holds_def del: upt_rec_numeral)
  have q: "fb_oobStreamFrameQueue b = map F ?s" using h by (simp add: holds_def)
  have "fb_numEncSymbols b2 = 20" "fb_symbolSize b2 = 1024" "length (fb_bufferMap b2) = 20" using h by (simp_all add: b2 holds_def)
  then have "GetEncodeBlock b = bindE (foldE (collect_symbol b2) [0..<20] (0, 0, replicate 20 0, replicate 20480 0))
      (\<lambda>(idx, lost, symbolMap, encBlock2). Inr (encBlock2, symbolMap, lost, b2))"
    unfolding GetEncodeBlock_def q 1 bindE_Inr b1(6) 2 by (simp del: upt_rec_numeral)
  then show ?thesis unfolding 3 by (simp add: b2)
qed

lemma pushes_increasing:
  assumes "block_frames o1 sy F G" and "sorted_wrt (<) ks" and "\<forall>k \<in> set ks. k < 20"
  shows "\<exists>b c. foldE (push_symbol F G pn) ks (FecBuffer_Init sid o1 1024 16) = Inr b \<and> holds o1 sy F G ks c b"
  using assms(2,3)
proof (induction ks rule: rev_induct)
  case Nil
  then show ?case by (auto intro: FecBuffer_Init_holds)
next
  case (snoc k ks)
  then obtain b c where "foldE (push_symbol F G pn) ks (FecBuffer_Init sid o1 1024 16) = Inr b" "holds o1 sy F G ks c b"
    by (auto simp: sorted_wrt_append)
  then show ?case using push_increasing [OF assms(1), of ks c b k pn] snoc.prems by (auto simp: foldE_append)
qed

section \<open>Frames that arrive out of order\<close>

text \<open>
  A frame that fills a gap moves the next offset over the frames of the queue that follow and cuts them off, but their data is not
  copied: they count as received, with zeros for their data.
\<close>

lemma fill_gap_drops_data:
  assumes fr: "block_frames o1 sy F G" and h: "holds o1 sy F G [0, 2, 4] 1 b"
  defines "sy' \<equiv> sy(2 := replicate 1024 0)" and "F' \<equiv> F(2 := (F 2)\<lparr>sf_Data := replicate 1024 0\<rparr>)"
  shows "\<exists>b'. push_symbol F G pn 1 b = Inr b' \<and> holds o1 sy' F' G [0, 1, 2, 4] 3 b'"
proof -
  have f: "sf_Offset (F 1) = o1 + 1024" "sf_Data (F 1) = sy 1" "length (sy 1) = 1024" "sf_Offset (F 2) = o1 + 2048" "length (sf_Data (F 2)) = 1024"
      "sf_Offset (F 4) = o1 + 4096"
    using fr by (simp_all add: block_frames_def)
  have m: "fill_symbols 1024 (marks {0}) 2048 [1, 2, 3] = Inr (marks {0, 1, 2})" by code_simp
  have bm: "setBufferMap b' (o1 + 1024) e = Inr (b'\<lparr>fb_bufferMap := marks {0, 1, 2}\<rparr>)"
    if "fb_symbolSize b' = 1024" "fb_bufferMap b' = marks {0}" "fb_startStreamOffset b' = o1" "e = o1 + 3072" for b' e
  proof -
    have i: "unat (word_of_int 1024 div (1024 :: u32)) = 1" "unat (word_of_int 3072 div (1024 :: u32)) = 3" by code_simp+
    have "[1..<Suc 3] = [1, 2, 3]" by code_simp
    then show ?thesis using that m i by (simp only: setBufferMap_def Let_def) (simp del: upt_Suc)
  qed
  have cp: "copy_at (slots sy {0}) 1024 2048 (sy 1) = Inr (slots sy {0, 1})"
    using copy_at_slot [of sy 1 "{0}"] fr by (simp add: block_frames_def insert_commute)
  have z: "slots sy {0, 1} = slots sy' {0, 1, 2}"
    by (simp add: slots_def sy'_def cong: map_cong) (auto intro!: arg_cong [where f = concat] map_cong)
  have "{0..<1} = {0 :: nat}" "{0..<3} = {0, 1, 2 :: nat}" by auto
  then show ?thesis using h f z
    by (simp add: push_symbol_def PushStreamFrame_def holds_def sf_DataLen_def Let_def bm cp F'_def del: One_nat_def)
qed

lemma zeroed_frames:
  assumes "block_frames o1 sy F G" and "k < 16"
  shows "block_frames o1 (sy(k := replicate 1024 0)) (F(k := (F k)\<lparr>sf_Data := replicate 1024 0\<rparr>)) G"
  using assms by (auto simp: block_frames_def)

end
