(* ===== verification/Fec_Handler.thy ===== *)
theory Fec_Handler
  imports Fec_Buffer Raptor_Sixteen
begin

text \<open>
  The error correction of a stream (\<^verbatim>\<open>fec/fec_handler.go\<close>): on the sending side the data of the stream frames is collected
  into blocks, and the repair symbols of a complete block are queued as FEC frames; on the receiving side frames are pushed into the buffer of
  their block, and a decoding goroutine restores what was lost and hands it to the stream.

  The handler, its buffers and its goroutines share memory: a buffer is reached through \<^verbatim>\<open>decQueue\<close> and through the channels, so buffers are
  kept in a store \<open>fh_buffers\<close> and addressed by their position there.  A channel is the list of what it holds; a send on a full channel and a
  select without a ready case are \<open>Blocked\<close>.  The time stamps that are only logged are left out.
\<close>

section \<open>State\<close>

record FecHandler =
  fh_symbolSize :: u32
  fh_numSrcSymbols :: u32
  fh_srcBlockSize :: u32
  fh_maxBlockSize :: u32
  fh_fecDataLength :: u32
  fh_encQueue :: bytes
  fh_transmissionQueue :: "FecFrame list"
  fh_decQueue :: "(ByteCount \<times> nat) list"
  fh_alreadyDecQueue :: "(ByteCount \<times> FecBuffer) list"
  fh_startOffset :: ByteCount
  fh_endOffset :: ByteCount
  fh_nextBlockOffset :: ByteCount
  fh_raptor :: raptor_params
  fh_recvBytes :: u32
  fh_streamFinChan :: "nat list"
  fh_enoughRecvChan :: "nat list"
  fh_timeoutChan :: "nat list"
  fh_finalChan :: "nat list"
  fh_FecChan :: "StreamFrame list"
  fh_FecChanFinal :: "bool list"
  fh_buffers :: "FecBuffer list"
  FecRecoveredPacketList :: "PacketNumber list"

definition send_chan :: "nat \<Rightarrow> 'a \<Rightarrow> 'a list \<Rightarrow> 'a list result" where
  "send_chan capacity x ch = (if length ch < capacity then Inr (ch @ [x]) else Inl Blocked)"

definition put_buffer :: "FecHandler \<Rightarrow> nat \<Rightarrow> FecBuffer \<Rightarrow> FecHandler" where
  "put_buffer f a b = f\<lparr>fh_buffers := (fh_buffers f)[a := b]\<rparr>"

text \<open>\<^verbatim>\<open>delete(m, k)\<close> and \<^verbatim>\<open>m[k] = v\<close> for the maps of the handler.\<close>

definition map_delete :: "'k \<Rightarrow> ('k \<times> 'v) list \<Rightarrow> ('k \<times> 'v) list" where
  "map_delete k m = filter (\<lambda>(k', v). k' \<noteq> k) m"

definition map_set :: "'k \<Rightarrow> 'v \<Rightarrow> ('k \<times> 'v) list \<Rightarrow> ('k \<times> 'v) list" where
  "map_set k v m = (k, v) # map_delete k m"

definition NewFecHandler :: "FecHandler result" where
  "NewFecHandler =
     bindE RaptorInit (\<lambda>raptor.
     Inr \<lparr>fh_symbolSize = 1024, fh_numSrcSymbols = 16, fh_srcBlockSize = 1024 * 16,
          fh_maxBlockSize = 1024 * 16 + of_nat MaxPacketBufferSize, fh_fecDataLength = 1024,
          fh_encQueue = [], fh_transmissionQueue = [], fh_decQueue = [], fh_alreadyDecQueue = [],
          fh_startOffset = 0, fh_endOffset = 0, fh_nextBlockOffset = 0, fh_raptor = raptor, fh_recvBytes = 0,
          fh_streamFinChan = [], fh_enoughRecvChan = [], fh_timeoutChan = [], fh_finalChan = [], fh_FecChan = [], fh_FecChanFinal = [],
          fh_buffers = [], FecRecoveredPacketList = []\<rparr>)"

section \<open>Encoding\<close>

text \<open>The loop of \<^verbatim>\<open>pushToTransmissionQueue\<close>; with a data length of zero it would not end.\<close>

function fec_frames :: "FecHandler \<Rightarrow> bytes \<Rightarrow> u32 \<Rightarrow> ByteCount \<Rightarrow> StreamID \<Rightarrow> FecFrame list result" where
  "fec_frames f fecBlock totalLength fecDataOffset streamID =
     (let n = unat (fh_fecDataLength f) in
      if n > length fecBlock then Inl SliceOutOfRange
      else let rest = drop n fecBlock;
               frame = \<lparr>ff_StreamID = streamID, ff_StreamOffset = fh_startOffset f, ff_SymbolSize = fh_symbolSize f,
                 ff_NumOfSymbols = fh_numSrcSymbols f, ff_FecDataOffset = fecDataOffset, ff_FecDataLength = fh_fecDataLength f,
                 ff_FecTotalLength = totalLength, ff_FecData = take n fecBlock, ff_Fin = (rest = [])\<rparr> in
      if rest = [] then Inr [frame]
      else if n = 0 then Inl Blocked
      else bindE (fec_frames f rest totalLength (fecDataOffset + int n) streamID) (\<lambda>frames. Inr (frame # frames)))"
  by pat_completeness auto
termination by (relation "measure (\<lambda>(f, fecBlock, _). length fecBlock)") auto

declare fec_frames.simps [simp del]

definition pushToTransmissionQueue :: "FecHandler \<Rightarrow> bytes \<Rightarrow> StreamID \<Rightarrow> FecHandler result" where
  "pushToTransmissionQueue f fecBlock streamID =
     bindE (fec_frames f fecBlock (of_nat (length fecBlock)) 0 streamID) (\<lambda>frames.
     Inr (f\<lparr>fh_transmissionQueue := fh_transmissionQueue f @ frames\<rparr>))"

definition PushToEncode :: "FecHandler \<Rightarrow> StreamFrame \<Rightarrow> FecHandler result" where
  "PushToEncode f frame =
     (let f = f\<lparr>fh_startOffset := (if fh_encQueue f = [] then sf_Offset frame else fh_endOffset f)\<rparr>;
          f = f\<lparr>fh_encQueue := fh_encQueue f @ sf_Data frame\<rparr>; n = unat (fh_srcBlockSize f) in
      if length (fh_encQueue f) \<ge> n then
        bindE (RaptorEncode (fh_raptor f) (take n (fh_encQueue f)) (unat (fh_symbolSize f)) (unat (fh_numSrcSymbols f))) (\<lambda>fecBlock.
        if fecBlock = [] then Inl (Panic ''PushToEncode():Raptor Encode Fail!'')
        else pushToTransmissionQueue
               (f\<lparr>fh_encQueue := drop n (fh_encQueue f), fh_endOffset := sf_Offset frame + int (sf_DataLen frame)\<rparr>) fecBlock (sf_StreamID frame))
      else Inr f)"

definition PopFecFrame :: "FecHandler \<Rightarrow> ByteCount \<Rightarrow> FecFrame option \<times> FecHandler" where
  "PopFecFrame f maxBytes =
     (case fh_transmissionQueue f of
        [] \<Rightarrow> (None, f)
      | fecFrame # rest \<Rightarrow>
          if uint (ff_SymbolSize fecFrame) \<le> maxBytes then (Some fecFrame, f\<lparr>fh_transmissionQueue := rest\<rparr>) else (None, f))"

definition GetFecTransmissionQueueLen :: "FecHandler \<Rightarrow> nat" where
  "GetFecTransmissionQueueLen f = length (fh_transmissionQueue f)"

section \<open>Collecting the frames of a block\<close>

definition in_block :: "StreamID \<Rightarrow> ByteCount \<Rightarrow> FecBuffer \<Rightarrow> bool" where
  "in_block streamID offset b \<longleftrightarrow> fb_streamID b = streamID \<and> fb_startStreamOffset b \<le> offset \<and> offset \<le> fb_endStreamOffset b"

text \<open>The range over \<^verbatim>\<open>decQueue\<close> has no fixed order; at most one buffer matches (lemma \<open>decQueue_match_unique\<close>).\<close>

definition getOrCreateFecBuffer :: "FecHandler \<Rightarrow> StreamID \<Rightarrow> ByteCount \<Rightarrow> (nat option \<times> FecHandler) result" where
  "getOrCreateFecBuffer f streamID offset =
     (if offset \<ge> fh_nextBlockOffset f then
        case find (\<lambda>(k, a). in_block streamID offset (fh_buffers f ! a)) (fh_decQueue f) of
          Some (k, a) \<Rightarrow> Inr (Some a, f)
        | None \<Rightarrow>
            if list_ex (\<lambda>(k, b). in_block streamID offset b) (fh_alreadyDecQueue f) then Inr (None, f)
            else if fh_srcBlockSize f = 0 then Inl DivideByZero
            else let num = offset div uint (fh_srcBlockSize f); startOffset = num * uint (fh_srcBlockSize f);
                     a = length (fh_buffers f)
                 in Inr (Some a, f\<lparr>fh_buffers := fh_buffers f @ [FecBuffer_Init streamID startOffset (fh_symbolSize f) (fh_numSrcSymbols f)],
                                    fh_decQueue := map_set startOffset a (fh_decQueue f)\<rparr>)
      else Inr (None, f))"

definition CheckDecodingPossible :: "FecHandler \<Rightarrow> nat \<Rightarrow> bool \<Rightarrow> FecHandler result" where
  "CheckDecodingPossible f a fin =
     (let b = fh_buffers f ! a; started = put_buffer f a (b\<lparr>fb_decodeStarted := True\<rparr>) in
      if fb_decodeStarted b then Inr f
      else if fb_streamFrameDataLength b \<ge> uint (fb_srcBlockSize b) then
        bindE (send_chan 50 a (fh_streamFinChan f)) (\<lambda>ch. Inr (started\<lparr>fh_streamFinChan := ch\<rparr>))
      else if fb_streamFrameDataLength b + fb_fecFrameDataLength b \<ge> uint (fb_recvSizeForDecode b) then
        bindE (send_chan 50 a (fh_enoughRecvChan f)) (\<lambda>ch. Inr (started\<lparr>fh_enoughRecvChan := ch\<rparr>))
      else if fin then
        bindE (send_chan 1 a (fh_finalChan f)) (\<lambda>ch. Inr (started\<lparr>fh_finalChan := ch\<rparr>))
      else Inr f)"

definition PushStreamFrameToDecode :: "FecHandler \<Rightarrow> StreamFrame \<Rightarrow> PacketNumber \<Rightarrow> FecHandler result" where
  "PushStreamFrameToDecode f streamFrame packetNumber =
     bindE (getOrCreateFecBuffer f (sf_StreamID streamFrame) (sf_Offset streamFrame)) (\<lambda>(fecBuffer, f).
     case fecBuffer of
       None \<Rightarrow> Inr f
     | Some a \<Rightarrow>
         bindE (PushStreamFrame (fh_buffers f ! a) streamFrame packetNumber) (\<lambda>b.
         CheckDecodingPossible (put_buffer f a b) a (sf_Fin streamFrame)))"

definition PushFecFrameToDecode :: "FecHandler \<Rightarrow> FecFrame \<Rightarrow> FecHandler result" where
  "PushFecFrameToDecode f fecFrame =
     bindE (getOrCreateFecBuffer f (ff_StreamID fecFrame) (ff_StreamOffset fecFrame)) (\<lambda>(fecBuffer, f).
     case fecBuffer of
       None \<Rightarrow> Inr f
     | Some a \<Rightarrow> bindE (PushFecFrame (fh_buffers f ! a) fecFrame) (\<lambda>b. CheckDecodingPossible (put_buffer f a b) a False))"

text \<open>The goroutine of the timer that \<^verbatim>\<open>Init\<close> starts, when its 200 milliseconds are over.\<close>

definition timer_expires :: "FecHandler \<Rightarrow> nat \<Rightarrow> FecHandler result" where
  "timer_expires f a =
     (let b = fh_buffers f ! a in
      if fb_timerRunning b then
        bindE (send_chan 50 a (fh_timeoutChan f)) (\<lambda>ch.
        Inr ((put_buffer f a (b\<lparr>fb_timerRunning := False, fb_decodeStarted := True\<rparr>))\<lparr>fh_timeoutChan := ch\<rparr>))
      else Inl Blocked)"

section \<open>Decoding\<close>

text \<open>The frame of symbol \<open>j\<close> of a decoded block, and the guess of the number of the packet that was lost.\<close>

definition push_recovered :: "FecBuffer \<Rightarrow> bytes \<Rightarrow> PacketNumber \<Rightarrow> nat \<Rightarrow> nat \<Rightarrow> FecHandler \<Rightarrow> FecHandler result" where
  "push_recovered b decBlock prevPacketNumber prevIdx j f =
     (let startPos = of_nat j * fh_symbolSize f; endPos = startPos + fh_symbolSize f in
      bindE (go_slice decBlock (unat startPos) (unat endPos)) (\<lambda>src.
      let frame = \<lparr>sf_StreamID = fb_streamID b, sf_Offset = fb_startStreamOffset b + uint (of_nat j * fh_symbolSize f),
                   sf_Data = go_copy (replicate (unat (fh_symbolSize f)) 0) src, sf_Fin = False, sf_DataLenPresent = False\<rparr>;
          pn = prevPacketNumber + (int j - int prevIdx) in
      bindE (send_chan 50 frame (fh_FecChan f)) (\<lambda>ch.
      Inr (f\<lparr>fh_FecChan := ch, FecRecoveredPacketList := FecRecoveredPacketList f @ [pn]\<rparr>))))"

text \<open>The state of the loop over the source symbols is \<open>(f, prevPacketNumber, prevIdx, nextIdx)\<close>.\<close>

definition recover_symbol ::
  "FecBuffer \<Rightarrow> bytes \<Rightarrow> nat list \<Rightarrow> nat \<Rightarrow> FecHandler \<times> PacketNumber \<times> nat \<times> nat \<Rightarrow> (FecHandler \<times> PacketNumber \<times> nat \<times> nat) result" where
  "recover_symbol b decBlock symbolMap i = (\<lambda>(f, prevPacketNumber, prevIdx, nextIdx).
     bindE (go_index symbolMap i) (\<lambda>s.
     if s \<noteq> nextIdx then
       bindE (foldE (push_recovered b decBlock prevPacketNumber prevIdx) [i..<min s (unat (fh_numSrcSymbols f))] f) (\<lambda>f.
       Inr (f, prevPacketNumber, prevIdx, s + 1))
     else let offset = fb_startStreamOffset b + uint (of_nat i * fh_symbolSize f);
              pn = (case fb_packetNumberMap b offset of None \<Rightarrow> 0 | Some pn \<Rightarrow> pn)
          in Inr (f, pn, i, s + 1)))"

definition pushReceiveStreamFrameQueue :: "FecHandler \<Rightarrow> bytes \<Rightarrow> nat list \<Rightarrow> FecBuffer \<Rightarrow> FecHandler result" where
  "pushReceiveStreamFrameQueue f decBlock symbolMap fecBuffer =
     bindE (foldE (recover_symbol fecBuffer decBlock symbolMap) [0..<unat (fh_numSrcSymbols f)] (f, 0, 0, 0)) (\<lambda>(f, _). Inr f)"

text \<open>The cases of the select in \<^verbatim>\<open>decode\<close>.\<close>

datatype decode_case = StreamFin | EnoughRecv | TimedOut | Final

text \<open>The buffer that is taken, whether the stream frames are complete, and whether the loop ends.\<close>

definition take_case :: "FecHandler \<Rightarrow> decode_case \<Rightarrow> (nat \<times> bool \<times> bool \<times> FecHandler) result" where
  "take_case f c =
     (case c of
        StreamFin \<Rightarrow> (case fh_streamFinChan f of [] \<Rightarrow> Inl Blocked | a # r \<Rightarrow> Inr (a, True, False, f\<lparr>fh_streamFinChan := r\<rparr>))
      | EnoughRecv \<Rightarrow> (case fh_enoughRecvChan f of [] \<Rightarrow> Inl Blocked | a # r \<Rightarrow> Inr (a, False, False, f\<lparr>fh_enoughRecvChan := r\<rparr>))
      | TimedOut \<Rightarrow> (case fh_timeoutChan f of [] \<Rightarrow> Inl Blocked | a # r \<Rightarrow> Inr (a, False, False, f\<lparr>fh_timeoutChan := r\<rparr>))
      | Final \<Rightarrow> (case fh_finalChan f of [] \<Rightarrow> Inl Blocked | a # r \<Rightarrow>
          bindE (send_chan 1 True (fh_FecChanFinal f)) (\<lambda>ch. Inr (a, True, True, f\<lparr>fh_finalChan := r, fh_FecChanFinal := ch\<rparr>))))"

text \<open>The loop over the blocks that were decoded ahead of the next one.\<close>

function skip_decoded :: "(ByteCount \<times> FecBuffer) list \<Rightarrow> ByteCount \<Rightarrow> (ByteCount \<times> FecBuffer) list \<times> ByteCount" where
  "skip_decoded q nextBlockOffset =
     (case map_of q nextBlockOffset of
        None \<Rightarrow> (q, nextBlockOffset)
      | Some buffer \<Rightarrow> skip_decoded (map_delete nextBlockOffset q) (fb_endStreamOffset buffer + 1))"
  by pat_completeness auto
termination
proof (relation "measure (\<lambda>(q, _). length q)")
  fix q :: "(ByteCount \<times> FecBuffer) list" and k b
  assume "map_of q k = Some b"
  then have "(k, b) \<in> set q" by (rule map_of_SomeD)
  then show "((map_delete k q, fb_endStreamOffset b + 1), q, k) \<in> measure (\<lambda>(q, _). length q)"
    by (auto simp: map_delete_def intro: length_filter_less)
qed simp

declare skip_decoded.simps [simp del]

text \<open>The entry of \<^verbatim>\<open>alreadyDecQueue\<close> is a buffer of which only the stream and the offsets are set.\<close>

definition decoded_entry :: "FecBuffer \<Rightarrow> FecBuffer" where
  "decoded_entry b =
     \<lparr>fb_firstReceived = False, fb_recvComplete = False, fb_symbolSize = 0, fb_numSrcSymbols = 0, fb_numEncSymbols = 0,
      fb_recvSizeForDecode = 0, fb_srcBlockSize = 0, fb_streamID = fb_streamID b, fb_startStreamOffset = fb_startStreamOffset b,
      fb_endStreamOffset = fb_endStreamOffset b, fb_nextFrameOffset = 0, fb_streamFrameDataLength = 0, fb_fecFrameDataLength = 0,
      fb_oobStreamFrameQueue = [], fb_oobFecFrameQueue = [], fb_encBlock = [], fb_bufferMap = [], fb_timerRunning = False,
      fb_decodeStarted = False, fb_packetNumberMap = Map.empty\<rparr>"

definition update_next_block :: "FecHandler \<Rightarrow> FecBuffer \<Rightarrow> FecHandler result" where
  "update_next_block f b =
     (if fb_startStreamOffset b = fh_nextBlockOffset f then
        let (q, next) = skip_decoded (fh_alreadyDecQueue f) (fb_endStreamOffset b + 1)
        in Inr (f\<lparr>fh_alreadyDecQueue := q, fh_nextBlockOffset := next\<rparr>)
      else if fb_startStreamOffset b > fh_nextBlockOffset f then
        Inr (f\<lparr>fh_alreadyDecQueue := map_set (fb_startStreamOffset b) (decoded_entry b) (fh_alreadyDecQueue f)\<rparr>)
      else Inl (Panic ''fecBuffer.startStreamOffset < f.nextBlockOffset''))"

text \<open>The decoding of a block that is not complete.\<close>

definition recover_block :: "FecHandler \<Rightarrow> nat \<Rightarrow> FecBuffer \<Rightarrow> FecHandler result" where
  "recover_block f a b =
     bindE (GetEncodeBlock b) (\<lambda>(encBlock, symbolMap, lost, b).
     let f = put_buffer f a b in
     bindE (RaptorDecode (fh_raptor f) encBlock symbolMap (unat (fh_symbolSize f)) (unat (fh_numSrcSymbols f))) (\<lambda>decBlock.
     case decBlock of
       None \<Rightarrow> Inr f
     | Some decBlock \<Rightarrow> pushReceiveStreamFrameQueue f decBlock symbolMap b))"

text \<open>One round of \<^verbatim>\<open>decode\<close>; the flag says that the loop ends.  The round that is blocked in \<^verbatim>\<open>Destroy\<close> holds the mutex of the handler.\<close>

definition decode_round :: "FecHandler \<Rightarrow> decode_case \<Rightarrow> (FecHandler \<times> bool) result" where
  "decode_round f c =
     bindE (take_case f c) (\<lambda>(a, streamRecvComplete, fin, f).
     let b = fh_buffers f ! a in
     bindE (update_next_block f b) (\<lambda>f.
     let f = f\<lparr>fh_recvBytes := fh_recvBytes f + fh_srcBlockSize f\<rparr> in
     bindE (if streamRecvComplete then Inr f else recover_block f a b) (\<lambda>f.
     let f = f\<lparr>fh_decQueue := map_delete (fb_startStreamOffset b) (fh_decQueue f)\<rparr> in
     bindE (FecBuffer_Destroy (fh_buffers f ! a)) (\<lambda>b.
     Inr (put_buffer f a b, fin)))))"

end
