(* ===== verification/Fec_Transfer.thy ===== *)
theory Fec_Transfer
  imports Fec_Handler
begin

text \<open>
  The two sides of the error correction together: what a sender encodes, a receiver that loses frames decodes; and
  the runs of a receiving handler.
\<close>

section \<open>The sender\<close>

text \<open>The parameters that \<^verbatim>\<open>NewFecHandler\<close> sets and nothing changes.\<close>

definition fec_ready :: "FecHandler \<Rightarrow> bool" where
  "fec_ready f \<longleftrightarrow> fh_symbolSize f = 1024 \<and> fh_numSrcSymbols f = 16 \<and> fh_srcBlockSize f = 16384 \<and> fh_fecDataLength f = 1024 \<and>
     fh_raptor f = raptor16"

lemma NewFecHandler_ready:
  "\<exists>f. NewFecHandler = Inr f \<and> fec_ready f \<and> fh_encQueue f = [] \<and> fh_transmissionQueue f = [] \<and> fh_endOffset f = 0 \<and>
    fh_nextBlockOffset f = 0 \<and> fh_decQueue f = [] \<and> fh_alreadyDecQueue f = [] \<and> fh_enoughRecvChan f = [] \<and> fh_timeoutChan f = [] \<and>
    fh_FecChan f = [] \<and> fh_buffers f = []"
  by (simp add: NewFecHandler_def RaptorInit_16 fec_ready_def)

text \<open>The stream frames of a block of 16 symbols at offset \<open>o1\<close>.\<close>

definition source_frames :: "StreamID \<Rightarrow> ByteCount \<Rightarrow> symbol list \<Rightarrow> (nat \<Rightarrow> StreamFrame) \<Rightarrow> bool" where
  "source_frames sid o1 d F \<longleftrightarrow> block_ok raptor16 d \<and>
     (\<forall>k < 16. sf_StreamID (F k) = sid \<and> sf_Offset (F k) = o1 + 1024 * int k \<and> sf_Data (F k) = d ! k \<and> \<not> sf_Fin (F k))"

text \<open>The FEC frame of repair symbol \<open>k\<close>.\<close>

definition repair_frame :: "StreamID \<Rightarrow> ByteCount \<Rightarrow> symbol list \<Rightarrow> nat \<Rightarrow> FecFrame" where
  "repair_frame sid o1 d k =
     \<lparr>ff_StreamID = sid, ff_StreamOffset = o1, ff_SymbolSize = 1024, ff_NumOfSymbols = 16, ff_FecDataOffset = 1024 * int k - 16384,
      ff_FecDataLength = 1024, ff_FecTotalLength = 4096, ff_FecData = encode16 d k, ff_Fin = (k = 19)\<rparr>"

lemma block_ok16: "block_ok raptor16 d \<longleftrightarrow> length d = 16 \<and> (\<forall>s \<in> set d. length s = 1024)"
  by (simp add: block_ok_def)

lemma block_frames_of:
  assumes "source_frames sid o1 d F"
  shows "block_frames o1 (encode16 d) F (repair_frame sid o1 d)"
  using assms encode16_length [of d] encode16_source [of d]
  by (auto simp: block_frames_def source_frames_def repair_frame_def block_ok16)

lemma fec_frames_block:
  assumes "fec_ready f" and "block_ok raptor16 d"
  shows "fec_frames f (concat (map (encode16 d) [16..<20])) 4096 0 sid =
    Inr (map (repair_frame sid (fh_startOffset f) d) [16..<20])"
proof -
  have l: "length (encode16 d k) = 1024" for k by (rule encode16_length [OF assms(2)])
  have u: "[16..<20] = [16, 17, 18, 19 :: nat]" by code_simp
  have ne: "encode16 d k \<noteq> []" for k using l [of k] by auto
  show ?thesis using assms(1) unfolding u
    by (simp add: fec_frames.simps Let_def fec_ready_def l ne repair_frame_def)
qed

lemma push_to_encode_collects:
  assumes f: "fec_ready f" "fh_encQueue f = []" "fh_endOffset f = o1" and F: "source_frames sid o1 d F" and n: "n < 16"
  shows "\<exists>s. foldE (\<lambda>k f. PushToEncode f (F k)) [0..<n] f = Inr (f\<lparr>fh_startOffset := s, fh_encQueue := concat (take n d)\<rparr>)"
  using n
proof (induction n)
  case 0
  then show ?case using f by (intro exI [of _ "fh_startOffset f"]) simp
next
  case (Suc n)
  then obtain s where s: "foldE (\<lambda>k f. PushToEncode f (F k)) [0..<n] f = Inr (f\<lparr>fh_startOffset := s, fh_encQueue := concat (take n d)\<rparr>)"
    by auto
  have d: "length d = 16" "sf_Data (F n) = d ! n" "\<forall>s \<in> set d. length s = 1024"
    using F Suc.prems by (auto simp: source_frames_def block_ok16)
  have "take (Suc n) d = take n d @ [d ! n]" using d(1) Suc.prems by (simp add: take_Suc_conv_app_nth)
  moreover have "length (concat (take (Suc n) d)) = 1024 * Suc n"
    using d Suc.prems length_concat_const [of "take (Suc n) d" 1024] by (auto dest: in_set_takeD)
  ultimately have "length (concat (take n d) @ d ! n) < 16384" "concat (take (Suc n) d) = concat (take n d) @ d ! n" using Suc.prems by simp_all
  then show ?case using s f d by (auto simp: foldE_append PushToEncode_def Let_def fec_ready_def)
qed

lemma encode_block:
  assumes f: "fec_ready f" "fh_encQueue f = []" "fh_endOffset f = o1" and F: "source_frames sid o1 d F"
  shows "\<exists>f'. foldE (\<lambda>k f. PushToEncode f (F k)) [0..<16] f = Inr f' \<and> fec_ready f' \<and> fh_encQueue f' = [] \<and> fh_endOffset f' = o1 + 16384 \<and>
    fh_transmissionQueue f' = fh_transmissionQueue f @ map (repair_frame sid o1 d) [16..<20]"
proof -
  obtain s where s: "foldE (\<lambda>k f. PushToEncode f (F k)) [0..<15] f = Inr (f\<lparr>fh_startOffset := s, fh_encQueue := concat (take 15 d)\<rparr>)"
    using push_to_encode_collects [OF assms, of 15] by auto
  have b: "block_ok raptor16 d" using F by (simp add: source_frames_def)
  then have d: "length d = 16" "\<forall>s \<in> set d. length s = 1024" by (simp_all add: block_ok16)
  have fr: "sf_Data (F 15) = d ! 15" "sf_Offset (F 15) = o1 + 15360" "sf_StreamID (F 15) = sid" using F by (simp_all add: source_frames_def)
  have "d = take 15 d @ [d ! 15]" using d(1) take_Suc_conv_app_nth [of 15 d] by simp
  then have cat: "concat (take 15 d) @ d ! 15 = concat d" by (metis concat.simps concat_append append_Nil2)
  have len: "length (concat d) = 16384" using length_concat_const [OF d(2)] d(1) by simp
  have len15: "length (concat (take 15 d)) = 15360" using length_concat_const [of "take 15 d" 1024] d by (auto dest: in_set_takeD)
  then have ne: "concat (take 15 d) \<noteq> []" by (metis list.size(3) zero_neq_numeral)
  have sy: "symbols_of 1024 16 (concat d) = d" using symbols_of_concat [of d 1024 16 "[]"] d by simp
  have "[0..<16] = [0..<15] @ [15]" by code_simp
  moreover have "PushToEncode (f\<lparr>fh_startOffset := s, fh_encQueue := concat (take 15 d)\<rparr>) (F 15) =
      Inr (f\<lparr>fh_startOffset := o1, fh_encQueue := [], fh_endOffset := o1 + 16384,
        fh_transmissionQueue := fh_transmissionQueue f @ map (repair_frame sid o1 d) [16..<20]\<rparr>)"
  proof -
    let ?fec = "concat (map (encode16 d) [16..<20])"
    have l: "length ?fec = 4096" using length_slots_concat [of "[16..<20]" "encode16 d" 1024] encode16_length [OF b] by simp
    have e: "RaptorEncode raptor16 (concat d) 1024 16 = Inr ?fec" using RaptorEncode16 [OF len] sy by simp
    let ?g = "f\<lparr>fh_startOffset := o1, fh_encQueue := [], fh_endOffset := o1 + 16384\<rparr>"
    have "fec_frames ?g ?fec 4096 0 sid = Inr (map (repair_frame sid o1 d) [16..<20])"
      using fec_frames_block [OF _ b, of ?g sid] f(1) by (simp add: fec_ready_def del: upt_rec_numeral)
    then have "pushToTransmissionQueue ?g ?fec sid =
        Inr (?g\<lparr>fh_transmissionQueue := fh_transmissionQueue f @ map (repair_frame sid o1 d) [16..<20]\<rparr>)"
      using l by (simp add: pushToTransmissionQueue_def del: upt_rec_numeral)
    moreover have "?fec \<noteq> []" using l by (metis list.size(3) zero_neq_numeral)
    moreover have "length (sf_Data (F 15)) = 1024" using d fr by simp
    ultimately show ?thesis using f(1,3) e ne fr len len15
      by (simp add: PushToEncode_def Let_def fec_ready_def cat sf_DataLen_def add.commute [of 16384] del: upt_rec_numeral concat_eq_Nil_conv)
  qed
  ultimately show ?thesis using s f(1) by (auto simp: foldE_append fec_ready_def simp del: upt_rec_numeral)
qed

section \<open>The receiver\<close>

text \<open>Symbol \<open>k\<close> of a block arrives.\<close>

definition receive_symbol :: "(nat \<Rightarrow> StreamFrame) \<Rightarrow> (nat \<Rightarrow> FecFrame) \<Rightarrow> (nat \<Rightarrow> PacketNumber) \<Rightarrow> nat \<Rightarrow> FecHandler \<Rightarrow> FecHandler result" where
  "receive_symbol F G pn k f = (if k < 16 then PushStreamFrameToDecode f (F k) (pn k) else PushFecFrameToDecode f (G k))"

text \<open>No frame of the block at \<open>o1\<close> has arrived yet.\<close>

definition block_open :: "FecHandler \<Rightarrow> StreamID \<Rightarrow> ByteCount \<Rightarrow> bool" where
  "block_open f sid o1 \<longleftrightarrow> fec_ready f \<and> fh_nextBlockOffset f \<le> o1 \<and> o1 mod 16384 = 0 \<and>
     (\<forall>i \<in> {0..<16384}. \<forall>(k, a) \<in> set (fh_decQueue f). a < length (fh_buffers f) \<and> \<not> in_block sid (o1 + i) (fh_buffers f ! a)) \<and>
     (\<forall>i \<in> {0..<16384}. \<forall>(k, b) \<in> set (fh_alreadyDecQueue f). \<not> in_block sid (o1 + i) b)"

text \<open>The handler while it collects the block: one more buffer.\<close>

definition with_buffer :: "FecHandler \<Rightarrow> ByteCount \<Rightarrow> FecBuffer \<Rightarrow> FecHandler" where
  "with_buffer f o1 b = f\<lparr>fh_buffers := fh_buffers f @ [b], fh_decQueue := map_set o1 (length (fh_buffers f)) (fh_decQueue f)\<rparr>"

lemma with_buffer_nth [simp]: "fh_buffers (with_buffer f o1 b) ! length (fh_buffers f) = b"
  by (simp add: with_buffer_def)

lemma put_buffer_FecChan [simp]: "fh_FecChan (put_buffer f a b) = fh_FecChan f"
  by (simp add: put_buffer_def)

lemma put_with_buffer [simp]: "put_buffer (with_buffer f o1 b) (length (fh_buffers f)) b' = with_buffer f o1 b'"
  by (simp add: put_buffer_def with_buffer_def)

lemma first_frame_creates:
  assumes "block_open f sid o1" and "0 \<le> i" "i < 16384"
  shows "getOrCreateFecBuffer f sid (o1 + i) =
    Inr (Some (length (fh_buffers f)), with_buffer f o1 (FecBuffer_Init sid o1 1024 16))"
proof -
  have 1: "find (\<lambda>(k, a). in_block sid (o1 + i) (fh_buffers f ! a)) (fh_decQueue f) = None"
    using assms by (auto simp: block_open_def find_None_iff)
  have 2: "\<not> list_ex (\<lambda>(k, b). in_block sid (o1 + i) b) (fh_alreadyDecQueue f)"
    using assms by (auto simp: block_open_def list_ex_iff)
  have "(o1 + i) mod 16384 = i" using assms mod_add_left_eq [of o1 16384 i] by (simp add: block_open_def)
  then have "(o1 + i) div 16384 * 16384 = o1" using div_mult_mod_eq [of "o1 + i" 16384] by linarith
  then show ?thesis using assms 1 2
    by (simp add: getOrCreateFecBuffer_def block_open_def fec_ready_def with_buffer_def Let_def)
qed

lemma next_frame_finds:
  assumes "block_open f sid o1" and "0 \<le> i" "i < 16384"
    and "fb_streamID b = sid" "fb_startStreamOffset b = o1" "fb_endStreamOffset b = o1 + 16383"
  shows "getOrCreateFecBuffer (with_buffer f o1 b) sid (o1 + i) = Inr (Some (length (fh_buffers f)), with_buffer f o1 b)"
  using assms by (simp add: getOrCreateFecBuffer_def with_buffer_def map_set_def in_block_def block_open_def)

text \<open>What \<^verbatim>\<open>CheckDecodingPossible\<close> decides for a buffer that holds the symbols \<open>ks\<close>.\<close>

lemma check_decoding:
  assumes h: "holds o1 sy F G ks c b" and b: "\<not> fb_decodeStarted b" and ks: "length (filter (\<lambda>k. k < 16) ks) < 16"
    and ch: "fh_enoughRecvChan f = []"
  shows "CheckDecodingPossible (with_buffer f o1 b) (length (fh_buffers f)) False =
    Inr (if 18 \<le> length ks then (with_buffer f o1 (b\<lparr>fb_decodeStarted := True\<rparr>))\<lparr>fh_enoughRecvChan := [length (fh_buffers f)]\<rparr>
         else with_buffer f o1 b)"
proof -
  have l: "fb_streamFrameDataLength b = 1024 * int (length (filter (\<lambda>k. k < 16) ks))"
      "fb_fecFrameDataLength b = 1024 * int (length (filter (\<lambda>k. 16 \<le> k) ks))" "fb_srcBlockSize b = 16384" "fb_recvSizeForDecode b = 18432"
    using h by (simp_all add: holds_def)
  have "filter (\<lambda>k. \<not> k < 16) ks = filter (\<lambda>k. 16 \<le> k) ks" by (intro filter_cong) auto
  then have "length (filter (\<lambda>k. k < 16) ks) + length (filter (\<lambda>k. 16 \<le> k) ks) = length ks"
    using sum_length_filter_compl [of "\<lambda>k. k < 16" ks] by simp
  then have "fb_streamFrameDataLength b + fb_fecFrameDataLength b = 1024 * int (length ks)"
    unfolding l by (metis distrib_left of_nat_add)
  moreover have "fh_enoughRecvChan (with_buffer f o1 b) = []" using ch by (simp add: with_buffer_def)
  ultimately show ?thesis using b ks l by (simp add: CheckDecodingPossible_def Let_def send_chan_def)
qed

definition collecting :: "FecHandler \<Rightarrow> StreamID \<Rightarrow> ByteCount \<Rightarrow> (nat \<Rightarrow> bytes) \<Rightarrow> (nat \<Rightarrow> StreamFrame) \<Rightarrow> (nat \<Rightarrow> FecFrame) \<Rightarrow> nat list \<Rightarrow> FecHandler \<Rightarrow> bool" where
  "collecting f sid o1 sy F G ks f' \<longleftrightarrow> (\<exists>b c. holds o1 sy F G ks c b \<and> fb_timerRunning b \<and> fb_streamID b = sid \<and> \<not> fb_decodeStarted b \<and>
     f' = (if 18 \<le> length ks then (with_buffer f o1 (b\<lparr>fb_decodeStarted := True\<rparr>))\<lparr>fh_enoughRecvChan := [length (fh_buffers f)]\<rparr>
           else with_buffer f o1 b))"

text \<open>One symbol pushed into the buffer that is collected.\<close>

lemma receive_push:
  assumes o: "block_open f sid o1" and ch: "fh_enoughRecvChan f = []" and F: "source_frames sid o1 d F"
    and h: "holds o1 (encode16 d) F (repair_frame sid o1 d) ks c b" and b: "fb_timerRunning b" "fb_streamID b = sid" "\<not> fb_decodeStarted b"
    and k: "k < 20" "sorted_wrt (<) (ks @ [k])" and lost: "length (filter (\<lambda>k. k < 16) (ks @ [k])) < 16"
    and g: "k < 16 \<Longrightarrow> getOrCreateFecBuffer f1 sid (o1 + 1024 * int k) = Inr (Some (length (fh_buffers f)), with_buffer f o1 b)"
      "16 \<le> k \<Longrightarrow> getOrCreateFecBuffer f1 sid o1 = Inr (Some (length (fh_buffers f)), with_buffer f o1 b)"
  shows "\<exists>f'. receive_symbol F (repair_frame sid o1 d) pn k f1 = Inr f' \<and> collecting f sid o1 (encode16 d) F (repair_frame sid o1 d) (ks @ [k]) f'"
proof -
  note fr = block_frames_of [OF F]
  obtain b' c' where p: "push_symbol F (repair_frame sid o1 d) pn k b = Inr b'" "holds o1 (encode16 d) F (repair_frame sid o1 d) (ks @ [k]) c' b'"
    "fb_timerRunning b' = fb_timerRunning b" "fb_decodeStarted b' = fb_decodeStarted b" "fb_streamID b' = fb_streamID b"
    using push_increasing [OF fr h k] by blast
  have chk: "CheckDecodingPossible (with_buffer f o1 b') (length (fh_buffers f)) False =
      Inr (if 18 \<le> length (ks @ [k]) then (with_buffer f o1 (b'\<lparr>fb_decodeStarted := True\<rparr>))\<lparr>fh_enoughRecvChan := [length (fh_buffers f)]\<rparr>
         else with_buffer f o1 b')" (is "_ = Inr ?f'")
    using p b by (intro check_decoding [OF p(2) _ lost ch]) simp
  have "receive_symbol F (repair_frame sid o1 d) pn k f1 = Inr ?f'"
  proof (cases "k < 16")
    case True
    then have "sf_StreamID (F k) = sid" "sf_Offset (F k) = o1 + 1024 * int k" "\<not> sf_Fin (F k)" using F by (auto simp: source_frames_def)
    then show ?thesis using True g(1) p(1) chk by (simp add: receive_symbol_def PushStreamFrameToDecode_def push_symbol_def)
  next
    case False
    then show ?thesis using g(2) p(1) chk by (simp add: receive_symbol_def PushFecFrameToDecode_def push_symbol_def repair_frame_def)
  qed
  then show ?thesis using p b unfolding collecting_def by blast
qed

lemma receive_symbols:
  assumes o: "block_open f sid o1" and ch: "fh_enoughRecvChan f = []" and F: "source_frames sid o1 d F"
    and ks: "sorted_wrt (<) ks" "\<forall>k \<in> set ks. k < 20" "ks \<noteq> []" "length ks \<le> 18" and lost: "length (filter (\<lambda>k. k < 16) ks) < 16"
  shows "\<exists>f'. foldE (receive_symbol F (repair_frame sid o1 d) pn) ks f = Inr f' \<and>
    collecting f sid o1 (encode16 d) F (repair_frame sid o1 d) ks f'"
  using ks(3,1,2,4) lost
proof (induction ks rule: rev_nonempty_induct)
  case (single k)
  have "block_open f sid o1" by (rule o)
  have h: "holds o1 (encode16 d) F (repair_frame sid o1 d) [] 0 (FecBuffer_Init sid o1 1024 16)" by (rule FecBuffer_Init_holds)
  have i: "fb_timerRunning (FecBuffer_Init sid o1 1024 16)" "fb_streamID (FecBuffer_Init sid o1 1024 16) = sid"
      "\<not> fb_decodeStarted (FecBuffer_Init sid o1 1024 16)" by (simp_all add: FecBuffer_Init_def Let_def)
  show ?case using receive_push [OF o ch F h i, of k f pn] single first_frame_creates [OF o, of "1024 * int k"] first_frame_creates [OF o, of 0]
    by auto
next
  case (snoc k ks)
  then obtain f1 where f1: "foldE (receive_symbol F (repair_frame sid o1 d) pn) ks f = Inr f1"
    "collecting f sid o1 (encode16 d) F (repair_frame sid o1 d) ks f1" by (auto simp: sorted_wrt_append)
  then obtain b c where b: "holds o1 (encode16 d) F (repair_frame sid o1 d) ks c b" "fb_timerRunning b" "fb_streamID b = sid" "\<not> fb_decodeStarted b"
    "f1 = with_buffer f o1 b" using snoc.prems by (auto simp: collecting_def)
  have "fb_startStreamOffset b = o1" "fb_endStreamOffset b = o1 + 16383" using b(1) by (simp_all add: holds_def)
  then have "k < 16 \<Longrightarrow> getOrCreateFecBuffer f1 sid (o1 + 1024 * int k) = Inr (Some (length (fh_buffers f)), with_buffer f o1 b)"
      "getOrCreateFecBuffer f1 sid o1 = Inr (Some (length (fh_buffers f)), with_buffer f o1 b)"
    unfolding b(5) using next_frame_finds [OF o _ _ b(3), of "1024 * int k"] next_frame_finds [OF o _ _ b(3), of 0] by simp_all
  then show ?case using receive_push [OF o ch F b(1-4), of k f1 pn] snoc.prems f1(1) by (auto simp: foldE_append)
qed

section \<open>What is handed to the stream\<close>

text \<open>The frame of symbol \<open>j\<close> of a decoded block.\<close>

definition recovered_frame :: "StreamID \<Rightarrow> ByteCount \<Rightarrow> bytes \<Rightarrow> nat \<Rightarrow> StreamFrame" where
  "recovered_frame sid o1 blk j =
     \<lparr>sf_StreamID = sid, sf_Offset = o1 + 1024 * int j, sf_Data = take 1024 (drop (1024 * j) blk), sf_Fin = False, sf_DataLenPresent = False\<rparr>"

lemma unat_symbol_pos: "j \<le> 20 \<Longrightarrow> unat (of_nat j * (1024 :: u32)) = 1024 * j" "j \<le> 20 \<Longrightarrow> uint (of_nat j * (1024 :: u32)) = 1024 * int j"
proof -
  assume "j \<le> 20"
  moreover have "of_nat j * (1024 :: u32) = of_nat (1024 * j)" by simp
  ultimately show u: "unat (of_nat j * (1024 :: u32)) = 1024 * j" by (simp only:) (simp add: unat_of_nat_less del: of_nat_mult)
  show "uint (of_nat j * (1024 :: u32)) = 1024 * int j" unfolding uint_nat u by simp
qed

lemma push_recovered_all:
  assumes "fec_ready f" and "length blk = 16384" and "\<forall>j \<in> set js. j < 16" and "length (fh_FecChan f) + length js \<le> 50"
  shows "\<exists>R. foldE (push_recovered b blk p q) js f =
    Inr (f\<lparr>fh_FecChan := fh_FecChan f @ map (recovered_frame (fb_streamID b) (fb_startStreamOffset b) blk) js, FecRecoveredPacketList := R\<rparr>)"
  using assms
proof (induction js arbitrary: f)
  case Nil
  then show ?case by (intro exI [of _ "FecRecoveredPacketList f"]) simp
next
  case (Cons j js)
  have j: "j < 16" using Cons.prems by simp
  have u: "of_nat j * (1024 :: u32) + 1024 = of_nat (Suc j) * 1024" by (simp add: algebra_simps)
  have sl: "go_slice blk (unat (of_nat j * (1024 :: u32))) (unat (of_nat j * (1024 :: u32) + 1024)) = Inr (take 1024 (drop (1024 * j) blk))"
    unfolding u using j Cons.prems(2) by (subst unat_symbol_pos, simp, subst unat_symbol_pos, simp) (simp add: go_slice_def)
  have len: "length (take 1024 (drop (1024 * j) blk)) = 1024" using j Cons.prems(2) by simp
  let ?f = "f\<lparr>fh_FecChan := fh_FecChan f @ [recovered_frame (fb_streamID b) (fb_startStreamOffset b) blk j],
      FecRecoveredPacketList := FecRecoveredPacketList f @ [p + (int j - int q)]\<rparr>"
  have "push_recovered b blk p q j f = Inr ?f"
    using Cons.prems(1,4) sl len j
    by (simp add: push_recovered_def Let_def fec_ready_def recovered_frame_def send_chan_def unat_symbol_pos)
  moreover obtain R where "foldE (push_recovered b blk p q) js ?f =
      Inr (?f\<lparr>fh_FecChan := fh_FecChan ?f @ map (recovered_frame (fb_streamID b) (fb_startStreamOffset b) blk) js, FecRecoveredPacketList := R\<rparr>)"
    using Cons.IH [of ?f] Cons.prems by (auto simp: fec_ready_def)
  ultimately show ?case by auto
qed

text \<open>The symbols that the loop over the symbol map takes for lost.\<close>

definition next_index :: "nat list \<Rightarrow> nat \<Rightarrow> nat" where
  "next_index m i = (case i of 0 \<Rightarrow> 0 | Suc j \<Rightarrow> m ! j + 1)"

definition gap_symbols :: "nat list \<Rightarrow> nat \<Rightarrow> nat list" where
  "gap_symbols m n = concat (map (\<lambda>i. if m ! i \<noteq> next_index m i then [i..<min (m ! i) 16] else []) [0..<n])"

lemma gap_symbols_less: "j \<in> set (gap_symbols m n) \<Longrightarrow> j < 16"
  by (auto simp: gap_symbols_def split: if_splits)

lemma recover_loop:
  assumes f: "fec_ready f" "length blk = 16384" "length (fh_FecChan f) + length (gap_symbols m n) \<le> 50" and m: "n \<le> length m" "n \<le> 16"
  shows "\<exists>R p q. foldE (recover_symbol b blk m) [0..<n] (f, 0, 0, 0) =
    Inr (f\<lparr>fh_FecChan := fh_FecChan f @ map (recovered_frame (fb_streamID b) (fb_startStreamOffset b) blk) (gap_symbols m n),
      FecRecoveredPacketList := R\<rparr>, p, q, next_index m n)"
  using f(3) m
proof (induction n)
  case 0
  then show ?case by (intro exI [of _ "FecRecoveredPacketList f"]) (simp add: gap_symbols_def next_index_def)
next
  case (Suc n)
  define js where "js = (if m ! n \<noteq> next_index m n then [n..<min (m ! n) 16] else [])"
  have g: "gap_symbols m (Suc n) = gap_symbols m n @ js" by (simp add: gap_symbols_def js_def)
  define h where "h = (\<lambda>R. f\<lparr>fh_FecChan := fh_FecChan f @ map (recovered_frame (fb_streamID b) (fb_startStreamOffset b) blk) (gap_symbols m n),
      FecRecoveredPacketList := R\<rparr>)"
  obtain R p q where IH: "foldE (recover_symbol b blk m) [0..<n] (f, 0, 0, 0) = Inr (h R, p, q, next_index m n)"
    using Suc g unfolding h_def by auto
  have r: "fec_ready (h R)" "fh_numSrcSymbols (h R) = 16" using f(1) by (simp_all add: fec_ready_def h_def)
  have "length (fh_FecChan (h R)) + length js \<le> 50" "\<forall>j \<in> set js. j < 16" using Suc.prems g by (simp_all add: h_def js_def)
  then obtain R' where R': "foldE (push_recovered b blk p q) js (h R) =
      Inr ((h R)\<lparr>fh_FecChan := fh_FecChan (h R) @ map (recovered_frame (fb_streamID b) (fb_startStreamOffset b) blk) js, FecRecoveredPacketList := R'\<rparr>)"
    using push_recovered_all [OF r(1) f(2)] by blast
  have x: "next_index m (Suc n) = m ! n + 1" by (simp add: next_index_def)
  have "\<exists>R' p' q'. recover_symbol b blk m n (h R, p, q, next_index m n) = Inr ((h R)\<lparr>fh_FecChan := fh_FecChan (h R) @
      map (recovered_frame (fb_streamID b) (fb_startStreamOffset b) blk) js, FecRecoveredPacketList := R'\<rparr>, p', q', m ! n + 1)"
  proof (cases "m ! n = next_index m n")
    case True
    then show ?thesis using Suc.prems by (intro exI [of _ R]) (simp add: js_def recover_symbol_def Let_def h_def)
  next
    case False
    then have "js = [n..<min (m ! n) 16]" by (simp add: js_def)
    then show ?thesis using Suc.prems False R' r(2) by (auto simp: recover_symbol_def)
  qed
  then show ?case using IH x g by (auto simp: foldE_append h_def)
qed

lemma increasing_gap:
  fixes ks :: "nat list"
  assumes "sorted_wrt (<) ks" and "i \<le> j" and "j < length ks"
  shows "ks ! i + (j - i) \<le> ks ! j"
  using assms(2,3)
proof (induction j)
  case (Suc j)
  then show ?case
    using sorted_wrt_nth_less [OF assms(1), of j "Suc j"] by (cases "i = Suc j") (auto simp: Suc_diff_le)
qed simp

lemma gap_symbols_lost:
  assumes ks: "sorted_wrt (<) ks" "16 \<le> length ks" and j: "j < 16" "j \<notin> set ks"
  shows "j \<in> set (gap_symbols (ks @ r) 16)"
proof -
  have "ks ! j > j"
    using increasing_gap [OF ks(1), of 0 j] ks(2) j by (metis diff_zero le_add2 le_neq_implies_less le_trans less_le_trans nth_mem zero_le)
  define i where "i = (LEAST i. ks ! i > j)"
  have i: "ks ! i > j" "i \<le> j" "i < 16" unfolding i_def using LeastI [of "\<lambda>i. ks ! i > j", OF \<open>ks ! j > j\<close>] Least_le [of "\<lambda>i. ks ! i > j", OF \<open>ks ! j > j\<close>] j(1)
    by linarith+
  have "next_index (ks @ r) i \<le> j"
  proof (cases i)
    case (Suc l)
    then have "\<not> ks ! l > j" using not_less_Least [of l "\<lambda>i. ks ! i > j"] by (simp add: i_def)
    moreover have "ks ! l \<noteq> j" using j(2) i(3) ks(2) Suc by (metis Suc_lessD less_le_trans nth_mem)
    ultimately show ?thesis using Suc i(3) ks(2) by (simp add: next_index_def nth_append)
  qed (simp add: next_index_def)
  moreover have "(ks @ r) ! i = ks ! i" using i ks(2) by (simp add: nth_append)
  ultimately have "j \<in> set (if (ks @ r) ! i \<noteq> next_index (ks @ r) i then [i..<min ((ks @ r) ! i) 16] else [])"
    using i j by simp
  then show ?thesis unfolding gap_symbols_def using i(3) by (auto simp del: upt_rec_numeral)
qed

lemma gap_symbols_length:
  assumes ks: "sorted_wrt (<) ks" "\<forall>k \<in> set ks. k < 20" "length ks = 18"
  shows "length (gap_symbols (ks @ r) 16) \<le> 32"
proof -
  have "length (if (ks @ r) ! i \<noteq> next_index (ks @ r) i then [i..<min ((ks @ r) ! i) 16] else []) \<le> 2" if "i < 16" for i
  proof -
    have "ks ! 17 < 20" using ks(2,3) by simp
    then have "ks ! i \<le> i + 2" using increasing_gap [OF ks(1), of i 17] ks(3) that by simp
    moreover have "(ks @ r) ! i = ks ! i" using that ks(3) by (simp add: nth_append)
    ultimately show ?thesis by auto
  qed
  then have "(\<Sum>i\<leftarrow>[0..<16]. length (if (ks @ r) ! i \<noteq> next_index (ks @ r) i then [i..<min ((ks @ r) ! i) 16] else [])) \<le> (\<Sum>i\<leftarrow>[0..<16 :: nat]. 2)"
    by (intro sum_list_mono) auto
  then show ?thesis by (simp add: gap_symbols_def length_concat comp_def sum_list_triv del: upt_rec_numeral)
qed

section \<open>Decoding a block\<close>

lemma update_next_block_ok:
  assumes "fh_nextBlockOffset f \<le> fb_startStreamOffset b"
  shows "\<exists>q n. update_next_block f b = Inr (f\<lparr>fh_alreadyDecQueue := q, fh_nextBlockOffset := n\<rparr>)"
proof (cases "fb_startStreamOffset b = fh_nextBlockOffset f")
  case True
  then show ?thesis by (cases "skip_decoded (fh_alreadyDecQueue f) (fb_endStreamOffset b + 1)") (auto simp: update_next_block_def)
next
  case False
  then show ?thesis using assms
    by (intro exI [of _ "map_set (fb_startStreamOffset b) (decoded_entry b) (fh_alreadyDecQueue f)"] exI [of _ "fh_nextBlockOffset f"])
       (simp add: update_next_block_def)
qed

lemma pushReceive_ok:
  assumes "fec_ready f" and "length blk = 16384" and "length (fh_FecChan f) \<le> 18"
    and ks: "sorted_wrt (<) ks" "\<forall>k \<in> set ks. k < 20" "length ks = 18"
  shows "\<exists>R. pushReceiveStreamFrameQueue f blk (ks @ r) b =
    Inr (f\<lparr>fh_FecChan := fh_FecChan f @ map (recovered_frame (fb_streamID b) (fb_startStreamOffset b) blk) (gap_symbols (ks @ r) 16),
      FecRecoveredPacketList := R\<rparr>)"
proof -
  have "length (fh_FecChan f) + length (gap_symbols (ks @ r) 16) \<le> 50" using gap_symbols_length [OF ks, of r] assms(3) by linarith
  then obtain R p q where "foldE (recover_symbol b blk (ks @ r)) [0..<16] (f, 0, 0, 0) =
      Inr (f\<lparr>fh_FecChan := fh_FecChan f @ map (recovered_frame (fb_streamID b) (fb_startStreamOffset b) blk) (gap_symbols (ks @ r) 16),
        FecRecoveredPacketList := R\<rparr>, p, q, next_index (ks @ r) 16)"
    using recover_loop [OF assms(1,2), of "ks @ r" 16 b] ks(3) by auto
  moreover have "unat (fh_numSrcSymbols f) = 16" using assms(1) by (simp add: fec_ready_def)
  ultimately show ?thesis unfolding pushReceiveStreamFrameQueue_def by (auto simp del: upt_rec_numeral)
qed

lemma holds_started: "holds o1 sy F G ks c (b\<lparr>fb_decodeStarted := x\<rparr>) \<longleftrightarrow> holds o1 sy F G ks c b"
  by (simp add: holds_def)

text \<open>The round of the decoder for a block of which 18 symbols have arrived.\<close>

lemma decode_collected:
  assumes f: "fec_ready f" "fh_nextBlockOffset f \<le> o1" "length (fh_FecChan f) \<le> 18" and F: "source_frames sid o1 d F"
    and ks: "sorted_wrt (<) ks" "\<forall>k \<in> set ks. k < 20" "length ks = 18"
    and c: "collecting f sid o1 (encode16 d) F (repair_frame sid o1 d) ks f'"
  shows "\<exists>f''. decode_round f' EnoughRecv = Inr (f'', False) \<and>
    fh_FecChan f'' = fh_FecChan f @ (if full_rank 16 (map gen_row16 (take 17 ks))
      then map (recovered_frame sid o1 (concat d)) (gap_symbols (ks @ [0, 0]) 16) else [])"
proof -
  let ?a = "length (fh_buffers f)"
  have bo: "block_ok raptor16 d" using F by (simp add: source_frames_def)
  obtain b c where b: "holds o1 (encode16 d) F (repair_frame sid o1 d) ks c b" "fb_timerRunning b" "fb_streamID b = sid"
    and f': "f' = (with_buffer f o1 b)\<lparr>fh_enoughRecvChan := [?a]\<rparr>"
    using c ks(3) holds_started unfolding collecting_def by fastforce
  define f1 where "f1 = (with_buffer f o1 b)\<lparr>fh_enoughRecvChan := []\<rparr>"
  have tc: "take_case f' EnoughRecv = Inr (?a, False, False, f1)" by (simp add: take_case_def f' f1_def)
  have o1: "fb_startStreamOffset b = o1" using b(1) by (simp add: holds_def)
  obtain q n where u: "update_next_block f1 b = Inr (f1\<lparr>fh_alreadyDecQueue := q, fh_nextBlockOffset := n\<rparr>)"
    using update_next_block_ok [of f1 b] f(2) o1 by (auto simp: f1_def with_buffer_def)
  define f2 where "f2 = f1\<lparr>fh_alreadyDecQueue := q, fh_nextBlockOffset := n, fh_recvBytes := fh_recvBytes f1 + fh_srcBlockSize f1\<rparr>"
  define b2 where "b2 = b\<lparr>fb_encBlock := slots (encode16 d) (set ks), fb_bufferMap := marks (set ks)\<rparr>"
  have two: "replicate 2 0 = [0, 0 :: nat]" by code_simp
  have g: "GetEncodeBlock b = Inr (concat (map (encode16 d) ks) @ replicate 2048 0, ks @ [0, 0], 2, b2)"
    using GetEncodeBlock_increasing [OF block_frames_of [OF F] b(1) ks(1,2)] ks(3) two by (simp add: b2_def)
  define f3 where "f3 = put_buffer f2 ?a b2"
  have f3: "fec_ready f3" "fh_FecChan f3 = fh_FecChan f" "fh_raptor f3 = raptor16" "fh_symbolSize f3 = 1024" "fh_numSrcSymbols f3 = 16"
      "fh_buffers f3 ! ?a = b2" "?a < length (fh_buffers f3)"
    using f(1) by (simp_all add: f3_def put_buffer_def f2_def f1_def with_buffer_def fec_ready_def)
  have "ks = take 17 ks @ [ks ! 17]" using ks(3) take_Suc_conv_app_nth [of 17 ks] by simp
  then have "map (encode16 d) ks = map (encode16 d) (take 17 ks @ [ks ! 17])" by (rule arg_cong)
  then have cat: "concat (map (encode16 d) ks) @ z = concat (map (encode16 d) (take 17 ks)) @ encode16 d (ks ! 17) @ z" for z by simp
  have tk: "\<forall>k \<in> set (take 17 ks). k < 20" using ks(2) by (auto dest: in_set_takeD)
  have "take 17 (ks @ [0, 0]) = take 17 ks" using ks(3) by simp
  then have dec: "RaptorDecode raptor16 (concat (map (encode16 d) ks) @ replicate 2048 0) (ks @ [0, 0]) 1024 16 =
      Inr (if full_rank 16 (map gen_row16 (take 17 ks)) then Some (concat d) else None)"
    unfolding cat using RaptorDecode16 [OF bo, of "ks @ [0, 0]" "encode16 d (ks ! 17) @ replicate 2048 0"] ks(3) tk by simp
  have len: "length (concat d) = 16384" using length_concat_const [of d 1024] bo by (simp add: block_ok16)
  obtain R where p: "pushReceiveStreamFrameQueue f3 (concat d) (ks @ [0, 0]) b2 =
      Inr (f3\<lparr>fh_FecChan := fh_FecChan f @ map (recovered_frame sid o1 (concat d)) (gap_symbols (ks @ [0, 0]) 16), FecRecoveredPacketList := R\<rparr>)"
    using pushReceive_ok [OF f3(1) len _ ks, of "[0, 0]" b2] f(3) f3(2) b(3) o1 by (auto simp: b2_def)
  have d: "FecBuffer_Destroy b2 = Inr (b2\<lparr>fb_timerRunning := False\<rparr>)" using b(2) by (simp add: FecBuffer_Destroy_def b2_def)
  have b1: "fh_buffers f1 ! ?a = b" by (simp add: f1_def with_buffer_def)
  show ?thesis
    unfolding decode_round_def recover_block_def tc bindE_Inr prod.case Let_def b1 u g
    using f3 d p dec by (simp flip: f2_def f3_def)
qed

text \<open>From the frames that the sender makes to the frames that the receiver restores.\<close>

lemma symbol_of_block: "block_ok raptor16 d \<Longrightarrow> j < 16 \<Longrightarrow> take 1024 (drop (1024 * j) (concat d)) = d ! j"
  using concat_split_slot(3) [of 16 "\<lambda>i. d ! i" 1024 j] map_nth [of d] by (simp add: block_ok16)

lemma fec_block_transfer:
  assumes tx: "fec_ready tx" "fh_encQueue tx = []" "fh_transmissionQueue tx = []" "fh_endOffset tx = o1"
    and rx: "block_open rx sid o1" "fh_enoughRecvChan rx = []" "length (fh_FecChan rx) \<le> 18" and F: "source_frames sid o1 d F"
    and ks: "sorted_wrt (<) ks" "\<forall>k \<in> set ks. k < 20" "length ks = 18" and lost: "l < 16" "l \<notin> set ks"
  shows "\<exists>tx' G rx' rx''. foldE (\<lambda>k f. PushToEncode f (F k)) [0..<16] tx = Inr tx' \<and> fh_transmissionQueue tx' = map G [16..<20] \<and>
    foldE (receive_symbol F G pn) ks rx = Inr rx' \<and> decode_round rx' EnoughRecv = Inr (rx'', False) \<and>
    (if full_rank 16 (map gen_row16 (take 17 ks))
     then \<exists>js. {k. k < 16 \<and> k \<notin> set ks} \<subseteq> set js \<and> set js \<subseteq> {0..<16} \<and>
       fh_FecChan rx'' = fh_FecChan rx @ map (\<lambda>j. \<lparr>sf_StreamID = sid, sf_Offset = o1 + 1024 * int j, sf_Data = d ! j,
         sf_Fin = False, sf_DataLenPresent = False\<rparr>) js
     else fh_FecChan rx'' = fh_FecChan rx)"
proof -
  let ?G = "repair_frame sid o1 d"
  have bo: "block_ok raptor16 d" using F by (simp add: source_frames_def)
  obtain tx' where 1: "foldE (\<lambda>k f. PushToEncode f (F k)) [0..<16] tx = Inr tx'" "fh_transmissionQueue tx' = map ?G [16..<20]"
    using encode_block [OF tx(1,2,4) F] unfolding tx(3) append_Nil by blast
  have "length (filter (\<lambda>k. k < 16) ks) < 16"
  proof -
    have sub: "set (filter (\<lambda>k. k < 16) ks) \<subseteq> {..<16} - {l}" using lost(2) by auto
    have "card (set (filter (\<lambda>k. k < 16) ks)) \<le> card ({..<16} - {l})" by (rule card_mono [OF _ sub]) simp
    moreover have "card ({..<16} - {l}) = 15" using lost(1) by simp
    moreover have "distinct (filter (\<lambda>k. k < 16) ks)" using ks(1) by (simp add: strict_sorted_iff)
    ultimately show ?thesis by (simp add: distinct_card del: set_filter)
  qed
  moreover have "ks \<noteq> []" using ks(3) by auto
  ultimately obtain rx' where 2: "foldE (receive_symbol F ?G pn) ks rx = Inr rx'" "collecting rx sid o1 (encode16 d) F ?G ks rx'"
    using receive_symbols [OF rx(1,2) F ks(1,2), of pn] ks(3) by auto
  obtain rx'' where 3: "decode_round rx' EnoughRecv = Inr (rx'', False)"
    "fh_FecChan rx'' = fh_FecChan rx @ (if full_rank 16 (map gen_row16 (take 17 ks))
      then map (recovered_frame sid o1 (concat d)) (gap_symbols (ks @ [0, 0]) 16) else [])"
    using decode_collected [OF _ _ rx(3) F ks 2(2)] rx(1) by (auto simp: block_open_def)
  have js: "{k. k < 16 \<and> k \<notin> set ks} \<subseteq> set (gap_symbols (ks @ [0, 0]) 16)" "set (gap_symbols (ks @ [0, 0]) 16) \<subseteq> {0..<16}"
    using gap_symbols_lost [OF ks(1)] ks(3) gap_symbols_less by auto
  have eq: "map (recovered_frame sid o1 (concat d)) js = map (\<lambda>j. \<lparr>sf_StreamID = sid, sf_Offset = o1 + 1024 * int j, sf_Data = d ! j,
         sf_Fin = False, sf_DataLenPresent = False\<rparr>) js" if "set js \<subseteq> {0..<16}" for js
    using that symbol_of_block [OF bo] by (auto simp: recovered_frame_def)
  show ?thesis
  proof (intro exI conjI)
    show "if full_rank 16 (map gen_row16 (take 17 ks))
     then \<exists>js. {k. k < 16 \<and> k \<notin> set ks} \<subseteq> set js \<and> set js \<subseteq> {0..<16} \<and>
       fh_FecChan rx'' = fh_FecChan rx @ map (\<lambda>j. \<lparr>sf_StreamID = sid, sf_Offset = o1 + 1024 * int j, sf_Data = d ! j,
         sf_Fin = False, sf_DataLenPresent = False\<rparr>) js
     else fh_FecChan rx'' = fh_FecChan rx"
      unfolding 3(2) eq [OF js(2), symmetric] using js eq by (auto simp del: upt_rec_numeral intro: exI [of _ "gap_symbols (ks @ [0, 0]) 16"])
  qed (fact 1 2(1) 3(1))+
qed

end
