(* ===== verification/Fec_Runs.thy ===== *)
theory Fec_Runs
  imports Fec_Transfer
begin

text \<open>
  The runs of a receiving handler of the error correction, as an interleaving of the goroutines that use it.
\<close>

section \<open>Runs of a receiving handler\<close>

text \<open>
  The steps of the goroutines of a receiving handler: the session pushes stream and FEC frames, a timer expires, the decoder makes a round,
  and the stream takes a restored frame.  Steps that fail or wait do not happen.
\<close>

inductive fec_step :: "FecHandler \<Rightarrow> FecHandler \<Rightarrow> bool" where
  stream_frame: "0 \<le> sf_Offset frame \<Longrightarrow> PushStreamFrameToDecode f frame pn = Inr f' \<Longrightarrow> fec_step f f'"
| fec_frame: "0 \<le> ff_StreamOffset frame \<Longrightarrow> PushFecFrameToDecode f frame = Inr f' \<Longrightarrow> fec_step f f'"
| timeout: "a < length (fh_buffers f) \<Longrightarrow> timer_expires f a = Inr f' \<Longrightarrow> fec_step f f'"
| decoded: "decode_round f c = Inr (f', fin) \<Longrightarrow> fec_step f f'"
| taken: "fh_FecChan f = frame # rest \<Longrightarrow> fec_step f (f\<lparr>fh_FecChan := rest\<rparr>)"

text \<open>What a buffer keeps for its whole life.\<close>

definition same_block :: "FecBuffer \<Rightarrow> FecBuffer \<Rightarrow> bool" where
  "same_block b b' \<longleftrightarrow> fb_streamID b' = fb_streamID b \<and> fb_startStreamOffset b' = fb_startStreamOffset b \<and>
     fb_endStreamOffset b' = fb_endStreamOffset b \<and> (fb_timerRunning b' \<longrightarrow> fb_timerRunning b)"

lemma same_block_refl [simp]: "same_block b b"
  by (simp add: same_block_def)

lemma same_block_trans: "same_block b b' \<Longrightarrow> same_block b' b'' \<Longrightarrow> same_block b b''"
  by (simp add: same_block_def)

lemma setBufferMap_same: "setBufferMap b s e = Inr b' \<Longrightarrow> same_block b b'"
  by (auto simp: setBufferMap_def Let_def bindE_eq_Inr_iff same_block_def split: if_splits)

lemma place_frame_same: "place_frame off dat b = Inr b' \<Longrightarrow> same_block b b'"
  by (auto simp: place_frame_def Let_def bindE_eq_Inr_iff dest!: setBufferMap_same) (simp add: same_block_def)

lemma PushStreamFrame_same: "PushStreamFrame b frame pn = Inr b' \<Longrightarrow> same_block b b'"
  by (auto simp: PushStreamFrame_def Let_def bindE_eq_Inr_iff same_block_def case_prod_beta split: if_splits dest!: setBufferMap_same)

lemma PushFecFrame_same: "PushFecFrame b frame = Inr b' \<Longrightarrow> same_block b b'"
  by (auto simp: PushFecFrame_def Let_def bindE_eq_Inr_iff same_block_def case_prod_beta split: if_splits dest!: setBufferMap_same)

lemma foldE_place_same: "foldE (\<lambda>f. place_frame (off f) (dat f)) fs b = Inr b' \<Longrightarrow> same_block b b'"
  by (rule foldE_invariant [where I = "same_block b"]) (auto intro: same_block_trans place_frame_same)

lemma GetEncodeBlock_same: "GetEncodeBlock b = Inr (x, y, z, b') \<Longrightarrow> same_block b b'"
  by (auto simp: GetEncodeBlock_def bindE_eq_Inr_iff split: prod.splits intro: same_block_trans dest!: foldE_place_same)

text \<open>
  A buffer in the channel of the timeouts has a timer that has ended.  The buffers of \<^verbatim>\<open>decQueue\<close> are those of different
  blocks.
\<close>

definition fec_inv :: "FecHandler \<Rightarrow> bool" where
  "fec_inv f \<longleftrightarrow> fec_ready f \<and> (\<forall>a \<in> set (fh_timeoutChan f). a < length (fh_buffers f) \<and> \<not> fb_timerRunning (fh_buffers f ! a)) \<and>
     distinct (map fst (fh_decQueue f)) \<and>
     (\<forall>(k, a) \<in> set (fh_decQueue f). a < length (fh_buffers f) \<and> fb_startStreamOffset (fh_buffers f ! a) = k \<and>
        fb_endStreamOffset (fh_buffers f ! a) = k + 16383 \<and> k mod 16384 = 0)"

lemma fec_inv_updates [simp]:
  "fec_inv (f\<lparr>fh_alreadyDecQueue := q\<rparr>) = fec_inv f" "fec_inv (f\<lparr>fh_nextBlockOffset := n\<rparr>) = fec_inv f" "fec_inv (f\<lparr>fh_recvBytes := w\<rparr>) = fec_inv f"
  "fec_inv (f\<lparr>fh_FecChan := fs\<rparr>) = fec_inv f" "fec_inv (f\<lparr>FecRecoveredPacketList := ps\<rparr>) = fec_inv f"
  by (simp_all add: fec_inv_def fec_ready_def)

lemma fec_inv_change:
  assumes "fec_inv f" and "fec_ready f'" and "length (fh_buffers f) \<le> length (fh_buffers f')"
    and "\<And>a. a < length (fh_buffers f) \<Longrightarrow> same_block (fh_buffers f ! a) (fh_buffers f' ! a)"
    and "set (fh_timeoutChan f') \<subseteq> set (fh_timeoutChan f)" and "fh_decQueue f' = filter P (fh_decQueue f)"
  shows "fec_inv f'"
proof -
  have "distinct (map fst (fh_decQueue f'))" unfolding assms(6) using assms(1) by (simp add: fec_inv_def distinct_map_filter)
  moreover have "a < length (fh_buffers f') \<and> \<not> fb_timerRunning (fh_buffers f' ! a)" if "a \<in> set (fh_timeoutChan f')" for a
    using assms(1,3,4,5) that by (force simp: fec_inv_def same_block_def)
  moreover have "a < length (fh_buffers f') \<and> fb_startStreamOffset (fh_buffers f' ! a) = k \<and>
      fb_endStreamOffset (fh_buffers f' ! a) = k + 16383 \<and> k mod 16384 = 0" if "(k, a) \<in> set (fh_decQueue f')" for k a
  proof -
    have "a < length (fh_buffers f)" "fb_startStreamOffset (fh_buffers f ! a) = k" "fb_endStreamOffset (fh_buffers f ! a) = k + 16383" "k mod 16384 = 0"
      using assms(1,6) that by (auto simp: fec_inv_def)
    then show ?thesis using assms(3) assms(4) [of a] by (simp add: same_block_def)
  qed
  ultimately show ?thesis using assms(2) by (auto simp: fec_inv_def)
qed

lemma same_block_update: "same_block (bs ! a) b \<Longrightarrow> i < length bs \<Longrightarrow> same_block (bs ! i) (bs[a := b] ! i)"
  by (cases "i = a") auto

lemma fec_inv_put:
  assumes "fec_inv f" and "same_block (fh_buffers f ! a) b"
  shows "fec_inv (put_buffer f a b)"
  using assms by (intro fec_inv_change [OF assms(1), where P = "\<lambda>_. True"]) (auto simp: put_buffer_def fec_inv_def fec_ready_def intro: same_block_update)

text \<open>The blocks in \<^verbatim>\<open>decQueue\<close> are disjoint, so that the search for the block of a frame finds at most one.\<close>

lemma block_start:
  fixes k :: int
  assumes "k mod 16384 = 0" and "k \<le> offset" and "offset \<le> k + 16383"
  shows "k = offset - offset mod 16384"
proof -
  define i where "i = offset - k"
  have "(k mod 16384 + i) mod 16384 = (k + i) mod 16384" by (rule mod_add_left_eq)
  then have "offset mod 16384 = i" using assms by (simp add: i_def)
  then show ?thesis by (simp add: i_def)
qed

lemma decQueue_match_unique:
  assumes "fec_inv f" and "(k, a) \<in> set (fh_decQueue f)" "in_block sid offset (fh_buffers f ! a)"
    and "(k', a') \<in> set (fh_decQueue f)" "in_block sid offset (fh_buffers f ! a')"
  shows "k = k' \<and> a = a'"
proof -
  have "k mod 16384 = 0" "k' mod 16384 = 0" "k \<le> offset" "offset \<le> k + 16383" "k' \<le> offset" "offset \<le> k' + 16383" "distinct (map fst (fh_decQueue f))"
    using assms by (auto simp: fec_inv_def in_block_def)
  moreover from this have "k = k'" using block_start by metis
  ultimately show ?thesis using assms(2,4) by (metis map_of_eq_Some_iff option.inject)
qed

lemma getOrCreate_inv:
  assumes "fec_inv f" and "0 \<le> offset" and "getOrCreateFecBuffer f sid offset = Inr (p, f')"
  shows "fec_inv f'"
proof (cases "f' = f")
  case False
  let ?s = "offset div 16384 * 16384" and ?a = "length (fh_buffers f)"
  have f': "f' = f\<lparr>fh_buffers := fh_buffers f @ [FecBuffer_Init sid ?s 1024 16], fh_decQueue := map_set ?s ?a (fh_decQueue f)\<rparr>"
    using assms False by (auto simp: getOrCreateFecBuffer_def Let_def fec_inv_def fec_ready_def split: if_splits option.splits)
  have "fec_inv (f\<lparr>fh_buffers := fh_buffers f @ [FecBuffer_Init sid ?s 1024 16], fh_decQueue := map_delete ?s (fh_decQueue f)\<rparr>)" (is "fec_inv ?g")
    using assms(1) by (intro fec_inv_change [OF assms(1), where P = "\<lambda>(k, v). k \<noteq> ?s"])
      (auto simp: map_delete_def nth_append fec_inv_def fec_ready_def)
  moreover have "fb_startStreamOffset (FecBuffer_Init sid ?s 1024 16) = ?s" "fb_endStreamOffset (FecBuffer_Init sid ?s 1024 16) = ?s + 16383"
    by (simp_all add: FecBuffer_Init_def Let_def)
  moreover have "?s \<notin> set (map fst (map_delete ?s (fh_decQueue f)))" by (auto simp: map_delete_def)
  ultimately show ?thesis unfolding f' by (auto simp: fec_inv_def map_set_def fec_ready_def)
qed (use assms in simp)

lemma CheckDecodingPossible_inv: "fec_inv f \<Longrightarrow> CheckDecodingPossible f a fin = Inr f' \<Longrightarrow> fec_inv f'"
proof -
  assume f: "fec_inv f" and c: "CheckDecodingPossible f a fin = Inr f'"
  let ?g = "put_buffer f a ((fh_buffers f ! a)\<lparr>fb_decodeStarted := True\<rparr>)"
  have "fec_inv ?g" using f by (intro fec_inv_put) (simp_all add: same_block_def)
  moreover have "f' = f \<or> (\<exists>x. f' = ?g\<lparr>fh_streamFinChan := x\<rparr> \<or> f' = ?g\<lparr>fh_enoughRecvChan := x\<rparr> \<or> f' = ?g\<lparr>fh_finalChan := x\<rparr>)"
    using c unfolding CheckDecodingPossible_def Let_def by (auto simp: bindE_eq_Inr_iff split: if_splits)
  ultimately show ?thesis using f by (auto simp: fec_inv_def fec_ready_def)
qed

lemma PushStreamFrameToDecode_inv:
  assumes "fec_inv f" and "0 \<le> sf_Offset frame" and "PushStreamFrameToDecode f frame pn = Inr f'"
  shows "fec_inv f'"
proof -
  obtain p f1 where g: "getOrCreateFecBuffer f (sf_StreamID frame) (sf_Offset frame) = Inr (p, f1)"
    and r: "(case p of None \<Rightarrow> Inr f1 | Some a \<Rightarrow> bindE (PushStreamFrame (fh_buffers f1 ! a) frame pn)
      (\<lambda>b. CheckDecodingPossible (put_buffer f1 a b) a (sf_Fin frame))) = Inr f'"
    using assms(3) by (auto simp: PushStreamFrameToDecode_def bindE_eq_Inr_iff)
  have "fec_inv f1" by (rule getOrCreate_inv [OF assms(1,2) g])
  then show ?thesis using r
    by (auto simp: bindE_eq_Inr_iff split: option.splits intro: CheckDecodingPossible_inv fec_inv_put PushStreamFrame_same)
qed

lemma PushFecFrameToDecode_inv:
  assumes "fec_inv f" and "0 \<le> ff_StreamOffset frame" and "PushFecFrameToDecode f frame = Inr f'"
  shows "fec_inv f'"
proof -
  obtain p f1 where g: "getOrCreateFecBuffer f (ff_StreamID frame) (ff_StreamOffset frame) = Inr (p, f1)"
    and r: "(case p of None \<Rightarrow> Inr f1 | Some a \<Rightarrow> bindE (PushFecFrame (fh_buffers f1 ! a) frame)
      (\<lambda>b. CheckDecodingPossible (put_buffer f1 a b) a False)) = Inr f'"
    using assms(3) by (auto simp: PushFecFrameToDecode_def bindE_eq_Inr_iff)
  have "fec_inv f1" by (rule getOrCreate_inv [OF assms(1,2) g])
  then show ?thesis using r
    by (auto simp: bindE_eq_Inr_iff split: option.splits intro: CheckDecodingPossible_inv fec_inv_put PushFecFrame_same)
qed

lemma timer_expires_inv:
  assumes "fec_inv f" and "a < length (fh_buffers f)" and "timer_expires f a = Inr f'"
  shows "fec_inv f'"
proof -
  let ?g = "put_buffer f a ((fh_buffers f ! a)\<lparr>fb_timerRunning := False, fb_decodeStarted := True\<rparr>)"
  have f': "f' = ?g\<lparr>fh_timeoutChan := fh_timeoutChan f @ [a]\<rparr>"
    using assms(3) by (auto simp: timer_expires_def Let_def send_chan_def split: if_splits)
  have "fec_inv ?g" using assms(1) by (intro fec_inv_put) (simp_all add: same_block_def)
  moreover have "fh_buffers ?g ! a = (fh_buffers f ! a)\<lparr>fb_timerRunning := False, fb_decodeStarted := True\<rparr>" "length (fh_buffers ?g) = length (fh_buffers f)"
      "fh_timeoutChan ?g = fh_timeoutChan f"
    using assms(2) by (simp_all add: put_buffer_def)
  ultimately show ?thesis unfolding f' using assms(2) by (auto simp: fec_inv_def fec_ready_def)
qed

text \<open>A round of the decoder changes the channels, the offsets, and the buffer it takes.\<close>

lemma take_case_inv:
  assumes "fec_inv f" and "take_case f c = Inr (a, complete, fin, f')"
  shows "fec_inv f' \<and> (c = TimedOut \<longrightarrow> a < length (fh_buffers f') \<and> \<not> fb_timerRunning (fh_buffers f' ! a))"
  using assms by (cases c) (auto simp: take_case_def fec_inv_def fec_ready_def bindE_eq_Inr_iff split: list.splits)

lemma update_next_block_inv:
  assumes "fec_inv f" and "update_next_block f b = Inr f'"
  shows "fec_inv f' \<and> fh_buffers f' = fh_buffers f"
  using assms by (auto simp: update_next_block_def case_prod_beta split: if_splits)

lemma push_recovered_inv:
  assumes "fec_inv f" and "push_recovered b blk p q j f = Inr f'"
  shows "fec_inv f' \<and> fh_buffers f' = fh_buffers f"
  using assms by (auto simp: push_recovered_def Let_def bindE_eq_Inr_iff)

lemma pushReceive_inv:
  assumes "fec_inv f" and "pushReceiveStreamFrameQueue f blk m b = Inr f'"
  shows "fec_inv f' \<and> fh_buffers f' = fh_buffers f"
proof -
  define I where "I = (\<lambda>(g, x :: PacketNumber \<times> nat \<times> nat). fec_inv g \<and> fh_buffers g = fh_buffers f)"
  have inner: "fec_inv g' \<and> fh_buffers g' = fh_buffers f" if "fec_inv g" "fh_buffers g = fh_buffers f" "foldE (push_recovered b blk p q) js g = Inr g'" for g g' p q js
    using conjI [OF that(1,2)] by (rule foldE_invariant [OF _ _ that(3), where I = "\<lambda>g. fec_inv g \<and> fh_buffers g = fh_buffers f", rotated]) (auto dest: push_recovered_inv)
  have step: "I s'" if "I s" "recover_symbol b blk m i s = Inr s'" for s s' i
    using that by (auto simp: recover_symbol_def I_def bindE_eq_Inr_iff Let_def split: if_splits prod.splits dest: inner)
  obtain x where x: "foldE (recover_symbol b blk m) [0..<unat (fh_numSrcSymbols f)] (f, 0, 0, 0) = Inr (f', x)"
    using assms(2) by (auto simp: pushReceiveStreamFrameQueue_def bindE_eq_Inr_iff)
  have "I (f, 0, 0, 0)" using assms(1) by (simp add: I_def)
  then have "I (f', x)" by (rule foldE_invariant [OF _ _ x, rotated]) (rule step)
  then show ?thesis by (simp add: I_def)
qed

lemma decode_round_inv:
  assumes inv: "fec_inv f" and d: "decode_round f c = Inr (f', fin)"
  shows "fec_inv f' \<and> c \<noteq> TimedOut"
proof -
  obtain a complete fin' f1 where t: "take_case f c = Inr (a, complete, fin', f1)"
    using d by (auto simp: decode_round_def bindE_eq_Inr_iff)
  note f1 = take_case_inv [OF inv t]
  define b where "b = fh_buffers f1 ! a"
  obtain f2 where u: "update_next_block f1 b = Inr f2" using d t by (auto simp: decode_round_def bindE_eq_Inr_iff Let_def b_def)
  have f2: "fec_inv f2" "fh_buffers f2 = fh_buffers f1" using update_next_block_inv [OF _ u] f1 by auto
  define f3 where "f3 = f2\<lparr>fh_recvBytes := fh_recvBytes f2 + fh_srcBlockSize f2\<rparr>"
  have f3: "fec_inv f3" "fh_buffers f3 = fh_buffers f1" using f2 by (simp_all add: f3_def)
  obtain f4 b' where f4: "(if complete then Inr f3 else recover_block f3 a b) = Inr f4"
    and b': "FecBuffer_Destroy (fh_buffers f4 ! a) = Inr b'"
    and f': "f' = put_buffer (f4\<lparr>fh_decQueue := map_delete (fb_startStreamOffset b) (fh_decQueue f4)\<rparr>) a b'"
    using d t u unfolding decode_round_def b_def f3_def by (auto simp: bindE_eq_Inr_iff Let_def)
  have "fec_inv f4 \<and> same_block b (fh_buffers f4 ! a)"
  proof (cases complete)
    case False
    then obtain x y z b2 r where g: "GetEncodeBlock b = Inr (x, y, z, b2)"
      and r: "(case r of None \<Rightarrow> Inr (put_buffer f3 a b2) | Some decBlock \<Rightarrow> pushReceiveStreamFrameQueue (put_buffer f3 a b2) decBlock y b2) = Inr f4"
      using f4 by (auto simp: recover_block_def bindE_eq_Inr_iff Let_def)
    have s: "same_block (fh_buffers f3 ! a) b2" using GetEncodeBlock_same [OF g] f3(2) by (simp add: b_def)
    have p: "fec_inv (put_buffer f3 a b2)" by (rule fec_inv_put [OF f3(1) s])
    have "fec_inv f4 \<and> fh_buffers f4 = fh_buffers (put_buffer f3 a b2)"
      using r pushReceive_inv [OF p] p by (auto split: option.splits)
    moreover have "same_block b (fh_buffers (put_buffer f3 a b2) ! a)"
      using s f3(2) by (cases "a < length (fh_buffers f1)") (simp_all add: put_buffer_def b_def list_update_beyond)
    ultimately show ?thesis by simp
  qed (use f4 f3 in \<open>simp add: b_def\<close>)
  moreover have "fec_inv (f4\<lparr>fh_decQueue := map_delete (fb_startStreamOffset b) (fh_decQueue f4)\<rparr>)" if "fec_inv f4"
    using that by (intro fec_inv_change [OF that, where P = "\<lambda>(k, v). k \<noteq> fb_startStreamOffset b"]) (auto simp: map_delete_def fec_inv_def fec_ready_def)
  moreover have "same_block (fh_buffers f4 ! a) b'" "fb_timerRunning (fh_buffers f4 ! a)"
    using b' by (auto simp: FecBuffer_Destroy_def same_block_def split: if_splits)
  ultimately show ?thesis unfolding f' using f1 by (auto intro!: fec_inv_put simp: same_block_def b_def)
qed

lemma fec_step_inv: "fec_step f f' \<Longrightarrow> fec_inv f \<Longrightarrow> fec_inv f'"
proof (induction rule: fec_step.induct)
  case (taken f frame rest)
  then show ?case by simp
qed (auto intro: PushStreamFrameToDecode_inv PushFecFrameToDecode_inv timer_expires_inv dest: decode_round_inv)

lemma fec_steps_inv: "fec_step\<^sup>*\<^sup>* f f' \<Longrightarrow> fec_inv f \<Longrightarrow> fec_inv f'"
  by (induction rule: rtranclp_induct) (auto intro: fec_step_inv)

lemma NewFecHandler_inv: "NewFecHandler = Inr f \<Longrightarrow> fec_inv f"
  by (auto simp: NewFecHandler_def RaptorInit_16 fec_inv_def fec_ready_def)

end
