(* ===== verification/Fec_Properties.thy ===== *)
theory Fec_Properties
  imports Fec_Runs
begin

text \<open>
  Properties of the error correction of a stream, from the stream frames of the sender to the frames that the receiver restores.
\<close>

text \<open>C23. The sender pushes the 16 frames of a block and gets four FEC frames.  When 18 of these 20 frames reach the receiver in their order, and a
  stream frame is lost, the decoder takes the block up, and its round ends: if the rows of the first 17 symbols have full rank, it hands frames
  to the stream that contain every lost frame and of which each is a frame of the block; otherwise it hands over nothing.\<close>

theorem fec_restores_lost_frames:
  assumes "fec_ready tx" "fh_encQueue tx = []" "fh_transmissionQueue tx = []" "fh_endOffset tx = o1"
    and "block_open rx sid o1" "fh_enoughRecvChan rx = []" "length (fh_FecChan rx) \<le> 18" and "source_frames sid o1 d F"
    and "sorted_wrt (<) ks" "\<forall>k \<in> set ks. k < 20" "length ks = 18" and "l < 16" "l \<notin> set ks"
  shows "\<exists>tx' G rx' rx'' R. foldE (\<lambda>k f. PushToEncode f (F k)) [0..<16] tx = Inr tx' \<and> fh_transmissionQueue tx' = map G [16..<20] \<and>
    foldE (receive_symbol F G pn) ks rx = Inr rx' \<and> decode_round rx' EnoughRecv = Inr (rx'', False) \<and> received_rows raptor16 ks = Inr R \<and>
    (if full_rank 16 R
     then \<exists>js. {k. k < 16 \<and> k \<notin> set ks} \<subseteq> set js \<and> set js \<subseteq> {0..<16} \<and>
       fh_FecChan rx'' = fh_FecChan rx @ map (\<lambda>j. \<lparr>sf_StreamID = sid, sf_Offset = o1 + 1024 * int j, sf_Data = d ! j,
         sf_Fin = False, sf_DataLenPresent = False\<rparr>) js
     else fh_FecChan rx'' = fh_FecChan rx)"
proof -
  have "17 \<le> length ks" "\<forall>k \<in> set (take 17 ks). k < 20" using assms(10,11) by (auto dest: in_set_takeD)
  then obtain R where "received_rows raptor16 ks = Inr R" "full_rank 16 R \<longleftrightarrow> full_rank 16 (map gen_row16 (take 17 ks))"
    by (rule received_rows16)
  then show ?thesis using fec_block_transfer [OF assms, of pn] by (simp del: upt_rec_numeral)
qed

text \<open>A handler that has just been made is ready for the first block.\<close>

definition demo_frame :: "nat \<Rightarrow> StreamFrame" where
  "demo_frame k = \<lparr>sf_StreamID = 4, sf_Offset = 1024 * int k, sf_Data = replicate 1024 (of_nat k), sf_Fin = False, sf_DataLenPresent = True\<rparr>"

definition demo_block :: "symbol list" where
  "demo_block = map (\<lambda>k. replicate 1024 (of_nat k)) [0..<16]"

lemma demo_source: "source_frames 4 0 demo_block demo_frame"
  by (auto simp: source_frames_def demo_block_def demo_frame_def block_ok16 simp del: upt_rec_numeral)

lemma demo_ready:
  "\<exists>f. NewFecHandler = Inr f \<and> fec_ready f \<and> block_open f 4 0 \<and> fh_encQueue f = [] \<and> fh_transmissionQueue f = [] \<and> fh_endOffset f = 0 \<and>
    fh_enoughRecvChan f = [] \<and> fh_FecChan f = [] \<and> fh_timeoutChan f = [] \<and> fh_buffers f = []"
  using NewFecHandler_ready by (auto simp: block_open_def)

theorem fec_restores_lost_frames_witness:
  "\<exists>f G rx rx'. NewFecHandler = Inr f \<and> foldE (receive_symbol demo_frame G (\<lambda>k. int k)) [Suc 0..<19] f = Inr rx \<and>
    decode_round rx EnoughRecv = Inr (rx', False) \<and> (\<exists>g \<in> set (fh_FecChan rx'). sf_Offset g = 0 \<and> sf_Data g = replicate 1024 0)"
proof -
  obtain f where f: "NewFecHandler = Inr f" "fec_ready f" "block_open f 4 0" "fh_encQueue f = []" "fh_transmissionQueue f = []" "fh_endOffset f = 0"
    "fh_enoughRecvChan f = []" "fh_FecChan f = []" using demo_ready by blast
  let ?ks = "[Suc 0..<19]"
  have ks: "\<forall>k \<in> set ?ks. k < 20" "length ?ks = 18" "0 \<notin> set ?ks" "length (fh_FecChan f) \<le> 18" using f(8) by auto
  obtain tx' G rx rx' R where r: "foldE (receive_symbol demo_frame G (\<lambda>k. int k)) ?ks f = Inr rx" "decode_round rx EnoughRecv = Inr (rx', False)"
    "received_rows raptor16 ?ks = Inr R"
    and ch: "if full_rank 16 R
     then \<exists>js. {k. k < 16 \<and> k \<notin> set ?ks} \<subseteq> set js \<and> set js \<subseteq> {0..<16} \<and>
       fh_FecChan rx' = fh_FecChan f @ map (\<lambda>j. \<lparr>sf_StreamID = 4, sf_Offset = 0 + 1024 * int j, sf_Data = demo_block ! j,
         sf_Fin = False, sf_DataLenPresent = False\<rparr>) js
     else fh_FecChan rx' = fh_FecChan f"
    using fec_restores_lost_frames [OF f(2,4,5,6,3,7) ks(4) demo_source _ ks(1,2) _ ks(3), of "\<lambda>k. int k"] by (auto simp del: upt_rec_numeral)
  have tk: "take 17 ?ks = [0..<0] @ [Suc 0..<18]" by (simp add: take_upt)
  obtain R' where "received_rows raptor16 ?ks = Inr R'" "full_rank 16 R' \<longleftrightarrow> full_rank 16 (map gen_row16 (take 17 ?ks))"
    using received_rows16 [of ?ks] ks(1,2) by (auto dest: in_set_takeD simp del: upt_rec_numeral)
  then have "full_rank 16 R" using r(3) single_loss_rank [of 0] unfolding tk by simp
  then obtain js where js: "{k. k < 16 \<and> k \<notin> set ?ks} \<subseteq> set js" "fh_FecChan rx' = fh_FecChan f @ map (\<lambda>j. \<lparr>sf_StreamID = 4,
      sf_Offset = 0 + 1024 * int j, sf_Data = demo_block ! j, sf_Fin = False, sf_DataLenPresent = False\<rparr>) js" using ch by (simp only: if_True) blast
  have "0 \<in> {k. k < 16 \<and> k \<notin> set ?ks}" using ks(3) by simp
  with js(1) have "0 \<in> set js" by blast
  then have "\<exists>g \<in> set (fh_FecChan rx'). sf_Offset g = 0 \<and> sf_Data g = replicate 1024 0"
    unfolding js(2) f(8) by (auto intro!: bexI [of _ 0] simp: demo_block_def simp del: upt_rec_numeral)
  then show ?thesis using f(1) r(1,2) by blast
qed

text \<open>C39. A block of which the first, the third and the fifth frame have arrived, and then the second: the third counts as received, but its data
  is dropped.  The decoder gets zeros in its place, whatever it contained.\<close>

theorem reordering_zeroes_symbol:
  assumes "block_frames o1 sy F G"
  shows "\<exists>b b'. foldE (push_symbol F G pn) [0, 2, 4, 1] (FecBuffer_Init sid o1 1024 16) = Inr b \<and>
    GetEncodeBlock b = Inr (sy 0 @ sy 1 @ replicate 1024 0 @ sy 4 @ replicate 16384 0, [0, 1, 2, 4] @ replicate 16 0, 16, b')"
proof -
  let ?sy = "sy(2 := replicate 1024 0)" and ?F = "F(2 := (F 2)\<lparr>sf_Data := replicate 1024 0\<rparr>)"
  obtain b c where b: "foldE (push_symbol F G pn) [0, 2, 4] (FecBuffer_Init sid o1 1024 16) = Inr b" "holds o1 sy F G [0, 2, 4] c b"
    using pushes_increasing [OF assms, of "[0, 2, 4]" pn sid] by auto
  have "c = 1"
  proof -
    have "{0..<c} \<subseteq> {0, 2, 4}" "c \<notin> {0, 2, 4}" using b(2) by (simp_all add: holds_def)
    then have "\<not> 1 < c" "c \<noteq> 0" by auto
    then show ?thesis by simp
  qed
  then obtain b1 where b1: "push_symbol F G pn 1 b = Inr b1" "holds o1 ?sy ?F G [0, 1, 2, 4] 3 b1"
    using fill_gap_drops_data [OF assms, of b pn] b(2) by blast
  have "foldE (push_symbol F G pn) ([0, 2, 4] @ [1]) (FecBuffer_Init sid o1 1024 16) = Inr b1" unfolding foldE_append b(1) using b1(1) by simp
  moreover have "GetEncodeBlock b1 = Inr (sy 0 @ sy 1 @ replicate 1024 0 @ sy 4 @ replicate 16384 0, [0, 1, 2, 4] @ replicate 16 0, 16,
      b1\<lparr>fb_encBlock := slots ?sy {0, 1, 2, 4}, fb_bufferMap := marks {0, 1, 2, 4}\<rparr>)"
    using GetEncodeBlock_increasing [OF zeroed_frames [OF assms, of 2] b1(2)] by simp
  ultimately show ?thesis by auto
qed

theorem reordering_zeroes_symbol_witness:
  "\<exists>b b'. foldE (push_symbol demo_frame (repair_frame 4 0 demo_block) (\<lambda>k. int k)) [0, 2, 4, 1] (FecBuffer_Init 4 0 1024 16) = Inr b \<and>
    GetEncodeBlock b = Inr (replicate 1024 0 @ replicate 1024 1 @ replicate 1024 0 @ replicate 1024 4 @ replicate 16384 0,
      [0, 1, 2, 4] @ replicate 16 0, 16, b')"
proof -
  have "encode16 demo_block k = replicate 1024 (of_nat k)" if "k < 16" for k
    using encode16_source [of demo_block k] demo_source that by (auto simp: source_frames_def demo_block_def simp del: upt_rec_numeral)
  then show ?thesis
    using reordering_zeroes_symbol [OF block_frames_of [OF demo_source], of "\<lambda>k. int k" 4] by simp
qed

text \<open>C38. In no run does the round of the decoder for a block that was given up after the timeout end: the buffer is destroyed by a message to the
  goroutine of its timer, which is gone.  The decoder waits for it forever, with the handler locked.\<close>

theorem timed_out_block_blocks_decoder:
  assumes "NewFecHandler = Inr f0" and "fec_step\<^sup>*\<^sup>* f0 f"
  shows "\<exists>err. decode_round f TimedOut = Inl err"
proof -
  have "fec_inv f" using fec_steps_inv [OF assms(2) NewFecHandler_inv [OF assms(1)]] .
  then show ?thesis using decode_round_inv [of f TimedOut] by (cases "decode_round f TimedOut") auto
qed

theorem timed_out_block_blocks_decoder_witness:
  "\<exists>f0 f err. NewFecHandler = Inr f0 \<and> fec_step\<^sup>*\<^sup>* f0 f \<and> fh_timeoutChan f = [0] \<and> decode_round f TimedOut = Inl err"
proof -
  obtain f0 where f0: "NewFecHandler = Inr f0" "block_open f0 4 0" "fh_enoughRecvChan f0 = []" "fh_timeoutChan f0 = []" "fh_buffers f0 = []"
    using demo_ready by blast
  obtain f1 where f1: "foldE (receive_symbol demo_frame (repair_frame 4 0 demo_block) (\<lambda>k. int k)) [0] f0 = Inr f1"
    "collecting f0 4 0 (encode16 demo_block) demo_frame (repair_frame 4 0 demo_block) [0] f1"
    using receive_symbols [OF f0(2,3) demo_source, of "[0]" "\<lambda>k. int k"] by auto
  then have "PushStreamFrameToDecode f0 (demo_frame 0) 0 = Inr f1" by (auto simp: receive_symbol_def bindE_eq_Inr_iff)
  then have s1: "fec_step f0 f1" by (rule fec_step.stream_frame [rotated]) (simp add: demo_frame_def)
  obtain b where "f1 = with_buffer f0 0 b" "fb_timerRunning b" using f1(2) by (auto simp: collecting_def)
  then have "\<exists>f2. timer_expires f1 0 = Inr f2 \<and> fh_timeoutChan f2 = [0]" "0 < length (fh_buffers f1)"
    using f0(4,5) by (simp_all add: timer_expires_def with_buffer_def put_buffer_def send_chan_def)
  then obtain f2 where f2: "fec_step f1 f2" "fh_timeoutChan f2 = [0]" using fec_step.timeout by blast
  have "fec_step\<^sup>*\<^sup>* f0 f2" using s1 f2(1) by simp
  from timed_out_block_blocks_decoder [OF f0(1) this] this f0(1) f2(2) show ?thesis by blast
qed

end
