(* ===== verification/Spec2Isabelle.thy ===== *)
theory Spec2Isabelle
  imports Session_Properties Mp2_Properties Quic_Properties Raptor_Properties Fec_Properties
begin

text \<open>
  A verification of MP2BS (\<^verbatim>\<open>src/mp2bs-main\<close>), a library in Go that transfers blocks between the nodes of a peer-to-peer
  network over several network paths at once, on top of a modified QUIC with forward error correction.

  \<^bold>\<open>The program.\<close>  It has three layers.

  \<^item> \<^verbatim>\<open>session\<close>: a session is one reliable byte stream over several QUIC connections, one for each pair of network
    interfaces.  \<^verbatim>\<open>Write\<close> cuts the data into packets with sequence numbers, a scheduler chooses a path for each packet,
    a transmitter for each path sends the packets of its queue, a receiver for each path pushes what arrives
    into a receive buffer that restores the order, and \<^verbatim>\<open>Read\<close> takes bytes out of it.
  \<^item> \<^verbatim>\<open>mp2session\<close>: nodes form a tree; a node requests the segments of a block from the nodes that have it, serves its
    children from what it has received, and reads the block.  \<^verbatim>\<open>mp2session_manager.go\<close> has the interface to the application.
  \<^item> \<^verbatim>\<open>enhanced-quic\<close>: a copy of quic-go to which FEC frames have been added.  The stream frames of a sending stream are
    collected into blocks of 16 symbols; a Raptor code, C code called from Go, makes four repair symbols, which are sent
    as FEC frames; a receiving stream restores the frames of a block that were lost.

  \<^bold>\<open>How the code is modelled.\<close>  Every function of a modelled part is a definition with the name of the function; a struct
  is a record, an enumeration a datatype.  Unsigned integers are words of their width, wrap-around included; \<^verbatim>\<open>int\<close> and
  the 64 bit quantities that stay far from their limits are \<open>int\<close> or \<open>nat\<close>.  State is passed explicitly and returned.  A result is
  \<open>fault + 'a\<close> (theory \<open>Mp2bs_Prelude\<close>): the errors of Go, its run-time panics, and \<open>Blocked\<close> for a call that waits.  A mutex is
  a step that is not interrupted; code that runs without one is a step as well where the text of its theory says so; a channel is the list of what it holds; a goroutine is a step of a step relation, or a round of its loop.
  Pointers between objects that change are addresses in a store (the sessions of a manager, the buffers of a FEC handler).
  The order in which Go ranges over a map is the order of a list about which nothing is assumed.

  \<^bold>\<open>Theories.\<close>

  \<^item> \<open>Mp2bs_Prelude\<close>: words, faults, the error bind, slices and copies, readers and writers of package \<^verbatim>\<open>bytes\<close>, and the lemmas about them.
  \<^item> \<open>Util_Codec\<close> (\<^verbatim>\<open>util/util.go\<close>), \<open>Mp2bs_Config\<close> (\<^verbatim>\<open>config/config.go\<close>), \<open>Packet_Codec\<close>: big-endian integers; the configuration; the locales
    \<open>packet_codec\<close>, \<open>framed_codec\<close> and \<open>exact_codec\<close>, which state what both protocols need of a packet type and
    are interpreted for each of their packets.
  \<^item> \<open>Session_Packets\<close>, \<open>Recv_Buffer\<close> (locale \<open>in_order_buffer\<close>), \<open>Session_Scheduler\<close> (locale \<open>path_scheduler\<close>), \<open>Session_Model\<close>,
    \<open>Session_Manager\<close>: one for each file of \<^verbatim>\<open>session\<close>.  \<open>Session_Transfer\<close> and \<open>Session_Network\<close>: both ends of a session and the network between them
    as the step relation \<open>net_step\<close> with the invariant \<open>net_inv\<close>, one \<^verbatim>\<open>Write\<close> at a time, packet by packet.  \<open>Session_Overlap\<close>: calls of \<^verbatim>\<open>Write\<close> that overlap.
    \<open>Session_Properties\<close>: data is read in the order it was written (safety), all of it can be
    delivered (liveness), the scheduler is fair and never out of range, the handshake opens the paths that are waited for; what goes wrong when a stream
    cuts a packet header, with a third path, and when two calls of \<^verbatim>\<open>Write\<close> overlap.
  \<^item> \<open>Mp2_Address\<close>, \<open>Mp2_Packets\<close>, \<open>Mp2_Segment\<close> (locale \<open>slot_store\<close>), \<open>Mp2_State\<close>, \<open>Mp2_Manager\<close>, \<open>Mp2_Session\<close>: \<^verbatim>\<open>mp2session\<close>.
    \<open>Mp2_Transfer\<close> and \<open>Mp2_Serving\<close>: the reception of a block as a step relation with its invariant, in which a run of a handler and a read are one
    step each, and the serving of requests.  \<open>Mp2_Race\<close>: the search of the handler of block data in small steps, beside reads.
    \<open>Mp2_Properties\<close>: a block is read in order and its reception can be completed, requests tile the block and are served
    exactly; and where the search of a handler is overtaken by a read, nodes are not found or a slot is sent too early.
  \<^item> \<open>Quic_Varint\<close>, \<open>Quic_Packet_Number\<close>, \<open>Quic_Control_Frames\<close> (locale \<open>frame_codec\<close>), \<open>Quic_Data_Frames\<close>, \<open>Quic_Ack_Frame\<close>, \<open>Quic_Frame_Parser\<close>: the
    wire format (\<^verbatim>\<open>quicvarint\<close>, \<^verbatim>\<open>internal/protocol\<close>, \<^verbatim>\<open>internal/wire\<close>), with the loop of \<^verbatim>\<open>session.go\<close> over the frames of a packet and
    the payload that \<^verbatim>\<open>packet_packer.go\<close> writes.  \<open>Quic_Received_History\<close> (locale \<open>packet_set\<close>), \<open>Quic_Ack_Tracker\<close>: which packets have arrived and
    when they are acknowledged (\<^verbatim>\<open>internal/ackhandler/received_*\<close>).  \<open>Quic_Flow_Control\<close>: \<^verbatim>\<open>internal/flowcontrol\<close>, with both sides of a connection as
    a step relation.  \<open>Quic_Properties\<close>: payloads are parsed back, but for what the wire does not keep (\<open>wire_image\<close>), and the parser ends, acknowledgements are true and are
    sent, flow control is never violated; and how an ACK frame without ranges comes about.
  \<^item> \<open>Raptor_Tables\<close>, \<open>Raptor_Code\<close> (\<^verbatim>\<open>fec/raptor.h\<close>, \<^verbatim>\<open>fec/raptor.go\<close>), \<open>Raptor_Algebra\<close> (locale \<open>xor_space\<close>, interpreted for bits, rows and symbols),
    \<open>Raptor_Elimination\<close>, \<open>Raptor_Correct\<close>: the Raptor code, the two eliminations, and that decoding restores the block exactly when the
    received rows have full rank, for all parameters that satisfy \<open>raptor_ok\<close>.  \<open>Raptor_Sixteen\<close>: the parameters in use satisfy it.
    \<open>Raptor_Properties\<close>: the consequences for blocks of 16 symbols.
  \<^item> \<open>Fec_Buffer\<close>, \<open>Fec_Handler\<close> (\<^verbatim>\<open>fec/fec_buffer.go\<close>, \<^verbatim>\<open>fec/fec_handler.go\<close>), \<open>Fec_Transfer\<close>, \<open>Fec_Runs\<close>, \<open>Fec_Properties\<close>: the error correction of a
    stream.  What a sender encodes and a receiver gets with losses is restored; frames that arrive out of order damage the
    block; a block that times out stops the decoder.

  \<^bold>\<open>Bounds and evaluation.\<close>  No fuel is used.  Loops over data are structural recursions or have a termination proof (by the bytes left for
  parsers and writers, by the entries of a map that is emptied).  The loops of the Raptor initialization that search for a number are
  \<open>while_option\<close>, and that they end for the parameters in use is evaluated (\<open>raptor_init_returns\<close>).  The tables of \<open>Raptor_Sixteen\<close> are values
  computed by the definitions: they are checked by \<open>code_simp\<close> row by row, the inverse matrix by the product with its inverse.  A loop
  that waits for other goroutines is a round that is \<open>Blocked\<close> until it can proceed.

  \<^bold>\<open>Arguments and hypotheses.\<close>  In the layers \<open>session\<close> and \<open>mp2session\<close> the operations of a QUIC stream are the record \<open>quic\<close>; what the code
  relies on is named: \<open>reliable_reads\<close> and \<open>reliable_stream\<close>, the documented behaviour of a stream (bytes arrive in order and unchanged, a read returns at least one byte of
  what there is, possibly fewer than it asks for, and may report the end with the last bytes).  Every use of a stream in \<open>net_step\<close> may behave in
  any such way.  The code reads a packet header with one call and does not look at the number of bytes; \<open>net_cut\<close> records that a read of a header was cut, the stream properties
  hold up to that moment, and the properties of the receiver and of \<^verbatim>\<open>Connect\<close> say what happens then.  Random numbers, the clock, the measured throughput and the round-trip time are arguments.

  \<^bold>\<open>Not modelled.\<close>

  \<^item> Input and output: sockets and listeners, TLS configuration, the TOML file, logging, the test programs.  The throughput monitor computes averages in floating
    point; its only effect, a verdict for the scheduler, is an argument.
  \<^item> \<^verbatim>\<open>mp2session/raptor.go\<close> and the code under \<^verbatim>\<open>FEC_MODE\<close> in \<^verbatim>\<open>mp2session.go\<close>: the C code is that of \<^verbatim>\<open>fec/raptor.go\<close> under other names, and
    no code sets this mode.
  \<^item> Of \<^verbatim>\<open>enhanced-quic\<close>: TLS and packet protection, HTTP/3, the server and client set-up and the multiplexing of connections, which are unchanged code of quic-go around
    cryptography and sockets; packet headers and transport parameters; congestion control and loss recovery, which compute in floating point;
    the rest of the connection and of the streams, which is concurrent code around the parts that are modelled.
  \<^item> \<^verbatim>\<open>src/ver_v4\<close>: scripts and drivers of a simulation, with generated code.
\<close>

end
